(* ===== verification/KvtPrelude.thy ===== *)
theory KvtPrelude
  imports Main
begin

text \<open>
  Shared vocabulary of the development.

  \<^item> The result type \<open>'a result\<close> of fallible C++ code: \<open>Inl e\<close> is an exception, an abort or a
    trap, \<open>Inr x\<close> a normal return.
  \<^item> Fixed-width unsigned arithmetic: a \<open>uint32_t\<close> or \<open>size_t\<close> is a \<open>nat\<close>, and each operation
    that can leave the range is wrapped by \<open>u32\<close> or \<open>u64\<close>.
  \<^item> The primitive operations of the C++ code that can fail, in continuation style:
    \<open>c_assert\<close> (checked unless the build defines NDEBUG), \<open>rt_assert\<close> (always checked, aborts),
    \<open>ck_div\<close> and \<open>ck_mod\<close> (trap on a zero divisor), \<open>vec_at\<close> (throws) and \<open>vec_idx\<close> (undefined
    behaviour out of range).
  \<^item> Generic lemmas on these operations, on lists and on intervals of naturals.
\<close>

named_theorems kvt_ctrl \<open>unfolding rules for the control operators\<close>
named_theorems kvt_arith \<open>range facts that remove the fixed-width wrap-around\<close>

section \<open>Results\<close>

datatype kvt_error =
    OutOfRange              \<comment> \<open>std::out_of_range\<close>
  | OverflowError           \<comment> \<open>std::overflow_error\<close>
  | RuntimeError            \<comment> \<open>std::runtime_error\<close>
  | InvalidArgument         \<comment> \<open>std::invalid_argument, thrown by the number parsers\<close>
  | KvtException            \<comment> \<open>KVTransferException\<close>
  | AssertFailed            \<comment> \<open>assert in a build without NDEBUG\<close>
  | Aborted                 \<comment> \<open>RTASSERT or abort\<close>
  | DivByZero               \<comment> \<open>integer division trap\<close>
  | Undefined               \<comment> \<open>operator[] out of range and other undefined behaviour\<close>

type_synonym 'a result = "kvt_error + 'a"

definition rbind :: "'a result \<Rightarrow> ('a \<Rightarrow> 'b result) \<Rightarrow> 'b result" where
  "rbind m f = (case m of Inl e \<Rightarrow> Inl e | Inr x \<Rightarrow> f x)"

lemma rbind_Inl [simp]: "rbind (Inl e) f = Inl e"
  by (simp add: rbind_def)

lemma rbind_Inr [simp]: "rbind (Inr x) f = f x"
  by (simp add: rbind_def)

lemma rbind_eq_Inr_iff: "rbind m f = Inr y \<longleftrightarrow> (\<exists>x. m = Inr x \<and> f x = Inr y)"
  by (cases m) (auto simp: rbind_def)

lemma rbind_assoc: "rbind (rbind m f) g = rbind m (\<lambda>x. rbind (f x) g)"
  by (cases m) simp_all

lemma rbind_return [simp]: "rbind m Inr = m"
  by (cases m) simp_all

lemma rbind_cong [fundef_cong]:
  "m = m' \<Longrightarrow> (\<And>x. m' = Inr x \<Longrightarrow> f x = f' x) \<Longrightarrow> rbind m f = rbind m' f'"
  by (cases m') simp_all

text \<open>A loop over the elements of a container whose body may throw.\<close>

fun rfold :: "('x \<Rightarrow> 's \<Rightarrow> 's result) \<Rightarrow> 'x list \<Rightarrow> 's \<Rightarrow> 's result" where
  "rfold f [] s = Inr s"
| "rfold f (x # xs) s = rbind (f x s) (rfold f xs)"

lemma rfold_cong [fundef_cong]:
  "xs = ys \<Longrightarrow> s = t \<Longrightarrow> (\<And>x u. x \<in> set ys \<Longrightarrow> f x u = g x u) \<Longrightarrow> rfold f xs s = rfold g ys t"
  by (induction xs arbitrary: ys s t) (auto intro!: rbind_cong)

lemma rfold_append: "rfold f (xs @ ys) s = rbind (rfold f xs s) (rfold f ys)"
  by (induction xs arbitrary: s) (auto simp: rbind_assoc intro!: rbind_cong)

text \<open>When the body appends \<open>g x\<close> to an output vector, the loop appends \<open>concat (map g xs)\<close>.\<close>

lemma rfold_emit:
  assumes "\<And>x out. x \<in> set xs \<Longrightarrow> f x out = Inr (out @ g x)"
  shows "rfold f xs out = Inr (out @ concat (map g xs))"
  using assms by (induction xs arbitrary: out) simp_all

lemma rfold_emit_on:
  assumes "xs = ys" and "\<And>x out. x \<in> set ys \<Longrightarrow> f x out = Inr (out @ g x)"
  shows "rfold f xs out = Inr (out @ concat (map g ys))"
  using assms rfold_emit by metis

lemma rfold_Inr_induct:
  assumes "rfold f xs s = Inr t" and "P s"
    and "\<And>x u v. x \<in> set xs \<Longrightarrow> P u \<Longrightarrow> f x u = Inr v \<Longrightarrow> P v"
  shows "P t"
  using assms by (induction xs arbitrary: s) (auto simp: rbind_eq_Inr_iff)

section \<open>Fixed-width unsigned integers\<close>

definition u32 :: "nat \<Rightarrow> nat" where
  "u32 n = n mod 2 ^ 32"

definition u64 :: "nat \<Rightarrow> nat" where
  "u64 n = n mod 2 ^ 64"

abbreviation UINT32_MAX :: nat where
  "UINT32_MAX \<equiv> 2 ^ 32 - 1"

abbreviation SIZE_MAX :: nat where
  "SIZE_MAX \<equiv> 2 ^ 64 - 1"

lemma u32_id [kvt_arith]: "n < 2 ^ 32 \<Longrightarrow> u32 n = n"
  by (simp add: u32_def)

lemma u64_id [kvt_arith]: "n < 2 ^ 64 \<Longrightarrow> u64 n = n"
  by (simp add: u64_def)

lemma u32_less [simp]: "u32 n < 2 ^ 32"
  by (simp add: u32_def)

lemma u64_less [simp]: "u64 n < 2 ^ 64"
  by (simp add: u64_def)

text \<open>The same bounds in the form the simplifier evaluates them to.\<close>

lemma u32_less_num [simp]: "u32 n < 4294967296"
  by (simp add: u32_def)

lemma u64_less_num [simp]: "u64 n < 18446744073709551616"
  by (simp add: u64_def)

lemma u32_0 [simp]: "u32 0 = 0"
  by (simp add: u32_def)

lemma u64_0 [simp]: "u64 0 = 0"
  by (simp add: u64_def)

lemma u32_le: "u32 n \<le> n"
  by (simp add: u32_def)

lemma u64_le: "u64 n \<le> n"
  by (simp add: u64_def)

lemma u64_add_left [simp]: "u64 (u64 a + b) = u64 (a + b)"
  unfolding u64_def by (rule mod_add_left_eq)

lemma u64_add_right [simp]: "u64 (a + u64 b) = u64 (a + b)"
  unfolding u64_def by (rule mod_add_right_eq)

lemma u64_mult_left [simp]: "u64 (u64 a * b) = u64 (a * b)"
  unfolding u64_def by (rule mod_mult_left_eq)

lemma u64_mult_right [simp]: "u64 (a * u64 b) = u64 (a * b)"
  unfolding u64_def by (rule mod_mult_right_eq)

section \<open>Primitive operations that can fail\<close>

definition c_assert :: "bool \<Rightarrow> bool \<Rightarrow> 'a result \<Rightarrow> 'a result" where
  "c_assert ndebug b k = (if \<not> ndebug \<and> \<not> b then Inl AssertFailed else k)"

text \<open>\<open>assert(a % b == 0)\<close>: the remainder is only computed in a build without NDEBUG.\<close>

definition c_assert_mod0 :: "bool \<Rightarrow> nat \<Rightarrow> nat \<Rightarrow> 'a result \<Rightarrow> 'a result" where
  "c_assert_mod0 ndebug a b k =
     (if ndebug then k else if b = 0 then Inl DivByZero else c_assert ndebug (a mod b = 0) k)"

definition rt_assert :: "bool \<Rightarrow> 'a result \<Rightarrow> 'a result" where
  "rt_assert b k = (if b then k else Inl Aborted)"

definition ck_div :: "nat \<Rightarrow> nat \<Rightarrow> (nat \<Rightarrow> 'a result) \<Rightarrow> 'a result" where
  "ck_div a b k = (if b = 0 then Inl DivByZero else k (a div b))"

definition ck_mod :: "nat \<Rightarrow> nat \<Rightarrow> (nat \<Rightarrow> 'a result) \<Rightarrow> 'a result" where
  "ck_mod a b k = (if b = 0 then Inl DivByZero else k (a mod b))"

definition vec_at :: "'x list \<Rightarrow> nat \<Rightarrow> ('x \<Rightarrow> 'a result) \<Rightarrow> 'a result" where
  "vec_at xs i k = (if i < length xs then k (xs ! i) else Inl OutOfRange)"

definition vec_idx :: "'x list \<Rightarrow> nat \<Rightarrow> ('x \<Rightarrow> 'a result) \<Rightarrow> 'a result" where
  "vec_idx xs i k = (if i < length xs then k (xs ! i) else Inl Undefined)"

lemmas kvt_ctrl_defs [kvt_ctrl] =
  c_assert_def c_assert_mod0_def rt_assert_def ck_div_def ck_mod_def vec_at_def vec_idx_def

lemma c_assert_cong [fundef_cong]:
  "n = n' \<Longrightarrow> b = b' \<Longrightarrow> k = k' \<Longrightarrow> c_assert n b k = c_assert n' b' k'"
  by simp

lemma rt_assert_cong [fundef_cong]:
  "b = b' \<Longrightarrow> (b' \<Longrightarrow> k = k') \<Longrightarrow> rt_assert b k = rt_assert b' k'"
  by (simp add: rt_assert_def)

lemma ck_div_cong [fundef_cong]:
  "a = a' \<Longrightarrow> b = b' \<Longrightarrow> (b' \<noteq> 0 \<Longrightarrow> k (a' div b') = k' (a' div b')) \<Longrightarrow> ck_div a b k = ck_div a' b' k'"
  by (simp add: ck_div_def)

lemma ck_mod_cong [fundef_cong]:
  "a = a' \<Longrightarrow> b = b' \<Longrightarrow> (b' \<noteq> 0 \<Longrightarrow> k (a' mod b') = k' (a' mod b')) \<Longrightarrow> ck_mod a b k = ck_mod a' b' k'"
  by (simp add: ck_mod_def)

lemma vec_at_cong [fundef_cong]:
  "xs = xs' \<Longrightarrow> i = i' \<Longrightarrow> (i' < length xs' \<Longrightarrow> k (xs' ! i') = k' (xs' ! i')) \<Longrightarrow>
   vec_at xs i k = vec_at xs' i' k'"
  by (simp add: vec_at_def)

lemma vec_idx_cong [fundef_cong]:
  "xs = xs' \<Longrightarrow> i = i' \<Longrightarrow> (i' < length xs' \<Longrightarrow> k (xs' ! i') = k' (xs' ! i')) \<Longrightarrow>
   vec_idx xs i k = vec_idx xs' i' k'"
  by (simp add: vec_idx_def)

lemma c_assert_pass [simp]: "b \<Longrightarrow> c_assert n b k = k"
  by (simp add: c_assert_def)

lemma c_assert_mod0_cong [fundef_cong]:
  "n = n' \<Longrightarrow> a = a' \<Longrightarrow> b = b' \<Longrightarrow> k = k' \<Longrightarrow> c_assert_mod0 n a b k = c_assert_mod0 n' a' b' k'"
  by simp

lemma c_assert_mod0_pass [simp]: "0 < b \<Longrightarrow> a mod b = 0 \<Longrightarrow> c_assert_mod0 n a b k = k"
  by (simp add: c_assert_mod0_def)

lemma c_assert_ndebug [simp]: "c_assert True b k = k"
  by (simp add: c_assert_def)

lemma rt_assert_pass [simp]: "b \<Longrightarrow> rt_assert b k = k"
  by (simp add: rt_assert_def)

lemma ck_div_pass [simp]: "0 < b \<Longrightarrow> ck_div a b k = k (a div b)"
  by (simp add: ck_div_def)

lemma ck_mod_pass [simp]: "0 < b \<Longrightarrow> ck_mod a b k = k (a mod b)"
  by (simp add: ck_mod_def)

lemma vec_at_pass [simp]: "i < length xs \<Longrightarrow> vec_at xs i k = k (xs ! i)"
  by (simp add: vec_at_def)

lemma vec_idx_pass [simp]: "i < length xs \<Longrightarrow> vec_idx xs i k = k (xs ! i)"
  by (simp add: vec_idx_def)

text \<open>\<open>vec.resize(n)\<close> on a vector of vectors: keep a prefix, pad with empty vectors.\<close>

definition vec_resize :: "nat \<Rightarrow> 'x list list \<Rightarrow> 'x list list" where
  "vec_resize n xs = take n xs @ replicate (n - length xs) []"

lemma length_vec_resize [simp]: "length (vec_resize n xs) = n"
  by (simp add: vec_resize_def)

lemma vec_resize_id [simp]: "length xs = n \<Longrightarrow> vec_resize n xs = xs"
  by (simp add: vec_resize_def)

lemma vec_resize_Nil [simp]: "vec_resize n [] = replicate n []"
  by (simp add: vec_resize_def)

lemma nth_vec_resize:
  "i < n \<Longrightarrow> vec_resize n xs ! i = (if i < length xs then xs ! i else [])"
  by (auto simp: vec_resize_def nth_append)

section \<open>Arithmetic helpers\<close>

lemma mod_add_chunk:
  fixes i n :: nat
  assumes "k < n - i mod n" and "0 < n"
  shows "(i + k) div n = i div n" and "(i + k) mod n = i mod n + k"
proof -
  have eq: "i + k = (i mod n + k) + n * (i div n)"
    by (simp add: mod_mult_div_eq)
  have lt: "i mod n + k < n"
    using assms by simp
  show "(i + k) div n = i div n"
    using lt assms(2) by (subst eq) (simp only: div_mult_self2 div_less add_0_right)
  show "(i + k) mod n = i mod n + k"
    using lt by (subst eq) (simp only: mod_mult_self2 mod_less)
qed

lemma chunk_pos: "0 < (n::nat) \<Longrightarrow> 0 < n - i mod n"
  by simp

lemma mult_block_bound:
  fixes b :: nat
  assumes "b < n" and "t + l \<le> s"
  shows "b * s + t + l \<le> s * n"
proof -
  have "b * s + t + l \<le> b * s + s"
    using assms(2) by simp
  also have "\<dots> = (b + 1) * s"
    by simp
  also have "\<dots> \<le> n * s"
    using assms(1) by (intro mult_right_mono) simp_all
  finally show ?thesis
    by (simp add: mult.commute)
qed

lemma mult_idx_bound:
  fixes i :: nat
  assumes "i + k \<le> n"
  shows "i * s + k * s \<le> n * s"
  using assms by (metis add_mult_distrib mult_le_mono1)

lemma UN_split_interval:
  fixes a b c :: nat
  assumes "a \<le> b" and "b \<le> c"
  shows "(\<Union>i\<in>{a..<c}. f i) = (\<Union>i\<in>{a..<b}. f i) \<union> (\<Union>i\<in>{b..<c}. f i)"
  using assms by (metis UN_Un ivl_disj_un_two(3))

lemma UN_shift:
  fixes w c :: nat
  shows "(\<Union>i\<in>{w..<w + c}. f i) = (\<Union>k<c. f (w + k))"
proof -
  have "{w..<w + c} = (\<lambda>k. w + k) ` {..<c}"
    by (simp add: lessThan_atLeast0 add.commute)
  then show ?thesis
    by (simp add: image_image)
qed

lemma factor_less:
  fixes a b m :: nat
  assumes "a * b < m" and "0 < b"
  shows "a < m"
proof -
  have "a * 1 \<le> a * b"
    using assms(2) by (intro mult_left_mono) simp_all
  then have "a \<le> a * b"
    by simp
  then show ?thesis
    using assms(1) by (rule le_less_trans)
qed

text \<open>A family of results, one chosen for each index.\<close>

lemma choose_family:
  assumes "\<forall>x<(g::nat). \<exists>y. A x y \<and> B x y"
  shows "\<exists>f. (\<forall>x<g. A x (f x)) \<and> (\<forall>x<g. B x (f x))"
  using assms by metis

end
