(* ===== verification/KvtText.thy ===== *)
theory KvtText
  imports KvtPrelude
begin

text \<open>
  The text operations the C++ code takes from its standard library, and their laws.

  \<^item> \<open>split_on c s\<close>: the pieces of \<open>s\<close> between the separators \<open>c\<close>, what the loops over
    \<open>std::string::find\<close> and \<open>substr\<close> compute.
  \<^item> \<open>show_nat\<close>: the decimal text \<open>operator<<\<close> and \<open>std::to_string\<close> write for an unsigned value.
  \<^item> \<open>stoul\<close>, \<open>atoi\<close>: the number parsers, with leading white space, a sign, the longest run of
    digits, ignored trailing text and the errors they raise.
\<close>

section \<open>Splitting and joining\<close>

fun split_on :: "char \<Rightarrow> string \<Rightarrow> string list" where
  "split_on c [] = [[]]"
| "split_on c (x # xs) =
     (if x = c then [] # split_on c xs
      else (case split_on c xs of [] \<Rightarrow> [[x]] | p # ps \<Rightarrow> (x # p) # ps))"

fun join_with :: "char \<Rightarrow> string list \<Rightarrow> string" where
  "join_with c [] = []"
| "join_with c [s] = s"
| "join_with c (s # ss) = s @ c # join_with c ss"

lemma split_on_ne [simp]: "split_on c s \<noteq> []"
  by (induction s) (auto split: list.splits)

lemma split_on_none: "c \<notin> set s \<Longrightarrow> split_on c s = [s]"
  by (induction s) auto

lemma split_on_first: "c \<notin> set s \<Longrightarrow> split_on c (s @ c # t) = s # split_on c t"
  by (induction s) auto

lemma split_on_join:
  assumes "ss \<noteq> []" and "\<forall>s\<in>set ss. c \<notin> set s"
  shows "split_on c (join_with c ss) = ss"
  using assms by (induction ss rule: join_with.induct) (auto simp: split_on_none split_on_first)

lemma set_join_with: "set (join_with c ss) \<subseteq> insert c (\<Union>s\<in>set ss. set s)"
  by (induction c ss rule: join_with.induct) auto

section \<open>Decimal numbers\<close>

definition digit_char :: "nat \<Rightarrow> char" where
  "digit_char d = char_of (48 + d)"

definition is_digit :: "char \<Rightarrow> bool" where
  "is_digit c \<longleftrightarrow> 48 \<le> (of_char c :: nat) \<and> (of_char c :: nat) \<le> 57"

definition digit_val :: "char \<Rightarrow> nat" where
  "digit_val c = of_char c - 48"

definition is_space :: "char \<Rightarrow> bool" where
  "is_space c \<longleftrightarrow> (of_char c :: nat) = 32 \<or> (9 \<le> (of_char c :: nat) \<and> (of_char c :: nat) \<le> 13)"

fun show_nat :: "nat \<Rightarrow> string" where
  "show_nat n = (if n < 10 then [digit_char n] else show_nat (n div 10) @ [digit_char (n mod 10)])"

declare show_nat.simps [simp del]

definition digits_val :: "string \<Rightarrow> nat" where
  "digits_val s = foldl (\<lambda>a c. 10 * a + digit_val c) 0 s"

lemma of_char_digit: "d < 10 \<Longrightarrow> (of_char (digit_char d) :: nat) = 48 + d"
  by (simp add: digit_char_def)

lemma digit_char_props [simp]:
  assumes "d < 10"
  shows "is_digit (digit_char d)" "digit_val (digit_char d) = d" "\<not> is_space (digit_char d)"
  using assms by (auto simp: is_digit_def digit_val_def is_space_def of_char_digit)

lemma show_nat_ne [simp]: "show_nat n \<noteq> []"
  by (subst show_nat.simps) simp

lemma show_nat_digits: "c \<in> set (show_nat n) \<Longrightarrow> is_digit c"
proof (induction n rule: show_nat.induct)
  case (1 n)
  then show ?case
    by (cases "n < 10") (auto simp: show_nat.simps [of n])
qed

lemma digits_val_show_nat [simp]: "digits_val (show_nat n) = n"
proof (induction n rule: show_nat.induct)
  case (1 n)
  then show ?case
    by (cases "n < 10") (simp_all add: show_nat.simps [of n] digits_val_def)
qed

lemma digit_not_special:
  assumes "is_digit c"
  shows "\<not> is_space c" "c \<noteq> CHR ''-''" "c \<noteq> CHR ''+''" "c \<noteq> CHR '',''" "c \<noteq> CHR ''|''"
    "c \<noteq> CHR '';''" "c \<noteq> CHR '':''"
  using assms by (auto simp: is_digit_def is_space_def)

section \<open>Number parsers\<close>

text \<open>Sign and digits after the leading white space, as \<open>strtol\<close> and \<open>strtoul\<close> read them.\<close>

definition scan_number :: "string \<Rightarrow> bool \<times> string" where
  "scan_number s =
     (let t = dropWhile is_space s
      in case t of
           [] \<Rightarrow> (False, [])
         | c # r \<Rightarrow>
             if c = CHR ''-'' then (True, takeWhile is_digit r)
             else if c = CHR ''+'' then (False, takeWhile is_digit r)
             else (False, takeWhile is_digit t))"

text \<open>
  \<open>std::stoul\<close> (and \<open>std::stoull\<close>, the same on the 64-bit target): no digits raises
  \<open>invalid_argument\<close>, a value above \<open>ULONG_MAX\<close> raises \<open>out_of_range\<close>, a minus sign negates
  modulo \<open>2 ^ 64\<close>.
\<close>

definition stoul :: "string \<Rightarrow> nat result" where
  "stoul s =
     (case scan_number s of (neg, ds) \<Rightarrow>
        if ds = [] then Inl InvalidArgument
        else if SIZE_MAX < digits_val ds then Inl OutOfRange
        else Inr (if neg then u64 (2 ^ 64 - digits_val ds) else digits_val ds))"

definition to_int32 :: "int \<Rightarrow> int" where
  "to_int32 x = (x + 2 ^ 31) mod 2 ^ 32 - 2 ^ 31"

text \<open>
  \<open>std::stoi\<close>: no digits raises \<open>invalid_argument\<close>, a value outside \<open>int\<close> raises
  \<open>out_of_range\<close>.
\<close>

definition stoi :: "string \<Rightarrow> int result" where
  "stoi s =
     (case scan_number s of (neg, ds) \<Rightarrow>
        if ds = [] then Inl InvalidArgument
        else (let v = (if neg then - int (digits_val ds) else int (digits_val ds))
              in if v < - (2 ^ 31) \<or> 2 ^ 31 \<le> v then Inl OutOfRange else Inr v))"

text \<open>\<open>atoi\<close> as the C library implements it: \<open>strtol\<close>, saturating, then cut to \<open>int\<close>.\<close>

definition atoi :: "string \<Rightarrow> int" where
  "atoi s =
     (case scan_number s of (neg, ds) \<Rightarrow>
        let v = (if neg then - int (digits_val ds) else int (digits_val ds))
        in to_int32 (max (- (2 ^ 63)) (min (2 ^ 63 - 1) v)))"

lemma scan_show_nat: "scan_number (show_nat n) = (False, show_nat n)"
proof -
  obtain c r where cr: "show_nat n = c # r"
    by (cases "show_nat n") simp_all
  then have "is_digit c"
    using show_nat_digits [of c n] by simp
  then have "dropWhile is_space (show_nat n) = show_nat n"
    "c \<noteq> CHR ''-''" "c \<noteq> CHR ''+''"
    using cr by (auto simp: digit_not_special)
  moreover have "takeWhile is_digit (show_nat n) = show_nat n"
    using show_nat_digits by (simp add: takeWhile_eq_all_conv)
  ultimately show ?thesis
    unfolding scan_number_def Let_def using cr by simp
qed

lemma stoul_show_nat [simp]: "n < 2 ^ 64 \<Longrightarrow> stoul (show_nat n) = Inr n"
  by (simp add: stoul_def scan_show_nat)

end
