(* ===== verification/KvtCommon.thy ===== *)
theory KvtCommon
  imports KvtText
begin

text \<open>
  The data every component shares (\<open>include/common.h\<close>) and the process configuration
  (\<open>src/envcfg.cpp\<close>).

  \<^item> \<open>kvt_env\<close>: the build flag NDEBUG and the environment variables of the process. The C++
    getters cache their value on the first call, so a getter is a function of the environment.
  \<^item> \<open>worker_info\<close>, \<open>request_info\<close>, \<open>req_send_task\<close>, \<open>layer_info\<close>, \<open>req_state\<close>: the records of
    \<open>common.h\<close>. The request's atomic state word is shared by all tasks of the request; it is
    kept outside the request, in a store indexed by the request's identity \<open>ri_ref\<close>.
\<close>

section \<open>Environment variables\<close>

record kvt_env =
  ndebug :: bool
  getenv :: "string \<Rightarrow> string option"

definition env2posint :: "kvt_env \<Rightarrow> string \<Rightarrow> int \<Rightarrow> int" where
  "env2posint env name def =
     (case getenv env name of
        None \<Rightarrow> def
      | Some valstr \<Rightarrow> (let ret = atoi valstr in if ret \<le> 0 then def else ret))"

text \<open>The cache shape tags of \<open>envcfg.h\<close>.\<close>

definition RAGGED_FLASH_CACHE_SHAPE :: int where "RAGGED_FLASH_CACHE_SHAPE = 1"
definition FLASH_CACHE_SHAPE :: int where "FLASH_CACHE_SHAPE = 2"
definition QWEN3_NEXT_FLASH_CACHE_SHAPE :: int where "QWEN3_NEXT_FLASH_CACHE_SHAPE = 3"
definition DPSK_V32_SPARSE_MLA_SHAPE :: int where "DPSK_V32_SPARSE_MLA_SHAPE = 4"
definition FLASHINFER_CACHE_SHAPE :: int where "FLASHINFER_CACHE_SHAPE = 5"
definition TURBOQUANT_CACHE_SHAPE :: int where "TURBOQUANT_CACHE_SHAPE = 6"
definition QWEN3_NEXT_FLASHINFER_CACHE_SHAPE :: int where "QWEN3_NEXT_FLASHINFER_CACHE_SHAPE = 7"
definition KIMI_K3_MLA_CACHE_SHAPE :: int where "KIMI_K3_MLA_CACHE_SHAPE = 8"

lemmas cache_shape_defs =
  RAGGED_FLASH_CACHE_SHAPE_def FLASH_CACHE_SHAPE_def QWEN3_NEXT_FLASH_CACHE_SHAPE_def
  DPSK_V32_SPARSE_MLA_SHAPE_def FLASHINFER_CACHE_SHAPE_def TURBOQUANT_CACHE_SHAPE_def
  QWEN3_NEXT_FLASHINFER_CACHE_SHAPE_def KIMI_K3_MLA_CACHE_SHAPE_def

definition SEND_DONE_HEAD_KIND :: int where "SEND_DONE_HEAD_KIND = 1"
definition SEND_SAVE_DONE_HEAD_KIND :: int where "SEND_SAVE_DONE_HEAD_KIND = 2"
definition MAX_TP_SIZE :: nat where "MAX_TP_SIZE = 16"

definition env_heap_prof :: "kvt_env \<Rightarrow> int" where
  "env_heap_prof env = env2posint env ''BLLM_KVTRANS_HEAP_PROF'' 0"

definition env_send_parallel :: "kvt_env \<Rightarrow> int" where
  "env_send_parallel env = env2posint env ''BLLM_KVTRANS_RDMA_SP'' 1"

definition env_ctx_tpsize :: "kvt_env \<Rightarrow> int" where
  "env_ctx_tpsize env = env2posint env ''BLLM_KVTRANS_CTX_TPSIZE'' 4"

definition env_conn_tpsize :: "kvt_env \<Rightarrow> int" where
  "env_conn_tpsize env = env2posint env ''BLLM_KVTRANS_CONN_TPSIZE'' 4"

definition env_h2d_sync_tpsize :: "kvt_env \<Rightarrow> int" where
  "env_h2d_sync_tpsize env = env2posint env ''BLLM_KVTRANS_H2D_SYNC_TPSIZE'' 4"

definition env_fsnaming_keepalive_interval_s :: "kvt_env \<Rightarrow> int" where
  "env_fsnaming_keepalive_interval_s env = env2posint env ''BLLM_KVTRANS_FSNAMING_KEEPALIVE_S'' 3"

definition env_fsnaming_tolerate_interval_s :: "kvt_env \<Rightarrow> int" where
  "env_fsnaming_tolerate_interval_s env = env2posint env ''BLLM_KVTRANS_FSNAMING_TOLERATE_S'' 9"

definition env_debug_tx_failrate :: "kvt_env \<Rightarrow> int" where
  "env_debug_tx_failrate env = env2posint env ''BLLM_KVTRANS_DEBUG_TX_FAILRATE'' 1"

definition env_debug_tx_delay_ms :: "kvt_env \<Rightarrow> int" where
  "env_debug_tx_delay_ms env = env2posint env ''BLLM_KVTRANS_DEBUG_TX_DELAYMS'' 1"

definition env_cache_shape :: "kvt_env \<Rightarrow> int" where
  "env_cache_shape env = env2posint env ''BLLM_KVTRANS_CACHE_SHAPE'' RAGGED_FLASH_CACHE_SHAPE"

definition env_send_done_head_kind :: "kvt_env \<Rightarrow> int" where
  "env_send_done_head_kind env = env2posint env ''BLLM_KVTRANS_SDH_KIND'' SEND_SAVE_DONE_HEAD_KIND"

definition env_rpc_timeout_s :: "kvt_env \<Rightarrow> int" where
  "env_rpc_timeout_s env = env2posint env ''BLLM_KVTRANS_RPC_TIMEOUT_S'' 7"

definition env_crc :: "kvt_env \<Rightarrow> int" where
  "env_crc env = env2posint env ''BLLM_KVTRANS_CRC'' 0"

definition env_port_base :: "kvt_env \<Rightarrow> int" where
  "env_port_base env = env2posint env ''BLLM_KVTRANS_PORT_BASE'' 31218"

definition env_send_tpsize :: "kvt_env \<Rightarrow> int" where
  "env_send_tpsize env = env2posint env ''BLLM_KVTRANS_SEND_TPSIZE'' 16"

definition env_txstub_cap :: "kvt_env \<Rightarrow> int" where
  "env_txstub_cap env = env2posint env ''BLLM_KVTRANS_TXSTUB_CAP'' 640"

definition env_waitlayer_tpsize :: "kvt_env \<Rightarrow> int" where
  "env_waitlayer_tpsize env = env2posint env ''BLLM_KVTRANS_WAITLAYER_TPSIZE'' 2"

definition env_shrink_tpsize :: "kvt_env \<Rightarrow> int" where
  "env_shrink_tpsize env = env2posint env ''BLLM_KVTRANS_SHRINK_TPSIZE'' 1"

definition env_attn_kernel_blk_size :: "kvt_env \<Rightarrow> int" where
  "env_attn_kernel_blk_size env = env2posint env ''BLLM_KVTRANS_ATTN_KERNEL_BLK_SIZE'' (- 1)"

definition env_kernel_copy_max_block_num :: "kvt_env \<Rightarrow> nat" where
  "env_kernel_copy_max_block_num env =
     nat (env2posint env ''BLLM_KVTRANS_KERNEL_COPY_MAX_BLOCK_NUM'' 8192)"

definition env_bf162fp8_conversion :: "kvt_env \<Rightarrow> bool" where
  "env_bf162fp8_conversion env \<longleftrightarrow> env2posint env ''BLLM_KVTRANS_BF162FP8_CONV'' 0 \<noteq> 0"

definition env_pad_last_attn_block :: "kvt_env \<Rightarrow> bool" where
  "env_pad_last_attn_block env \<longleftrightarrow> env2posint env ''BLLM_KVTRANS_PAD_LAST_ATTN_BLOCK'' 1 \<noteq> 0"

definition env_rdma_staged :: "kvt_env \<Rightarrow> bool" where
  "env_rdma_staged env \<longleftrightarrow> env2posint env ''BLLM_KVTRANS_RDMA_STAGED'' 0 \<noteq> 0"

definition env_nic_name :: "kvt_env \<Rightarrow> string option" where
  "env_nic_name env =
     (case getenv env ''BLADE_KVT_NIC_NAME'' of
        Some (c # cs) \<Rightarrow> Some (c # cs)
      | _ \<Rightarrow> None)"

text \<open>
  \<open>parse_reserve\<close> reads the \<open>size,count;\<close> entries; only an entry closed by a semicolon is read,
  one without a comma is skipped. \<open>out\<close> keeps the entries read before an exception, which
  \<open>env_reserve\<close> catches, so the function returns them with the error.
\<close>

fun parse_reserve_parts :: "string list \<Rightarrow> (nat \<times> int) list \<Rightarrow> (nat \<times> int) list \<times> kvt_error option" where
  "parse_reserve_parts [] out = (out, None)"
| "parse_reserve_parts (part # rest) out =
     (if CHR '','' \<notin> set part then parse_reserve_parts rest out
      else (case stoul (takeWhile (\<lambda>c. c \<noteq> CHR '','') part) of
              Inl e \<Rightarrow> (out, Some e)
            | Inr mrsize \<Rightarrow>
                (case stoi (tl (dropWhile (\<lambda>c. c \<noteq> CHR '','') part)) of
                   Inl e \<Rightarrow> (out, Some e)
                 | Inr mrcnt \<Rightarrow> parse_reserve_parts rest (out @ [(mrsize, mrcnt)]))))"

definition parse_reserve :: "string \<Rightarrow> (nat \<times> int) list \<times> kvt_error option" where
  "parse_reserve input = parse_reserve_parts (butlast (split_on CHR '';'' input)) []"

definition env_reserve :: "kvt_env \<Rightarrow> (nat \<times> int) list" where
  "env_reserve env =
     (case getenv env ''BLLM_KVTRANS_RESERVE'' of
        None \<Rightarrow> []
      | Some valenv \<Rightarrow> fst (parse_reserve valenv))"

section \<open>Workers\<close>

type_synonym block_ids = "nat list list"

definition INVALID_INST_WORKER_ID :: nat where "INVALID_INST_WORKER_ID = UINT32_MAX"
definition MAX_INSTANCE_NAME_LEN :: nat where "MAX_INSTANCE_NAME_LEN = 256"
definition MAX_ADDRESS_LEN :: nat where "MAX_ADDRESS_LEN = 64"

record layer_info =
  li_token_size :: nat
  li_block_size :: nat
  li_layer_addr :: nat

record worker_info =
  inst_id :: string
  worker_id :: nat
  engine_tp_size :: nat
  worker_tp_rank :: nat
  block_sizes :: "nat list"
  token_sizes :: "nat list"
  layer_num_blocks :: nat
  num_layers :: nat
  transfer_protocols :: nat
  attn_kernel_blk_ntpb :: nat
  indexer_blk_ntpb :: nat
  attn_pack_size :: nat
  addr :: string
  num_kv_heads :: int
  num_gdn_layers :: nat
  hybrid_indexer_token_size :: nat
  gdn_conv_elem_size :: nat
  gdn_ssm_elem_size :: nat
  conv_state_shape :: "nat list"
  ssm_state_shape :: "nat list"
  gdn_conv_channel_dims :: "nat list"
  num_ple_layers :: nat
  ple_block_group :: nat
  ple_conv_elem_size :: nat
  ple_conv_state_shape :: "nat list"
  ple_conv_channel_dims :: "nat list"
  kda_conv_dim_first :: bool
  hybrid_attn_token_size :: nat
  kda_page_stride :: nat

text \<open>The constructors \<open>WorkerInfo()\<close> and \<open>WorkerInfo(id, w_id)\<close>.\<close>

definition worker_info_default :: worker_info where
  "worker_info_default =
     \<lparr> inst_id = [], worker_id = INVALID_INST_WORKER_ID, engine_tp_size = 0, worker_tp_rank = 0,
       block_sizes = [], token_sizes = [], layer_num_blocks = 1, num_layers = 1,
       transfer_protocols = 0, attn_kernel_blk_ntpb = 0, indexer_blk_ntpb = 0,
       attn_pack_size = 1, addr = [], num_kv_heads = - 1, num_gdn_layers = 3,
       hybrid_indexer_token_size = 0, gdn_conv_elem_size = 1, gdn_ssm_elem_size = 1,
       conv_state_shape = [], ssm_state_shape = [], gdn_conv_channel_dims = [],
       num_ple_layers = 0, ple_block_group = 0, ple_conv_elem_size = 1,
       ple_conv_state_shape = [], ple_conv_channel_dims = [], kda_conv_dim_first = False,
       hybrid_attn_token_size = 0, kda_page_stride = 0 \<rparr>"

definition worker_info_of_id :: "string \<Rightarrow> nat \<Rightarrow> worker_info" where
  "worker_info_of_id i w_id =
     worker_info_default \<lparr> inst_id := i, worker_id := w_id, engine_tp_size := 1,
       worker_tp_rank := 0, block_sizes := [16 * 1024], token_sizes := [1024] \<rparr>"

section \<open>Requests and send tasks\<close>

datatype req_state = INPROCESS | OK | FAILED

record request_info =
  ri_ref :: nat
  ri_dst_inst_id :: string
  ri_dst_worker_id :: nat
  ri_dst_worker_info :: "worker_info option"
  ri_req_id :: string
  ri_src_blocks :: block_ids
  ri_dst_blocks :: block_ids

record req_send_task =
  task_req :: request_info
  seen_tokens :: nat
  new_tokens :: nat
  reach_last_token :: bool

definition src_blocks :: "req_send_task \<Rightarrow> block_ids" where
  "src_blocks task = ri_src_blocks (task_req task)"

definition dst_blocks :: "req_send_task \<Rightarrow> block_ids" where
  "dst_blocks task = ri_dst_blocks (task_req task)"

definition task_req_id :: "req_send_task \<Rightarrow> string" where
  "task_req_id task = ri_req_id (task_req task)"

definition task_dst_inst_id :: "req_send_task \<Rightarrow> string" where
  "task_dst_inst_id task = ri_dst_inst_id (task_req task)"

definition task_dst_worker_id :: "req_send_task \<Rightarrow> nat" where
  "task_dst_worker_id task = ri_dst_worker_id (task_req task)"

definition end_tokens :: "req_send_task \<Rightarrow> nat" where
  "end_tokens task = u32 (seen_tokens task + new_tokens task)"

text \<open>
  The state words of the requests: \<open>set_state\<close> is a release store of a final state (a build
  without NDEBUG asserts that it is final), \<open>state\<close> an acquire load.
\<close>

type_synonym req_states = "nat \<Rightarrow> req_state"

definition req_set_state :: "kvt_env \<Rightarrow> req_send_task \<Rightarrow> req_state \<Rightarrow> req_states \<Rightarrow> req_states result" where
  "req_set_state env task st sts =
     c_assert (ndebug env) (st \<noteq> INPROCESS) (Inr (sts(ri_ref (task_req task) := st)))"

definition req_get_state :: "req_send_task \<Rightarrow> req_states \<Rightarrow> req_state" where
  "req_get_state task sts = sts (ri_ref (task_req task))"

text \<open>
  \<open>RequestInfo::update_send\<close>: in a build without NDEBUG it tracks the last token position and
  asserts that the deltas of a request are contiguous and that none follows the last one. The
  pair is \<open>(last_seen_, has_last_)\<close>, initially \<open>(UINT32_MAX, False)\<close>.
\<close>

definition update_send ::
  "kvt_env \<Rightarrow> nat \<Rightarrow> nat \<Rightarrow> bool \<Rightarrow> nat \<times> bool \<Rightarrow> (nat \<times> bool) result" where
  "update_send env seen new_toks has_last st =
     (if ndebug env then Inr st
      else (case st of (last_seen, had_last) \<Rightarrow>
        c_assert (ndebug env) (\<not> had_last)
          (let last_seen' = (if last_seen = UINT32_MAX then seen else last_seen)
           in c_assert (ndebug env) (last_seen' = seen)
                (Inr (u32 (last_seen' + new_toks), has_last)))))"

section \<open>Facts\<close>

lemma env2posint_pos: "0 < def \<Longrightarrow> 0 < env2posint env name def"
  by (simp add: env2posint_def Let_def split: option.split)

lemma env2posint_unset: "getenv env name = None \<Longrightarrow> env2posint env name def = def"
  by (simp add: env2posint_def)

lemma env2posint_le_0:
  "getenv env name = Some s \<Longrightarrow> atoi s \<le> 0 \<Longrightarrow> env2posint env name def = def"
  by (simp add: env2posint_def)

section \<open>A concrete configuration\<close>

text \<open>A debug build with an empty environment, workers and tasks to instantiate the theorems on.\<close>

definition demo_env :: kvt_env where
  "demo_env = \<lparr> ndebug = False, getenv = (\<lambda>_. None) \<rparr>"

definition demo_worker :: "nat list \<Rightarrow> nat list \<Rightarrow> nat \<Rightarrow> nat \<Rightarrow> nat \<Rightarrow> worker_info" where
  "demo_worker tsizes bsizes nblk tp rank =
     worker_info_default \<lparr> token_sizes := tsizes, block_sizes := bsizes, layer_num_blocks := nblk,
       engine_tp_size := tp, worker_tp_rank := rank \<rparr>"

definition demo_task :: "block_ids \<Rightarrow> block_ids \<Rightarrow> nat \<Rightarrow> nat \<Rightarrow> bool \<Rightarrow> req_send_task" where
  "demo_task sb db seen new fin =
     \<lparr> task_req = \<lparr> ri_ref = 0, ri_dst_inst_id = ''d'', ri_dst_worker_id = 0, ri_dst_worker_info = None,
         ri_req_id = ''r'', ri_src_blocks = sb, ri_dst_blocks = db \<rparr>,
       seen_tokens = seen, new_tokens = new, reach_last_token = fin \<rparr>"

lemma demo_env_simps [simp]:
  "ndebug demo_env = False" "env2posint demo_env name def = def"
  "\<not> env_bf162fp8_conversion demo_env" "env_pad_last_attn_block demo_env"
  by (simp_all add: demo_env_def env2posint_def env_bf162fp8_conversion_def env_pad_last_attn_block_def)

lemma demo_task_simps [simp]:
  "src_blocks (demo_task sb db seen new fin) = sb" "dst_blocks (demo_task sb db seen new fin) = db"
  "seen_tokens (demo_task sb db seen new fin) = seen" "new_tokens (demo_task sb db seen new fin) = new"
  "reach_last_token (demo_task sb db seen new fin) = fin"
  by (simp_all add: demo_task_def src_blocks_def dst_blocks_def)

lemma demo_worker_simps [simp]:
  "token_sizes (demo_worker tsizes bsizes nblk tp rank) = tsizes"
  "block_sizes (demo_worker tsizes bsizes nblk tp rank) = bsizes"
  "layer_num_blocks (demo_worker tsizes bsizes nblk tp rank) = nblk"
  "engine_tp_size (demo_worker tsizes bsizes nblk tp rank) = tp"
  "worker_tp_rank (demo_worker tsizes bsizes nblk tp rank) = rank"
  by (simp_all add: demo_worker_def)

end
