(* ===== verification/KvtEffects.thy ===== *)
theory KvtEffects
  imports KvtCommon
begin

text \<open>
  Stateful C++ code: a computation maps a state to its result and the state it leaves, also when it throws. The
  exceptions of \<open>std::exception\<close> can be caught; a failed assertion, an abort, a trap and undefined behaviour end
  the process and cannot.
\<close>

section \<open>Computations\<close>

type_synonym ('s, 'a) eff = "'s \<Rightarrow> 'a result \<times> 's"

definition eret :: "'a \<Rightarrow> ('s, 'a) eff" where
  "eret a s = (Inr a, s)"

definition ethrow :: "kvt_error \<Rightarrow> ('s, 'a) eff" where
  "ethrow e s = (Inl e, s)"

definition ebind :: "('s, 'a) eff \<Rightarrow> ('a \<Rightarrow> ('s, 'b) eff) \<Rightarrow> ('s, 'b) eff" where
  "ebind m f s = (case m s of (Inl e, s') \<Rightarrow> (Inl e, s') | (Inr a, s') \<Rightarrow> f a s')"

definition eseq :: "('s, 'a) eff \<Rightarrow> ('s, 'b) eff \<Rightarrow> ('s, 'b) eff" where
  "eseq m n = ebind m (\<lambda>_. n)"

definition eread :: "('s \<Rightarrow> 'a) \<Rightarrow> ('a \<Rightarrow> ('s, 'b) eff) \<Rightarrow> ('s, 'b) eff" where
  "eread g f s = f (g s) s"

definition emodify :: "('s \<Rightarrow> 's) \<Rightarrow> ('s, unit) eff" where
  "emodify f s = (Inr (), f s)"

definition elift :: "'a result \<Rightarrow> ('s, 'a) eff" where
  "elift r s = (r, s)"

definition eassert :: "bool \<Rightarrow> bool \<Rightarrow> ('s, unit) eff" where
  "eassert nd b = (if nd \<or> b then eret () else ethrow AssertFailed)"

definition ewhen :: "bool \<Rightarrow> ('s, unit) eff \<Rightarrow> ('s, unit) eff" where
  "ewhen b m = (if b then m else eret ())"

primrec efor :: "('x \<Rightarrow> ('s, unit) eff) \<Rightarrow> 'x list \<Rightarrow> ('s, unit) eff" where
  "efor f [] = eret ()"
| "efor f (x # xs) = eseq (f x) (efor f xs)"

fun std_exception :: "kvt_error \<Rightarrow> bool" where
  "std_exception OutOfRange = True"
| "std_exception OverflowError = True"
| "std_exception RuntimeError = True"
| "std_exception InvalidArgument = True"
| "std_exception KvtException = True"
| "std_exception _ = False"

definition ecatch :: "('s, 'a) eff \<Rightarrow> ('s, 'a) eff \<Rightarrow> ('s, 'a) eff" where
  "ecatch m h s =
     (case m s of
        (Inl e, s') \<Rightarrow> if std_exception e then h s' else (Inl e, s')
      | r \<Rightarrow> r)"

section \<open>Stepping through a run\<close>

lemma eseq_step: "m s = (Inr a, s1) \<Longrightarrow> n s1 = r \<Longrightarrow> eseq m n s = r"
  by (simp add: eseq_def ebind_def)

lemma eread_step: "f (g s) s = r \<Longrightarrow> eread g f s = r"
  by (simp add: eread_def)

lemma ewhen_step: "b \<Longrightarrow> m s = r \<Longrightarrow> ewhen b m s = r"
  by (simp add: ewhen_def)

lemma eassert_step: "b \<Longrightarrow> eassert nd b s = (Inr (), s)"
  by (simp add: eassert_def eret_def)

lemma ecatch_step: "m s = (Inr a, s') \<Longrightarrow> ecatch m h s = (Inr a, s')"
  by (simp add: ecatch_def)

lemma ecatch_handler: "m s = (Inl e, s1) \<Longrightarrow> std_exception e \<Longrightarrow> h s1 = r \<Longrightarrow> ecatch m h s = r"
  by (simp add: ecatch_def)

lemma eseq_throw: "m s = (Inl e, s1) \<Longrightarrow> eseq m n s = (Inl e, s1)"
  by (simp add: eseq_def ebind_def)

lemma ecatch_uncaught: "m s = (Inl e, s1) \<Longrightarrow> \<not> std_exception e \<Longrightarrow> ecatch m h s = (Inl e, s1)"
  by (simp add: ecatch_def)

section \<open>Triples\<close>

text \<open>
  From a state with \<open>P\<close> the computation returns in a state with \<open>Q\<close>, or throws in a state with \<open>E\<close>.
\<close>

definition etriple ::
  "('s \<Rightarrow> bool) \<Rightarrow> ('s, 'a) eff \<Rightarrow> ('a \<Rightarrow> 's \<Rightarrow> bool) \<Rightarrow> (kvt_error \<Rightarrow> 's \<Rightarrow> bool) \<Rightarrow> bool" where
  "etriple P m Q E \<longleftrightarrow> (\<forall>s. P s \<longrightarrow> (case m s of (Inr a, s') \<Rightarrow> Q a s' | (Inl e, s') \<Rightarrow> E e s'))"

named_theorems etriple_rules \<open>rules that follow the structure of a computation\<close>

lemma etripleI: "(\<And>s. P s \<Longrightarrow> case m s of (Inr a, s') \<Rightarrow> Q a s' | (Inl e, s') \<Rightarrow> E e s') \<Longrightarrow> etriple P m Q E"
  by (simp add: etriple_def)

lemma etripleD: "etriple P m Q E \<Longrightarrow> P s \<Longrightarrow> m s = (Inr a, s') \<Longrightarrow> Q a s'"
  by (fastforce simp: etriple_def)

lemma etriple_throwD: "etriple P m Q E \<Longrightarrow> P s \<Longrightarrow> m s = (Inl e, s') \<Longrightarrow> E e s'"
  by (fastforce simp: etriple_def)

lemma etriple_pre: "etriple P m Q E \<Longrightarrow> (\<And>s. P' s \<Longrightarrow> P s) \<Longrightarrow> etriple P' m Q E"
  by (simp add: etriple_def)

lemma etriple_post: "etriple P m Q E \<Longrightarrow> (\<And>a s. Q a s \<Longrightarrow> Q' a s) \<Longrightarrow> (\<And>e s. E e s \<Longrightarrow> E' e s) \<Longrightarrow> etriple P m Q' E'"
  by (fastforce simp: etriple_def split: sum.splits prod.splits)

lemma etriple_ret: "(\<And>s. P s \<Longrightarrow> Q a s) \<Longrightarrow> etriple P (eret a) Q E"
  by (simp add: etriple_def eret_def)

lemma etriple_throw: "(\<And>s. P s \<Longrightarrow> E e s) \<Longrightarrow> etriple P (ethrow e) Q E"
  by (simp add: etriple_def ethrow_def)

lemma etriple_bind: "etriple P m R E \<Longrightarrow> (\<And>a. etriple (R a) (f a) Q E) \<Longrightarrow> etriple P (ebind m f) Q E"
  by (fastforce simp: etriple_def ebind_def split: sum.splits prod.splits)

lemma etriple_seq: "etriple P m (\<lambda>_. R) E \<Longrightarrow> etriple R n Q E \<Longrightarrow> etriple P (eseq m n) Q E"
  by (auto simp: eseq_def intro: etriple_bind)

lemma etriple_read: "(\<And>a. etriple (\<lambda>s. P s \<and> g s = a) (f a) Q E) \<Longrightarrow> etriple P (eread g f) Q E"
  by (fastforce simp: etriple_def eread_def)

lemma etriple_modify: "(\<And>s. P s \<Longrightarrow> Q () (f s)) \<Longrightarrow> etriple P (emodify f) Q E"
  by (simp add: etriple_def emodify_def)

lemma etriple_lift: "(\<And>s a. P s \<Longrightarrow> r = Inr a \<Longrightarrow> Q a s) \<Longrightarrow> (\<And>s e. P s \<Longrightarrow> r = Inl e \<Longrightarrow> E e s) \<Longrightarrow> etriple P (elift r) Q E"
  by (cases r) (simp_all add: etriple_def elift_def)

lemma etriple_assert:
  "(\<And>s. P s \<Longrightarrow> b \<or> nd \<Longrightarrow> Q () s) \<Longrightarrow> (\<And>s. P s \<Longrightarrow> E AssertFailed s) \<Longrightarrow> etriple P (eassert nd b) Q E"
  by (auto simp: etriple_def eassert_def eret_def ethrow_def)

lemma etriple_when:
  "(b \<Longrightarrow> etriple P m Q E) \<Longrightarrow> (\<And>s. \<not> b \<Longrightarrow> P s \<Longrightarrow> Q () s) \<Longrightarrow> etriple P (ewhen b m) Q E"
  by (auto simp: ewhen_def intro: etriple_ret)

lemma etriple_if:
  "(b \<Longrightarrow> etriple P m Q E) \<Longrightarrow> (\<not> b \<Longrightarrow> etriple P n Q E) \<Longrightarrow> etriple P (if b then m else n) Q E"
  by simp

text \<open>A loop: the invariant speaks of the elements already visited and of those to come.\<close>

lemma etriple_for_split:
  assumes "\<And>x done rest. xs = done @ x # rest \<Longrightarrow> etriple (I done) (f x) (\<lambda>_. I (done @ [x])) E"
  shows "etriple (I []) (efor f xs) (\<lambda>_. I xs) E"
proof -
  have "etriple (I done) (efor f rest) (\<lambda>_. I xs) E" if "xs = done @ rest" for "done" rest
    using that
  proof (induction rest arbitrary: "done")
    case Nil
    then show ?case
      by (auto intro: etriple_ret)
  next
    case (Cons x rest)
    have "etriple (I done) (f x) (\<lambda>_. I (done @ [x])) E"
      using assms [of "done" x rest] Cons.prems by simp
    moreover have "etriple (I (done @ [x])) (efor f rest) (\<lambda>_. I xs) E"
      using Cons.IH [of "done @ [x]"] Cons.prems by simp
    ultimately show ?case
      by (auto intro: etriple_seq)
  qed
  from this [of "[]" xs] show ?thesis
    by simp
qed

lemma etriple_for:
  assumes "\<And>x. x \<in> set xs \<Longrightarrow> etriple I (f x) (\<lambda>_. I) E"
  shows "etriple I (efor f xs) (\<lambda>_. I) E"
  using etriple_for_split [of xs "\<lambda>_. I" f E] assms by simp

lemma etriple_catch:
  assumes "etriple P m Q (\<lambda>e s. if std_exception e then R s else E e s)" and "etriple R h Q E"
  shows "etriple P (ecatch m h) Q E"
  using assms by (fastforce simp: etriple_def ecatch_def split: sum.splits prod.splits if_splits)

lemmas [etriple_rules] =
  etriple_seq etriple_bind etriple_read etriple_modify etriple_lift etriple_assert etriple_when etriple_if
  etriple_ret etriple_throw

section \<open>Frames\<close>

text \<open>A part \<open>g\<close> of the state that a computation does not change, whether it returns or throws.\<close>

definition keeps :: "('s \<Rightarrow> 'g) \<Rightarrow> ('s, 'a) eff \<Rightarrow> bool" where
  "keeps g m \<longleftrightarrow> (\<forall>s. g (snd (m s)) = g s)"

named_theorems keeps_rules \<open>rules of keeps that follow the structure of a computation\<close>

lemma keeps_snd: "keeps g m \<Longrightarrow> m s = (r, s') \<Longrightarrow> g s' = g s"
  by (metis keeps_def snd_conv)

lemma keeps_ret [keeps_rules]: "keeps g (eret a)"
  by (simp add: keeps_def eret_def)

lemma keeps_throw [keeps_rules]: "keeps g (ethrow e)"
  by (simp add: keeps_def ethrow_def)

lemma keeps_lift [keeps_rules]: "keeps g (elift r)"
  by (simp add: keeps_def elift_def)

lemma keeps_bind [keeps_rules]: "keeps g m \<Longrightarrow> (\<And>a. keeps g (f a)) \<Longrightarrow> keeps g (ebind m f)"
  by (simp add: keeps_def ebind_def split: sum.splits prod.splits) (metis snd_conv)

lemma keeps_seq [keeps_rules]: "keeps g m \<Longrightarrow> keeps g n \<Longrightarrow> keeps g (eseq m n)"
  by (simp add: eseq_def keeps_bind)

lemma keeps_read [keeps_rules]: "(\<And>a. keeps g (f a)) \<Longrightarrow> keeps g (eread h f)"
  by (simp add: keeps_def eread_def)

lemma keeps_modify [keeps_rules]: "(\<And>s. g (f s) = g s) \<Longrightarrow> keeps g (emodify f)"
  by (simp add: keeps_def emodify_def)

lemma keeps_assert [keeps_rules]: "keeps g (eassert nd b)"
  by (simp add: eassert_def keeps_ret keeps_throw)

lemma keeps_when [keeps_rules]: "(b \<Longrightarrow> keeps g m) \<Longrightarrow> keeps g (ewhen b m)"
  by (simp add: ewhen_def keeps_ret)

lemma keeps_if [keeps_rules]: "(b \<Longrightarrow> keeps g m) \<Longrightarrow> (\<not> b \<Longrightarrow> keeps g n) \<Longrightarrow> keeps g (if b then m else n)"
  by simp

lemma keeps_for [keeps_rules]: "(\<And>x. x \<in> set xs \<Longrightarrow> keeps g (f x)) \<Longrightarrow> keeps g (efor f xs)"
  by (induction xs) (simp_all add: keeps_ret keeps_seq)

lemma keeps_catch [keeps_rules]: "keeps g m \<Longrightarrow> keeps g h \<Longrightarrow> keeps g (ecatch m h)"
  by (simp add: keeps_def ecatch_def split: sum.splits prod.splits) (metis snd_conv)

lemma keeps_option [keeps_rules]:
  "keeps g m \<Longrightarrow> (\<And>x. keeps g (f x)) \<Longrightarrow> keeps g (case v of None \<Rightarrow> m | Some x \<Rightarrow> f x)"
  by (cases v) simp_all

lemma keeps_prod [keeps_rules]: "(\<And>a b. keeps g (f a b)) \<Longrightarrow> keeps g (case p of (a, b) \<Rightarrow> f a b)"
  by (cases p) simp

lemma keeps_Let [keeps_rules]: "keeps g (f x) \<Longrightarrow> keeps g (Let x f)"
  by simp

section \<open>Handled exceptions\<close>

text \<open>A computation from which no \<open>std::exception\<close> escapes, as \<open>noexcept\<close> demands.\<close>

definition handled :: "('s, 'a) eff \<Rightarrow> bool" where
  "handled m \<longleftrightarrow> (\<forall>s e s'. m s = (Inl e, s') \<longrightarrow> \<not> std_exception e)"

named_theorems handled_rules \<open>rules of handled that follow the structure of a computation\<close>

lemma handled_ret [handled_rules]: "handled (eret a)"
  by (simp add: handled_def eret_def)

lemma handled_bind: "handled m \<Longrightarrow> (\<And>a. handled (f a)) \<Longrightarrow> handled (ebind m f)"
  by (fastforce simp: handled_def ebind_def split: sum.splits prod.splits)

lemma handled_seq [handled_rules]: "handled m \<Longrightarrow> handled n \<Longrightarrow> handled (eseq m n)"
  by (simp add: eseq_def handled_bind)

lemma handled_read [handled_rules]: "(\<And>a. handled (f a)) \<Longrightarrow> handled (eread g f)"
  by (simp add: handled_def eread_def)

lemma handled_modify [handled_rules]: "handled (emodify f)"
  by (simp add: handled_def emodify_def)

lemma handled_assert [handled_rules]: "handled (eassert nd b)"
  by (auto simp: handled_def eassert_def eret_def ethrow_def)

lemma handled_when [handled_rules]: "(b \<Longrightarrow> handled m) \<Longrightarrow> handled (ewhen b m)"
  by (simp add: ewhen_def handled_ret)

lemma handled_if [handled_rules]: "(b \<Longrightarrow> handled m) \<Longrightarrow> (\<not> b \<Longrightarrow> handled n) \<Longrightarrow> handled (if b then m else n)"
  by simp

lemma handled_for [handled_rules]: "(\<And>x. x \<in> set xs \<Longrightarrow> handled (f x)) \<Longrightarrow> handled (efor f xs)"
  by (induction xs) (simp_all add: handled_ret handled_seq)

lemma handled_catch [handled_rules]: "handled h \<Longrightarrow> handled (ecatch m h)"
  by (auto simp: handled_def ecatch_def split: sum.splits prod.splits if_splits)

lemma handled_prod [handled_rules]: "(\<And>a b. handled (f a b)) \<Longrightarrow> handled (case p of (a, b) \<Rightarrow> f a b)"
  by (cases p) simp

lemma handled_Let [handled_rules]: "handled (f x) \<Longrightarrow> handled (Let x f)"
  by simp

section \<open>Evaluation\<close>

text \<open>What a computation that returns has done.\<close>

lemma ebind_returns: "ebind m f s = (Inr b, s') \<longleftrightarrow> (\<exists>a s1. m s = (Inr a, s1) \<and> f a s1 = (Inr b, s'))"
  by (auto simp: ebind_def split: sum.splits prod.splits)

lemma eseq_returns: "eseq m n s = (Inr b, s') \<longleftrightarrow> (\<exists>a s1. m s = (Inr a, s1) \<and> n s1 = (Inr b, s'))"
  by (simp add: eseq_def ebind_returns)

lemma eret_returns: "eret a s = (Inr b, s') \<longleftrightarrow> b = a \<and> s' = s"
  by (auto simp: eret_def)

lemma ethrow_returns: "ethrow e s = (Inr b, s') \<longleftrightarrow> False"
  by (simp add: ethrow_def)

lemma eread_returns: "eread g f s = (Inr b, s') \<longleftrightarrow> f (g s) s = (Inr b, s')"
  by (simp add: eread_def)

lemma emodify_returns: "emodify f s = (Inr b, s') \<longleftrightarrow> s' = f s"
  by (auto simp: emodify_def)

lemma elift_returns: "elift r s = (Inr b, s') \<longleftrightarrow> r = Inr b \<and> s' = s"
  by (auto simp: elift_def)

lemma eassert_returns: "eassert nd b s = (Inr u, s') \<longleftrightarrow> (nd \<or> b) \<and> s' = s"
  by (auto simp: eassert_def eret_def ethrow_def)

lemma ewhen_returns: "ewhen b m s = (Inr u, s') \<longleftrightarrow> (if b then m s = (Inr u, s') else s' = s)"
  by (auto simp: ewhen_def eret_def)

lemma ecatch_returns:
  "ecatch m h s = (Inr a, s') \<longleftrightarrow>
   m s = (Inr a, s') \<or> (\<exists>e s1. m s = (Inl e, s1) \<and> std_exception e \<and> h s1 = (Inr a, s'))"
  by (auto simp: ecatch_def split: sum.splits prod.splits if_splits)

lemmas eff_returns =
  ebind_returns eseq_returns eret_returns ethrow_returns eread_returns emodify_returns elift_returns
  eassert_returns ewhen_returns

lemmas eff_defs = eret_def ethrow_def ebind_def eseq_def eread_def emodify_def elift_def eassert_def ewhen_def ecatch_def

end
