(* ===== verification/PyBase.thy ===== *)
theory PyBase
  imports Main
begin

text \<open>
  What the Python side uses of the language and its library: exceptions, byte streams, \<open>struct\<close> and UTF-8.
\<close>

section \<open>Exceptions\<close>

datatype py_error =
    IncompleteReadError "nat list"
  | UnicodeDecodeError
  | StructError
  | AssertionError

type_synonym 'a py = "py_error + 'a"

definition pbind :: "'a py \<Rightarrow> ('a \<Rightarrow> 'b py) \<Rightarrow> 'b py" where
  "pbind m f = (case m of Inl e \<Rightarrow> Inl e | Inr a \<Rightarrow> f a)"

lemma pbind_simps [simp]: "pbind (Inl e) f = Inl e" "pbind (Inr a) f = f a"
  by (simp_all add: pbind_def)

lemma pbind_cong [fundef_cong]: "m = m' \<Longrightarrow> (\<And>a. m' = Inr a \<Longrightarrow> f a = f' a) \<Longrightarrow> pbind m f = pbind m' f'"
  by (cases m') simp_all

section \<open>Byte streams\<close>

type_synonym bytes = "nat list"

text \<open>
  \<open>StreamReader.readexactly\<close>: the buffer is all that the peer sends before it closes the connection.
\<close>

definition readexactly :: "nat \<Rightarrow> bytes \<Rightarrow> (bytes \<times> bytes) py" where
  "readexactly n buf = (if length buf < n then Inl (IncompleteReadError buf) else Inr (take n buf, drop n buf))"

lemma readexactly_append [simp]: "length xs = n \<Longrightarrow> readexactly n (xs @ ys) = Inr (xs, ys)"
  by (simp add: readexactly_def)

lemma readexactly_length: "readexactly n buf = Inr (a, rest) \<Longrightarrow> length a = n \<and> buf = a @ rest"
  by (auto simp: readexactly_def split: if_splits)

section \<open>Fixed-width integers\<close>

text \<open>The four bytes of a 32-bit value in memory order, and \<open>struct.unpack\<close> of a format of \<open>I\<close>s.\<close>

definition le32 :: "nat \<Rightarrow> bytes" where
  "le32 x = [x mod 256, x div 256 mod 256, x div 65536 mod 256, x div 16777216 mod 256]"

fun unpack_I :: "bytes \<Rightarrow> nat list" where
  "unpack_I (a # b # c # d # bs) = (a + 256 * b + 65536 * c + 16777216 * d) # unpack_I bs"
| "unpack_I _ = []"

lemma length_le32 [simp]: "length (le32 x) = 4"
  by (simp add: le32_def)

lemma unpack_le32 [simp]: "unpack_I (le32 x @ bs) = x mod 2 ^ 32 # unpack_I bs"
proof -
  have "x mod 256 + 256 * (x div 256 mod 256) + 65536 * (x div 65536 mod 256) + 16777216 * (x div 16777216 mod 256) =
      x mod (256 * (256 * (256 * 256)))"
    using mod_mult2_eq [of x 256 "256 * (256 * 256)"] mod_mult2_eq [of "x div 256" 256 "256 * 256"]
      mod_mult2_eq [of "x div 256 div 256" 256 256]
    by (simp add: div_mult2_eq [symmetric])
  then show ?thesis
    by (simp add: le32_def)
qed

lemmas unpack_le32_last [simp] = unpack_le32 [where bs = "[]", simplified]

section \<open>UTF-8\<close>

type_synonym py_str = "nat list"

definition code_point :: "nat \<Rightarrow> bool" where
  "code_point c \<longleftrightarrow> c < 0x110000 \<and> \<not> (0xD800 \<le> c \<and> c \<le> 0xDFFF)"

definition utf8_encode_char :: "nat \<Rightarrow> bytes" where
  "utf8_encode_char c =
     (if c < 0x80 then [c]
      else if c < 0x800 then [0xC0 + c div 64, 0x80 + c mod 64]
      else if c < 0x10000 then [0xE0 + c div 4096, 0x80 + c div 64 mod 64, 0x80 + c mod 64]
      else [0xF0 + c div 262144, 0x80 + c div 4096 mod 64, 0x80 + c div 64 mod 64, 0x80 + c mod 64])"

definition utf8_encode :: "py_str \<Rightarrow> bytes" where
  "utf8_encode s = concat (map utf8_encode_char s)"

definition utf8_tail :: "nat \<Rightarrow> bool" where
  "utf8_tail b \<longleftrightarrow> 0x80 \<le> b \<and> b \<le> 0xBF"

fun utf8_char :: "bytes \<Rightarrow> (nat \<times> bytes) option" where
  "utf8_char [] = None"
| "utf8_char (a # bs) =
     (if a < 0x80 then Some (a, bs)
      else if 0xC2 \<le> a \<and> a \<le> 0xDF then
        (case bs of
           b # r \<Rightarrow> if utf8_tail b then Some ((a - 0xC0) * 64 + (b - 0x80), r) else None
         | _ \<Rightarrow> None)
      else if 0xE0 \<le> a \<and> a \<le> 0xEF then
        (case bs of
           b # c # r \<Rightarrow>
             (let x = (a - 0xE0) * 4096 + (b - 0x80) * 64 + (c - 0x80)
              in if utf8_tail b \<and> utf8_tail c \<and> 0x800 \<le> x \<and> code_point x then Some (x, r) else None)
         | _ \<Rightarrow> None)
      else if 0xF0 \<le> a \<and> a \<le> 0xF4 then
        (case bs of
           b # c # d # r \<Rightarrow>
             (let x = (a - 0xF0) * 262144 + (b - 0x80) * 4096 + (c - 0x80) * 64 + (d - 0x80)
              in if utf8_tail b \<and> utf8_tail c \<and> utf8_tail d \<and> 0x10000 \<le> x \<and> code_point x then Some (x, r) else None)
         | _ \<Rightarrow> None)
      else None)"

lemma utf8_char_shorter: "utf8_char bs = Some (c, r) \<Longrightarrow> length r < length bs"
  by (cases bs) (auto simp: Let_def split: if_splits list.splits)

function utf8_decode :: "bytes \<Rightarrow> py_str option" where
  "utf8_decode bs =
     (if bs = [] then Some []
      else
        (case utf8_char bs of
           None \<Rightarrow> None
         | Some (c, r) \<Rightarrow> map_option ((#) c) (utf8_decode r)))"
  by pat_completeness auto
termination
  by (relation "measure length") (auto dest: utf8_char_shorter)

declare utf8_decode.simps [simp del]

definition decode_utf8 :: "bytes \<Rightarrow> py_str py" where
  "decode_utf8 bs = (case utf8_decode bs of None \<Rightarrow> Inl UnicodeDecodeError | Some s \<Rightarrow> Inr s)"

lemma utf8_char_encode:
  assumes "code_point c"
  shows "utf8_char (utf8_encode_char c @ r) = Some (c, r)"
proof -
  have div64: "c div 64 div 64 = c div 4096" "c div 4096 div 64 = c div 262144"
    by (simp_all add: div_mult2_eq [symmetric])
  have digits: "c div 64 * 64 + c mod 64 = c" "c div 4096 * 4096 + c div 64 mod 64 * 64 + c mod 64 = c"
    "c div 262144 * 262144 + c div 4096 mod 64 * 4096 + c div 64 mod 64 * 64 + c mod 64 = c"
    using div_mult_mod_eq [of c 64] div_mult_mod_eq [of "c div 64" 64] div_mult_mod_eq [of "c div 4096" 64] div64
    by linarith+
  have tail: "utf8_tail (0x80 + x mod 64)" for x
    using mod_less_divisor [of 64 x] by (simp add: utf8_tail_def)
  consider "c < 0x80" | "0x80 \<le> c" "c < 0x800" | "0x800 \<le> c" "c < 0x10000" | "0x10000 \<le> c"
    by linarith
  then show ?thesis
  proof cases
    case 1
    then show ?thesis
      by (simp add: utf8_encode_char_def)
  next
    case 2
    then have "2 \<le> c div 64" "c div 64 \<le> 31"
      using div_less_iff_less_mult [of 64 c 32] by (simp_all add: less_eq_div_iff_mult_less_eq)
    with 2 show ?thesis
      using digits(1) tail [of c] by (simp add: utf8_encode_char_def) linarith
  next
    case 3
    then have "c div 4096 \<le> 15"
      using div_less_iff_less_mult [of 4096 c 16] by simp
    with 3 show ?thesis
      using assms digits(2) tail [of c] tail [of "c div 64"] by (simp add: utf8_encode_char_def Let_def)
  next
    case 4
    then have "c div 262144 \<le> 4"
      using assms div_less_iff_less_mult [of 262144 c 5] by (simp add: code_point_def)
    with 4 show ?thesis
      using assms digits(3) tail [of c] tail [of "c div 64"] tail [of "c div 4096"]
      by (simp add: utf8_encode_char_def Let_def)
  qed
qed

lemma utf8_decode_encode: "\<forall>c\<in>set s. code_point c \<Longrightarrow> utf8_decode (utf8_encode s) = Some s"
proof (induction s)
  case Nil
  show ?case
    by (simp add: utf8_encode_def utf8_decode.simps)
next
  case (Cons c s)
  have "utf8_encode (c # s) \<noteq> []"
    by (simp add: utf8_encode_def utf8_encode_char_def)
  with Cons show ?case
    by (simp add: utf8_decode.simps [of "utf8_encode (c # s)"]) (simp add: utf8_encode_def utf8_char_encode)
qed

end
