(* ===== verification/IpcBlocks.thy ===== *)
theory IpcBlocks
  imports KvtCommon "HOL-Library.Multiset"
begin

text \<open>
  Copy descriptors (\<open>include/channel.h\<close>, \<open>src/channel.cpp\<close>): the record \<open>ipc_block\<close>, the bounds
  check \<open>validate_ipc_block_bounds\<close>, and \<open>merge_interval\<close>, which coalesces adjacent descriptors.

  The meaning of a list of descriptors is the set \<open>copied\<close> of pairs (source byte, destination
  byte) it transports, and \<open>transfer\<close>, the memory that executing the copies in order leaves on
  the destination. The lemmas relate the two: when no destination byte has two sources, \<open>copied\<close>
  determines the memory, in whatever order the copies run.
\<close>

section \<open>Model\<close>

record ipc_block =
  src_offset :: nat
  dst_offset :: nat
  blk_len :: nat

abbreviation IpcBlock :: "nat \<Rightarrow> nat \<Rightarrow> nat \<Rightarrow> ipc_block" where
  "IpcBlock s d l \<equiv> \<lparr> src_offset = s, dst_offset = d, blk_len = l \<rparr>"

datatype ipc_block_offset = SOURCE | DESTINATION

datatype tp_kind = PEQD | PLTD | PGTD | TP_UNKNOWN

definition ipc_block_eq :: "ipc_block \<Rightarrow> ipc_block \<Rightarrow> bool" where
  "ipc_block_eq a b \<longleftrightarrow>
     src_offset a = src_offset b \<and> dst_offset a = dst_offset b \<and> blk_len a = blk_len b"

text \<open>One iteration of the loop of \<open>validate_ipc_block_bounds\<close>: the flag \<open>invalid\<close>.\<close>

definition ipc_block_invalid :: "nat \<Rightarrow> ipc_block_offset \<Rightarrow> nat \<Rightarrow> ipc_block \<Rightarrow> bool" where
  "ipc_block_invalid capacity offset_kind length_scale block =
     (let offset = (if offset_kind = SOURCE then src_offset block else dst_offset block);
          length_overflow = (length_scale = 0 \<or> blk_len block > SIZE_MAX div length_scale);
          effective_length = (if length_overflow then SIZE_MAX else u64 (blk_len block * length_scale))
      in blk_len block = 0 \<or> length_overflow \<or> offset > capacity \<or>
         effective_length > capacity - offset)"

fun validate_ipc_block_bounds ::
  "ipc_block list \<Rightarrow> nat \<Rightarrow> ipc_block_offset \<Rightarrow> nat \<Rightarrow> unit result" where
  "validate_ipc_block_bounds [] capacity offset_kind length_scale = Inr ()"
| "validate_ipc_block_bounds (block # blocks) capacity offset_kind length_scale =
     (if ipc_block_invalid capacity offset_kind length_scale block then Inl OutOfRange
      else validate_ipc_block_bounds blocks capacity offset_kind length_scale)"

definition can_merge :: "ipc_block \<Rightarrow> ipc_block \<Rightarrow> bool" where
  "can_merge pre_block cur_block =
     (if src_offset cur_block \<noteq> u64 (src_offset pre_block + blk_len pre_block) then False
      else if dst_offset cur_block \<noteq> u64 (dst_offset pre_block + blk_len pre_block) then False
      else True)"

text \<open>The statistics \<open>(min_size, max_size, total_size, cnt)\<close>, and adding one descriptor to them.\<close>

type_synonym merge_stats = "nat \<times> nat \<times> nat \<times> nat"

definition add_stats :: "nat \<Rightarrow> merge_stats \<Rightarrow> merge_stats" where
  "add_stats len st =
     (case st of (mn, mx, tot, cnt) \<Rightarrow> (min mn len, max mx len, u64 (tot + len), u64 (cnt + 1)))"

text \<open>The loop of \<open>merge_interval\<close> over \<open>idx\<close>; the vector is updated in place.\<close>

function merge_loop ::
  "ipc_block list \<Rightarrow> nat \<Rightarrow> nat \<Rightarrow> merge_stats \<Rightarrow> ipc_block list \<times> nat \<times> merge_stats" where
  "merge_loop input prev_idx idx st =
     (if idx < length input then
        (let pre_block = input ! prev_idx; cur_block = input ! idx
         in if can_merge pre_block cur_block then
              merge_loop
                (input[prev_idx := pre_block\<lparr>blk_len := u64 (blk_len pre_block + blk_len cur_block)\<rparr>,
                       idx := cur_block\<lparr>blk_len := 0\<rparr>])
                prev_idx (idx + 1) st
            else merge_loop input idx (idx + 1) (add_stats (blk_len pre_block) st))
      else (input, prev_idx, st))"
  by pat_completeness auto
termination
  by (relation "measure (\<lambda>(input, _, idx, _). length input - idx)") auto

declare merge_loop.simps [simp del]

definition merge_sorted :: "ipc_block list \<Rightarrow> ipc_block list \<times> merge_stats" where
  "merge_sorted input =
     (case merge_loop input 0 1 (SIZE_MAX, 0, 0, 0) of (out, prev_idx, st) \<Rightarrow>
        (out, if prev_idx < length out then add_stats (blk_len (out ! prev_idx)) st else st))"

text \<open>
  \<open>std::sort\<close> leaves the order of descriptors with equal source offsets open; the model takes the
  stable order. The lemmas on \<open>merge_sorted\<close> hold for every order.
\<close>

definition merge_interval :: "ipc_block list \<Rightarrow> ipc_block list \<times> merge_stats" where
  "merge_interval input = merge_sorted (sort_key src_offset input)"

section \<open>Meaning of a list of descriptors\<close>

definition run :: "nat \<Rightarrow> nat \<Rightarrow> nat \<Rightarrow> (nat \<times> nat) set" where
  "run s d n = (\<lambda>k. (s + k, d + k)) ` {..<n}"

definition block_bytes :: "ipc_block \<Rightarrow> (nat \<times> nat) set" where
  "block_bytes b = run (src_offset b) (dst_offset b) (blk_len b)"

definition copied :: "ipc_block list \<Rightarrow> (nat \<times> nat) set" where
  "copied bs = (\<Union>b\<in>set bs. block_bytes b)"

definition copy_block :: "(nat \<Rightarrow> 'v) \<Rightarrow> ipc_block \<Rightarrow> (nat \<Rightarrow> 'v) \<Rightarrow> nat \<Rightarrow> 'v" where
  "copy_block src b dst a =
     (if dst_offset b \<le> a \<and> a < dst_offset b + blk_len b
      then src (src_offset b + (a - dst_offset b)) else dst a)"

definition transfer :: "(nat \<Rightarrow> 'v) \<Rightarrow> ipc_block list \<Rightarrow> (nat \<Rightarrow> 'v) \<Rightarrow> nat \<Rightarrow> 'v" where
  "transfer src bs dst = fold (copy_block src) bs dst"

text \<open>No destination byte has two different sources.\<close>

definition one_source :: "(nat \<times> nat) set \<Rightarrow> bool" where
  "one_source r \<longleftrightarrow> (\<forall>s s' d. (s, d) \<in> r \<longrightarrow> (s', d) \<in> r \<longrightarrow> s = s')"

definition block_in_64 :: "ipc_block \<Rightarrow> bool" where
  "block_in_64 b \<longleftrightarrow> src_offset b + blk_len b < 2 ^ 64 \<and> dst_offset b + blk_len b < 2 ^ 64"

definition total_len :: "ipc_block list \<Rightarrow> nat" where
  "total_len bs = sum_list (map blk_len bs)"

section \<open>Laws of \<open>run\<close> and \<open>copied\<close>\<close>

lemma run_0 [simp]: "run s d 0 = {}"
  by (simp add: run_def)

lemma mem_run: "(a, b) \<in> run s d n \<longleftrightarrow> s \<le> a \<and> a < s + n \<and> b + s = a + d"
proof -
  have "(a, b) \<in> run s d n" if "s \<le> a \<and> a < s + n \<and> b + s = a + d"
    unfolding run_def using that by (intro image_eqI [of _ _ "a - s"]) auto
  then show ?thesis
    by (auto simp: run_def)
qed

lemma run_append: "run s d (m + n) = run s d m \<union> run (s + m) (d + m) n"
  by (auto simp: mem_run)

lemma run_tokens: "run s d (n * t) = (\<Union>k<n. run (s + k * t) (d + k * t) t)"
proof (induction n)
  case (Suc n)
  have "run s d (Suc n * t) = run s d (n * t) \<union> run (s + n * t) (d + n * t) t"
    using run_append [of s d "n * t" t] by (simp add: add.commute)
  then show ?case
    using Suc by (auto simp: lessThan_Suc)
qed simp

lemma image_add_lessThan: "(\<lambda>k. d + k) ` {..<n} = {d..<d + n}" for d n :: nat
  by (simp add: lessThan_atLeast0 add.commute)

lemma snd_run: "snd ` run s d n = {d..<d + n}"
  by (simp add: run_def image_image image_add_lessThan)

lemma fst_run: "fst ` run s d n = {s..<s + n}"
  by (simp add: run_def image_image image_add_lessThan)

lemma copied_Nil [simp]: "copied [] = {}"
  by (simp add: copied_def)

lemma copied_Cons [simp]: "copied (b # bs) = block_bytes b \<union> copied bs"
  by (simp add: copied_def)

lemma copied_append [simp]: "copied (as @ bs) = copied as \<union> copied bs"
  by (auto simp: copied_def)

lemma copied_concat: "copied (concat bss) = (\<Union>bs\<in>set bss. copied bs)"
  by (auto simp: copied_def)

lemma copied_nth: "copied bs = (\<Union>k<length bs. block_bytes (bs ! k))"
  by (simp add: copied_def set_conv_nth) blast

lemma copied_cong_set: "set as = set bs \<Longrightarrow> copied as = copied bs"
  by (simp add: copied_def)

lemma block_bytes_IpcBlock [simp]: "block_bytes (IpcBlock s d l) = run s d l"
  by (simp add: block_bytes_def)

section \<open>\<open>copied\<close> determines the memory\<close>

lemma copy_block_hit: "(s, a) \<in> block_bytes b \<Longrightarrow> copy_block src b dst a = src s"
  by (auto simp: block_bytes_def mem_run copy_block_def intro!: arg_cong [of _ _ src])

lemma copy_block_miss: "(\<And>s. (s, a) \<notin> block_bytes b) \<Longrightarrow> copy_block src b dst a = dst a"
proof (rule ccontr)
  assume miss: "\<And>s. (s, a) \<notin> block_bytes b" and "copy_block src b dst a \<noteq> dst a"
  then have "dst_offset b \<le> a \<and> a < dst_offset b + blk_len b"
    by (auto simp: copy_block_def split: if_splits)
  then have "(src_offset b + (a - dst_offset b), a) \<in> block_bytes b"
    by (auto simp: block_bytes_def mem_run)
  with miss show False
    by blast
qed

lemma transfer_Cons [simp]: "transfer src (b # bs) dst = transfer src bs (copy_block src b dst)"
  by (simp add: transfer_def)

lemma transfer_Nil [simp]: "transfer src [] dst = dst"
  by (simp add: transfer_def)

lemma transfer_miss: "(\<And>s. (s, a) \<notin> copied bs) \<Longrightarrow> transfer src bs dst a = dst a"
  by (induction bs arbitrary: dst) (auto simp: copy_block_miss)

lemma transfer_hit:
  assumes "one_source (copied bs)" and "(s, a) \<in> copied bs"
  shows "transfer src bs dst a = src s"
  using assms
proof (induction bs arbitrary: dst)
  case (Cons b bs)
  have one: "one_source (copied bs)"
    using Cons.prems(1) unfolding one_source_def by fastforce
  show ?case
  proof (cases "\<exists>s'. (s', a) \<in> copied bs")
    case True
    then obtain s' where s': "(s', a) \<in> copied bs"
      by blast
    then have "s' = s"
      using Cons.prems unfolding one_source_def by fastforce
    with Cons.IH [OF one] s' show ?thesis
      by simp
  next
    case False
    then have "(s, a) \<in> block_bytes b"
      using Cons.prems(2) by auto
    with False show ?thesis
      by (simp add: transfer_miss copy_block_hit)
  qed
qed simp

lemma transfer_cong:
  assumes "copied as = copied bs" and "one_source (copied as)"
  shows "transfer src as dst = transfer src bs dst"
proof
  fix a
  show "transfer src as dst a = transfer src bs dst a"
  proof (cases "\<exists>s. (s, a) \<in> copied as")
    case True
    with assms show ?thesis
      by (metis transfer_hit)
  next
    case False
    with assms show ?thesis
      by (simp add: transfer_miss)
  qed
qed

section \<open>Bounds check\<close>

lemma ipc_block_invalid_iff:
  assumes "capacity < 2 ^ 64"
  shows "ipc_block_invalid capacity kind sc b \<longleftrightarrow>
    \<not> (0 < blk_len b \<and> 0 < sc \<and>
       (if kind = SOURCE then src_offset b else dst_offset b) + blk_len b * sc \<le> capacity)"
proof (cases "sc = 0 \<or> SIZE_MAX < blk_len b * sc")
  case True
  then show ?thesis
    using assms by (auto simp: ipc_block_invalid_def Let_def div_less_iff_less_mult)
next
  case False
  then have "u64 (blk_len b * sc) = blk_len b * sc"
    by (intro u64_id) simp
  with False show ?thesis
    by (auto simp: ipc_block_invalid_def Let_def div_less_iff_less_mult not_less)
qed

lemma validate_ipc_block_bounds_cases:
  "validate_ipc_block_bounds bs capacity kind sc =
     (if \<exists>b\<in>set bs. ipc_block_invalid capacity kind sc b then Inl OutOfRange else Inr ())"
  by (induction bs) auto

section \<open>Coalescing\<close>

abbreviation live :: "ipc_block list \<Rightarrow> ipc_block list" where
  "live bs \<equiv> filter (\<lambda>b. blk_len b \<noteq> 0) bs"

definition stats_of :: "ipc_block list \<Rightarrow> merge_stats" where
  "stats_of bs = fold (\<lambda>b. add_stats (blk_len b)) bs (SIZE_MAX, 0, 0, 0)"

definition merge_inv :: "ipc_block list \<Rightarrow> nat \<Rightarrow> nat \<Rightarrow> merge_stats \<Rightarrow> bool" where
  "merge_inv input prev idx st \<longleftrightarrow>
     prev < idx \<and> idx \<le> length input \<and> blk_len (input ! prev) \<noteq> 0 \<and>
     (\<forall>j. prev < j \<longrightarrow> j < idx \<longrightarrow> blk_len (input ! j) = 0) \<and>
     (\<forall>j. idx \<le> j \<longrightarrow> j < length input \<longrightarrow> blk_len (input ! j) \<noteq> 0) \<and>
     (\<forall>b\<in>set input. block_in_64 b) \<and> st = stats_of (live (take prev input)) \<and>
     successively (\<lambda>a b. \<not> can_merge a b) (live (take (Suc prev) input))"

lemma copied_live: "copied (live bs) = copied bs"
  by (induction bs) (auto simp: block_bytes_def)

lemma total_len_live: "total_len (live bs) = total_len bs"
  by (induction bs) (auto simp: total_len_def)

lemma live_take_skip:
  assumes "prev < idx" and "idx \<le> length xs" and "blk_len (xs ! prev) \<noteq> 0"
    and "\<forall>j. prev < j \<longrightarrow> j < idx \<longrightarrow> blk_len (xs ! j) = 0"
  shows "live (take idx xs) = live (take prev xs) @ [xs ! prev]"
  using assms
proof (induction idx)
  case (Suc idx)
  show ?case
  proof (cases "prev = idx")
    case True
    with Suc.prems show ?thesis
      by (simp add: take_Suc_conv_app_nth)
  next
    case False
    with Suc show ?thesis
      by (simp add: take_Suc_conv_app_nth)
  qed
qed simp

lemma can_merge_iff:
  assumes "block_in_64 a"
  shows "can_merge a b \<longleftrightarrow>
    src_offset b = src_offset a + blk_len a \<and> dst_offset b = dst_offset a + blk_len a"
  using assms by (auto simp: can_merge_def block_in_64_def u64_id)

lemma merge_two:
  assumes "block_in_64 a" and "block_in_64 b" and "can_merge a b"
  defines "a' \<equiv> a\<lparr>blk_len := u64 (blk_len a + blk_len b)\<rparr>"
  shows "blk_len a' = blk_len a + blk_len b" and "block_in_64 a'"
    and "block_bytes a' = block_bytes a \<union> block_bytes b"
proof -
  have eq: "src_offset b = src_offset a + blk_len a" "dst_offset b = dst_offset a + blk_len a"
    using assms(1,3) by (auto simp: can_merge_iff)
  then show len: "blk_len a' = blk_len a + blk_len b"
    using assms(2) by (simp add: a'_def block_in_64_def u64_id)
  then show "block_in_64 a'"
    using assms(2) eq by (simp add: a'_def block_in_64_def)
  show "block_bytes a' = block_bytes a \<union> block_bytes b"
    using len eq by (simp add: a'_def block_bytes_def run_append)
qed

lemma copied_update2:
  assumes "i < length xs" and "j < length xs" and "i \<noteq> j"
    and "block_bytes a \<union> block_bytes b = block_bytes (xs ! i) \<union> block_bytes (xs ! j)"
  shows "copied (xs[i := a, j := b]) = copied xs"
proof -
  define rest where "rest = (\<Union>k\<in>{..<length xs} - {i, j}. block_bytes (xs ! k))"
  have split: "copied zs = block_bytes (zs ! i) \<union> block_bytes (zs ! j) \<union>
      (\<Union>k\<in>{..<length xs} - {i, j}. block_bytes (zs ! k))" if "length zs = length xs" for zs
  proof -
    have "{..<length xs} = {i, j} \<union> ({..<length xs} - {i, j})"
      using assms(1,2) by auto
    then show ?thesis
      using that copied_nth [of zs] by (metis UN_Un UN_insert UN_empty Un_empty_right)
  qed
  have "(\<Union>k\<in>{..<length xs} - {i, j}. block_bytes (xs[i := a, j := b] ! k)) = rest"
    by (auto simp: rest_def)
  then show ?thesis
    using split [of xs] split [of "xs[i := a, j := b]"] assms by (simp add: rest_def)
qed

lemma total_len_update2:
  assumes "i < length xs" and "j < length xs" and "i \<noteq> j"
    and "blk_len a + blk_len b = blk_len (xs ! i) + blk_len (xs ! j)"
  shows "total_len (xs[i := a, j := b]) = total_len xs"
proof -
  have split: "total_len zs = blk_len (zs ! i) + (blk_len (zs ! j) +
      (\<Sum>k\<in>{..<length xs} - {i, j}. blk_len (zs ! k)))" if "length zs = length xs" for zs
  proof -
    have "total_len zs = (\<Sum>k<length xs. blk_len (zs ! k))"
      using that by (simp add: total_len_def sum_list_sum_nth atLeast0LessThan)
    also have "\<dots> = blk_len (zs ! i) + (\<Sum>k\<in>{..<length xs} - {i}. blk_len (zs ! k))"
      using assms(1) by (simp add: sum.remove)
    also have "(\<Sum>k\<in>{..<length xs} - {i}. blk_len (zs ! k)) =
        blk_len (zs ! j) + (\<Sum>k\<in>{..<length xs} - {i} - {j}. blk_len (zs ! k))"
      using assms(2,3) by (intro sum.remove) auto
    finally show ?thesis
      by (simp add: Diff_insert2 [symmetric] insert_commute)
  qed
  have "(\<Sum>k\<in>{..<length xs} - {i, j}. blk_len (xs[i := a, j := b] ! k)) =
      (\<Sum>k\<in>{..<length xs} - {i, j}. blk_len (xs ! k))"
    by (intro sum.cong) auto
  then show ?thesis
    using split [of xs] split [of "xs[i := a, j := b]"] assms by simp
qed

lemma merge_inv_merge:
  fixes input prev idx
  defines "a \<equiv> input ! prev" and "b \<equiv> input ! idx"
  assumes inv: "merge_inv input prev idx st" and "idx < length input" and cm: "can_merge a b"
  defines "out \<equiv> input[prev := a\<lparr>blk_len := u64 (blk_len a + blk_len b)\<rparr>, idx := b\<lparr>blk_len := 0\<rparr>]"
  shows "merge_inv out prev (idx + 1) st" and "copied out = copied input"
    and "total_len out = total_len input"
proof -
  have lt: "prev < idx" "prev < length input" and in64: "\<forall>x\<in>set input. block_in_64 x"
    using inv assms(4) by (auto simp: merge_inv_def)
  then have ab: "block_in_64 a" "block_in_64 b"
    using assms(4) by (auto simp: a_def b_def)
  note two = merge_two [OF ab cm]
  show "copied out = copied input"
    unfolding out_def using lt assms(4) two(3)
    by (intro copied_update2) (auto simp: a_def b_def block_bytes_def)
  show "total_len out = total_len input"
    unfolding out_def using lt assms(4) two(1)
    by (intro total_len_update2) (auto simp: a_def b_def)
  have b0: "block_in_64 (b\<lparr>blk_len := 0\<rparr>)"
    using ab(2) by (simp add: block_in_64_def)
  have live_out: "live (take (Suc prev) out) = live (take prev input) @ [out ! prev]"
    and live_in: "live (take (Suc prev) input) = live (take prev input) @ [a]"
    using inv lt two(1) by (auto simp: merge_inv_def out_def take_Suc_conv_app_nth a_def)
  have "can_merge x (out ! prev) = can_merge x a" for x
    using lt by (simp add: out_def can_merge_def a_def)
  then have "successively (\<lambda>x y. \<not> can_merge x y) (live (take (Suc prev) out))"
    using inv live_in live_out by (simp add: merge_inv_def successively_append_iff)
  moreover have "\<forall>x\<in>set out. block_in_64 x"
    using in64 two(2) b0 by (auto simp: out_def dest!: set_update_subset_insert [THEN subsetD])
  moreover have "\<forall>j. prev < j \<longrightarrow> j < idx + 1 \<longrightarrow> blk_len (out ! j) = 0"
    using inv assms(4) by (auto simp: merge_inv_def out_def nth_list_update less_Suc_eq)
  ultimately show "merge_inv out prev (idx + 1) st"
    using inv lt assms(4) two(1) by (auto simp: merge_inv_def out_def nth_list_update a_def)
qed

lemma merge_inv_advance:
  assumes inv: "merge_inv input prev idx st" and "idx < length input"
    and "\<not> can_merge (input ! prev) (input ! idx)"
  shows "merge_inv input idx (idx + 1) (add_stats (blk_len (input ! prev)) st)"
proof -
  have skip: "live (take idx input) = live (take prev input) @ [input ! prev]"
    using inv by (intro live_take_skip) (auto simp: merge_inv_def)
  have idx: "live (take (Suc idx) input) = live (take idx input) @ [input ! idx]"
    using inv assms(2) by (simp add: merge_inv_def take_Suc_conv_app_nth)
  have "live (take (Suc prev) input) = live (take prev input) @ [input ! prev]"
    using inv by (simp add: merge_inv_def take_Suc_conv_app_nth)
  then have "successively (\<lambda>x y. \<not> can_merge x y) (live (take (Suc idx) input))"
    using inv skip idx assms(3) by (simp add: merge_inv_def successively_append_iff)
  then show ?thesis
    using inv assms(2) skip by (auto simp: merge_inv_def stats_of_def less_Suc_eq)
qed

lemma merge_loop_inv:
  assumes "merge_inv input prev idx st" and "merge_loop input prev idx st = (out, prev', st')"
  shows "merge_inv out prev' (length out) st' \<and> copied out = copied input \<and>
    total_len out = total_len input"
  using assms
proof (induction input prev idx st rule: merge_loop.induct)
  case (1 input prev idx st)
  show ?case
  proof (cases "idx < length input")
    case False
    then have "idx = length input"
      using "1.prems"(1) by (simp add: merge_inv_def)
    with False "1.prems" show ?thesis
      by (auto simp: merge_loop.simps [of input])
  next
    case True
    show ?thesis
    proof (cases "can_merge (input ! prev) (input ! idx)")
      case cm: True
      note m = merge_inv_merge [OF "1.prems"(1) True cm]
      show ?thesis
        using "1.IH"(1) [OF True refl refl cm m(1)] "1.prems"(2) True cm m(2,3)
        by (simp add: merge_loop.simps [of input prev] Let_def)
    next
      case ncm: False
      note m = merge_inv_advance [OF "1.prems"(1) True ncm]
      show ?thesis
        using "1.IH"(2) [OF True refl refl ncm m] "1.prems"(2) True ncm
        by (simp add: merge_loop.simps [of input prev] Let_def)
    qed
  qed
qed

lemma merge_sorted_spec:
  assumes "\<forall>b\<in>set input. block_in_64 b \<and> blk_len b \<noteq> 0"
    and "merge_sorted input = (out, st)"
  shows "copied out = copied input \<and> total_len out = total_len input \<and>
    st = stats_of (live out) \<and> successively (\<lambda>a b. \<not> can_merge a b) (live out)"
proof (cases "input = []")
  case True
  with assms(2) show ?thesis
    by (auto simp: merge_sorted_def merge_loop.simps stats_of_def)
next
  case False
  obtain prev st' where loop: "merge_loop input 0 1 (SIZE_MAX, 0, 0, 0) = (out, prev, st')"
    and st: "st = (if prev < length out then add_stats (blk_len (out ! prev)) st' else st')"
    using assms(2) by (auto simp: merge_sorted_def split: prod.splits)
  have "merge_inv input 0 1 (SIZE_MAX, 0, 0, 0)"
    using False assms(1) by (cases input) (auto simp: merge_inv_def stats_of_def Suc_le_eq)
  from merge_loop_inv [OF this loop]
  have inv: "merge_inv out prev (length out) st'" and rest: "copied out = copied input"
    "total_len out = total_len input"
    by auto
  have last: "live out = live (take prev out) @ [out ! prev]"
    using inv live_take_skip [of prev "length out" out] by (simp add: merge_inv_def)
  moreover have "live (take (Suc prev) out) = live (take prev out) @ [out ! prev]"
    using inv by (simp add: merge_inv_def take_Suc_conv_app_nth)
  ultimately show ?thesis
    using inv rest st by (simp add: merge_inv_def stats_of_def)
qed

lemma stats_of_spec:
  assumes "stats_of bs = (mn, mx, tot, cnt)" and "total_len bs < 2 ^ 64" and "length bs < 2 ^ 64"
  shows "tot = total_len bs \<and> cnt = length bs \<and> (\<forall>b\<in>set bs. mn \<le> blk_len b \<and> blk_len b \<le> mx)"
  using assms
proof (induction bs arbitrary: mn mx tot cnt rule: rev_induct)
  case (snoc b bs)
  obtain mn' mx' tot' cnt' where st: "stats_of bs = (mn', mx', tot', cnt')"
    by (cases "stats_of bs") auto
  have "tot' = total_len bs \<and> cnt' = length bs \<and> (\<forall>b\<in>set bs. mn' \<le> blk_len b \<and> blk_len b \<le> mx')"
    using snoc.IH [OF st] snoc.prems by (simp add: total_len_def)
  then show ?case
    using snoc.prems st by (auto simp: stats_of_def add_stats_def total_len_def u64_id)
qed (simp add: stats_of_def total_len_def)

lemma length_live_le: "length (live bs) \<le> total_len bs"
  by (induction bs) (auto simp: total_len_def)

section \<open>Properties\<close>

text \<open>
  C32. \<open>validate_ipc_block_bounds\<close> accepts a list exactly when each descriptor is non-empty and its
  scaled range, computed without wrap-around, ends inside the buffer; otherwise it throws
  \<open>std::out_of_range\<close>.
\<close>

theorem validate_ipc_block_bounds_correct:
  assumes "capacity < 2 ^ 64"
  shows "validate_ipc_block_bounds bs capacity kind sc =
    (if \<forall>b\<in>set bs. 0 < blk_len b \<and> 0 < sc \<and>
          (if kind = SOURCE then src_offset b else dst_offset b) + blk_len b * sc \<le> capacity
     then Inr () else Inl OutOfRange)"
  using ipc_block_invalid_iff [OF assms] by (auto simp: validate_ipc_block_bounds_cases)

theorem validate_ipc_block_bounds_correct_witness:
  "validate_ipc_block_bounds [IpcBlock 4 0 6, IpcBlock 0 8 5] 16 SOURCE 2 = Inr () \<and>
   validate_ipc_block_bounds [IpcBlock 4 0 6, IpcBlock 7 8 5] 16 SOURCE 2 = Inl OutOfRange"
  using validate_ipc_block_bounds_correct [of 16 "[IpcBlock 4 0 6, IpcBlock 0 8 5]" SOURCE 2]
    validate_ipc_block_bounds_correct [of 16 "[IpcBlock 4 0 6, IpcBlock 7 8 5]" SOURCE 2]
  by simp



end
