(* ===== verification/ParseCommon.thy ===== *)
theory ParseCommon
  imports IpcBlocks
begin

text \<open>
  What all cache layouts share when a send task is turned into copy descriptors
  (\<open>include/parse_block_common.h\<close>, \<open>src/parse_block_common.cpp\<close>): the checked append, the layer
  capacities, the token loop of the equal-TP case, the per-token loop of the P greater D case and
  the zero fill.

  The theory also holds the two interfaces the layout theories are proved against:

  \<^item> the locale \<open>token_loop\<close>: a loop that walks the tokens \<open>wrote .. wrote + left\<close> chunk by chunk
    and emits descriptors for each chunk, with the laws under which the loop returns and the
    emitted descriptors copy the rows of exactly these tokens;
  \<^item> the judgement \<open>emits\<close>: whatever the input, a routine that returns has only appended
    descriptors that satisfy a predicate. With \<open>in_bounds\<close> it is the memory safety of the parsers.

  Vector growth (\<open>reserve\<close>) is not observable and is modelled by its division only. When a routine
  throws, the descriptors appended so far are lost to the caller: the task that runs the parser
  clears its vectors.
\<close>

section \<open>Checked append\<close>

record ipc_block_bounds =
  src_capacity :: nat
  dst_capacity :: nat
  src_length_scale :: nat
  bounds_cache_idx :: nat

definition append_ipc_block_checked ::
  "ipc_block list \<Rightarrow> ipc_block_bounds \<Rightarrow> nat \<Rightarrow> nat \<Rightarrow> nat \<Rightarrow> ipc_block list result" where
  "append_ipc_block_checked blocks bounds s_off d_off len =
     (let src_length_overflow =
            (src_length_scale bounds = 0 \<or> len > SIZE_MAX div src_length_scale bounds);
          effective_src_length =
            (if src_length_overflow then SIZE_MAX else u64 (len * src_length_scale bounds));
          src_invalid = (len = 0 \<or> src_length_overflow \<or> s_off > src_capacity bounds \<or>
            effective_src_length > src_capacity bounds - s_off);
          dst_invalid = (len = 0 \<or> d_off > dst_capacity bounds \<or>
            len > dst_capacity bounds - d_off)
      in if src_invalid \<or> dst_invalid then Inl OutOfRange
         else Inr (blocks @ [IpcBlock s_off d_off len]))"

definition checked_layer_capacity :: "worker_info \<Rightarrow> nat \<Rightarrow> nat result" where
  "checked_layer_capacity info cache_idx =
     (if cache_idx \<ge> length (block_sizes info) \<or> layer_num_blocks info = 0 then Inl OutOfRange
      else (let block_size = block_sizes info ! cache_idx
            in if block_size > SIZE_MAX div layer_num_blocks info then Inl OverflowError
               else Inr (u64 (block_size * layer_num_blocks info))))"

definition make_ipc_block_bounds ::
  "kvt_env \<Rightarrow> worker_info \<Rightarrow> worker_info \<Rightarrow> nat \<Rightarrow> ipc_block_bounds result" where
  "make_ipc_block_bounds env src_worker_info dst_worker_info cache_idx =
     rbind (checked_layer_capacity src_worker_info cache_idx) (\<lambda>src_cap.
     rbind (checked_layer_capacity dst_worker_info cache_idx) (\<lambda>dst_cap.
     Inr \<lparr> src_capacity = src_cap, dst_capacity = dst_cap,
           src_length_scale = (if env_bf162fp8_conversion env then 2 else 1),
           bounds_cache_idx = cache_idx \<rparr>))"

text \<open>The type of the layout parsers, \<open>ParseBlockFunc\<close>; the bitset \<open>valid_ranks\<close> is a list of bits.\<close>

type_synonym parse_block_func =
  "kvt_env \<Rightarrow> worker_info \<Rightarrow> worker_info \<Rightarrow> bool list \<Rightarrow> nat \<Rightarrow> nat \<Rightarrow> req_send_task \<Rightarrow>
   ipc_block list list \<Rightarrow> ipc_block list list result"

text \<open>A parser working on the descriptor vector of one cache tensor, \<open>send_blocks.at(i)\<close>.\<close>

definition on_cache ::
  "nat \<Rightarrow> (ipc_block list \<Rightarrow> ipc_block list result) \<Rightarrow> ipc_block list list \<Rightarrow> ipc_block list list result" where
  "on_cache i f send_blocks =
     vec_at send_blocks i (\<lambda>per_cache. rbind (f per_cache) (\<lambda>out. Inr (send_blocks[i := out])))"

lemma append_ipc_block_checked_Inr_iff:
  assumes "src_capacity bounds < 2 ^ 64"
  shows "append_ipc_block_checked blocks bounds s d len = Inr out \<longleftrightarrow>
    0 < len \<and> 0 < src_length_scale bounds \<and>
    s + len * src_length_scale bounds \<le> src_capacity bounds \<and> d + len \<le> dst_capacity bounds \<and>
    out = blocks @ [IpcBlock s d len]"
proof (cases "src_length_scale bounds = 0 \<or> SIZE_MAX < len * src_length_scale bounds")
  case True
  then show ?thesis
    using assms by (auto simp: append_ipc_block_checked_def Let_def div_less_iff_less_mult)
next
  case False
  then have "u64 (len * src_length_scale bounds) = len * src_length_scale bounds"
    by (intro u64_id) simp
  with False show ?thesis
    by (auto simp: append_ipc_block_checked_def Let_def div_less_iff_less_mult not_less)
qed

lemma append_ipc_block_checked_pos:
  "append_ipc_block_checked blocks bounds s d len = Inr out \<Longrightarrow> 0 < len"
  by (auto simp: append_ipc_block_checked_def Let_def split: if_splits)

section \<open>Parsing loops\<close>

subsection \<open>Equal TP sizes\<close>

function p_eq_d_loop ::
  "bool \<Rightarrow> nat \<Rightarrow> nat \<Rightarrow> nat \<Rightarrow> nat \<Rightarrow> nat list \<Rightarrow> nat list \<Rightarrow> ipc_block_bounds \<Rightarrow>
   nat \<Rightarrow> nat \<Rightarrow> ipc_block list \<Rightarrow> ipc_block list result" where
  "p_eq_d_loop nd block_size token_size src_ntpb dst_ntpb sblocks dblocks bounds wrote left out =
     (if left > 0 then
        ck_div wrote src_ntpb (\<lambda>src_block_idx.
        ck_mod wrote src_ntpb (\<lambda>src_token_idx.
        c_assert nd (src_block_idx < length sblocks) (
        vec_at sblocks src_block_idx (\<lambda>src_blk.
        let s_off = u64 (src_blk * block_size + src_token_idx * token_size);
            tokens = min (src_ntpb - src_token_idx) left in
        ck_div wrote dst_ntpb (\<lambda>dst_block_idx.
        ck_mod wrote dst_ntpb (\<lambda>dst_token_idx.
        c_assert nd (dst_block_idx < length dblocks) (
        vec_at dblocks dst_block_idx (\<lambda>dst_blk.
        let d_off = u64 (dst_blk * block_size + dst_token_idx * token_size);
            len = u64 (tokens * token_size) in
        rbind (append_ipc_block_checked out bounds s_off d_off len) (\<lambda>out'.
        p_eq_d_loop nd block_size token_size src_ntpb dst_ntpb sblocks dblocks bounds
          (u32 (wrote + tokens)) (left - tokens) out')))))))))
      else Inr out)"
  by pat_completeness auto
termination
  by (relation "measure (\<lambda>(_, _, _, _, _, _, _, _, _, left, _). left)") auto

declare p_eq_d_loop.simps [simp del]

definition do_parse_block_send_p_eq_d ::
  "kvt_env \<Rightarrow> nat \<Rightarrow> nat \<Rightarrow> req_send_task \<Rightarrow> ipc_block_bounds \<Rightarrow> ipc_block list \<Rightarrow>
   ipc_block list result" where
  "do_parse_block_send_p_eq_d env block_size token_size task bounds out =
     ck_div block_size token_size (\<lambda>q.
     let src_ntpb = u32 q; dst_ntpb = src_ntpb in
     c_assert (ndebug env) (u64 (src_ntpb * token_size) = block_size) (
     vec_idx (src_blocks task) 0 (\<lambda>sblocks.
     vec_idx (dst_blocks task) 0 (\<lambda>dblocks.
     ck_div (new_tokens task) src_ntpb (\<lambda>_.
     p_eq_d_loop (ndebug env) block_size token_size src_ntpb dst_ntpb sblocks dblocks bounds
       (seen_tokens task) (new_tokens task) out)))))"

subsection \<open>One descriptor per token\<close>

text \<open>The body of the inner loop, for the token \<open>token_idx\<close> of the current pair of blocks.\<close>

definition send_gt_token ::
  "nat \<Rightarrow> nat \<Rightarrow> nat \<Rightarrow> nat \<Rightarrow> nat \<Rightarrow> nat \<Rightarrow> ipc_block_bounds \<Rightarrow> bool \<Rightarrow> nat \<Rightarrow>
   ipc_block list \<Rightarrow> ipc_block list result" where
  "send_gt_token p_token_size p_k_size d_token_size group_off p_blk_off d_blk_off bounds swap token_idx out =
     (let pk_token_off = u64 (p_blk_off + token_idx * p_token_size);
          d_token_off = u64 (d_blk_off + token_idx * d_token_size);
          dk_token_off = u64 (d_token_off + group_off * p_k_size)
      in append_ipc_block_checked out bounds
           (if swap then dk_token_off else pk_token_off)
           (if swap then pk_token_off else dk_token_off) p_k_size)"

function send_gt_loop ::
  "bool \<Rightarrow> nat \<Rightarrow> nat \<Rightarrow> nat \<Rightarrow> nat \<Rightarrow> nat \<Rightarrow> nat \<Rightarrow> nat \<Rightarrow> nat list \<Rightarrow> nat list \<Rightarrow>
   ipc_block_bounds \<Rightarrow> bool \<Rightarrow> nat \<Rightarrow> nat \<Rightarrow> ipc_block list \<Rightarrow> ipc_block list result" where
  "send_gt_loop nd p_token_size p_k_size d_token_size ntpb group_off p_block_size d_block_size
     p_blocks d_blocks bounds swap wrote left out =
     (if left > 0 then
        ck_div wrote ntpb (\<lambda>block_idx.
        c_assert nd (block_idx < length p_blocks \<and> block_idx < length d_blocks) (
        ck_mod wrote ntpb (\<lambda>token_idx_base.
        vec_at p_blocks block_idx (\<lambda>p_blk.
        vec_at d_blocks block_idx (\<lambda>d_blk.
        let p_blk_off = u64 (p_blk * p_block_size);
            d_blk_off = u64 (d_blk * d_block_size);
            tokens = min (ntpb - token_idx_base) left in
        rbind (rfold (\<lambda>idx. send_gt_token p_token_size p_k_size d_token_size group_off
                 p_blk_off d_blk_off bounds swap (u32 (token_idx_base + idx))) [0..<tokens] out)
          (\<lambda>out'.
        send_gt_loop nd p_token_size p_k_size d_token_size ntpb group_off p_block_size d_block_size
          p_blocks d_blocks bounds swap (u32 (wrote + tokens)) (left - tokens) out'))))))
      else Inr out)"
  by pat_completeness auto
termination
  by (relation "measure (\<lambda>(_, _, _, _, _, _, _, _, _, _, _, _, _, left, _). left)") auto

declare send_gt_loop.simps [simp del]

definition parse_block_send_gt ::
  "kvt_env \<Rightarrow> nat \<Rightarrow> nat \<Rightarrow> nat \<Rightarrow> nat \<Rightarrow> nat \<Rightarrow> nat list \<Rightarrow> nat list \<Rightarrow> nat \<Rightarrow> nat \<Rightarrow>
   ipc_block_bounds \<Rightarrow> bool \<Rightarrow> ipc_block list \<Rightarrow> ipc_block list result" where
  "parse_block_send_gt env p_token_size p_k_size d_token_size ntpb group_off p_blocks d_blocks
     wrote left bounds swap out =
     c_assert (ndebug env) (p_k_size = p_token_size \<or> u64 (p_k_size * 2) = p_token_size) (
     let p_block_size = u64 (p_token_size * ntpb);
         d_block_size = u64 (d_token_size * ntpb);
         p_k_size' = (if env_bf162fp8_conversion env then p_k_size div 2 else p_k_size) in
     send_gt_loop (ndebug env) p_token_size p_k_size' d_token_size ntpb group_off
       p_block_size d_block_size p_blocks d_blocks bounds swap wrote left out)"

subsection \<open>Zero fill\<close>

function zero_fill_loop ::
  "nat \<Rightarrow> nat \<Rightarrow> nat \<Rightarrow> nat \<Rightarrow> ipc_block_bounds \<Rightarrow> nat \<Rightarrow> ipc_block list \<Rightarrow> ipc_block list result" where
  "zero_fill_loop zero_src_off dst_off len max_seg bounds done out =
     (if done < len then
        (let seg = min max_seg (len - done) in
         rbind (append_ipc_block_checked out bounds zero_src_off (u64 (dst_off + done)) seg)
           (zero_fill_loop zero_src_off dst_off len max_seg bounds (done + seg)))
      else Inr out)"
  by pat_completeness auto
termination
  by (relation "measure (\<lambda>(_, _, len, _, _, done, _). len - done)")
    (auto dest: append_ipc_block_checked_pos)

declare zero_fill_loop.simps [simp del]

definition emit_zero_fill_segments ::
  "kvt_env \<Rightarrow> nat \<Rightarrow> nat \<Rightarrow> nat \<Rightarrow> nat \<Rightarrow> ipc_block_bounds \<Rightarrow> ipc_block list \<Rightarrow> ipc_block list result" where
  "emit_zero_fill_segments env zero_src_off dst_off len max_seg bounds out =
     c_assert (ndebug env) (max_seg > 0)
       (zero_fill_loop zero_src_off dst_off len max_seg bounds 0 out)"

section \<open>Whatever is emitted is in bounds\<close>

named_theorems emits_intros \<open>compositional rules of the judgement emits\<close>

definition emits :: "('b \<Rightarrow> bool) \<Rightarrow> 'b list \<Rightarrow> 'b list result \<Rightarrow> bool" where
  "emits P bs r \<longleftrightarrow> (\<forall>out. r = Inr out \<longrightarrow> (\<exists>new. out = bs @ new \<and> (\<forall>b\<in>set new. P b)))"

lemma emitsD: "emits P bs r \<Longrightarrow> r = Inr out \<Longrightarrow> \<exists>new. out = bs @ new \<and> (\<forall>b\<in>set new. P b)"
  by (simp add: emits_def)

lemma emits_Inl [emits_intros]: "emits P bs (Inl e)"
  by (simp add: emits_def)

lemma emits_Inr [emits_intros]: "emits P bs (Inr bs)"
  by (simp add: emits_def)

lemma emits_c_assert [emits_intros]: "emits P bs k \<Longrightarrow> emits P bs (c_assert nd b k)"
  by (simp add: c_assert_def emits_def)

lemma emits_c_assert_mod0 [emits_intros]: "emits P bs k \<Longrightarrow> emits P bs (c_assert_mod0 nd a b k)"
  by (simp add: c_assert_mod0_def c_assert_def emits_def)

lemma emits_rt_assert [emits_intros]: "(b \<Longrightarrow> emits P bs k) \<Longrightarrow> emits P bs (rt_assert b k)"
  by (simp add: rt_assert_def emits_def)

lemma emits_ck_div [emits_intros]:
  "(b \<noteq> 0 \<Longrightarrow> emits P bs (k (a div b))) \<Longrightarrow> emits P bs (ck_div a b k)"
  by (simp add: ck_div_def emits_def)

lemma emits_ck_mod [emits_intros]:
  "(b \<noteq> 0 \<Longrightarrow> emits P bs (k (a mod b))) \<Longrightarrow> emits P bs (ck_mod a b k)"
  by (simp add: ck_mod_def emits_def)

lemma emits_vec_at [emits_intros]:
  "(i < length xs \<Longrightarrow> emits P bs (k (xs ! i))) \<Longrightarrow> emits P bs (vec_at xs i k)"
  by (simp add: vec_at_def emits_def)

lemma emits_vec_idx [emits_intros]:
  "(i < length xs \<Longrightarrow> emits P bs (k (xs ! i))) \<Longrightarrow> emits P bs (vec_idx xs i k)"
  by (simp add: vec_idx_def emits_def)

lemma emits_if [emits_intros]:
  "(c \<Longrightarrow> emits P bs r) \<Longrightarrow> (\<not> c \<Longrightarrow> emits P bs r') \<Longrightarrow> emits P bs (if c then r else r')"
  by simp

lemma emits_Let [emits_intros]: "emits P bs (f x) \<Longrightarrow> emits P bs (Let x f)"
  by simp

lemma emits_rbind [emits_intros]:
  assumes "emits P bs m" and "\<And>bs'. m = Inr bs' \<Longrightarrow> emits P bs' (f bs')"
  shows "emits P bs (rbind m f)"
  using assms by (fastforce simp: emits_def rbind_eq_Inr_iff)

lemma emits_rfold [emits_intros]:
  assumes "\<And>x s. x \<in> set xs \<Longrightarrow> emits P s (f x s)"
  shows "emits P s (rfold f xs s)"
  using assms by (induction xs arbitrary: s) (auto intro!: emits_intros)

definition in_bounds :: "ipc_block_bounds \<Rightarrow> ipc_block \<Rightarrow> bool" where
  "in_bounds bounds b \<longleftrightarrow> 0 < blk_len b \<and>
     src_offset b + blk_len b * src_length_scale bounds \<le> src_capacity bounds \<and>
     dst_offset b + blk_len b \<le> dst_capacity bounds"

lemma emits_append [emits_intros]:
  "src_capacity bounds < 2 ^ 64 \<Longrightarrow>
   emits (in_bounds bounds) out (append_ipc_block_checked out bounds s d len)"
  by (simp add: emits_def in_bounds_def append_ipc_block_checked_Inr_iff)

lemma emits_p_eq_d_loop:
  assumes "src_capacity bounds < 2 ^ 64"
  shows "emits (in_bounds bounds) out
    (p_eq_d_loop nd block_size token_size src_ntpb dst_ntpb sblocks dblocks bounds wrote left out)"
  using assms
proof (induction nd block_size token_size src_ntpb dst_ntpb sblocks dblocks bounds wrote left out
    rule: p_eq_d_loop.induct)
  case (1 nd block_size token_size src_ntpb dst_ntpb sblocks dblocks bounds wrote left out)
  then show ?case
    by (subst p_eq_d_loop.simps) (intro emits_intros; simp)
qed

lemma emits_parse_p_eq_d:
  "src_capacity bounds < 2 ^ 64 \<Longrightarrow>
   emits (in_bounds bounds) out (do_parse_block_send_p_eq_d env bsz tsz task bounds out)"
  unfolding do_parse_block_send_p_eq_d_def by (intro emits_intros emits_p_eq_d_loop)

lemma emits_send_gt_loop:
  assumes "src_capacity bounds < 2 ^ 64"
  shows "emits (in_bounds bounds) out
    (send_gt_loop nd p_token_size p_k_size d_token_size ntpb group_off p_block_size d_block_size
       p_blocks d_blocks bounds swap wrote left out)"
  using assms
proof (induction nd p_token_size p_k_size d_token_size ntpb group_off p_block_size d_block_size
    p_blocks d_blocks bounds swap wrote left out rule: send_gt_loop.induct)
  case (1 nd p_token_size p_k_size d_token_size ntpb group_off p_block_size d_block_size
    p_blocks d_blocks bounds swap wrote left out)
  then show ?case
    by (subst send_gt_loop.simps) (unfold send_gt_token_def, intro emits_intros; simp)
qed

lemma emits_parse_block_send_gt:
  "src_capacity bounds < 2 ^ 64 \<Longrightarrow>
   emits (in_bounds bounds) out (parse_block_send_gt env pt pk dt ntpb goff ps ds w l bounds swap out)"
  unfolding parse_block_send_gt_def by (intro emits_intros emits_send_gt_loop)

lemma emits_zero_fill_loop:
  assumes "src_capacity bounds < 2 ^ 64"
  shows "emits (in_bounds bounds) out (zero_fill_loop z d len max_seg bounds done out)"
  using assms
proof (induction z d len max_seg bounds "done" out rule: zero_fill_loop.induct)
  case (1 z d len max_seg bounds "done" out)
  then show ?case
    by (subst zero_fill_loop.simps) (intro emits_intros; simp)
qed

lemma emits_emit_zero_fill:
  "src_capacity bounds < 2 ^ 64 \<Longrightarrow>
   emits (in_bounds bounds) out (emit_zero_fill_segments env z d len max_seg bounds out)"
  unfolding emit_zero_fill_segments_def by (intro emits_intros emits_zero_fill_loop)

section \<open>Loops over tokens\<close>

locale token_loop =
  fixes loop :: "nat \<Rightarrow> nat \<Rightarrow> ipc_block list \<Rightarrow> ipc_block list result"
    and wf :: "nat \<Rightarrow> nat \<Rightarrow> bool"
    and chunk :: "nat \<Rightarrow> nat \<Rightarrow> nat"
    and body :: "nat \<Rightarrow> nat \<Rightarrow> ipc_block list"
    and row :: "nat \<Rightarrow> (nat \<times> nat) set"
    and tlen :: nat
    and origin :: "nat \<Rightarrow> ipc_block \<Rightarrow> bool"
  assumes loop_done: "loop w 0 bs = Inr bs"
    and loop_step: "wf w l \<Longrightarrow> 0 < l \<Longrightarrow>
      loop w l bs = loop (w + chunk w l) (l - chunk w l) (bs @ body w l)"
    and chunk_bounds: "wf w l \<Longrightarrow> 0 < l \<Longrightarrow> 0 < chunk w l \<and> chunk w l \<le> l"
    and wf_step: "wf w l \<Longrightarrow> 0 < l \<Longrightarrow> wf (w + chunk w l) (l - chunk w l)"
    and body_rows: "wf w l \<Longrightarrow> 0 < l \<Longrightarrow>
      copied (body w l) = (\<Union>i\<in>{w..<w + chunk w l}. row i)"
    and body_len: "wf w l \<Longrightarrow> 0 < l \<Longrightarrow> total_len (body w l) = chunk w l * tlen"
    and body_origin: "wf w l \<Longrightarrow> 0 < l \<Longrightarrow> b \<in> set (body w l) \<Longrightarrow>
      \<exists>i\<in>{w..<w + chunk w l}. origin i b"
begin

theorem loop_copies:
  assumes "wf w l"
  shows "\<exists>out. loop w l bs = Inr (bs @ out) \<and> copied out = (\<Union>i\<in>{w..<w + l}. row i) \<and>
    total_len out = l * tlen \<and> (\<forall>b\<in>set out. \<exists>i\<in>{w..<w + l}. origin i b)"
  using assms
proof (induction l arbitrary: w bs rule: less_induct)
  case (less l)
  show ?case
  proof (cases "l = 0")
    case True
    then show ?thesis
      by (simp add: loop_done total_len_def)
  next
    case False
    let ?c = "chunk w l"
    have c: "0 < ?c" "?c \<le> l"
      using chunk_bounds [OF less.prems] False by auto
    have wf': "wf (w + ?c) (l - ?c)"
      using wf_step [OF less.prems] False by simp
    obtain out where out: "loop (w + ?c) (l - ?c) (bs @ body w l) = Inr ((bs @ body w l) @ out)"
      "copied out = (\<Union>i\<in>{w + ?c..<w + ?c + (l - ?c)}. row i)"
      "total_len out = (l - ?c) * tlen" "\<forall>b\<in>set out. \<exists>i\<in>{w + ?c..<w + ?c + (l - ?c)}. origin i b"
      using less.IH [OF _ wf', of "bs @ body w l"] c by auto
    have "loop w l bs = Inr (bs @ (body w l @ out))"
      using loop_step [OF less.prems] False out(1) by simp
    moreover have "copied (body w l @ out) = (\<Union>i\<in>{w..<w + l}. row i)"
      using body_rows [OF less.prems] False out(2) c
      by (subst UN_split_interval [of w "w + ?c" "w + l"]) simp_all
    moreover have "total_len (body w l @ out) = l * tlen"
      using body_len [OF less.prems] False out(3) c(2)
      by (simp add: total_len_def add_mult_distrib [symmetric])
    moreover have "\<forall>b\<in>set (body w l @ out). \<exists>i\<in>{w..<w + l}. origin i b"
      using body_origin [OF less.prems] False out(4) c by fastforce
    ultimately show ?thesis
      by blast
  qed
qed

end

text \<open>
  The byte offset of token \<open>i\<close> in a paged cache, and the well-formedness of a block table for the
  tokens of a task.
\<close>

definition slot :: "nat \<Rightarrow> nat \<Rightarrow> nat \<Rightarrow> nat list \<Rightarrow> nat \<Rightarrow> nat" where
  "slot ntpb block_size token_size blocks i =
     blocks ! (i div ntpb) * block_size + i mod ntpb * token_size"

definition table_ok :: "nat \<Rightarrow> nat list \<Rightarrow> nat \<Rightarrow> nat \<Rightarrow> nat \<Rightarrow> bool" where
  "table_ok ntpb blocks nblk w l \<longleftrightarrow>
     (\<forall>i. w \<le> i \<longrightarrow> i < w + l \<longrightarrow> i div ntpb < length blocks \<and> blocks ! (i div ntpb) < nblk)"

lemma table_ok_at:
  "table_ok ntpb blocks nblk w l \<Longrightarrow> 0 < l \<Longrightarrow>
   w div ntpb < length blocks \<and> blocks ! (w div ntpb) < nblk"
  by (auto simp: table_ok_def)

lemma table_ok_shift:
  "table_ok ntpb blocks nblk w l \<Longrightarrow> c \<le> l \<Longrightarrow> table_ok ntpb blocks nblk (w + c) (l - c)"
  by (auto simp: table_ok_def)

text \<open>A chunk of tokens inside one block: its slots are equally spaced.\<close>

lemma slot_chunk:
  assumes "k < ntpb - w mod ntpb" and "0 < ntpb"
  shows "slot ntpb bsz tsz blocks (w + k) = slot ntpb bsz tsz blocks w + k * tsz"
  using mod_add_chunk [OF assms] by (simp add: slot_def algebra_simps)

lemma run_chunk:
  assumes "c \<le> ntpb - w mod ntpb" and "c \<le> ntpb' - w mod ntpb'" and "0 < ntpb" and "0 < ntpb'"
  shows "run (slot ntpb bsz tsz bl w) (slot ntpb' bsz' tsz bl' w) (c * tsz) =
    (\<Union>i\<in>{w..<w + c}. run (slot ntpb bsz tsz bl i) (slot ntpb' bsz' tsz bl' i) tsz)"
proof -
  have "(\<Union>i\<in>{w..<w + c}. run (slot ntpb bsz tsz bl i) (slot ntpb' bsz' tsz bl' i) tsz) =
      (\<Union>k<c. run (slot ntpb bsz tsz bl (w + k)) (slot ntpb' bsz' tsz bl' (w + k)) tsz)"
    by (rule UN_shift)
  also have "\<dots> = (\<Union>k<c. run (slot ntpb bsz tsz bl w + k * tsz) (slot ntpb' bsz' tsz bl' w + k * tsz) tsz)"
    using assms by (intro SUP_cong) (auto simp: slot_chunk)
  finally show ?thesis
    by (simp add: run_tokens)
qed

lemma slot_end_bound:
  assumes "bl ! (w div ntpb) < nblk" and "c \<le> ntpb - w mod ntpb" and "0 < ntpb" and "ntpb * tsz \<le> bsz"
  shows "slot ntpb bsz tsz bl w + c * tsz \<le> bsz * nblk"
proof -
  have "w mod ntpb + c \<le> ntpb"
    using assms(2,3) mod_less_divisor [of ntpb w] by linarith
  then have "w mod ntpb * tsz + c * tsz \<le> ntpb * tsz"
    by (rule mult_idx_bound)
  then show ?thesis
    using mult_block_bound [OF assms(1), of "w mod ntpb * tsz" "c * tsz" bsz] assms(4)
    by (simp add: slot_def)
qed


definition eqd_wf ::
  "nat \<Rightarrow> nat \<Rightarrow> nat \<Rightarrow> nat list \<Rightarrow> nat list \<Rightarrow> ipc_block_bounds \<Rightarrow> nat \<Rightarrow> nat \<Rightarrow> nat \<Rightarrow> nat \<Rightarrow> bool" where
  "eqd_wf bsz tsz ntpb sb db bounds nsrc ndst w l \<longleftrightarrow>
     0 < ntpb \<and> 0 < tsz \<and> ntpb * tsz \<le> bsz \<and> bsz * nsrc \<le> src_capacity bounds \<and>
     bsz * ndst \<le> dst_capacity bounds \<and> src_length_scale bounds = 1 \<and>
     src_capacity bounds < 2 ^ 64 \<and> dst_capacity bounds < 2 ^ 64 \<and> w + l < 2 ^ 32 \<and>
     table_ok ntpb sb nsrc w l \<and> table_ok ntpb db ndst w l"

abbreviation eqd_chunk :: "nat \<Rightarrow> nat \<Rightarrow> nat \<Rightarrow> nat" where
  "eqd_chunk ntpb w l \<equiv> min (ntpb - w mod ntpb) l"

abbreviation eqd_body :: "nat \<Rightarrow> nat \<Rightarrow> nat \<Rightarrow> nat list \<Rightarrow> nat list \<Rightarrow> nat \<Rightarrow> nat \<Rightarrow> ipc_block list" where
  "eqd_body bsz tsz ntpb sb db w l \<equiv>
     [IpcBlock (slot ntpb bsz tsz sb w) (slot ntpb bsz tsz db w) (eqd_chunk ntpb w l * tsz)]"

definition eqd_origin ::
  "nat \<Rightarrow> nat \<Rightarrow> nat \<Rightarrow> nat list \<Rightarrow> nat list \<Rightarrow> nat \<Rightarrow> ipc_block \<Rightarrow> bool" where
  "eqd_origin bsz tsz ntpb sb db i b \<longleftrightarrow>
     (\<exists>c. 0 < c \<and> c \<le> ntpb - i mod ntpb \<and>
       b = IpcBlock (slot ntpb bsz tsz sb i) (slot ntpb bsz tsz db i) (c * tsz))"

lemma eqd_step:
  assumes wf: "eqd_wf bsz tsz ntpb sb db bounds nsrc ndst w l" and "0 < l"
  shows "p_eq_d_loop nd bsz tsz ntpb ntpb sb db bounds w l bs =
    p_eq_d_loop nd bsz tsz ntpb ntpb sb db bounds (w + eqd_chunk ntpb w l) (l - eqd_chunk ntpb w l)
      (bs @ eqd_body bsz tsz ntpb sb db w l)"
proof -
  let ?c = "eqd_chunk ntpb w l"
  note d = wf [unfolded eqd_wf_def]
  have sb: "w div ntpb < length sb" "sb ! (w div ntpb) < nsrc"
    and db: "w div ntpb < length db" "db ! (w div ntpb) < ndst"
    using d assms(2) by (auto dest: table_ok_at)
  have se: "slot ntpb bsz tsz sb w + ?c * tsz \<le> src_capacity bounds"
    using slot_end_bound [OF sb(2), of ?c tsz bsz] d by auto
  have de: "slot ntpb bsz tsz db w + ?c * tsz \<le> dst_capacity bounds"
    using slot_end_bound [OF db(2), of ?c tsz bsz] d by auto
  have u: "u64 (slot ntpb bsz tsz sb w) = slot ntpb bsz tsz sb w"
    "u64 (slot ntpb bsz tsz db w) = slot ntpb bsz tsz db w"
    "u64 (?c * tsz) = ?c * tsz" "u32 (w + ?c) = w + ?c"
    using se de d by (auto intro!: u64_id u32_id)
  have "0 < ?c * tsz"
    using d assms(2) by simp
  then have app: "append_ipc_block_checked bs bounds (slot ntpb bsz tsz sb w) (slot ntpb bsz tsz db w) (?c * tsz) =
      Inr (bs @ eqd_body bsz tsz ntpb sb db w l)"
    using se de d by (simp add: append_ipc_block_checked_Inr_iff)
  show ?thesis
    using d assms(2) sb(1) db(1) u app
    by (subst p_eq_d_loop.simps) (simp add: slot_def Let_def)
qed

interpretation eqd: token_loop "p_eq_d_loop nd bsz tsz ntpb ntpb sb db bounds"
  "eqd_wf bsz tsz ntpb sb db bounds nsrc ndst" "eqd_chunk ntpb" "eqd_body bsz tsz ntpb sb db"
  "\<lambda>i. run (slot ntpb bsz tsz sb i) (slot ntpb bsz tsz db i) tsz" tsz "eqd_origin bsz tsz ntpb sb db"
  for nd bsz tsz ntpb sb db bounds nsrc ndst
proof (unfold_locales, goal_cases)
  case (1 w bs)
  show ?case
    by (simp add: p_eq_d_loop.simps)
next
  case (2 w l bs)
  then show ?case
    by (rule eqd_step)
next
  case (3 w l)
  then show ?case
    by (simp add: eqd_wf_def)
next
  case (4 w l)
  then show ?case
    by (auto simp: eqd_wf_def intro!: table_ok_shift)
next
  case (5 w l)
  then show ?case
    using run_chunk [of "eqd_chunk ntpb w l" ntpb w ntpb bsz tsz sb bsz db] by (simp add: eqd_wf_def)
next
  case (6 w l)
  show ?case
    by (simp add: total_len_def)
next
  case (7 w l b)
  then have "eqd_origin bsz tsz ntpb sb db w b"
    by (auto simp: eqd_wf_def eqd_origin_def intro!: exI [of _ "eqd_chunk ntpb w l"])
  with 7 show ?case
    by (intro bexI [of _ w]) (auto simp: eqd_wf_def)
qed

lemma do_parse_p_eq_d_copies:
  assumes "0 < token_size" and "block_size div token_size < 2 ^ 32" and "block_size < 2 ^ 64"
    and "token_size dvd block_size" and "src_blocks task \<noteq> []" and "dst_blocks task \<noteq> []"
    and "eqd_wf block_size token_size (block_size div token_size) (src_blocks task ! 0)
      (dst_blocks task ! 0) bounds nsrc ndst (seen_tokens task) (new_tokens task)"
  shows "\<exists>out. do_parse_block_send_p_eq_d env block_size token_size task bounds bs = Inr (bs @ out) \<and>
    copied out = (\<Union>i\<in>{seen_tokens task..<seen_tokens task + new_tokens task}.
      run (slot (block_size div token_size) block_size token_size (src_blocks task ! 0) i)
          (slot (block_size div token_size) block_size token_size (dst_blocks task ! 0) i) token_size) \<and>
    total_len out = new_tokens task * token_size \<and>
    (\<forall>b\<in>set out. \<exists>i\<in>{seen_tokens task..<seen_tokens task + new_tokens task}.
      eqd_origin block_size token_size (block_size div token_size) (src_blocks task ! 0)
        (dst_blocks task ! 0) i b)"
  using assms eqd.loop_copies [OF assms(7), of "ndebug env" bs]
  by (simp add: do_parse_block_send_p_eq_d_def u32_id u64_id eqd_wf_def Let_def)

subsection \<open>Per-token descriptors\<close>

text \<open>Repeating a stretch of the vector with each descriptor rewritten.\<close>

lemma rfold_dup:
  assumes "\<And>b out. b \<in> set new \<Longrightarrow> g b out = Inr (out @ [f b])"
  shows "rfold (\<lambda>idx out. vec_at out idx (\<lambda>b. g b out)) [length bs..<length bs + length new] (bs @ new) =
    Inr (bs @ new @ map f new)"
proof -
  have "rfold (\<lambda>idx out. vec_at out idx (\<lambda>b. g b out)) [length bs + k..<length bs + length new]
      (bs @ new @ ys) = Inr (bs @ new @ ys @ map f (drop k new))" if "k \<le> length new" for k ys
    using that
  proof (induction "length new - k" arbitrary: k ys)
    case (Suc n)
    then have k: "k < length new"
      by simp
    have "rfold (\<lambda>idx out. vec_at out idx (\<lambda>b. g b out)) [length bs + Suc k..<length bs + length new]
        (bs @ new @ (ys @ [f (new ! k)])) = Inr (bs @ new @ (ys @ [f (new ! k)]) @ map f (drop (Suc k) new))"
      using Suc k by (intro Suc.hyps(1)) auto
    then show ?case
      using k assms [of "new ! k" "bs @ new @ ys"]
      by (simp add: upt_rec [of "length bs + k"] nth_append Cons_nth_drop_Suc [symmetric])
  qed simp
  from this [of 0 "[]"] show ?thesis
    by simp
qed

lemma slot_field_bound:
  assumes "bl ! (i div ntpb) < nblk" and "off + len \<le> tsz" and "0 < ntpb" and "ntpb * tsz \<le> bsz"
  shows "slot ntpb bsz tsz bl i + off + len \<le> bsz * nblk"
  using slot_end_bound [of bl i ntpb nblk 1 tsz bsz] assms by (simp add: Suc_leI)

definition gt_wf ::
  "nat \<Rightarrow> nat \<Rightarrow> nat \<Rightarrow> nat \<Rightarrow> nat \<Rightarrow> nat \<Rightarrow> nat \<Rightarrow> nat list \<Rightarrow> nat list \<Rightarrow> ipc_block_bounds \<Rightarrow> bool \<Rightarrow>
   nat \<Rightarrow> nat \<Rightarrow> nat \<Rightarrow> nat \<Rightarrow> bool" where
  "gt_wf pt pk dt ntpb goff pbsz dbsz pb db bounds swap np nd w l \<longleftrightarrow>
     0 < ntpb \<and> 0 < pk \<and> pk \<le> pt \<and> goff * pk + pk \<le> dt \<and> ntpb * pt \<le> pbsz \<and> ntpb * dt \<le> dbsz \<and>
     pbsz * np \<le> (if swap then dst_capacity bounds else src_capacity bounds) \<and>
     dbsz * nd \<le> (if swap then src_capacity bounds else dst_capacity bounds) \<and>
     src_length_scale bounds = 1 \<and> src_capacity bounds < 2 ^ 64 \<and> dst_capacity bounds < 2 ^ 64 \<and>
     ntpb < 2 ^ 32 \<and> w + l < 2 ^ 32 \<and> table_ok ntpb pb np w l \<and> table_ok ntpb db nd w l"

definition gt_blk ::
  "nat \<Rightarrow> nat \<Rightarrow> nat \<Rightarrow> nat \<Rightarrow> nat \<Rightarrow> nat \<Rightarrow> nat \<Rightarrow> nat list \<Rightarrow> nat list \<Rightarrow> bool \<Rightarrow> nat \<Rightarrow> ipc_block" where
  "gt_blk pt pk dt ntpb goff pbsz dbsz pb db swap i =
     (let p = slot ntpb pbsz pt pb i; d = slot ntpb dbsz dt db i + goff * pk
      in IpcBlock (if swap then d else p) (if swap then p else d) pk)"

lemma gt_token:
  assumes wf: "gt_wf pt pk dt ntpb goff pbsz dbsz pb db bounds swap np nd w l"
    and k: "k < eqd_chunk ntpb w l"
  shows "send_gt_token pt pk dt goff (u64 (pb ! (w div ntpb) * pbsz)) (u64 (db ! (w div ntpb) * dbsz))
      bounds swap (u32 (w mod ntpb + k)) out =
    Inr (out @ [gt_blk pt pk dt ntpb goff pbsz dbsz pb db swap (w + k)])"
proof -
  note d = wf [unfolded gt_wf_def]
  have dm: "(w + k) div ntpb = w div ntpb" "(w + k) mod ntpb = w mod ntpb + k"
    using mod_add_chunk [of k ntpb w] k d by auto
  have tab: "pb ! (w div ntpb) < np" "db ! (w div ntpb) < nd"
    using d k table_ok_at [of ntpb pb np w l] table_ok_at [of ntpb db nd w l] by auto
  let ?p = "slot ntpb pbsz pt pb (w + k)" and ?d = "slot ntpb dbsz dt db (w + k)"
  have pe: "?p + pk \<le> (if swap then dst_capacity bounds else src_capacity bounds)"
    using slot_field_bound [of pb "w + k" ntpb np 0 pk pt pbsz] tab dm d by auto
  have de: "?d + goff * pk + pk \<le> (if swap then src_capacity bounds else dst_capacity bounds)"
    using slot_field_bound [of db "w + k" ntpb nd "goff * pk" pk dt dbsz] tab dm d by auto
  have "w mod ntpb + k < ntpb"
    using k mod_less_divisor [of ntpb w] d by linarith
  then have "u32 (w mod ntpb + k) = w mod ntpb + k"
    using d by (intro u32_id) simp
  then have u: "u64 (u64 (pb ! (w div ntpb) * pbsz) + u32 (w mod ntpb + k) * pt) = ?p"
    "u64 (u64 (u64 (db ! (w div ntpb) * dbsz) + u32 (w mod ntpb + k) * dt) + goff * pk) = ?d + goff * pk"
    using pe de d dm by (auto simp: slot_def intro!: u64_id split: if_splits)
  show ?thesis
    using pe de d unfolding send_gt_token_def Let_def u
    by (auto simp: gt_blk_def Let_def append_ipc_block_checked_Inr_iff)
qed

lemma gt_step:
  assumes wf: "gt_wf pt pk dt ntpb goff pbsz dbsz pb db bounds swap np nd w l" and "0 < l"
  shows "send_gt_loop ndb pt pk dt ntpb goff pbsz dbsz pb db bounds swap w l bs =
    send_gt_loop ndb pt pk dt ntpb goff pbsz dbsz pb db bounds swap
      (w + eqd_chunk ntpb w l) (l - eqd_chunk ntpb w l)
      (bs @ map (\<lambda>k. gt_blk pt pk dt ntpb goff pbsz dbsz pb db swap (w + k)) [0..<eqd_chunk ntpb w l])"
proof -
  note d = wf [unfolded gt_wf_def]
  have tab: "w div ntpb < length pb" "w div ntpb < length db"
    using d assms(2) by (auto dest: table_ok_at)
  have "rfold (\<lambda>idx. send_gt_token pt pk dt goff (u64 (pb ! (w div ntpb) * pbsz))
        (u64 (db ! (w div ntpb) * dbsz)) bounds swap (u32 (w mod ntpb + idx))) [0..<eqd_chunk ntpb w l] bs =
      Inr (bs @ concat (map (\<lambda>k. [gt_blk pt pk dt ntpb goff pbsz dbsz pb db swap (w + k)])
        [0..<eqd_chunk ntpb w l]))"
    by (rule rfold_emit) (rule gt_token [OF wf], simp)
  moreover have "u32 (w + eqd_chunk ntpb w l) = w + eqd_chunk ntpb w l"
    using d by (intro u32_id) auto
  ultimately show ?thesis
    using d assms(2) tab by (subst send_gt_loop.simps) (simp add: Let_def)
qed

interpretation gt: token_loop "send_gt_loop ndb pt pk dt ntpb goff pbsz dbsz pb db bounds swap"
  "gt_wf pt pk dt ntpb goff pbsz dbsz pb db bounds swap np nd" "eqd_chunk ntpb"
  "\<lambda>w l. map (\<lambda>k. gt_blk pt pk dt ntpb goff pbsz dbsz pb db swap (w + k)) [0..<eqd_chunk ntpb w l]"
  "\<lambda>i. block_bytes (gt_blk pt pk dt ntpb goff pbsz dbsz pb db swap i)" pk
  "\<lambda>i b. b = gt_blk pt pk dt ntpb goff pbsz dbsz pb db swap i"
  for ndb pt pk dt ntpb goff pbsz dbsz pb db bounds swap np nd
proof (unfold_locales, goal_cases)
  case (1 w bs)
  show ?case
    by (simp add: send_gt_loop.simps)
next
  case (2 w l bs)
  then show ?case
    by (rule gt_step)
next
  case (3 w l)
  then show ?case
    by (simp add: gt_wf_def)
next
  case (4 w l)
  then show ?case
    by (auto simp: gt_wf_def intro!: table_ok_shift)
next
  case (5 w l)
  then show ?case
    by (simp add: copied_def UN_shift atLeast0LessThan)
next
  case (6 w l)
  have "total_len (map (\<lambda>k. gt_blk pt pk dt ntpb goff pbsz dbsz pb db swap (w + k)) xs) = length xs * pk" for xs
    by (induction xs) (simp_all add: total_len_def gt_blk_def Let_def)
  then show ?case
    by simp
next
  case (7 w l b)
  then show ?case
    by auto
qed

lemma parse_block_send_gt_copies:
  assumes "\<not> env_bf162fp8_conversion env" and "pk = pt \<or> pk * 2 = pt" and "pt < 2 ^ 64"
    and "pt * ntpb < 2 ^ 64" and "dt * ntpb < 2 ^ 64"
    and "gt_wf pt pk dt ntpb goff (pt * ntpb) (dt * ntpb) pb db bounds swap np nd w l"
  shows "\<exists>out. parse_block_send_gt env pt pk dt ntpb goff pb db w l bounds swap bs = Inr (bs @ out) \<and>
    copied out = (\<Union>i\<in>{w..<w + l}.
      block_bytes (gt_blk pt pk dt ntpb goff (pt * ntpb) (dt * ntpb) pb db swap i)) \<and>
    total_len out = l * pk \<and>
    (\<forall>b\<in>set out. \<exists>i\<in>{w..<w + l}. b = gt_blk pt pk dt ntpb goff (pt * ntpb) (dt * ntpb) pb db swap i)"
  using assms gt.loop_copies [OF assms(6), of "ndebug env" bs]
  by (auto simp: parse_block_send_gt_def u64_id)

subsection \<open>Shifted copies\<close>

text \<open>The V descriptors of a layout repeat its K descriptors at a constant distance.\<close>

definition shift_blk :: "nat \<Rightarrow> nat \<Rightarrow> ipc_block \<Rightarrow> ipc_block" where
  "shift_blk x y b = IpcBlock (src_offset b + x) (dst_offset b + y) (blk_len b)"

definition shift_rel :: "nat \<Rightarrow> nat \<Rightarrow> (nat \<times> nat) set \<Rightarrow> (nat \<times> nat) set" where
  "shift_rel x y r = (\<lambda>(s, d). (s + x, d + y)) ` r"

lemma shift_run: "shift_rel x y (run s d n) = run (s + x) (d + y) n"
  by (auto simp: shift_rel_def run_def image_image algebra_simps)

lemma shift_UN: "shift_rel x y (\<Union>i\<in>I. f i) = (\<Union>i\<in>I. shift_rel x y (f i))"
  by (simp add: shift_rel_def image_UN)

lemma copied_shift: "copied (map (shift_blk x y) bs) = shift_rel x y (copied bs)"
  by (simp add: copied_def shift_UN block_bytes_def shift_blk_def shift_run)

lemma total_len_shift: "total_len (map (shift_blk x y) bs) = total_len bs"
  by (simp add: total_len_def shift_blk_def comp_def)

lemma total_len_append: "total_len (as @ bs) = total_len as + total_len bs"
  by (simp add: total_len_def)

section \<open>Zero fill\<close>

lemma zero_fill_loop_fills:
  assumes "0 < max_seg" and "src_length_scale bounds = 1" and "src_capacity bounds < 2 ^ 64"
    and "dst_capacity bounds < 2 ^ 64" and "z + max_seg \<le> src_capacity bounds"
    and "d + len \<le> dst_capacity bounds" and "n \<le> len"
  shows "\<exists>out. zero_fill_loop z d len max_seg bounds n bs = Inr (bs @ out) \<and>
    snd ` copied out = {d + n..<d + len} \<and> fst ` copied out \<subseteq> {z..<z + max_seg} \<and>
    total_len out = len - n"
  using assms(7)
proof (induction "len - n" arbitrary: n bs rule: less_induct)
  case less
  show ?case
  proof (cases "n < len")
    case False
    with less.prems show ?thesis
      by (simp add: zero_fill_loop.simps total_len_def)
  next
    case True
    let ?seg = "min max_seg (len - n)"
    have seg: "0 < ?seg" "n + ?seg \<le> len"
      using True assms(1) by auto
    then have lt: "len - (n + ?seg) < len - n"
      using True by linarith
    have app: "append_ipc_block_checked bs bounds z (u64 (d + n)) ?seg = Inr (bs @ [IpcBlock z (d + n) ?seg])"
      using assms seg True by (auto simp: append_ipc_block_checked_Inr_iff u64_id)
    obtain out where out: "zero_fill_loop z d len max_seg bounds (n + ?seg) (bs @ [IpcBlock z (d + n) ?seg]) =
        Inr ((bs @ [IpcBlock z (d + n) ?seg]) @ out)"
      "snd ` copied out = {d + (n + ?seg)..<d + len}" "fst ` copied out \<subseteq> {z..<z + max_seg}"
      "total_len out = len - (n + ?seg)"
      using less.hyps [OF lt seg(2), of "bs @ [IpcBlock z (d + n) ?seg]"] by auto
    let ?out = "IpcBlock z (d + n) ?seg # out"
    have "zero_fill_loop z d len max_seg bounds n bs = Inr (bs @ ?out)"
      using True app out(1) by (subst zero_fill_loop.simps) (simp add: Let_def)
    moreover have "snd ` copied ?out = {d + n..<d + len}"
      using out(2) seg ivl_disj_un_two(3) [of "d + n" "d + n + ?seg" "d + len"]
      by (simp add: image_Un snd_run add.assoc)
    moreover have "fst ` copied ?out \<subseteq> {z..<z + max_seg}"
      using out(3) by (auto simp: image_Un fst_run)
    moreover have "total_len ?out = len - n"
      using out(4) seg True by (simp add: total_len_def)
    ultimately show ?thesis
      by blast
  qed
qed

lemma emit_zero_fill_fills:
  assumes "0 < max_seg" and "src_length_scale bounds = 1" and "src_capacity bounds < 2 ^ 64"
    and "dst_capacity bounds < 2 ^ 64" and "z + max_seg \<le> src_capacity bounds"
    and "d + len \<le> dst_capacity bounds"
  shows "\<exists>out. emit_zero_fill_segments env z d len max_seg bounds bs = Inr (bs @ out) \<and>
    snd ` copied out = {d..<d + len} \<and> fst ` copied out \<subseteq> {z..<z + max_seg} \<and> total_len out = len"
  using zero_fill_loop_fills [OF assms, of 0 bs] assms(1) by (simp add: emit_zero_fill_segments_def)

section \<open>Shared well-formedness of workers and tasks\<close>

text \<open>The metadata of cache tensor \<open>idx\<close> describes whole tokens and an addressable layer.\<close>

definition cache_ok :: "worker_info \<Rightarrow> nat \<Rightarrow> bool" where
  "cache_ok info idx \<longleftrightarrow>
     idx < length (block_sizes info) \<and> idx < length (token_sizes info) \<and>
     0 < token_sizes info ! idx \<and> token_sizes info ! idx dvd block_sizes info ! idx \<and>
     0 < block_sizes info ! idx \<and> block_sizes info ! idx div token_sizes info ! idx < 2 ^ 32 \<and>
     0 < layer_num_blocks info \<and> block_sizes info ! idx * layer_num_blocks info < 2 ^ 64"

text \<open>The tokens of the task lie in 32 bits and in the first group of both block tables.\<close>

definition task_ok :: "nat \<Rightarrow> nat \<Rightarrow> nat \<Rightarrow> nat \<Rightarrow> req_send_task \<Rightarrow> bool" where
  "task_ok src_ntpb nsrc dst_ntpb ndst task \<longleftrightarrow>
     src_blocks task \<noteq> [] \<and> dst_blocks task \<noteq> [] \<and> seen_tokens task + new_tokens task < 2 ^ 32 \<and>
     table_ok src_ntpb (src_blocks task ! 0) nsrc (seen_tokens task) (new_tokens task) \<and>
     table_ok dst_ntpb (dst_blocks task ! 0) ndst (seen_tokens task) (new_tokens task)"

abbreviation task_tokens :: "req_send_task \<Rightarrow> nat set" where
  "task_tokens task \<equiv> {seen_tokens task..<seen_tokens task + new_tokens task}"

lemma cache_ok_block_size: "cache_ok info idx \<Longrightarrow> block_sizes info ! idx < 2 ^ 64"
proof -
  assume ok: "cache_ok info idx"
  then have "block_sizes info ! idx * 1 \<le> block_sizes info ! idx * layer_num_blocks info"
    by (intro mult_left_mono) (simp_all add: cache_ok_def)
  also have "\<dots> < 2 ^ 64"
    using ok by (simp add: cache_ok_def)
  finally show ?thesis
    by simp
qed

lemma checked_layer_capacity_ok:
  assumes "cache_ok info idx"
  shows "checked_layer_capacity info idx = Inr (block_sizes info ! idx * layer_num_blocks info)"
proof -
  have "block_sizes info ! idx * layer_num_blocks info \<le> SIZE_MAX"
    using assms by (simp add: cache_ok_def)
  then have "\<not> SIZE_MAX div layer_num_blocks info < block_sizes info ! idx"
    using assms by (simp only: div_less_iff_less_mult cache_ok_def not_less)
  then show ?thesis
    using assms by (simp add: checked_layer_capacity_def cache_ok_def u64_id Let_def)
qed

lemma make_ipc_block_bounds_ok:
  assumes "cache_ok src idx" and "cache_ok dst idx"
  shows "make_ipc_block_bounds env src dst idx =
    Inr \<lparr> src_capacity = block_sizes src ! idx * layer_num_blocks src,
          dst_capacity = block_sizes dst ! idx * layer_num_blocks dst,
          src_length_scale = (if env_bf162fp8_conversion env then 2 else 1),
          bounds_cache_idx = idx \<rparr>"
  using assms by (simp add: make_ipc_block_bounds_def checked_layer_capacity_ok)

lemma make_ipc_block_bounds_cap:
  "make_ipc_block_bounds env src dst idx = Inr bounds \<Longrightarrow>
   src_capacity bounds < 2 ^ 64 \<and> dst_capacity bounds < 2 ^ 64"
  by (auto simp: make_ipc_block_bounds_def checked_layer_capacity_def rbind_eq_Inr_iff Let_def
      split: if_splits)

section \<open>Slots of different tokens do not overlap\<close>

lemma slot_inj:
  assumes "distinct bl" and "i div ntpb < length bl" and "j div ntpb < length bl"
    and "ntpb * tsz \<le> bsz" and "0 < ntpb" and "x < tsz" and "y < tsz"
    and eq: "slot ntpb bsz tsz bl i + x = slot ntpb bsz tsz bl j + y"
  shows "i = j \<and> x = y"
proof -
  have low: "i' mod ntpb * tsz + x' < bsz" if "x' < tsz" for i' x'
  proof -
    have "i' mod ntpb * tsz + x' < (i' mod ntpb + 1) * tsz"
      using that by simp
    also have "\<dots> \<le> ntpb * tsz"
      using assms(5) by (intro mult_right_mono) (simp_all add: Suc_leI)
    finally show ?thesis
      using assms(4) by simp
  qed
  let ?ri = "i mod ntpb * tsz + x" and ?rj = "j mod ntpb * tsz + y"
  have eq': "bl ! (i div ntpb) * bsz + ?ri = bl ! (j div ntpb) * bsz + ?rj"
    using eq by (simp add: slot_def add.assoc)
  have "bl ! (i div ntpb) = (bl ! (i div ntpb) * bsz + ?ri) div bsz"
    "bl ! (j div ntpb) = (bl ! (j div ntpb) * bsz + ?rj) div bsz"
    using low [OF assms(6), of i] low [OF assms(7), of j] by auto
  then have blk: "bl ! (i div ntpb) = bl ! (j div ntpb)"
    using eq' by simp
  then have r: "?ri = ?rj"
    using eq' by simp
  have "i mod ntpb = ?ri div tsz" "j mod ntpb = ?rj div tsz"
    using assms(6,7) by auto
  then have "i mod ntpb = j mod ntpb"
    using r by simp
  moreover have "i div ntpb = j div ntpb"
    using blk assms(1-3) by (simp add: nth_eq_iff_index_eq)
  ultimately show ?thesis
    using r by (metis add_left_cancel div_mult_mod_eq)
qed

lemma transfer_family:
  assumes "distinct os" and "x \<in> set os" and "one_source (copied (outs x))" and "(s, a) \<in> copied (outs x)"
    and "\<And>y. y \<in> set os \<Longrightarrow> y \<noteq> x \<Longrightarrow> a \<notin> snd ` copied (outs y)"
  shows "fold (\<lambda>y m. transfer (src y) (outs y) m) os m0 a = src x s"
  using assms
proof (induction os arbitrary: m0 rule: rev_induct)
  case (snoc y os)
  show ?case
  proof (cases "y = x")
    case True
    then show ?thesis
      using snoc.prems by (simp add: transfer_hit)
  next
    case False
    then have "a \<notin> snd ` copied (outs y)"
      using snoc.prems(5) by simp
    then have "transfer (src y) (outs y) m a = m a" for m
      by (intro transfer_miss) (auto simp: image_iff)
    then show ?thesis
      using snoc False by simp
  qed
qed simp

lemma transfer_family_miss:
  assumes "\<And>y. y \<in> set os \<Longrightarrow> a \<notin> snd ` copied (outs y)"
  shows "fold (\<lambda>y m. transfer (src y) (outs y) m) os m0 a = m0 a"
  using assms
proof (induction os arbitrary: m0)
  case (Cons y os)
  then have "a \<notin> snd ` copied (outs y)"
    by simp
  then have "transfer (src y) (outs y) m0 a = m0 a"
    by (intro transfer_miss) (auto simp: image_iff)
  then show ?case
    using Cons by simp
qed simp

lemma radix_inj:
  fixes x y k k' m :: nat
  assumes "x * m + k = y * m + k'" and "k < m" and "k' < m"
  shows "x = y \<and> k = k'"
proof -
  have "(x * m + k) div m = x" "(y * m + k') div m = y"
    using assms(2,3) by simp_all
  with assms(1) show ?thesis
    by simp
qed

lemma concat_resize1: "length sbs \<le> 1 \<Longrightarrow> vec_resize 1 sbs = [concat sbs]"
  by (cases sbs) (auto simp: vec_resize_def)

text \<open>The \<open>g\<close> senders of one receiver run one after the other on the receiver's memory.\<close>

definition gather :: "(nat \<Rightarrow> nat \<Rightarrow> 'v) \<Rightarrow> (nat \<Rightarrow> ipc_block list) \<Rightarrow> nat \<Rightarrow> (nat \<Rightarrow> 'v) \<Rightarrow> nat \<Rightarrow> 'v" where
  "gather mem outs g dmem = fold (\<lambda>off m. transfer (mem off) (outs off) m) [0..<g] dmem"

lemma rows_one_source:
  assumes "distinct db" and "0 < ntpb" and "ntpb * tsz \<le> bsz"
    and "\<And>i. i \<in> I \<Longrightarrow> i div ntpb < length db"
  shows "one_source (\<Union>i\<in>I. run (f i) (slot ntpb bsz tsz db i) tsz)"
proof -
  have "s = s'" if ij: "i \<in> I" "j \<in> I" and s: "(s, a) \<in> run (f i) (slot ntpb bsz tsz db i) tsz"
    and s': "(s', a) \<in> run (f j) (slot ntpb bsz tsz db j) tsz" for i j s s' a
  proof -
    obtain x y where xy: "x < tsz" "y < tsz" "s = f i + x" "s' = f j + y"
      "slot ntpb bsz tsz db i + x = slot ntpb bsz tsz db j + y"
      using s s' by (auto simp: run_def)
    then have "i = j \<and> x = y"
      using slot_inj [OF assms(1) assms(4) [OF ij(1)] assms(4) [OF ij(2)] assms(3,2) xy(1,2)] by simp
    then show ?thesis
      using xy by simp
  qed
  then show ?thesis
    unfolding one_source_def by blast
qed

lemma rows_memory:
  assumes "distinct db" and "0 < ntpb" and "ntpb * tsz \<le> bsz"
    and "\<And>i. i \<in> I \<Longrightarrow> i div ntpb < length db"
    and "copied out = (\<Union>i\<in>I. run (f i) (slot ntpb bsz tsz db i) tsz)"
  shows "(\<forall>i\<in>I. \<forall>k<tsz. transfer mem out dmem (slot ntpb bsz tsz db i + k) = mem (f i + k)) \<and>
    (\<forall>a. (\<forall>i\<in>I. a \<notin> {slot ntpb bsz tsz db i..<slot ntpb bsz tsz db i + tsz}) \<longrightarrow>
      transfer mem out dmem a = dmem a)"
proof (intro conjI ballI allI impI)
  fix i k
  assume "i \<in> I" and "k < tsz"
  then have "(f i + k, slot ntpb bsz tsz db i + k) \<in> copied out"
    unfolding assms(5) by (intro UN_I [of i]) (auto simp: mem_run)
  then show "transfer mem out dmem (slot ntpb bsz tsz db i + k) = mem (f i + k)"
    using rows_one_source [OF assms(1-4), of I f] assms(5) by (intro transfer_hit) simp_all
next
  fix a
  assume "\<forall>i\<in>I. a \<notin> {slot ntpb bsz tsz db i..<slot ntpb bsz tsz db i + tsz}"
  then show "transfer mem out dmem a = dmem a"
    by (intro transfer_miss) (fastforce simp: assms(5) run_def)
qed

text \<open>Evaluation of \<open>table_ok\<close> on concrete token ranges.\<close>

lemma table_ok_0: "table_ok ntpb blocks nblk w 0"
  by (simp add: table_ok_def)

lemma table_ok_Suc:
  "table_ok ntpb blocks nblk w (Suc l) \<longleftrightarrow>
     w div ntpb < length blocks \<and> blocks ! (w div ntpb) < nblk \<and> table_ok ntpb blocks nblk (Suc w) l"
proof -
  have "{w..<w + Suc l} = insert w {Suc w..<Suc w + l}"
    by auto
  then have "(\<forall>i\<in>{w..<w + Suc l}. P i) \<longleftrightarrow> P w \<and> (\<forall>i\<in>{Suc w..<Suc w + l}. P i)" for P
    by simp
  then show ?thesis
    unfolding table_ok_def by (simp only: atLeastLessThan_iff Ball_def imp_conjL conj_assoc)
qed

lemma table_ok_numeral:
  "table_ok ntpb blocks nblk w (numeral m) \<longleftrightarrow>
     w div ntpb < length blocks \<and> blocks ! (w div ntpb) < nblk \<and>
     table_ok ntpb blocks nblk (Suc w) (pred_numeral m)"
  by (simp add: numeral_eq_Suc table_ok_Suc)

lemmas table_ok_code = table_ok_0 table_ok_Suc table_ok_numeral

text \<open>
  Layouts in general: the rows of a sender are indexed by \<open>x \<in> X\<close>, row \<open>x\<close> copies \<open>len\<close> bytes from
  \<open>f x\<close> to \<open>h x\<close>. When no two destination bytes coincide, the rows determine the memory.
\<close>

lemma layout_memory:
  assumes copied: "copied out = (\<Union>x\<in>X. run (f x) (h x) len)"
    and inj: "\<And>x x' k k'. x \<in> X \<Longrightarrow> x' \<in> X \<Longrightarrow> k < len \<Longrightarrow> k' < len \<Longrightarrow> h x + k = h x' + k' \<Longrightarrow> x = x' \<and> k = k'"
  shows "(\<forall>x\<in>X. \<forall>k<len. transfer mem out dmem (h x + k) = mem (f x + k)) \<and>
    (\<forall>a. (\<forall>x\<in>X. a \<notin> {h x..<h x + len}) \<longrightarrow> transfer mem out dmem a = dmem a)"
proof (intro conjI ballI allI impI)
  have one: "one_source (copied out)"
    unfolding one_source_def copied by (auto simp: run_def) (metis inj)
  fix x k
  assume x: "x \<in> X" and k: "k < len"
  then have "(f x + k, h x + k) \<in> copied out"
    unfolding copied by (intro UN_I [of x]) (auto simp: mem_run)
  then show "transfer mem out dmem (h x + k) = mem (f x + k)"
    by (rule transfer_hit [OF one])
next
  fix a
  assume "\<forall>x\<in>X. a \<notin> {h x..<h x + len}"
  then show "transfer mem out dmem a = dmem a"
    by (intro transfer_miss) (fastforce simp: copied run_def)
qed

lemma layout_gather:
  assumes copied: "\<And>o'. o' < g \<Longrightarrow> copied (outs o') = (\<Union>x\<in>X. run (f o' x) (h o' x) len)"
    and inj: "\<And>o1 o2 x x' k k'. o1 < g \<Longrightarrow> o2 < g \<Longrightarrow> x \<in> X \<Longrightarrow> x' \<in> X \<Longrightarrow> k < len \<Longrightarrow> k' < len \<Longrightarrow>
      h o1 x + k = h o2 x' + k' \<Longrightarrow> o1 = o2 \<and> x = x' \<and> k = k'"
  shows "(\<forall>off<g. \<forall>x\<in>X. \<forall>k<len. gather mem outs g dmem (h off x + k) = mem off (f off x + k)) \<and>
    (\<forall>a. (\<forall>off<g. \<forall>x\<in>X. a \<notin> {h off x..<h off x + len}) \<longrightarrow> gather mem outs g dmem a = dmem a)"
proof (intro conjI ballI allI impI)
  fix off x k
  assume o: "off < g" and x: "x \<in> X" and k: "k < len"
  have snd_in: "\<exists>x'\<in>X. \<exists>k'<len. a = h y x' + k'" if "y < g" "a \<in> snd ` copied (outs y)" for y a
    using that(2) unfolding copied [OF that(1)] by (auto simp: run_def) blast
  show "gather mem outs g dmem (h off x + k) = mem off (f off x + k)"
    unfolding gather_def
  proof (rule transfer_family [where x = off])
    show "one_source (copied (outs off))"
      unfolding one_source_def copied [OF o] by (auto simp: run_def) (metis inj o)
    show "(f off x + k, h off x + k) \<in> copied (outs off)"
      unfolding copied [OF o] using x k by (intro UN_I [of x]) (auto simp: mem_run)
    show "h off x + k \<notin> snd ` copied (outs y)" if y: "y \<in> set [0..<g]" "y \<noteq> off" for y
      using snd_in [of y "h off x + k"] inj [OF _ o _ x _ k, of y] y by fastforce
  qed (use o in simp_all)
next
  fix a
  assume a: "\<forall>off<g. \<forall>x\<in>X. a \<notin> {h off x..<h off x + len}"
  show "gather mem outs g dmem a = dmem a"
    unfolding gather_def
  proof (rule transfer_family_miss)
    fix y
    assume y: "y \<in> set [0..<g]"
    show "a \<notin> snd ` copied (outs y)"
      using a y copied [of y] by (fastforce simp: run_def)
  qed
qed

section \<open>Filling with a constant\<close>

text \<open>The descriptors write exactly the bytes \<open>D\<close> and read only bytes of \<open>Z\<close>.\<close>

definition fills :: "nat set \<Rightarrow> nat set \<Rightarrow> ipc_block list \<Rightarrow> bool" where
  "fills Z D out \<longleftrightarrow> snd ` copied out = D \<and> fst ` copied out \<subseteq> Z"

lemma fills_Nil: "fills Z {} []"
  by (simp add: fills_def copied_def)

lemma fills_append: "fills Z D out \<Longrightarrow> fills Z D' out' \<Longrightarrow> fills Z (D \<union> D') (out @ out')"
  by (auto simp: fills_def image_Un)

lemma transfer_append: "transfer mem (as @ bs) dmem = transfer mem bs (transfer mem as dmem)"
  by (simp add: transfer_def)

lemma fills_transfer:
  assumes "fills Z D out" and "\<And>z. z \<in> Z \<Longrightarrow> mem z = c"
  shows "transfer mem out dmem a = (if a \<in> D then c else dmem a)"
  using assms(1)
proof (induction out arbitrary: D rule: rev_induct)
  case Nil
  then show ?case
    by (auto simp: fills_def copied_def transfer_def)
next
  case (snoc b out)
  have f: "fills Z (snd ` copied out) out" and b: "fills Z (snd ` copied [b]) [b]" and D: "D = snd ` copied out \<union> snd ` copied [b]"
    using snoc.prems by (auto simp: fills_def image_Un)
  show ?case
  proof (cases "a \<in> snd ` copied [b]")
    case True
    then obtain s where s: "(s, a) \<in> copied [b]"
      by auto
    then have "mem s = c"
      using b by (intro assms(2)) (auto simp: fills_def)
    moreover have "transfer mem [b] m a = mem s" for m
      using s by (intro transfer_hit) (auto simp: one_source_def copied_def block_bytes_def run_def)
    ultimately show ?thesis
      using True D by (simp add: transfer_append)
  next
    case False
    then have "transfer mem [b] m a = m a" for m
      by (intro transfer_miss) (force simp: image_iff)
    then show ?thesis
      using False D snoc.IH [OF f] by (simp add: transfer_append)
  qed
qed

lemma rfold_fills:
  assumes "\<And>x out. x \<in> set xs \<Longrightarrow> \<exists>new. f x out = Inr (out @ new) \<and> fills Z (D x) new \<and> total_len new = len"
  shows "\<exists>new. rfold f xs out = Inr (out @ new) \<and> fills Z (\<Union>x\<in>set xs. D x) new \<and> total_len new = length xs * len"
  using assms
proof (induction xs arbitrary: out)
  case Nil
  then show ?case
    by (auto simp: fills_Nil total_len_def)
next
  case (Cons x xs)
  obtain new where new: "f x out = Inr (out @ new)" "fills Z (D x) new" "total_len new = len"
    using Cons.prems [of x out] by auto
  obtain news where "rfold f xs (out @ new) = Inr ((out @ new) @ news)" "fills Z (\<Union>x\<in>set xs. D x) news"
    "total_len news = length xs * len"
    using Cons.IH [of "out @ new"] Cons.prems by auto
  then show ?case
    using new fills_append [of Z "D x" new] by (intro exI [of _ "new @ news"]) (simp add: total_len_append)
qed

lemma emit_zero_fill_segments_fills:
  assumes "0 < max_seg" and "src_length_scale bounds = 1" and "src_capacity bounds < 2 ^ 64"
    and "dst_capacity bounds < 2 ^ 64" and "z + max_seg \<le> src_capacity bounds"
    and "d + len \<le> dst_capacity bounds"
  shows "\<exists>out. emit_zero_fill_segments env z d len max_seg bounds bs = Inr (bs @ out) \<and>
    fills {z..<z + max_seg} {d..<d + len} out \<and> total_len out = len"
  using emit_zero_fill_fills [OF assms, of env bs] by (simp add: fills_def)

end
