(* ===== verification/ParseRagged.thy ===== *)
theory ParseRagged
  imports ParseCommon
begin

text \<open>
  \<open>src/parse_block_ragged.cpp\<close>: the layout \<open>RAGGED_FLASH_CACHE_SHAPE\<close>, one cache tensor
  \<open>(num_blocks, block_size, 2, num_kv_heads, head_dim)\<close>, so a token is its K row followed by its
  V row.

  With equal TP sizes a token is copied whole. With different TP sizes the worker on the larger
  side holds a slice of the heads: its K row goes to (or comes from) the slice's place in the K
  half of the other side's token, its V row to the same place in the V half.
\<close>

section \<open>Model\<close>

definition parse_block_send_p_eq_d :: parse_block_func where
  "parse_block_send_p_eq_d env src_worker_info dst_worker_info valid_ranks kvt_tp_size kvt_tp_rank task send_blocks =
     c_assert (ndebug env) (kvt_tp_size = engine_tp_size dst_worker_info) (
     c_assert (ndebug env) (worker_tp_rank src_worker_info = worker_tp_rank dst_worker_info) (
     let tsizes = token_sizes src_worker_info; bsizes = block_sizes src_worker_info in
     c_assert (ndebug env) (tsizes = token_sizes dst_worker_info) (
     c_assert (ndebug env) (bsizes = block_sizes dst_worker_info) (
     c_assert (ndebug env) (length tsizes = length bsizes) (
     c_assert (ndebug env)
       (length (token_sizes dst_worker_info) = length (block_sizes dst_worker_info)) (
     c_assert (ndebug env) (length tsizes = 1) (
     c_assert (ndebug env) (length bsizes = 1) (
     let send_blocks' = vec_resize (length tsizes) send_blocks in
     vec_idx send_blocks' 0 (\<lambda>per_cache_send_blocks.
     rbind (make_ipc_block_bounds env src_worker_info dst_worker_info 0) (\<lambda>bounds.
     vec_idx bsizes 0 (\<lambda>bsize.
     vec_idx tsizes 0 (\<lambda>tsize.
     rbind (do_parse_block_send_p_eq_d env bsize tsize task bounds per_cache_send_blocks) (\<lambda>out.
     Inr (send_blocks'[0 := out]))))))))))))))"

definition parse_block_send_p_gt_d_dpsk :: parse_block_func where
  "parse_block_send_p_gt_d_dpsk env p_info d_info valid_ranks kvt_tp_size kvt_tp_rank task send_blocks =
     c_assert (ndebug env) (token_sizes p_info = token_sizes d_info) (
     if worker_tp_rank p_info \<noteq> 0 then Inr send_blocks
     else
     c_assert (ndebug env) (worker_tp_rank d_info = 0) (
     c_assert (ndebug env) (block_sizes p_info = block_sizes d_info) (
     let tsizes = token_sizes p_info; bsizes = block_sizes p_info in
     c_assert (ndebug env) (length tsizes = length bsizes) (
     c_assert (ndebug env) (length tsizes = 1) (
     c_assert (ndebug env) (length bsizes = 1) (
     let send_blocks' = vec_resize (length tsizes) send_blocks in
     vec_idx send_blocks' 0 (\<lambda>per_cache_send_blocks.
     rbind (make_ipc_block_bounds env p_info d_info 0) (\<lambda>bounds.
     vec_idx bsizes 0 (\<lambda>bsize.
     vec_idx tsizes 0 (\<lambda>tsize.
     rbind (do_parse_block_send_p_eq_d env bsize tsize task bounds per_cache_send_blocks) (\<lambda>out.
     Inr (send_blocks'[0 := out]))))))))))))"

text \<open>
  The body shared by \<open>do_parse_block_send_internal\<close> and the multi-tensor variant of the DPSK
  layout, for one cache tensor: the K descriptors of \<open>parse_block_send_gt\<close>, then for each of them
  the V descriptor half a token further on either side.
\<close>

definition send_v_of_k ::
  "kvt_env \<Rightarrow> nat \<Rightarrow> nat \<Rightarrow> ipc_block_bounds \<Rightarrow> bool \<Rightarrow> nat \<Rightarrow> nat \<Rightarrow> ipc_block list \<Rightarrow>
   ipc_block list result" where
  "send_v_of_k env p_k_size d_k_size bounds swap sbsize sbsize_after out =
     rfold (\<lambda>idx out. vec_at out idx (\<lambda>sb.
       let pv_token_off = u64 (src_offset sb + (if swap then d_k_size else p_k_size));
           dv_token_off = u64 (dst_offset sb + (if swap then p_k_size else d_k_size)) in
       c_assert (ndebug env) (p_k_size = blk_len sb)
         (append_ipc_block_checked out bounds pv_token_off dv_token_off p_k_size)))
       [sbsize..<sbsize_after] out"

definition send_kv_internal ::
  "kvt_env \<Rightarrow> nat \<Rightarrow> nat \<Rightarrow> nat \<Rightarrow> nat \<Rightarrow> nat \<Rightarrow> nat \<Rightarrow> nat \<Rightarrow> nat \<Rightarrow> nat list \<Rightarrow> nat list \<Rightarrow> nat \<Rightarrow> nat \<Rightarrow>
   ipc_block_bounds \<Rightarrow> bool \<Rightarrow> ipc_block list \<Rightarrow> ipc_block list result" where
  "send_kv_internal env p_block_size d_block_size p_token_size d_token_size p_tp_size d_tp_size
     p_rank d_rank p_blocks d_blocks wrote left bounds swap out =
     c_assert (ndebug env) (p_tp_size > d_tp_size) (
     c_assert_mod0 (ndebug env) p_tp_size d_tp_size (
     ck_div p_tp_size d_tp_size (\<lambda>group_n.
     c_assert (ndebug env) (p_rank div group_n = d_rank) (
     ck_mod p_rank group_n (\<lambda>group_off.
     c_assert (ndebug env) (d_token_size = u64 (p_token_size * group_n)) (
     c_assert (ndebug env) (d_token_size mod 2 = 0) (
     c_assert (ndebug env) (p_token_size mod 2 = 0) (
     let p_k_size = p_token_size div 2; d_k_size = d_token_size div 2 in
     c_assert (ndebug env) (d_k_size = u64 (p_k_size * group_n)) (
     ck_div p_block_size p_token_size (\<lambda>q.
     let ntpb = u32 q in
     c_assert (ndebug env) (u64 (ntpb * p_token_size) = p_block_size) (
     c_assert (ndebug env) (u64 (ntpb * d_token_size) = d_block_size) (
     rbind (parse_block_send_gt env p_token_size p_k_size d_token_size ntpb group_off
              p_blocks d_blocks wrote left bounds swap out) (\<lambda>out'.
     send_v_of_k env p_k_size d_k_size bounds swap (length out) (length out') out')))))))))))))"

definition do_parse_block_send_internal ::
  "kvt_env \<Rightarrow> worker_info \<Rightarrow> nat \<Rightarrow> nat list \<Rightarrow> worker_info \<Rightarrow> nat \<Rightarrow> nat list \<Rightarrow> nat \<Rightarrow> nat \<Rightarrow>
   ipc_block_bounds \<Rightarrow> bool \<Rightarrow> ipc_block list list \<Rightarrow> ipc_block list list result" where
  "do_parse_block_send_internal env p_info p_tp_size p_blocks d_info d_tp_size d_blocks wrote left
     bounds swap send_blocks =
     c_assert (ndebug env) (length (block_sizes p_info) = length (block_sizes d_info)) (
     c_assert (ndebug env) (length (token_sizes p_info) = length (token_sizes d_info)) (
     c_assert (ndebug env) (length (block_sizes p_info) = length (token_sizes p_info)) (
     c_assert (ndebug env) (length (token_sizes p_info) = 1) (
     c_assert (ndebug env) (length (token_sizes d_info) = 1) (
     c_assert (ndebug env) (length (block_sizes p_info) = 1) (
     c_assert (ndebug env) (length (block_sizes d_info) = 1) (
     vec_at (block_sizes p_info) 0 (\<lambda>p_block_size.
     vec_at (block_sizes d_info) 0 (\<lambda>d_block_size.
     vec_at (token_sizes p_info) 0 (\<lambda>p_token_size.
     vec_at (token_sizes d_info) 0 (\<lambda>d_token_size.
     on_cache 0 (send_kv_internal env p_block_size d_block_size p_token_size d_token_size
       p_tp_size d_tp_size (worker_tp_rank p_info) (worker_tp_rank d_info)
       p_blocks d_blocks wrote left bounds swap)
       (vec_resize (length (token_sizes p_info)) send_blocks))))))))))))"

definition parse_block_send_p_gt_d :: parse_block_func where
  "parse_block_send_p_gt_d env p_info d_info valid_ranks kvt_tp_size kvt_tp_rank task send_blocks =
     rbind (make_ipc_block_bounds env p_info d_info 0) (\<lambda>bounds.
     vec_idx (src_blocks task) 0 (\<lambda>sblocks.
     vec_idx (dst_blocks task) 0 (\<lambda>dblocks.
     do_parse_block_send_internal env p_info kvt_tp_size sblocks d_info (engine_tp_size d_info) dblocks
       (seen_tokens task) (new_tokens task) bounds False send_blocks)))"

definition parse_block_send_p_lt_d :: parse_block_func where
  "parse_block_send_p_lt_d env p_info d_info valid_ranks kvt_tp_size kvt_tp_rank task send_blocks =
     rbind (make_ipc_block_bounds env p_info d_info 0) (\<lambda>bounds.
     vec_idx (dst_blocks task) 0 (\<lambda>dblocks.
     vec_idx (src_blocks task) 0 (\<lambda>sblocks.
     do_parse_block_send_internal env d_info (engine_tp_size d_info) dblocks p_info kvt_tp_size sblocks
       (seen_tokens task) (new_tokens task) bounds True send_blocks)))"

section \<open>Equal TP sizes\<close>

lemma ragged_eq_eqd_wf:
  assumes "cache_ok src 0" and "cache_ok dst 0"
    and "token_sizes src = [tsz]" and "block_sizes src = [bsz]" and "block_sizes dst = [bsz]"
    and "task_ok (bsz div tsz) (layer_num_blocks src) (bsz div tsz) (layer_num_blocks dst) task"
  shows "eqd_wf bsz tsz (bsz div tsz) (src_blocks task ! 0) (dst_blocks task ! 0)
    \<lparr> src_capacity = bsz * layer_num_blocks src, dst_capacity = bsz * layer_num_blocks dst,
      src_length_scale = 1, bounds_cache_idx = idx \<rparr>
    (layer_num_blocks src) (layer_num_blocks dst) (seen_tokens task) (new_tokens task)"
  using assms by (auto simp: eqd_wf_def cache_ok_def task_ok_def div_greater_zero_iff dvd_imp_le)

lemma ragged_eq_copies:
  assumes "cache_ok src 0" and "cache_ok dst 0"
    and "token_sizes src = [tsz]" and "block_sizes src = [bsz]"
    and "token_sizes dst = [tsz]" and "block_sizes dst = [bsz]"
    and "task_ok (bsz div tsz) (layer_num_blocks src) (bsz div tsz) (layer_num_blocks dst) task"
    and "\<not> env_bf162fp8_conversion env"
    and "kvt_tp_size = engine_tp_size dst" and "worker_tp_rank src = worker_tp_rank dst"
    and "length sbs \<le> 1"
  shows "\<exists>out. parse_block_send_p_eq_d env src dst vr kvt_tp_size kvt_tp_rank task sbs =
      Inr [concat sbs @ out] \<and>
    copied out = (\<Union>i\<in>task_tokens task. run (slot (bsz div tsz) bsz tsz (src_blocks task ! 0) i)
      (slot (bsz div tsz) bsz tsz (dst_blocks task ! 0) i) tsz) \<and>
    total_len out = new_tokens task * tsz"
proof -
  note wf = ragged_eq_eqd_wf [where idx = 0, OF assms(1-4,6,7)]
  have "0 < tsz" "bsz div tsz < 2 ^ 32" "bsz < 2 ^ 64" "tsz dvd bsz"
    using assms(1,3,4) cache_ok_block_size [OF assms(1)] by (auto simp: cache_ok_def)
  moreover have "src_blocks task \<noteq> []" "dst_blocks task \<noteq> []"
    using assms(7) by (auto simp: task_ok_def)
  ultimately show ?thesis
    using do_parse_p_eq_d_copies [where env = env and bs = "concat sbs", OF _ _ _ _ _ _ wf] assms
      concat_resize1 [OF assms(11)]
    by (auto simp: parse_block_send_p_eq_d_def make_ipc_block_bounds_ok Let_def)
qed

section \<open>Different TP sizes\<close>

text \<open>
  The bytes of token \<open>i\<close> that one worker of the larger side (its table \<open>pb\<close>) exchanges with the
  smaller side (table \<open>db\<close>): K and V rows of \<open>pk\<close> bytes, at slice \<open>goff\<close> of the other side.
\<close>

definition kv_rows ::
  "nat \<Rightarrow> nat \<Rightarrow> nat \<Rightarrow> nat \<Rightarrow> nat list \<Rightarrow> nat list \<Rightarrow> bool \<Rightarrow> nat \<Rightarrow> (nat \<times> nat) set" where
  "kv_rows pk g ntpb goff pb db swap i =
     (let p = slot ntpb (2 * pk * ntpb) (2 * pk) pb i;
          d = slot ntpb (2 * pk * g * ntpb) (2 * pk * g) db i + goff * pk
      in if swap then run d p pk \<union> run (d + pk * g) (p + pk) pk
         else run p d pk \<union> run (p + pk) (d + pk * g) pk)"

lemma send_v_of_k_copies:
  fixes pk dk swap
  defines "x \<equiv> if swap then dk else pk" and "y \<equiv> if swap then pk else dk"
  assumes "src_length_scale bounds = 1" and "src_capacity bounds < 2 ^ 64" and "dst_capacity bounds < 2 ^ 64"
    and "\<And>b. b \<in> set new \<Longrightarrow> blk_len b = pk \<and> src_offset b + x + pk \<le> src_capacity bounds \<and>
      dst_offset b + y + pk \<le> dst_capacity bounds"
    and "0 < pk"
  shows "send_v_of_k env pk dk bounds swap (length bs) (length (bs @ new)) (bs @ new) =
    Inr (bs @ new @ map (shift_blk x y) new)"
proof -
  have "(let pv = u64 (src_offset b + x); dv = u64 (dst_offset b + y)
      in c_assert (ndebug env) (pk = blk_len b) (append_ipc_block_checked out bounds pv dv pk)) =
    Inr (out @ [shift_blk x y b])" if "b \<in> set new" for b out
  proof -
    have b: "blk_len b = pk" "src_offset b + x + pk \<le> src_capacity bounds"
      "dst_offset b + y + pk \<le> dst_capacity bounds"
      using assms(6) [OF that] by auto
    then have "u64 (src_offset b + x) = src_offset b + x" "u64 (dst_offset b + y) = dst_offset b + y"
      using assms(4,5) by (auto intro!: u64_id)
    then show ?thesis
      using assms(3,4,7) b by (simp add: append_ipc_block_checked_Inr_iff shift_blk_def)
  qed
  from rfold_dup [where bs = bs and new = new, OF this] show ?thesis
    by (simp add: send_v_of_k_def x_def y_def)
qed

lemma kv_rows_shift:
  "kv_rows pk g ntpb goff pb db swap i =
    block_bytes (gt_blk (2 * pk) pk (2 * pk * g) ntpb goff (2 * pk * ntpb) (2 * pk * g * ntpb) pb db swap i) \<union>
    shift_rel (if swap then pk * g else pk) (if swap then pk else pk * g)
      (block_bytes (gt_blk (2 * pk) pk (2 * pk * g) ntpb goff (2 * pk * ntpb) (2 * pk * g * ntpb) pb db swap i))"
  by (auto simp: kv_rows_def gt_blk_def Let_def shift_run)

text \<open>Well-formedness for the pair of workers; \<open>p\<close> is the side with the larger TP size.\<close>

definition kv_wf ::
  "nat \<Rightarrow> nat \<Rightarrow> nat \<Rightarrow> nat \<Rightarrow> nat list \<Rightarrow> nat list \<Rightarrow> ipc_block_bounds \<Rightarrow> bool \<Rightarrow> nat \<Rightarrow> nat \<Rightarrow> nat \<Rightarrow> nat \<Rightarrow> bool" where
  "kv_wf pk g ntpb goff pb db bounds swap np nd w l \<longleftrightarrow>
     0 < pk \<and> 0 < ntpb \<and> ntpb < 2 ^ 32 \<and> goff < g \<and> w + l < 2 ^ 32 \<and> 0 < np \<and> 0 < nd \<and>
     2 * pk * ntpb * np = (if swap then dst_capacity bounds else src_capacity bounds) \<and>
     2 * pk * g * ntpb * nd = (if swap then src_capacity bounds else dst_capacity bounds) \<and>
     src_length_scale bounds = 1 \<and> src_capacity bounds < 2 ^ 64 \<and> dst_capacity bounds < 2 ^ 64 \<and>
     table_ok ntpb pb np w l \<and> table_ok ntpb db nd w l"

lemma slice_bound: "goff < g \<Longrightarrow> goff * pk + pk \<le> pk * (g::nat)"
proof -
  assume "goff < g"
  then have "(goff + 1) * pk \<le> g * pk"
    by (intro mult_right_mono) simp_all
  then show ?thesis
    by (simp add: algebra_simps)
qed

lemma kv_wf_gt_wf:
  assumes "kv_wf pk g ntpb goff pb db bounds swap np nd w l"
  shows "gt_wf (2 * pk) pk (2 * pk * g) ntpb goff (2 * pk * ntpb) (2 * pk * g * ntpb) pb db bounds swap np nd w l"
  using assms slice_bound [of goff g pk] by (auto simp: kv_wf_def gt_wf_def mult.commute mult.left_commute)

lemma kv_wf_sizes:
  assumes "kv_wf pk g ntpb goff pb db bounds swap np nd w l"
  shows "2 * pk * ntpb < 2 ^ 64" and "2 * pk * g * ntpb < 2 ^ 64" and "2 * pk < 2 ^ 64"
    and "2 * pk * g < 2 ^ 64" and "pk * g < 2 ^ 64"
proof -
  note d = assms [unfolded kv_wf_def]
  have le: "a \<le> a * b" if "0 < b" for a b :: nat
    using that by simp
  have pos: "0 < np" "0 < nd" "0 < ntpb"
    using d by simp_all
  note a = le [OF pos(1), of "2 * pk * ntpb"] le [OF pos(2), of "2 * pk * g * ntpb"]
    le [OF pos(3), of "2 * pk"] le [OF pos(3), of "2 * pk * g"]
  have cap: "2 * pk * ntpb * np < 2 ^ 64" "2 * pk * g * ntpb * nd < 2 ^ 64"
    using d by (cases swap; simp)+
  show "2 * pk * ntpb < 2 ^ 64"
    using a(1) cap(1) by (rule le_less_trans)
  then show "2 * pk < 2 ^ 64"
    using a(3) by linarith
  show "2 * pk * g * ntpb < 2 ^ 64"
    using a(2) cap(2) by (rule le_less_trans)
  then show "2 * pk * g < 2 ^ 64"
    using a(4) by linarith
  then show "pk * g < 2 ^ 64"
    by linarith
qed

lemma kv_wf_v_bounds:
  assumes wf: "kv_wf pk g ntpb goff pb db bounds swap np nd w l" and i: "i \<in> {w..<w + l}"
  defines "b \<equiv> gt_blk (2 * pk) pk (2 * pk * g) ntpb goff (2 * pk * ntpb) (2 * pk * g * ntpb) pb db swap i"
  shows "blk_len b = pk \<and> src_offset b + (if swap then pk * g else pk) + pk \<le> src_capacity bounds \<and>
    dst_offset b + (if swap then pk else pk * g) + pk \<le> dst_capacity bounds"
proof -
  note d = wf [unfolded kv_wf_def]
  have tab: "pb ! (i div ntpb) < np" "db ! (i div ntpb) < nd"
    using d i by (auto simp: table_ok_def)
  have "slot ntpb (2 * pk * ntpb) (2 * pk) pb i + pk + pk \<le> 2 * pk * ntpb * np"
    using slot_field_bound [of pb i ntpb np pk pk "2 * pk" "2 * pk * ntpb"] tab d by simp
  moreover have "slot ntpb (2 * pk * g * ntpb) (2 * pk * g) db i + (goff * pk + pk * g) + pk \<le>
      2 * pk * g * ntpb * nd"
  proof (rule slot_field_bound)
    have "2 * pk * g = pk * g + pk * g"
      by simp
    then show "goff * pk + pk * g + pk \<le> 2 * pk * g"
      using slice_bound [of goff g pk] d by linarith
  qed (use tab d in simp_all)
  ultimately show ?thesis
    using d by (auto simp: b_def gt_blk_def Let_def)
qed

lemma send_kv_internal_copies:
  assumes wf: "kv_wf pk g ntpb goff pb db bounds swap np nd w l"
    and "\<not> env_bf162fp8_conversion env" and "p_tp = g * d_tp" and "1 < g" and "0 < d_tp"
    and "p_rank = d_rank * g + goff"
  shows "\<exists>out. send_kv_internal env (2 * pk * ntpb) (2 * pk * g * ntpb) (2 * pk) (2 * pk * g) p_tp d_tp
      p_rank d_rank pb db w l bounds swap bs = Inr (bs @ out) \<and>
    copied out = (\<Union>i\<in>{w..<w + l}. kv_rows pk g ntpb goff pb db swap i) \<and>
    total_len out = l * (2 * pk)"
proof -
  note d = wf [unfolded kv_wf_def] and sz = kv_wf_sizes [OF wf]
  let ?x = "if swap then pk * g else pk" and ?y = "if swap then pk else pk * g"
  obtain K where K: "parse_block_send_gt env (2 * pk) pk (2 * pk * g) ntpb goff pb db w l bounds swap bs = Inr (bs @ K)"
    "copied K = (\<Union>i\<in>{w..<w + l}. block_bytes (gt_blk (2 * pk) pk (2 * pk * g) ntpb goff
      (2 * pk * ntpb) (2 * pk * g * ntpb) pb db swap i))"
    "total_len K = l * pk"
    "\<forall>b\<in>set K. \<exists>i\<in>{w..<w + l}. b = gt_blk (2 * pk) pk (2 * pk * g) ntpb goff
      (2 * pk * ntpb) (2 * pk * g * ntpb) pb db swap i"
    using parse_block_send_gt_copies [OF assms(2) _ sz(3) sz(1,2) kv_wf_gt_wf [OF wf], of bs] by auto
  have V: "send_v_of_k env pk (pk * g) bounds swap (length bs) (length (bs @ K)) (bs @ K) =
      Inr (bs @ K @ map (shift_blk ?x ?y) K)"
    using d K(4) by (intro send_v_of_k_copies) (auto dest!: kv_wf_v_bounds [OF wf])
  have "p_rank div g = d_rank" "p_rank mod g = goff" "p_tp div d_tp = g" "d_tp < p_tp" "p_tp mod d_tp = 0"
    using assms(3-6) d by auto
  moreover have "2 * pk * ntpb div (2 * pk) = ntpb" "u32 ntpb = ntpb" "2 * pk * g div 2 = pk * g"
    "2 * pk * g mod 2 = 0"
    using d by (simp_all add: u32_id mult.assoc)
  ultimately have run: "send_kv_internal env (2 * pk * ntpb) (2 * pk * g * ntpb) (2 * pk) (2 * pk * g) p_tp d_tp
      p_rank d_rank pb db w l bounds swap bs = Inr (bs @ K @ map (shift_blk ?x ?y) K)"
    using assms(4,5) d sz K(1) V
    by (simp add: send_kv_internal_def Let_def u64_id mult.commute [of ntpb])
  have "copied (K @ map (shift_blk ?x ?y) K) = (\<Union>i\<in>{w..<w + l}. kv_rows pk g ntpb goff pb db swap i)"
    by (simp add: copied_shift K(2) shift_UN kv_rows_shift UN_Un_distrib)
  moreover have "total_len (K @ map (shift_blk ?x ?y) K) = l * (2 * pk)"
    by (simp add: total_len_append total_len_shift K(3))
  ultimately show ?thesis
    using run by blast
qed

section \<open>What the other side's memory holds\<close>

lemma kv_rows_iff:
  "(s, a) \<in> kv_rows pk g ntpb goff pb db False i \<longleftrightarrow>
    (\<exists>v<2. \<exists>k<pk. s = slot ntpb (2 * pk * ntpb) (2 * pk) pb i + (v * pk + k) \<and>
      a = slot ntpb (2 * pk * g * ntpb) (2 * pk * g) db i + ((v * g + goff) * pk + k))"
proof -
  have ex2: "(\<exists>v<2. P v) \<longleftrightarrow> P 0 \<or> P 1" for P :: "nat \<Rightarrow> bool"
    by (auto simp: less_2_cases_iff)
  show ?thesis
    unfolding ex2 by (auto simp: kv_rows_def Let_def run_def algebra_simps)
qed

lemma kv_rows_swap: "kv_rows pk g ntpb goff pb db True i = (kv_rows pk g ntpb goff pb db False i)\<inverse>"
  by (auto simp: kv_rows_def Let_def mem_run)

lemma slice_offset_bound:
  fixes v g goff pk k :: nat
  assumes "v < 2" and "goff < g" and "k < pk"
  shows "(v * g + goff) * pk + k < 2 * pk * g"
proof -
  have "v * g + goff + 1 \<le> 2 * g"
    using assms(1,2) by (auto simp: less_2_cases_iff)
  then have "(v * g + goff + 1) * pk \<le> 2 * g * pk"
    by (intro mult_right_mono) simp_all
  then show ?thesis
    using assms(3) by (simp add: algebra_simps)
qed

text \<open>A byte of the smaller side's token has at most one origin, over all slices.\<close>

lemma kv_rows_inj:
  assumes "distinct db" and "i div ntpb < length db" and "i' div ntpb < length db" and "0 < ntpb"
    and "goff < g" and "goff' < g"
    and "(s, a) \<in> kv_rows pk g ntpb goff pb db False i" and "(s', a) \<in> kv_rows pk g ntpb goff' pb db False i'"
  shows "goff = goff' \<and> s = s'"
proof -
  obtain v k where 1: "v < 2" "k < pk" "s = slot ntpb (2 * pk * ntpb) (2 * pk) pb i + (v * pk + k)"
    "a = slot ntpb (2 * pk * g * ntpb) (2 * pk * g) db i + ((v * g + goff) * pk + k)"
    using assms(7) by (auto simp: kv_rows_iff)
  obtain v' k' where 2: "v' < 2" "k' < pk" "s' = slot ntpb (2 * pk * ntpb) (2 * pk) pb i' + (v' * pk + k')"
    "a = slot ntpb (2 * pk * g * ntpb) (2 * pk * g) db i' + ((v' * g + goff') * pk + k')"
    using assms(8) by (auto simp: kv_rows_iff)
  have "i = i' \<and> (v * g + goff) * pk + k = (v' * g + goff') * pk + k'"
    using slot_inj [OF assms(1-3) _ assms(4) slice_offset_bound [OF 1(1) assms(5) 1(2)]
        slice_offset_bound [OF 2(1) assms(6) 2(2)], of "2 * pk * g * ntpb"] 1(4) 2(4)
    by (simp add: mult.commute)
  moreover from this have "v * g + goff = v' * g + goff' \<and> k = k'"
    using radix_inj [of "v * g + goff" pk k "v' * g + goff'" k'] 1(2) 2(2) by simp
  moreover from this have "v = v' \<and> goff = goff'"
    using radix_inj [of v g goff v' goff'] assms(5,6) by simp
  ultimately show ?thesis
    using 1 2 by simp
qed

text \<open>A byte of the larger side's token has at most one origin.\<close>

lemma kv_rows_inj_swap:
  assumes "distinct pb" and "i div ntpb < length pb" and "i' div ntpb < length pb" and "0 < ntpb"
    and "(s, a) \<in> kv_rows pk g ntpb goff pb db True i" and "(s', a) \<in> kv_rows pk g ntpb goff pb db True i'"
  shows "s = s'"
proof -
  obtain v k where 1: "v < 2" "k < pk" "a = slot ntpb (2 * pk * ntpb) (2 * pk) pb i + (v * pk + k)"
    "s = slot ntpb (2 * pk * g * ntpb) (2 * pk * g) db i + ((v * g + goff) * pk + k)"
    using assms(5) by (auto simp: kv_rows_swap kv_rows_iff)
  obtain v' k' where 2: "v' < 2" "k' < pk" "a = slot ntpb (2 * pk * ntpb) (2 * pk) pb i' + (v' * pk + k')"
    "s' = slot ntpb (2 * pk * g * ntpb) (2 * pk * g) db i' + ((v' * g + goff) * pk + k')"
    using assms(6) by (auto simp: kv_rows_swap kv_rows_iff)
  have "i = i' \<and> v * pk + k = v' * pk + k'"
    using slot_inj [OF assms(1-3) _ assms(4), of "2 * pk" "2 * pk * ntpb" "v * pk + k" "v' * pk + k'"] 1 2
    by (auto simp: less_2_cases_iff mult.commute)
  moreover from this have "v = v' \<and> k = k'"
    using radix_inj [of v pk k v' k'] 1(2) 2(2) by simp
  ultimately show ?thesis
    using 1 2 by simp
qed

section \<open>The parsers of the layout\<close>

text \<open>Sizes of a worker \<open>p\<close> with \<open>pk\<close> bytes of K per token and of a worker \<open>d\<close> with \<open>g\<close> times as much.\<close>

definition kv_pair_ok :: "worker_info \<Rightarrow> worker_info \<Rightarrow> nat \<Rightarrow> nat \<Rightarrow> nat \<Rightarrow> bool" where
  "kv_pair_ok p d pk g ntpb \<longleftrightarrow>
     token_sizes p = [2 * pk] \<and> block_sizes p = [2 * pk * ntpb] \<and>
     token_sizes d = [2 * pk * g] \<and> block_sizes d = [2 * pk * g * ntpb] \<and>
     0 < pk \<and> 1 < g \<and> 0 < ntpb \<and> ntpb < 2 ^ 32 \<and> 0 < layer_num_blocks p \<and> 0 < layer_num_blocks d \<and>
     2 * pk * ntpb * layer_num_blocks p < 2 ^ 64 \<and> 2 * pk * g * ntpb * layer_num_blocks d < 2 ^ 64"

lemma kv_pair_cache_ok:
  assumes "kv_pair_ok p d pk g ntpb"
  shows "cache_ok p 0" and "cache_ok d 0"
  using assms by (auto simp: kv_pair_ok_def cache_ok_def)

lemma ragged_gt_copies:
  assumes "kv_pair_ok p d pk g ntpb" and "kvt_tp_size = g * engine_tp_size d" and "0 < engine_tp_size d"
    and "\<not> env_bf162fp8_conversion env" and "task_ok ntpb (layer_num_blocks p) ntpb (layer_num_blocks d) task"
    and "off < g" and "worker_tp_rank p = worker_tp_rank d * g + off" and "length sbs \<le> 1"
  shows "\<exists>out. parse_block_send_p_gt_d env p d vr kvt_tp_size kvt_tp_rank task sbs = Inr [concat sbs @ out] \<and>
    copied out = (\<Union>i\<in>task_tokens task. kv_rows pk g ntpb off (src_blocks task ! 0) (dst_blocks task ! 0) False i) \<and>
    total_len out = new_tokens task * (2 * pk)"
proof -
  have wf: "kv_wf pk g ntpb off (src_blocks task ! 0) (dst_blocks task ! 0)
    \<lparr> src_capacity = block_sizes p ! 0 * layer_num_blocks p, dst_capacity = block_sizes d ! 0 * layer_num_blocks d,
      src_length_scale = 1, bounds_cache_idx = 0 \<rparr> False (layer_num_blocks p) (layer_num_blocks d)
    (seen_tokens task) (new_tokens task)"
    using assms by (simp add: kv_wf_def kv_pair_ok_def task_ok_def)
  show ?thesis
    using send_kv_internal_copies [OF wf assms(4,2) _ assms(3,7), of "concat sbs"] assms
      kv_pair_cache_ok [OF assms(1)] concat_resize1 [OF assms(8)]
    by (auto simp: parse_block_send_p_gt_d_def do_parse_block_send_internal_def on_cache_def
        make_ipc_block_bounds_ok kv_pair_ok_def task_ok_def)
qed

lemma ragged_lt_copies:
  assumes "kv_pair_ok d p pk g ntpb" and "engine_tp_size d = g * kvt_tp_size" and "0 < kvt_tp_size"
    and "\<not> env_bf162fp8_conversion env" and "task_ok ntpb (layer_num_blocks p) ntpb (layer_num_blocks d) task"
    and "off < g" and "worker_tp_rank d = worker_tp_rank p * g + off" and "length sbs \<le> 1"
  shows "\<exists>out. parse_block_send_p_lt_d env p d vr kvt_tp_size kvt_tp_rank task sbs = Inr [concat sbs @ out] \<and>
    copied out = (\<Union>i\<in>task_tokens task. kv_rows pk g ntpb off (dst_blocks task ! 0) (src_blocks task ! 0) True i) \<and>
    total_len out = new_tokens task * (2 * pk)"
proof -
  have wf: "kv_wf pk g ntpb off (dst_blocks task ! 0) (src_blocks task ! 0)
    \<lparr> src_capacity = block_sizes p ! 0 * layer_num_blocks p, dst_capacity = block_sizes d ! 0 * layer_num_blocks d,
      src_length_scale = 1, bounds_cache_idx = 0 \<rparr> True (layer_num_blocks d) (layer_num_blocks p)
    (seen_tokens task) (new_tokens task)"
    using assms by (simp add: kv_wf_def kv_pair_ok_def task_ok_def)
  show ?thesis
    using send_kv_internal_copies [OF wf assms(4,2) _ assms(3,7), of "concat sbs"] assms
      kv_pair_cache_ok [OF assms(1)] concat_resize1 [OF assms(8)]
    by (auto simp: parse_block_send_p_lt_d_def do_parse_block_send_internal_def on_cache_def
        make_ipc_block_bounds_ok kv_pair_ok_def task_ok_def)
qed

section \<open>Properties\<close>

text \<open>The request and the two workers fit the equal-TP case with token size \<open>tsz\<close>, block size \<open>bsz\<close>.\<close>

definition ragged_eq_ok ::
  "kvt_env \<Rightarrow> worker_info \<Rightarrow> worker_info \<Rightarrow> nat \<Rightarrow> req_send_task \<Rightarrow> nat \<Rightarrow> nat \<Rightarrow> bool" where
  "ragged_eq_ok env src dst kvt_tp_size task tsz bsz \<longleftrightarrow>
     cache_ok src 0 \<and> cache_ok dst 0 \<and> token_sizes src = [tsz] \<and> block_sizes src = [bsz] \<and>
     token_sizes dst = [tsz] \<and> block_sizes dst = [bsz] \<and>
     task_ok (bsz div tsz) (layer_num_blocks src) (bsz div tsz) (layer_num_blocks dst) task \<and>
     \<not> env_bf162fp8_conversion env \<and> kvt_tp_size = engine_tp_size dst \<and>
     worker_tp_rank src = worker_tp_rank dst"

text \<open>
  C1. With equal TP sizes the ragged parser returns, its descriptors carry \<open>new_tokens\<close> tokens in
  total, and executing them leaves, for each new token of the request, exactly the bytes of the
  source token in the destination's slot of that token; every other destination byte is unchanged.
\<close>

theorem ragged_p_eq_d_memory:
  assumes "ragged_eq_ok env src dst kvt_tp_size task tsz bsz" and "distinct (dst_blocks task ! 0)"
  shows "\<exists>out. parse_block_send_p_eq_d env src dst vr kvt_tp_size kvt_tp_rank task [] = Inr [out] \<and>
    total_len out = new_tokens task * tsz \<and>
    (\<forall>mem dmem.
      (\<forall>i\<in>task_tokens task. \<forall>k<tsz.
        transfer mem out dmem (slot (bsz div tsz) bsz tsz (dst_blocks task ! 0) i + k) =
        mem (slot (bsz div tsz) bsz tsz (src_blocks task ! 0) i + k)) \<and>
      (\<forall>a. (\<forall>i\<in>task_tokens task.
          a \<notin> {slot (bsz div tsz) bsz tsz (dst_blocks task ! 0) i..<
               slot (bsz div tsz) bsz tsz (dst_blocks task ! 0) i + tsz}) \<longrightarrow>
        transfer mem out dmem a = dmem a))"
proof -
  note ok = assms(1) [unfolded ragged_eq_ok_def]
  obtain out where out: "parse_block_send_p_eq_d env src dst vr kvt_tp_size kvt_tp_rank task [] = Inr [out]"
    "copied out = (\<Union>i\<in>task_tokens task. run (slot (bsz div tsz) bsz tsz (src_blocks task ! 0) i)
      (slot (bsz div tsz) bsz tsz (dst_blocks task ! 0) i) tsz)"
    "total_len out = new_tokens task * tsz"
    using ragged_eq_copies [of src dst tsz bsz task env kvt_tp_size "[]" vr kvt_tp_rank] ok by auto
  have "0 < bsz div tsz" "bsz div tsz * tsz \<le> bsz"
    using ok by (auto simp: cache_ok_def div_greater_zero_iff dvd_imp_le)
  moreover have "i div (bsz div tsz) < length (dst_blocks task ! 0)" if "i \<in> task_tokens task" for i
    using ok that by (auto simp: task_ok_def table_ok_def)
  ultimately show ?thesis
    using out(1,3) rows_memory [OF assms(2) _ _ _ out(2)] by blast
qed

lemma kv_gather_memory:
  assumes "distinct db" and "0 < ntpb" and "\<And>i. i \<in> I \<Longrightarrow> i div ntpb < length db"
    and outs: "\<And>off. off < g \<Longrightarrow> copied (outs off) = (\<Union>i\<in>I. kv_rows pk g ntpb off pb db False i)"
    and "i \<in> I" and "off < g" and "k < pk" and "v < 2"
  shows "gather mem outs g dmem (slot ntpb (2 * pk * g * ntpb) (2 * pk * g) db i + ((v * g + off) * pk + k)) =
    mem off (slot ntpb (2 * pk * ntpb) (2 * pk) pb i + (v * pk + k))"
  unfolding gather_def
proof (rule transfer_family [where x = off])
  let ?a = "slot ntpb (2 * pk * g * ntpb) (2 * pk * g) db i + ((v * g + off) * pk + k)"
  have inj: "off1 = off2 \<and> s = s'" if lt: "off1 < g" "off2 < g" and m: "(s, a) \<in> copied (outs off1)"
    "(s', a) \<in> copied (outs off2)" for off1 off2 s s' a
  proof -
    obtain i1 i2 where i1: "i1 \<in> I" "(s, a) \<in> kv_rows pk g ntpb off1 pb db False i1"
      and i2: "i2 \<in> I" "(s', a) \<in> kv_rows pk g ntpb off2 pb db False i2"
      using m unfolding outs [OF lt(1)] outs [OF lt(2)] by blast
    show ?thesis
      by (rule kv_rows_inj [OF assms(1) assms(3) [OF i1(1)] assms(3) [OF i2(1)] assms(2) lt i1(2) i2(2)])
  qed
  show "one_source (copied (outs off))"
    unfolding one_source_def using inj assms(6) by blast
  show mem: "(slot ntpb (2 * pk * ntpb) (2 * pk) pb i + (v * pk + k), ?a) \<in> copied (outs off)"
    unfolding outs [OF assms(6)] using assms(5,7,8) by (intro UN_I [of i]) (auto simp: kv_rows_iff)
  show "?a \<notin> snd ` copied (outs y)" if "y \<in> set [0..<g]" "y \<noteq> off" for y
    using inj [OF _ assms(6) _ mem, of y] that by force
qed (use assms in simp_all)

text \<open>
  C6. When the prefill TP size is \<open>g\<close> times the decode TP size, each of the \<open>g\<close> prefill workers
  of a decode worker gets descriptors, and after all of them have run, in the decode worker's slot
  of each new token the K slice of worker \<open>off\<close> lies at offset \<open>off\<close> of the K half and its V slice
  at offset \<open>off\<close> of the V half: the head slices are gathered without gap or overlap.
\<close>

theorem ragged_p_gt_d_memory:
  assumes "kv_pair_ok p d pk g ntpb" and "kvt_tp_size = g * engine_tp_size d" and "0 < engine_tp_size d"
    and "\<not> env_bf162fp8_conversion env" and "task_ok ntpb (layer_num_blocks p) ntpb (layer_num_blocks d) task"
    and "distinct (dst_blocks task ! 0)"
  shows "\<exists>outs. (\<forall>off<g. parse_block_send_p_gt_d env (p\<lparr>worker_tp_rank := worker_tp_rank d * g + off\<rparr>) d
        vr kvt_tp_size kvt_tp_rank task [] = Inr [outs off] \<and>
        total_len (outs off) = new_tokens task * (2 * pk)) \<and>
    (\<forall>mem dmem. \<forall>i\<in>task_tokens task. \<forall>off<g. \<forall>k<pk. \<forall>v<2.
      gather mem outs g dmem
        (slot ntpb (2 * pk * g * ntpb) (2 * pk * g) (dst_blocks task ! 0) i + ((v * g + off) * pk + k)) =
      mem off (slot ntpb (2 * pk * ntpb) (2 * pk) (src_blocks task ! 0) i + (v * pk + k)))"
proof -
  let ?p = "\<lambda>off. p\<lparr>worker_tp_rank := worker_tp_rank d * g + off\<rparr>"
  have pair: "kv_pair_ok (?p off) d pk g ntpb" for off
    using assms(1) by (simp add: kv_pair_ok_def)
  have "\<forall>off. \<exists>out. off < g \<longrightarrow> parse_block_send_p_gt_d env (?p off) d vr kvt_tp_size kvt_tp_rank task [] = Inr [out] \<and>
      copied out = (\<Union>i\<in>task_tokens task. kv_rows pk g ntpb off (src_blocks task ! 0) (dst_blocks task ! 0) False i) \<and>
      total_len out = new_tokens task * (2 * pk)"
  proof
    fix off
    show "\<exists>out. off < g \<longrightarrow> parse_block_send_p_gt_d env (?p off) d vr kvt_tp_size kvt_tp_rank task [] = Inr [out] \<and>
      copied out = (\<Union>i\<in>task_tokens task. kv_rows pk g ntpb off (src_blocks task ! 0) (dst_blocks task ! 0) False i) \<and>
      total_len out = new_tokens task * (2 * pk)"
      using ragged_gt_copies [OF pair assms(2-4), where off = off and sbs = "[]" and task = task] assms(5)
      by (cases "off < g") auto
  qed
  then obtain outs where outs: "off < g \<Longrightarrow> parse_block_send_p_gt_d env (?p off) d vr kvt_tp_size kvt_tp_rank task [] = Inr [outs off] \<and>
      copied (outs off) = (\<Union>i\<in>task_tokens task. kv_rows pk g ntpb off (src_blocks task ! 0) (dst_blocks task ! 0) False i) \<and>
      total_len (outs off) = new_tokens task * (2 * pk)" for off
    by metis
  have len: "i div ntpb < length (dst_blocks task ! 0)" if "i \<in> task_tokens task" for i
    using assms(5) that by (auto simp: task_ok_def table_ok_def)
  have n0: "0 < ntpb"
    using assms(1) by (simp add: kv_pair_ok_def)
  have copied: "off < g \<Longrightarrow> copied (outs off) =
      (\<Union>i\<in>task_tokens task. kv_rows pk g ntpb off (src_blocks task ! 0) (dst_blocks task ! 0) False i)" for off
    using outs by blast
  show ?thesis
    by (intro exI [of _ outs] conjI allI ballI impI kv_gather_memory [OF assms(6) n0 len copied])
      (use outs in auto)
qed

text \<open>
  C7. When the decode TP size is \<open>g\<close> times the prefill TP size, the descriptors for a decode
  worker leave in its slot of each new token the K and V slice that belongs to the worker's rank,
  and no other byte of its memory changes.
\<close>

theorem ragged_p_lt_d_memory:
  assumes "kv_pair_ok d p pk g ntpb" and "engine_tp_size d = g * kvt_tp_size" and "0 < kvt_tp_size"
    and "\<not> env_bf162fp8_conversion env" and "task_ok ntpb (layer_num_blocks p) ntpb (layer_num_blocks d) task"
    and "off < g" and "worker_tp_rank d = worker_tp_rank p * g + off" and "distinct (dst_blocks task ! 0)"
  shows "\<exists>out. parse_block_send_p_lt_d env p d vr kvt_tp_size kvt_tp_rank task [] = Inr [out] \<and>
    total_len out = new_tokens task * (2 * pk) \<and>
    (\<forall>mem dmem. (\<forall>i\<in>task_tokens task. \<forall>k<pk. \<forall>v<2.
        transfer mem out dmem (slot ntpb (2 * pk * ntpb) (2 * pk) (dst_blocks task ! 0) i + (v * pk + k)) =
        mem (slot ntpb (2 * pk * g * ntpb) (2 * pk * g) (src_blocks task ! 0) i + ((v * g + off) * pk + k))) \<and>
      (\<forall>a. (\<forall>i\<in>task_tokens task.
          a \<notin> {slot ntpb (2 * pk * ntpb) (2 * pk) (dst_blocks task ! 0) i..<
               slot ntpb (2 * pk * ntpb) (2 * pk) (dst_blocks task ! 0) i + 2 * pk}) \<longrightarrow>
        transfer mem out dmem a = dmem a))"
proof -
  let ?rows = "kv_rows pk g ntpb off (dst_blocks task ! 0) (src_blocks task ! 0) True"
  obtain out where out: "parse_block_send_p_lt_d env p d vr kvt_tp_size kvt_tp_rank task [] = Inr [out]"
    "copied out = (\<Union>i\<in>task_tokens task. ?rows i)" "total_len out = new_tokens task * (2 * pk)"
    using ragged_lt_copies [OF assms(1-7), of "[]" vr kvt_tp_rank] by auto
  have len: "i div ntpb < length (dst_blocks task ! 0)" if "i \<in> task_tokens task" for i
    using assms(5) that by (auto simp: task_ok_def table_ok_def)
  have n0: "0 < ntpb"
    using assms(1) by (simp add: kv_pair_ok_def)
  have one: "one_source (copied out)"
    unfolding one_source_def out(2) using kv_rows_inj_swap [OF assms(8) len len n0] by blast
  have hit: "(slot ntpb (2 * pk * g * ntpb) (2 * pk * g) (src_blocks task ! 0) i + ((v * g + off) * pk + k),
      slot ntpb (2 * pk * ntpb) (2 * pk) (dst_blocks task ! 0) i + (v * pk + k)) \<in> copied out"
    if "i \<in> task_tokens task" "k < pk" "v < 2" for i k v
    unfolding out(2) using that by (intro UN_I [of i]) (auto simp: kv_rows_swap kv_rows_iff)
  have rng: "slot ntpb (2 * pk * ntpb) (2 * pk) (dst_blocks task ! 0) i \<le> a \<and>
      a < slot ntpb (2 * pk * ntpb) (2 * pk) (dst_blocks task ! 0) i + 2 * pk"
    if "(s, a) \<in> ?rows i" for i s a
    using that by (auto simp: kv_rows_swap kv_rows_iff less_2_cases_iff)
  have miss: "transfer mem out dmem a = dmem a"
    if "\<forall>i\<in>task_tokens task. a \<notin> {slot ntpb (2 * pk * ntpb) (2 * pk) (dst_blocks task ! 0) i..<
      slot ntpb (2 * pk * ntpb) (2 * pk) (dst_blocks task ! 0) i + 2 * pk}"
    for a and mem dmem :: "nat \<Rightarrow> 'a"
  proof (rule transfer_miss)
    fix s
    show "(s, a) \<notin> copied out"
    proof
      assume "(s, a) \<in> copied out"
      then obtain i where i: "i \<in> task_tokens task" "(s, a) \<in> ?rows i"
        unfolding out(2) by blast
      show False
        using rng [OF i(2)] bspec [OF that i(1)] by simp
    qed
  qed
  show ?thesis
    using out(1,3) hit [THEN transfer_hit [OF one]] miss by (intro exI [of _ out]) blast
qed

section \<open>Concrete instances\<close>

theorem ragged_p_eq_d_memory_witness:
  "\<exists>out. parse_block_send_p_eq_d demo_env (demo_worker [4] [8] 5 1 0) (demo_worker [4] [8] 6 1 0)
      [True] 1 0 (demo_task [[4, 0]] [[1, 3]] 1 2 True) [] = Inr [out] \<and>
    total_len out = 8 \<and>
    (\<forall>mem dmem :: nat \<Rightarrow> nat. transfer mem out dmem 13 = mem 37 \<and> transfer mem out dmem 25 = mem 1)"
proof -
  let ?src = "demo_worker [4] [8] 5 1 0" and ?dst = "demo_worker [4] [8] 6 1 0"
    and ?task = "demo_task [[4, 0]] [[1, 3]] 1 2 True"
  have "ragged_eq_ok demo_env ?src ?dst 1 ?task 4 8" and "distinct (dst_blocks ?task ! 0)"
    by (simp_all add: ragged_eq_ok_def cache_ok_def task_ok_def table_ok_code)
  from ragged_p_eq_d_memory [OF this, where vr = "[True]" and kvt_tp_rank = 0]
  obtain out where out: "parse_block_send_p_eq_d demo_env ?src ?dst [True] 1 0 ?task [] = Inr [out]"
    "total_len out = new_tokens ?task * 4"
    and mem: "\<And>mem dmem :: nat \<Rightarrow> nat. \<And>i k. i \<in> task_tokens ?task \<Longrightarrow> k < 4 \<Longrightarrow>
      transfer mem out dmem (slot (8 div 4) 8 4 (dst_blocks ?task ! 0) i + k) =
      mem (slot (8 div 4) 8 4 (src_blocks ?task ! 0) i + k)"
    by blast
  have "transfer mem out dmem 13 = mem 37 \<and> transfer mem out dmem 25 = mem 1" for mem dmem :: "nat \<Rightarrow> nat"
    using mem [of 1 1 mem dmem] mem [of 2 1 mem dmem] by (simp add: slot_def)
  with out show ?thesis
    by (intro exI [of _ out]) simp
qed

theorem ragged_p_gt_d_memory_witness:
  "\<exists>outs. (\<forall>off<2. parse_block_send_p_gt_d demo_env
        ((demo_worker [4] [8] 5 2 0)\<lparr>worker_tp_rank := 0 * 2 + off\<rparr>) (demo_worker [8] [16] 6 1 0)
        [] 2 0 (demo_task [[4, 0]] [[1, 3]] 1 2 True) [] = Inr [outs off]) \<and>
    (\<forall>mem :: nat \<Rightarrow> nat \<Rightarrow> nat. \<forall>dmem. gather mem outs 2 dmem 30 = mem 1 38)"
proof -
  let ?p = "demo_worker [4] [8] 5 2 0" and ?d = "demo_worker [8] [16] 6 1 0"
    and ?task = "demo_task [[4, 0]] [[1, 3]] 1 2 True"
  have "kv_pair_ok ?p ?d 2 2 2" "2 = 2 * engine_tp_size ?d" "0 < engine_tp_size ?d"
    "\<not> env_bf162fp8_conversion demo_env" "task_ok 2 (layer_num_blocks ?p) 2 (layer_num_blocks ?d) ?task"
    "distinct (dst_blocks ?task ! 0)"
    by (simp_all add: kv_pair_ok_def task_ok_def table_ok_code)
  from ragged_p_gt_d_memory [OF this, where vr = "[]" and kvt_tp_rank = 0]
  obtain outs where outs: "\<forall>off<2. parse_block_send_p_gt_d demo_env
      (?p\<lparr>worker_tp_rank := worker_tp_rank ?d * 2 + off\<rparr>) ?d [] 2 0 ?task [] = Inr [outs off]"
    and mem: "\<And>mem :: nat \<Rightarrow> nat \<Rightarrow> nat. \<And>dmem i off k v. i \<in> task_tokens ?task \<Longrightarrow> off < 2 \<Longrightarrow> k < 2 \<Longrightarrow> v < 2 \<Longrightarrow>
      gather mem outs 2 dmem (slot 2 (2 * 2 * 2 * 2) (2 * 2 * 2) (dst_blocks ?task ! 0) i + ((v * 2 + off) * 2 + k)) =
      mem off (slot 2 (2 * 2 * 2) (2 * 2) (src_blocks ?task ! 0) i + (v * 2 + k))"
    by blast
  have "gather mem outs 2 dmem 30 = mem 1 38" for mem :: "nat \<Rightarrow> nat \<Rightarrow> nat" and dmem
    using mem [of 1 1 0 1 mem dmem] by (simp add: slot_def)
  with outs show ?thesis
    by (intro exI [of _ outs]) simp
qed

theorem ragged_p_lt_d_memory_witness:
  "\<exists>out. parse_block_send_p_lt_d demo_env (demo_worker [8] [16] 6 1 0) (demo_worker [4] [8] 5 2 1)
      [] 1 0 (demo_task [[1, 3]] [[4, 0]] 1 2 True) [] = Inr [out] \<and> total_len out = 8 \<and>
    (\<forall>mem dmem :: nat \<Rightarrow> nat. transfer mem out dmem 38 = mem 30)"
proof -
  let ?p = "demo_worker [8] [16] 6 1 0" and ?d = "demo_worker [4] [8] 5 2 1"
    and ?task = "demo_task [[1, 3]] [[4, 0]] 1 2 True"
  have "kv_pair_ok ?d ?p 2 2 2" "engine_tp_size ?d = 2 * 1" "0 < (1::nat)"
    "\<not> env_bf162fp8_conversion demo_env" "task_ok 2 (layer_num_blocks ?p) 2 (layer_num_blocks ?d) ?task"
    "1 < (2::nat)" "worker_tp_rank ?d = worker_tp_rank ?p * 2 + 1" "distinct (dst_blocks ?task ! 0)"
    by (simp_all add: kv_pair_ok_def task_ok_def table_ok_code)
  from ragged_p_lt_d_memory [OF this, where vr = "[]" and kvt_tp_rank = 0]
  obtain out where out: "parse_block_send_p_lt_d demo_env ?p ?d [] 1 0 ?task [] = Inr [out]"
    "total_len out = new_tokens ?task * (2 * 2)"
    and mem: "\<And>mem dmem :: nat \<Rightarrow> nat. \<And>i k v. i \<in> task_tokens ?task \<Longrightarrow> k < 2 \<Longrightarrow> v < 2 \<Longrightarrow>
      transfer mem out dmem (slot 2 (2 * 2 * 2) (2 * 2) (dst_blocks ?task ! 0) i + (v * 2 + k)) =
      mem (slot 2 (2 * 2 * 2 * 2) (2 * 2 * 2) (src_blocks ?task ! 0) i + ((v * 2 + 1) * 2 + k))"
    by blast
  have "transfer mem out dmem 38 = mem 30" for mem dmem :: "nat \<Rightarrow> nat"
    using mem [of 1 0 1 mem dmem] by (simp add: slot_def)
  with out show ?thesis
    by (intro exI [of _ out]) simp
qed

end
