(* ===== verification/ParseDpsk.thy ===== *)
theory ParseDpsk
  imports ParseRagged
begin

text \<open>
  \<open>src/parse_block_dpsk.cpp\<close>: the layout \<open>DPSK_V32_SPARSE_MLA_SHAPE\<close>, several cache tensors per
  layer (an indexer cache and the MLA cache), each with its own token and block size. The
  descriptors of tensor \<open>i\<close> go to \<open>send_blocks[i]\<close>.
\<close>

section \<open>Model\<close>

text \<open>The loop body shared by the equal-size paths: tensor \<open>i\<close> is sent whole.\<close>

definition send_cache_whole ::
  "kvt_env \<Rightarrow> worker_info \<Rightarrow> worker_info \<Rightarrow> req_send_task \<Rightarrow> nat \<Rightarrow> ipc_block list list \<Rightarrow>
   ipc_block list list result" where
  "send_cache_whole env src dst task i send_blocks =
     vec_at send_blocks i (\<lambda>per_cache_send_blocks.
     rbind (make_ipc_block_bounds env src dst i) (\<lambda>bounds.
     vec_at (block_sizes src) i (\<lambda>bsize.
     vec_at (token_sizes src) i (\<lambda>tsize.
     rbind (do_parse_block_send_p_eq_d env bsize tsize task bounds per_cache_send_blocks) (\<lambda>out.
     Inr (send_blocks[i := out]))))))"

definition vllm_parse_block_send_multi_tensor_p_eq_d :: parse_block_func where
  "vllm_parse_block_send_multi_tensor_p_eq_d env src_worker_info dst_worker_info valid_ranks
     kvt_tp_size kvt_tp_rank task send_blocks =
     vec_idx valid_ranks (worker_tp_rank src_worker_info) (\<lambda>valid.
     if \<not> valid then Inr send_blocks
     else
     c_assert (ndebug env) (kvt_tp_size = engine_tp_size dst_worker_info) (
     c_assert (ndebug env) (kvt_tp_rank = worker_tp_rank dst_worker_info) (
     let tsizes = token_sizes src_worker_info; bsizes = block_sizes src_worker_info in
     c_assert (ndebug env) (tsizes = token_sizes dst_worker_info) (
     c_assert (ndebug env) (bsizes = block_sizes dst_worker_info) (
     c_assert (ndebug env) (length tsizes = length bsizes) (
     c_assert (ndebug env)
       (length (token_sizes dst_worker_info) = length (block_sizes dst_worker_info)) (
     rfold (send_cache_whole env src_worker_info dst_worker_info task) [0..<length tsizes]
       (vec_resize (length tsizes) send_blocks))))))))"

definition do_multi_tensor_parse_block_send ::
  "kvt_env \<Rightarrow> worker_info \<Rightarrow> nat \<Rightarrow> nat list \<Rightarrow> worker_info \<Rightarrow> nat \<Rightarrow> nat list \<Rightarrow> nat \<Rightarrow> nat \<Rightarrow>
   worker_info \<Rightarrow> worker_info \<Rightarrow> bool \<Rightarrow> ipc_block list list \<Rightarrow> ipc_block list list result" where
  "do_multi_tensor_parse_block_send env p_info p_tp_size p_blocks d_info d_tp_size d_blocks wrote left
     actual_src_info actual_dst_info swap send_blocks =
     c_assert (ndebug env) (length (block_sizes p_info) = length (block_sizes d_info)) (
     c_assert (ndebug env) (length (token_sizes p_info) = length (token_sizes d_info)) (
     c_assert (ndebug env) (length (block_sizes p_info) = length (token_sizes p_info)) (
     rfold (\<lambda>cache_idx send_blocks.
       vec_at (block_sizes p_info) cache_idx (\<lambda>p_block_size.
       vec_at (block_sizes d_info) cache_idx (\<lambda>d_block_size.
       vec_at (token_sizes p_info) cache_idx (\<lambda>p_token_size.
       vec_at (token_sizes d_info) cache_idx (\<lambda>d_token_size.
       vec_at send_blocks cache_idx (\<lambda>per_cache_send_blocks.
       rbind (make_ipc_block_bounds env actual_src_info actual_dst_info cache_idx) (\<lambda>bounds.
       rbind (send_kv_internal env p_block_size d_block_size p_token_size d_token_size
                p_tp_size d_tp_size (worker_tp_rank p_info) (worker_tp_rank d_info)
                p_blocks d_blocks wrote left bounds swap per_cache_send_blocks) (\<lambda>out.
       Inr (send_blocks[cache_idx := out])))))))))
       [0..<length (block_sizes p_info)]
       (vec_resize (length (token_sizes p_info)) send_blocks))))"

definition vllm_parse_block_send_multi_tensor_p_gt_d :: parse_block_func where
  "vllm_parse_block_send_multi_tensor_p_gt_d env p_info d_info valid_ranks kvt_tp_size kvt_tp_rank task send_blocks =
     (if token_sizes p_info = token_sizes d_info then
        (if worker_tp_rank p_info \<noteq> 0 then Inr send_blocks
         else
         c_assert (ndebug env) (worker_tp_rank d_info = 0) (
         c_assert (ndebug env) (block_sizes p_info = block_sizes d_info) (
         c_assert (ndebug env) (length (token_sizes p_info) = length (block_sizes p_info)) (
         rfold (send_cache_whole env p_info d_info task) [0..<length (token_sizes p_info)]
           (vec_resize (length (token_sizes p_info)) send_blocks)))))
      else
        vec_at (src_blocks task) 0 (\<lambda>sblocks.
        vec_at (dst_blocks task) 0 (\<lambda>dblocks.
        do_multi_tensor_parse_block_send env p_info kvt_tp_size sblocks d_info (engine_tp_size d_info) dblocks
          (seen_tokens task) (new_tokens task) p_info d_info False send_blocks)))"

definition vllm_parse_block_send_multi_tensor_p_lt_d :: parse_block_func where
  "vllm_parse_block_send_multi_tensor_p_lt_d env p_info d_info valid_ranks kvt_tp_size kvt_tp_rank task send_blocks =
     vec_at (dst_blocks task) 0 (\<lambda>dblocks.
     vec_at (src_blocks task) 0 (\<lambda>sblocks.
     do_multi_tensor_parse_block_send env d_info (engine_tp_size d_info) dblocks p_info kvt_tp_size sblocks
       (seen_tokens task) (new_tokens task) p_info d_info True send_blocks))"

section \<open>One loop over the tensors\<close>

lemma rfold_caches:
  assumes step: "\<And>i sbs'. i < n \<Longrightarrow> length sbs' = n \<Longrightarrow> sbs' ! i = sbs ! i \<Longrightarrow>
      \<exists>new. f i sbs' = Inr (sbs'[i := sbs ! i @ new]) \<and> P i new"
    and len: "length sbs = n"
  shows "\<exists>news. rfold f [0..<n] sbs = Inr (map (\<lambda>i. sbs ! i @ news i) [0..<n]) \<and> (\<forall>i<n. P i (news i))"
proof -
  have "\<exists>news. rfold f [0..<m] sbs = Inr (map (\<lambda>i. if i < m then sbs ! i @ news i else sbs ! i) [0..<n]) \<and>
      (\<forall>i<m. P i (news i))" if "m \<le> n" for m
    using that
  proof (induction m)
    case 0
    show ?case
      using len map_nth [of sbs] by simp
  next
    case (Suc m)
    then obtain news where news: "rfold f [0..<m] sbs =
        Inr (map (\<lambda>i. if i < m then sbs ! i @ news i else sbs ! i) [0..<n])" "\<forall>i<m. P i (news i)"
      by auto
    let ?s = "map (\<lambda>i. if i < m then sbs ! i @ news i else sbs ! i) [0..<n]"
    obtain new where new: "f m ?s = Inr (?s[m := sbs ! m @ new])" "P m new"
      using step [of m ?s] Suc.prems by auto
    have "?s[m := sbs ! m @ new] =
        map (\<lambda>i. if i < Suc m then sbs ! i @ (news(m := new)) i else sbs ! i) [0..<n]"
      by (rule nth_equalityI) (auto simp: nth_list_update less_Suc_eq)
    then show ?case
      using news new by (intro exI [of _ "news(m := new)"]) (auto simp: rfold_append less_Suc_eq)
  qed
  from this [of n] obtain news where
    "rfold f [0..<n] sbs = Inr (map (\<lambda>i. if i < n then sbs ! i @ news i else sbs ! i) [0..<n])"
    "\<forall>i<n. P i (news i)"
    by auto
  moreover have "map (\<lambda>i. if i < n then sbs ! i @ news i else sbs ! i) [0..<n] = map (\<lambda>i. sbs ! i @ news i) [0..<n]"
    by simp
  ultimately show ?thesis
    by metis
qed

text \<open>Tensor \<open>t\<close> is sent whole: the rows of the task's tokens with the tensor's own sizes.\<close>

definition whole_rows :: "worker_info \<Rightarrow> req_send_task \<Rightarrow> nat \<Rightarrow> nat \<Rightarrow> (nat \<times> nat) set" where
  "whole_rows src task t i =
     (let bsz = block_sizes src ! t; tsz = token_sizes src ! t
      in run (slot (bsz div tsz) bsz tsz (src_blocks task ! 0) i)
             (slot (bsz div tsz) bsz tsz (dst_blocks task ! 0) i) tsz)"

definition whole_ok :: "kvt_env \<Rightarrow> worker_info \<Rightarrow> worker_info \<Rightarrow> req_send_task \<Rightarrow> bool" where
  "whole_ok env src dst task \<longleftrightarrow>
     token_sizes dst = token_sizes src \<and> block_sizes dst = block_sizes src \<and>
     length (token_sizes src) = length (block_sizes src) \<and> \<not> env_bf162fp8_conversion env \<and>
     (\<forall>t<length (token_sizes src). cache_ok src t \<and> cache_ok dst t \<and>
        task_ok (block_sizes src ! t div token_sizes src ! t) (layer_num_blocks src)
          (block_sizes src ! t div token_sizes src ! t) (layer_num_blocks dst) task)"

lemma send_cache_whole_copies:
  assumes ok: "whole_ok env src dst task" and t: "t < length (token_sizes src)"
    and "length sbs' = length (token_sizes src)" and "sbs' ! t = c"
  shows "\<exists>new. send_cache_whole env src dst task t sbs' = Inr (sbs'[t := c @ new]) \<and>
    copied new = (\<Union>i\<in>task_tokens task. whole_rows src task t i) \<and>
    total_len new = new_tokens task * token_sizes src ! t"
proof -
  let ?bsz = "block_sizes src ! t" and ?tsz = "token_sizes src ! t"
  note d = ok [unfolded whole_ok_def]
  have cs: "cache_ok src t" "cache_ok dst t"
    and tk: "task_ok (?bsz div ?tsz) (layer_num_blocks src) (?bsz div ?tsz) (layer_num_blocks dst) task"
    using d t by auto
  let ?b = "\<lparr> src_capacity = ?bsz * layer_num_blocks src, dst_capacity = ?bsz * layer_num_blocks dst,
      src_length_scale = 1, bounds_cache_idx = t \<rparr>"
  have "eqd_wf ?bsz ?tsz (?bsz div ?tsz) (src_blocks task ! 0) (dst_blocks task ! 0) ?b
      (layer_num_blocks src) (layer_num_blocks dst) (seen_tokens task) (new_tokens task)"
    using cs tk d by (auto simp: eqd_wf_def cache_ok_def task_ok_def div_greater_zero_iff dvd_imp_le)
  then have "\<exists>out. do_parse_block_send_p_eq_d env ?bsz ?tsz task ?b c = Inr (c @ out) \<and>
    copied out = (\<Union>i\<in>task_tokens task. whole_rows src task t i) \<and> total_len out = new_tokens task * ?tsz"
    using do_parse_p_eq_d_copies [where env = env and bs = c and bounds = ?b and block_size = ?bsz
        and token_size = ?tsz and task = task] cs tk cache_ok_block_size [OF cs(1)]
    unfolding whole_rows_def Let_def by (fastforce simp: cache_ok_def task_ok_def)
  moreover have "make_ipc_block_bounds env src dst t = Inr ?b"
    using make_ipc_block_bounds_ok [OF cs, of env] d by simp
  ultimately show ?thesis
    using assms(3,4) t d by (auto simp: send_cache_whole_def)
qed

lemma whole_caches_copy:
  assumes ok: "whole_ok env src dst task"
  shows "\<exists>news. rfold (send_cache_whole env src dst task) [0..<length (token_sizes src)]
      (replicate (length (token_sizes src)) []) = Inr (map news [0..<length (token_sizes src)]) \<and>
    (\<forall>t<length (token_sizes src). copied (news t) = (\<Union>i\<in>task_tokens task. whole_rows src task t i) \<and>
      total_len (news t) = new_tokens task * token_sizes src ! t)"
proof -
  let ?n = "length (token_sizes src)" and ?r = "replicate (length (token_sizes src)) [] :: ipc_block list list"
  let ?P = "\<lambda>t new. copied new = (\<Union>i\<in>task_tokens task. whole_rows src task t i) \<and>
      total_len new = new_tokens task * token_sizes src ! t"
  have "\<exists>news. rfold (send_cache_whole env src dst task) [0..<?n] ?r = Inr (map (\<lambda>i. ?r ! i @ news i) [0..<?n]) \<and>
      (\<forall>i<?n. ?P i (news i))"
  proof (rule rfold_caches)
    fix i and sbs' :: "ipc_block list list"
    assume "i < ?n" and "length sbs' = ?n" and "sbs' ! i = ?r ! i"
    then show "\<exists>new. send_cache_whole env src dst task i sbs' = Inr (sbs'[i := ?r ! i @ new]) \<and> ?P i new"
      by (rule send_cache_whole_copies [OF ok])
  qed simp
  moreover have "map (\<lambda>i. ?r ! i @ news i) [0..<?n] = map news [0..<?n]" for news
    by simp
  ultimately show ?thesis
    by metis
qed

section \<open>Sharded tensors\<close>

text \<open>Tensor sizes of a worker \<open>p\<close> and of a worker \<open>d\<close> that holds \<open>g\<close> times the heads.\<close>

definition kv_tensors_ok ::
  "worker_info \<Rightarrow> worker_info \<Rightarrow> (nat \<Rightarrow> nat) \<Rightarrow> nat \<Rightarrow> (nat \<Rightarrow> nat) \<Rightarrow> nat \<Rightarrow> bool" where
  "kv_tensors_ok p d pk g ntpb n \<longleftrightarrow>
     length (token_sizes p) = n \<and> length (block_sizes p) = n \<and> length (token_sizes d) = n \<and>
     length (block_sizes d) = n \<and> 1 < g \<and> 0 < layer_num_blocks p \<and> 0 < layer_num_blocks d \<and>
     (\<forall>t<n. token_sizes p ! t = 2 * pk t \<and> block_sizes p ! t = 2 * pk t * ntpb t \<and>
        token_sizes d ! t = 2 * pk t * g \<and> block_sizes d ! t = 2 * pk t * g * ntpb t \<and>
        0 < pk t \<and> 0 < ntpb t \<and> ntpb t < 2 ^ 32 \<and>
        2 * pk t * ntpb t * layer_num_blocks p < 2 ^ 64 \<and> 2 * pk t * g * ntpb t * layer_num_blocks d < 2 ^ 64)"

lemma kv_tensors_cache_ok:
  assumes "kv_tensors_ok p d pk g ntpb n" and "t < n"
  shows "cache_ok p t" and "cache_ok d t"
  using assms by (auto simp: kv_tensors_ok_def cache_ok_def)

lemma do_multi_tensor_copies:
  fixes swap :: bool and p d :: worker_info
  defines "src \<equiv> if swap then d else p" and "dst \<equiv> if swap then p else d"
  assumes ok: "kv_tensors_ok p d pk g ntpb n" and conv: "\<not> env_bf162fp8_conversion env"
    and tp: "p_tp = g * d_tp" "0 < d_tp" and rank: "worker_tp_rank p = worker_tp_rank d * g + goff" "goff < g"
    and toks: "w + l < 2 ^ 32"
      "\<And>t. t < n \<Longrightarrow> table_ok (ntpb t) pb (layer_num_blocks p) w l \<and> table_ok (ntpb t) db (layer_num_blocks d) w l"
  shows "\<exists>news. do_multi_tensor_parse_block_send env p p_tp pb d d_tp db w l src dst swap [] = Inr (map news [0..<n]) \<and>
    (\<forall>t<n. copied (news t) = (\<Union>i\<in>{w..<w + l}. kv_rows (pk t) g (ntpb t) goff pb db swap i) \<and>
      total_len (news t) = l * (2 * pk t))"
proof -
  note d = ok [unfolded kv_tensors_ok_def]
  let ?r = "replicate n [] :: ipc_block list list"
  let ?P = "\<lambda>t new. copied new = (\<Union>i\<in>{w..<w + l}. kv_rows (pk t) g (ntpb t) goff pb db swap i) \<and>
      total_len new = l * (2 * pk t)"
  let ?f = "\<lambda>cache_idx send_blocks.
       vec_at (block_sizes p) cache_idx (\<lambda>p_block_size.
       vec_at (block_sizes d) cache_idx (\<lambda>d_block_size.
       vec_at (token_sizes p) cache_idx (\<lambda>p_token_size.
       vec_at (token_sizes d) cache_idx (\<lambda>d_token_size.
       vec_at send_blocks cache_idx (\<lambda>per_cache_send_blocks.
       rbind (make_ipc_block_bounds env src dst cache_idx) (\<lambda>bounds.
       rbind (send_kv_internal env p_block_size d_block_size p_token_size d_token_size
                p_tp d_tp (worker_tp_rank p) (worker_tp_rank d)
                pb db w l bounds swap per_cache_send_blocks) (\<lambda>out.
       Inr (send_blocks[cache_idx := out]))))))))"
  have "\<exists>new. ?f t sbs' = Inr (sbs'[t := ?r ! t @ new]) \<and> ?P t new"
    if t: "t < n" "length sbs' = n" "sbs' ! t = ?r ! t" for t sbs'
  proof -
    let ?b = "\<lparr> src_capacity = block_sizes src ! t * layer_num_blocks src,
      dst_capacity = block_sizes dst ! t * layer_num_blocks dst, src_length_scale = 1, bounds_cache_idx = t \<rparr>"
    have bounds: "make_ipc_block_bounds env src dst t = Inr ?b"
      using make_ipc_block_bounds_ok [of src t dst env] kv_tensors_cache_ok [OF ok t(1)] conv
      by (simp add: src_def dst_def)
    have wf: "kv_wf (pk t) g (ntpb t) goff pb db ?b swap (layer_num_blocks p) (layer_num_blocks d) w l"
      using d t(1) toks rank(2) by (auto simp: kv_wf_def src_def dst_def)
    show ?thesis
      using send_kv_internal_copies [OF wf conv tp(1) _ tp(2) rank(1), of "[]"] d t bounds by auto
  qed
  then have "\<exists>news. rfold ?f [0..<n] ?r = Inr (map (\<lambda>i. ?r ! i @ news i) [0..<n]) \<and> (\<forall>i<n. ?P i (news i))"
    by (intro rfold_caches) auto
  moreover have "map (\<lambda>i. ?r ! i @ news i) [0..<n] = map news [0..<n]" for news
    by simp
  ultimately show ?thesis
    using d by (simp add: do_multi_tensor_parse_block_send_def)
qed

section \<open>Properties\<close>

lemma whole_memory:
  assumes ok: "whole_ok env src dst task" and "distinct (dst_blocks task ! 0)" and t: "t < length (token_sizes src)"
    and out: "copied out = (\<Union>i\<in>task_tokens task. whole_rows src task t i)"
  defines "bsz \<equiv> block_sizes src ! t" and "tsz \<equiv> token_sizes src ! t"
  shows "(\<forall>i\<in>task_tokens task. \<forall>k<tsz.
      transfer mem out dmem (slot (bsz div tsz) bsz tsz (dst_blocks task ! 0) i + k) =
      mem (slot (bsz div tsz) bsz tsz (src_blocks task ! 0) i + k)) \<and>
    (\<forall>a. (\<forall>i\<in>task_tokens task.
        a \<notin> {slot (bsz div tsz) bsz tsz (dst_blocks task ! 0) i..<
             slot (bsz div tsz) bsz tsz (dst_blocks task ! 0) i + tsz}) \<longrightarrow>
      transfer mem out dmem a = dmem a)"
proof (rule rows_memory [OF assms(2)])
  note d = ok [unfolded whole_ok_def]
  have cs: "cache_ok src t"
    and tk: "task_ok (bsz div tsz) (layer_num_blocks src) (bsz div tsz) (layer_num_blocks dst) task"
    using d t by (auto simp: bsz_def tsz_def)
  show "0 < bsz div tsz" "bsz div tsz * tsz \<le> bsz"
    using cs by (auto simp: cache_ok_def bsz_def tsz_def div_greater_zero_iff dvd_imp_le)
  show "i div (bsz div tsz) < length (dst_blocks task ! 0)" if "i \<in> task_tokens task" for i
    using tk that by (auto simp: task_ok_def table_ok_def)
  show "copied out = (\<Union>i\<in>task_tokens task. run (slot (bsz div tsz) bsz tsz (src_blocks task ! 0) i)
      (slot (bsz div tsz) bsz tsz (dst_blocks task ! 0) i) tsz)"
    using out by (simp add: whole_rows_def Let_def bsz_def tsz_def)
qed

text \<open>
  With equal effective TP sizes, a selected prefill rank gets one vector of descriptors per
  cache tensor, and executing the vector of tensor \<open>t\<close> leaves the new tokens of that tensor, with
  the tensor's own sizes, in the destination slots and changes nothing else.
\<close>

theorem multi_tensor_p_eq_d_memory:
  assumes "whole_ok env src dst task" and "distinct (dst_blocks task ! 0)"
    and "worker_tp_rank src < length valid_ranks" and "valid_ranks ! worker_tp_rank src"
    and "kvt_tp_size = engine_tp_size dst" and "kvt_tp_rank = worker_tp_rank dst"
  shows "\<exists>outs. vllm_parse_block_send_multi_tensor_p_eq_d env src dst valid_ranks kvt_tp_size kvt_tp_rank task [] =
      Inr outs \<and> length outs = length (token_sizes src) \<and>
    (\<forall>mem dmem. \<forall>t<length (token_sizes src). let bsz = block_sizes src ! t; tsz = token_sizes src ! t in
      (\<forall>i\<in>task_tokens task. \<forall>k<tsz.
        transfer mem (outs ! t) dmem (slot (bsz div tsz) bsz tsz (dst_blocks task ! 0) i + k) =
        mem (slot (bsz div tsz) bsz tsz (src_blocks task ! 0) i + k)) \<and>
      (\<forall>a. (\<forall>i\<in>task_tokens task.
          a \<notin> {slot (bsz div tsz) bsz tsz (dst_blocks task ! 0) i..<
               slot (bsz div tsz) bsz tsz (dst_blocks task ! 0) i + tsz}) \<longrightarrow>
        transfer mem (outs ! t) dmem a = dmem a))"
proof -
  obtain news where news: "rfold (send_cache_whole env src dst task) [0..<length (token_sizes src)]
      (replicate (length (token_sizes src)) []) = Inr (map news [0..<length (token_sizes src)])"
    "\<And>t. t < length (token_sizes src) \<Longrightarrow> copied (news t) = (\<Union>i\<in>task_tokens task. whole_rows src task t i)"
    using whole_caches_copy [OF assms(1)] by blast
  have "vllm_parse_block_send_multi_tensor_p_eq_d env src dst valid_ranks kvt_tp_size kvt_tp_rank task [] =
      Inr (map news [0..<length (token_sizes src)])"
    using assms news(1) by (simp add: vllm_parse_block_send_multi_tensor_p_eq_d_def whole_ok_def Let_def)
  moreover have "let bsz = block_sizes src ! t; tsz = token_sizes src ! t; out = map news [0..<length (token_sizes src)] ! t in
      (\<forall>i\<in>task_tokens task. \<forall>k<tsz.
        transfer mem out dmem (slot (bsz div tsz) bsz tsz (dst_blocks task ! 0) i + k) =
        mem (slot (bsz div tsz) bsz tsz (src_blocks task ! 0) i + k)) \<and>
      (\<forall>a. (\<forall>i\<in>task_tokens task.
          a \<notin> {slot (bsz div tsz) bsz tsz (dst_blocks task ! 0) i..<
               slot (bsz div tsz) bsz tsz (dst_blocks task ! 0) i + tsz}) \<longrightarrow>
        transfer mem out dmem a = dmem a)"
    if t: "t < length (token_sizes src)" for t and mem dmem :: "nat \<Rightarrow> 'a"
    using whole_memory [OF assms(1,2) t news(2) [OF t]] t unfolding Let_def by simp
  ultimately show ?thesis
    unfolding Let_def by (intro exI conjI allI impI) (assumption, simp, blast+)
qed

text \<open>
  When prefill and decode workers hold identical token sizes although the prefill TP size is
  larger, all prefill ranks hold the same data: a rank other than 0 adds no descriptor, and rank 0
  sends each tensor whole.
\<close>

theorem multi_tensor_p_gt_d_rank0:
  assumes "token_sizes p = token_sizes d"
  shows "(worker_tp_rank p \<noteq> 0 \<longrightarrow>
      vllm_parse_block_send_multi_tensor_p_gt_d env p d valid_ranks kvt_tp_size kvt_tp_rank task sbs = Inr sbs) \<and>
    (worker_tp_rank p = 0 \<and> worker_tp_rank d = 0 \<and> whole_ok env p d task \<longrightarrow>
      (\<exists>outs. vllm_parse_block_send_multi_tensor_p_gt_d env p d valid_ranks kvt_tp_size kvt_tp_rank task [] =
          Inr outs \<and> length outs = length (token_sizes p) \<and>
        (\<forall>t<length (token_sizes p). copied (outs ! t) = (\<Union>i\<in>task_tokens task. whole_rows p task t i) \<and>
          total_len (outs ! t) = new_tokens task * token_sizes p ! t)))"
proof (intro conjI impI)
  assume "worker_tp_rank p \<noteq> 0"
  then show "vllm_parse_block_send_multi_tensor_p_gt_d env p d valid_ranks kvt_tp_size kvt_tp_rank task sbs = Inr sbs"
    using assms by (simp add: vllm_parse_block_send_multi_tensor_p_gt_d_def)
next
  assume ok: "worker_tp_rank p = 0 \<and> worker_tp_rank d = 0 \<and> whole_ok env p d task"
  then obtain news where news: "rfold (send_cache_whole env p d task) [0..<length (token_sizes p)]
      (replicate (length (token_sizes p)) []) = Inr (map news [0..<length (token_sizes p)])"
    "\<forall>t<length (token_sizes p). copied (news t) = (\<Union>i\<in>task_tokens task. whole_rows p task t i) \<and>
      total_len (news t) = new_tokens task * token_sizes p ! t"
    using whole_caches_copy [of env p d task] by blast
  have "vllm_parse_block_send_multi_tensor_p_gt_d env p d valid_ranks kvt_tp_size kvt_tp_rank task [] =
      Inr (map news [0..<length (token_sizes p)])"
    using assms ok news(1) by (simp add: vllm_parse_block_send_multi_tensor_p_gt_d_def whole_ok_def)
  then show "\<exists>outs. vllm_parse_block_send_multi_tensor_p_gt_d env p d valid_ranks kvt_tp_size kvt_tp_rank task [] =
          Inr outs \<and> length outs = length (token_sizes p) \<and>
        (\<forall>t<length (token_sizes p). copied (outs ! t) = (\<Union>i\<in>task_tokens task. whole_rows p task t i) \<and>
          total_len (outs ! t) = new_tokens task * token_sizes p ! t)"
    using news(2) by (intro exI conjI) (assumption, simp_all)
qed

text \<open>
  C31. When the tensors are sharded over the prefill ranks, the \<open>g\<close> prefill workers of a decode
  worker together leave, in every tensor, each new token with the K and V slice of worker \<open>off\<close> at
  offset \<open>off\<close> of its halves.
\<close>

theorem multi_tensor_p_gt_d_memory:
  assumes "kv_tensors_ok p d pk g ntpb n" and "0 < n" and "kvt_tp_size = g * engine_tp_size d" and "0 < engine_tp_size d"
    and "\<not> env_bf162fp8_conversion env"
    and "\<forall>t<n. task_ok (ntpb t) (layer_num_blocks p) (ntpb t) (layer_num_blocks d) task"
    and "distinct (dst_blocks task ! 0)"
  shows "\<exists>outs. (\<forall>off<g. vllm_parse_block_send_multi_tensor_p_gt_d env
        (p\<lparr>worker_tp_rank := worker_tp_rank d * g + off\<rparr>) d vr kvt_tp_size kvt_tp_rank task [] =
        Inr (map (outs off) [0..<n])) \<and>
    (\<forall>mem dmem. \<forall>t<n. \<forall>i\<in>task_tokens task. \<forall>off<g. \<forall>k<pk t. \<forall>v<2.
      gather mem (\<lambda>off. outs off t) g dmem
        (slot (ntpb t) (2 * pk t * g * ntpb t) (2 * pk t * g) (dst_blocks task ! 0) i + ((v * g + off) * pk t + k)) =
      mem off (slot (ntpb t) (2 * pk t * ntpb t) (2 * pk t) (src_blocks task ! 0) i + (v * pk t + k)))"
proof -
  let ?p = "\<lambda>off. p\<lparr>worker_tp_rank := worker_tp_rank d * g + off\<rparr>"
  let ?I = "task_tokens task" and ?sb = "src_blocks task ! 0" and ?db = "dst_blocks task ! 0"
  note d = assms(1) [unfolded kv_tensors_ok_def]
  have tk: "src_blocks task \<noteq> []" "dst_blocks task \<noteq> []" "seen_tokens task + new_tokens task < 2 ^ 32"
    using assms(2,6) by (auto simp: task_ok_def)
  have ne: "token_sizes (?p off) \<noteq> token_sizes d" for off
  proof
    assume "token_sizes (?p off) = token_sizes d"
    then have "token_sizes p ! 0 = token_sizes d ! 0"
      by simp
    then show False
      using d assms(2) by auto
  qed
  have "\<exists>news. vllm_parse_block_send_multi_tensor_p_gt_d env (?p off) d vr kvt_tp_size kvt_tp_rank task [] =
        Inr (map news [0..<n]) \<and> (\<forall>t<n. copied (news t) = (\<Union>i\<in>?I. kv_rows (pk t) g (ntpb t) off ?sb ?db False i))"
    if "off < g" for off
  proof -
    have "kv_tensors_ok (?p off) d pk g ntpb n"
      using assms(1) by (simp add: kv_tensors_ok_def)
    then have "\<exists>news. do_multi_tensor_parse_block_send env (?p off) kvt_tp_size ?sb d (engine_tp_size d) ?db
        (seen_tokens task) (new_tokens task) (?p off) d False [] = Inr (map news [0..<n]) \<and>
      (\<forall>t<n. copied (news t) = (\<Union>i\<in>?I. kv_rows (pk t) g (ntpb t) off ?sb ?db False i) \<and>
        total_len (news t) = new_tokens task * (2 * pk t))"
      using do_multi_tensor_copies [where swap = False and p = "?p off"] assms(3-6) that tk(3)
      by (simp add: task_ok_def)
    moreover have "vllm_parse_block_send_multi_tensor_p_gt_d env (?p off) d vr kvt_tp_size kvt_tp_rank task [] =
        do_multi_tensor_parse_block_send env (?p off) kvt_tp_size ?sb d (engine_tp_size d) ?db
          (seen_tokens task) (new_tokens task) (?p off) d False []"
      using ne [of off] tk by (simp add: vllm_parse_block_send_multi_tensor_p_gt_d_def)
    ultimately show ?thesis
      by metis
  qed
  then obtain outs where outs: "\<And>off. off < g \<Longrightarrow>
      vllm_parse_block_send_multi_tensor_p_gt_d env (?p off) d vr kvt_tp_size kvt_tp_rank task [] = Inr (map (outs off) [0..<n])"
    "\<And>off t. off < g \<Longrightarrow> t < n \<Longrightarrow> copied (outs off t) = (\<Union>i\<in>?I. kv_rows (pk t) g (ntpb t) off ?sb ?db False i)"
    by metis
  show ?thesis
  proof (intro exI [of _ outs] conjI allI ballI impI)
    fix mem :: "nat \<Rightarrow> nat \<Rightarrow> 'a" and dmem t i off k v
    assume "t < n" and "i \<in> ?I" and "off < g" and "k < pk t" and "(v::nat) < 2"
    then show "gather mem (\<lambda>off. outs off t) g dmem
        (slot (ntpb t) (2 * pk t * g * ntpb t) (2 * pk t * g) ?db i + ((v * g + off) * pk t + k)) =
      mem off (slot (ntpb t) (2 * pk t * ntpb t) (2 * pk t) ?sb i + (v * pk t + k))"
      using d assms(6) outs(2)
      by (intro kv_gather_memory [where I = ?I] assms(7)) (auto simp: task_ok_def table_ok_def)
  qed (use outs(1) in simp)
qed

section \<open>Concrete instances\<close>

lemma demo_tables: "table_ok 2 [4, 0] 5 1 2" "table_ok 2 [Suc 0, 3] 6 (Suc 0) 2" "table_ok 2 [4, 0] 5 (Suc 0) 2"
  by (simp_all add: table_ok_code)

lemma demo_whole_ok:
  "whole_ok demo_env (demo_worker [4, 2] [8, 4] 5 tp r) (demo_worker [4, 2] [8, 4] 6 tp' r')
     (demo_task [[4, 0]] [[1, 3]] 1 2 True)"
  using demo_tables by (simp add: whole_ok_def cache_ok_def task_ok_def All_less_Suc)

theorem multi_tensor_p_eq_d_memory_witness:
  "\<exists>outs. vllm_parse_block_send_multi_tensor_p_eq_d demo_env (demo_worker [4, 2] [8, 4] 5 2 1)
      (demo_worker [4, 2] [8, 4] 6 2 1) [True, True] 2 1 (demo_task [[4, 0]] [[1, 3]] 1 2 True) [] = Inr outs \<and>
    (\<forall>mem dmem :: nat \<Rightarrow> nat. transfer mem (outs ! 1) dmem 7 = mem 19)"
proof -
  let ?src = "demo_worker [4, 2] [8, 4] 5 2 1" and ?dst = "demo_worker [4, 2] [8, 4] 6 2 1"
    and ?task = "demo_task [[4, 0]] [[1, 3]] 1 2 True"
  have hyps: "distinct (dst_blocks ?task ! 0)" "worker_tp_rank ?src < length [True, True]"
    "[True, True] ! worker_tp_rank ?src" "2 = engine_tp_size ?dst" "1 = worker_tp_rank ?dst"
    by simp_all
  obtain outs where outs: "vllm_parse_block_send_multi_tensor_p_eq_d demo_env ?src ?dst [True, True] 2 1 ?task [] = Inr outs"
    and mem: "\<And>mem dmem :: nat \<Rightarrow> nat. \<And>t i k. t < length (token_sizes ?src) \<Longrightarrow> i \<in> task_tokens ?task \<Longrightarrow>
      k < token_sizes ?src ! t \<Longrightarrow>
      transfer mem (outs ! t) dmem (slot (block_sizes ?src ! t div token_sizes ?src ! t) (block_sizes ?src ! t)
        (token_sizes ?src ! t) (dst_blocks ?task ! 0) i + k) =
      mem (slot (block_sizes ?src ! t div token_sizes ?src ! t) (block_sizes ?src ! t)
        (token_sizes ?src ! t) (src_blocks ?task ! 0) i + k)"
    using multi_tensor_p_eq_d_memory [OF demo_whole_ok hyps] unfolding Let_def by blast
  have "transfer mem (outs ! 1) dmem 7 = mem 19" for mem dmem :: "nat \<Rightarrow> nat"
    using mem [of 1 1 1 mem dmem] by (simp add: slot_def)
  with outs show ?thesis
    by blast
qed

theorem multi_tensor_p_gt_d_rank0_witness:
  "vllm_parse_block_send_multi_tensor_p_gt_d demo_env (demo_worker [4, 2] [8, 4] 5 4 3)
      (demo_worker [4, 2] [8, 4] 6 1 0) [] 4 3 (demo_task [[4, 0]] [[1, 3]] 1 2 True) [] = Inr [] \<and>
   (\<exists>outs. vllm_parse_block_send_multi_tensor_p_gt_d demo_env (demo_worker [4, 2] [8, 4] 5 4 0)
      (demo_worker [4, 2] [8, 4] 6 1 0) [] 4 0 (demo_task [[4, 0]] [[1, 3]] 1 2 True) [] = Inr outs \<and>
      length outs = 2)"
  using multi_tensor_p_gt_d_rank0 [of "demo_worker [4, 2] [8, 4] 5 4 3" "demo_worker [4, 2] [8, 4] 6 1 0"
      demo_env "[]" 4 3 "demo_task [[4, 0]] [[1, 3]] 1 2 True" "[]"]
    multi_tensor_p_gt_d_rank0 [of "demo_worker [4, 2] [8, 4] 5 4 0" "demo_worker [4, 2] [8, 4] 6 1 0"
      demo_env "[]" 4 0 "demo_task [[4, 0]] [[1, 3]] 1 2 True" "[]"] demo_whole_ok
  by auto

theorem multi_tensor_p_gt_d_memory_witness:
  "\<exists>outs. (\<forall>off<2. vllm_parse_block_send_multi_tensor_p_gt_d demo_env
        ((demo_worker [4] [8] 5 2 0)\<lparr>worker_tp_rank := worker_tp_rank (demo_worker [8] [16] 6 1 0) * 2 + off\<rparr>)
        (demo_worker [8] [16] 6 1 0) [] 2 0 (demo_task [[4, 0]] [[1, 3]] 1 2 True) [] =
        Inr (map (outs off) [0..<1])) \<and>
    (\<forall>mem :: nat \<Rightarrow> nat \<Rightarrow> nat. \<forall>dmem. gather mem (\<lambda>off. outs off 0) 2 dmem 30 = mem 1 38)"
proof -
  let ?p = "demo_worker [4] [8] 5 2 0" and ?d = "demo_worker [8] [16] 6 1 0"
    and ?task = "demo_task [[4, 0]] [[1, 3]] 1 2 True"
  have "kv_tensors_ok ?p ?d (\<lambda>_. 2) 2 (\<lambda>_. 2) 1" "0 < (1::nat)" "2 = 2 * engine_tp_size ?d" "0 < engine_tp_size ?d"
    "\<not> env_bf162fp8_conversion demo_env"
    "\<forall>t<1. task_ok 2 (layer_num_blocks ?p) 2 (layer_num_blocks ?d) ?task"
    "distinct (dst_blocks ?task ! 0)"
    by (simp_all add: kv_tensors_ok_def task_ok_def table_ok_code)
  from multi_tensor_p_gt_d_memory [OF this, where vr = "[]" and kvt_tp_rank = 0]
  obtain outs where outs: "\<forall>off<2. vllm_parse_block_send_multi_tensor_p_gt_d demo_env
      (?p\<lparr>worker_tp_rank := worker_tp_rank ?d * 2 + off\<rparr>) ?d [] 2 0 ?task [] = Inr (map (outs off) [0..<1])"
    and mem: "\<forall>(mem :: nat \<Rightarrow> nat \<Rightarrow> nat) dmem. \<forall>t<1. \<forall>i\<in>task_tokens ?task. \<forall>off<2. \<forall>k<2. \<forall>v<2.
      gather mem (\<lambda>off. outs off t) 2 dmem (slot 2 (2 * 2 * 2 * 2) (2 * 2 * 2) (dst_blocks ?task ! 0) i + ((v * 2 + off) * 2 + k)) =
      mem off (slot 2 (2 * 2 * 2) (2 * 2) (src_blocks ?task ! 0) i + (v * 2 + k))"
    by (elim exE conjE)
  have "gather mem (\<lambda>off. outs off 0) 2 dmem 30 = mem 1 38" for mem :: "nat \<Rightarrow> nat \<Rightarrow> nat" and dmem
    using mem [rule_format, of 0 1 1 0 1 mem dmem] by (simp add: slot_def)
  with outs show ?thesis
    by (intro exI [of _ outs] conjI) simp_all
qed

end
