(* ===== verification/ParseFlash.thy ===== *)
theory ParseFlash
  imports ParseDpsk
begin

text \<open>
  \<open>src/parse_block_flash.cpp\<close>: the layout \<open>FLASH_CACHE_SHAPE\<close>,
  \<open>(2, num_blocks, block_size, num_kv_heads, head_dim)\<close>: all K blocks of the layer, then all V
  blocks. The V descriptors repeat the K descriptors, shifted by the size of the K part on each
  side.
\<close>

section \<open>Model\<close>

text \<open>The loop that repeats the descriptors \<open>sb_idx .. sb_end_idx\<close> for the V part.\<close>

definition send_v_layer ::
  "nat \<Rightarrow> nat \<Rightarrow> ipc_block_bounds \<Rightarrow> nat \<Rightarrow> nat \<Rightarrow> ipc_block list \<Rightarrow> ipc_block list result" where
  "send_v_layer src_layer_size dst_layer_size bounds sb_idx sb_end_idx out =
     rfold (\<lambda>idx out. vec_at out idx (\<lambda>sb.
       append_ipc_block_checked out bounds (u64 (src_offset sb + src_layer_size))
         (u64 (dst_offset sb + dst_layer_size)) (blk_len sb)))
       [sb_idx..<sb_end_idx] out"

definition vllm_parse_block_send_p_eq_d :: parse_block_func where
  "vllm_parse_block_send_p_eq_d env src_worker_info dst_worker_info valid_ranks kvt_tp_size kvt_tp_rank task send_blocks =
     c_assert (ndebug env) (kvt_tp_size = engine_tp_size dst_worker_info) (
     let kv_token_sizes = token_sizes src_worker_info; kv_block_sizes = block_sizes src_worker_info in
     c_assert (ndebug env) (kv_token_sizes = token_sizes dst_worker_info) (
     c_assert (ndebug env) (kv_block_sizes = block_sizes dst_worker_info) (
     c_assert (ndebug env) (worker_tp_rank src_worker_info = worker_tp_rank dst_worker_info) (
     c_assert (ndebug env) (length kv_token_sizes = length kv_block_sizes) (
     c_assert (ndebug env)
       (length (token_sizes dst_worker_info) = length (block_sizes dst_worker_info)) (
     c_assert (ndebug env) (length kv_token_sizes = 1) (
     c_assert (ndebug env) (length kv_block_sizes = 1) (
     vec_at kv_token_sizes 0 (\<lambda>kv_token_size.
     vec_at kv_block_sizes 0 (\<lambda>kv_block_size.
     let k_token_size = kv_token_size div 2; k_block_size = kv_block_size div 2 in
     c_assert (ndebug env) (u64 (2 * k_token_size) = kv_token_size) (
     c_assert (ndebug env) (u64 (2 * k_block_size) = kv_block_size) (
     let src_layer_size = u64 (k_block_size * layer_num_blocks src_worker_info);
         dst_layer_size = u64 (k_block_size * layer_num_blocks dst_worker_info);
         send_blocks' = vec_resize (length kv_token_sizes) send_blocks in
     vec_at send_blocks' 0 (\<lambda>per_cache_send_blocks.
     rbind (make_ipc_block_bounds env src_worker_info dst_worker_info 0) (\<lambda>bounds.
     rbind (do_parse_block_send_p_eq_d env k_block_size k_token_size task bounds per_cache_send_blocks) (\<lambda>out.
     rbind (send_v_layer src_layer_size dst_layer_size bounds (length per_cache_send_blocks) (length out) out) (\<lambda>out'.
     Inr (send_blocks'[0 := out'])))))))))))))))))"

definition valid_count :: "bool list \<Rightarrow> nat" where
  "valid_count valid_ranks = length (filter id valid_ranks)"

definition vllm_parse_block_send_p_gt_d :: parse_block_func where
  "vllm_parse_block_send_p_gt_d env p_info d_info valid_ranks kvt_tp_size kvt_tp_rank task send_blocks =
     vec_idx valid_ranks (worker_tp_rank p_info) (\<lambda>valid.
     if \<not> valid then Inr send_blocks
     else
     c_assert (ndebug env) (kvt_tp_size > engine_tp_size d_info) (
     ck_div (valid_count valid_ranks) (engine_tp_size d_info) (\<lambda>group_n.
     c_assert (ndebug env) (group_n > 0) (
     c_assert (ndebug env) (kvt_tp_rank div group_n = worker_tp_rank d_info) (
     ck_mod kvt_tp_rank group_n (\<lambda>group_off.
     c_assert (ndebug env) (length (token_sizes p_info) = 1) (
     c_assert (ndebug env) (length (token_sizes d_info) = 1) (
     c_assert (ndebug env) (length (block_sizes p_info) = 1) (
     c_assert (ndebug env) (length (block_sizes d_info) = 1) (
     vec_at (token_sizes p_info) 0 (\<lambda>p_token_size.
     vec_at (token_sizes d_info) 0 (\<lambda>d_token_size.
     vec_at (block_sizes p_info) 0 (\<lambda>p_block_size.
     vec_at (block_sizes d_info) 0 (\<lambda>d_block_size.
     c_assert (ndebug env) (d_token_size = u64 (p_token_size * group_n)) (
     c_assert (ndebug env) (d_token_size mod 2 = 0) (
     c_assert (ndebug env) (p_token_size mod 2 = 0) (
     let p_k_size = p_token_size div 2; d_k_size = d_token_size div 2 in
     c_assert (ndebug env) (d_k_size = u64 (p_k_size * group_n)) (
     ck_div p_block_size p_token_size (\<lambda>q.
     let ntpb = u32 q in
     c_assert (ndebug env) (u64 (ntpb * p_token_size) = p_block_size) (
     c_assert (ndebug env) (u64 (ntpb * d_token_size) = d_block_size) (
     let send_blocks' = vec_resize (length (token_sizes p_info)) send_blocks in
     vec_at send_blocks' 0 (\<lambda>per_cache_send_blocks.
     rbind (make_ipc_block_bounds env p_info d_info 0) (\<lambda>bounds.
     vec_idx (src_blocks task) 0 (\<lambda>sblocks.
     vec_idx (dst_blocks task) 0 (\<lambda>dblocks.
     rbind (parse_block_send_gt env p_k_size p_k_size d_k_size ntpb group_off sblocks dblocks
              (seen_tokens task) (new_tokens task) bounds False per_cache_send_blocks) (\<lambda>out.
     let pk_layer_size = u64 (ntpb * p_k_size * layer_num_blocks p_info);
         dk_layer_size = u64 (ntpb * d_k_size * layer_num_blocks d_info) in
     rbind (send_v_layer pk_layer_size dk_layer_size bounds (length per_cache_send_blocks) (length out) out) (\<lambda>out'.
     Inr (send_blocks'[0 := out']))))))))))))))))))))))))))))"

section \<open>Rows\<close>

lemma send_v_layer_copies:
  assumes "src_length_scale bounds = 1" and "src_capacity bounds < 2 ^ 64" and "dst_capacity bounds < 2 ^ 64"
    and "\<And>b. b \<in> set new \<Longrightarrow> 0 < blk_len b \<and> src_offset b + x + blk_len b \<le> src_capacity bounds \<and>
      dst_offset b + y + blk_len b \<le> dst_capacity bounds"
  shows "send_v_layer x y bounds (length bs) (length (bs @ new)) (bs @ new) = Inr (bs @ new @ map (shift_blk x y) new)"
proof -
  have "append_ipc_block_checked out bounds (u64 (src_offset b + x)) (u64 (dst_offset b + y)) (blk_len b) =
    Inr (out @ [shift_blk x y b])" if "b \<in> set new" for b out
  proof -
    note b = assms(4) [OF that]
    then have "u64 (src_offset b + x) = src_offset b + x" "u64 (dst_offset b + y) = dst_offset b + y"
      using assms(2,3) by (auto intro!: u64_id)
    then show ?thesis
      using assms(1,2) b by (simp add: append_ipc_block_checked_Inr_iff shift_blk_def)
  qed
  from rfold_dup [where bs = bs and new = new, OF this] show ?thesis
    by (simp add: send_v_layer_def)
qed

text \<open>K and V of \<open>len\<close> bytes; \<open>v = 1\<close> selects the V part, \<open>sl\<close> and \<open>dl\<close> bytes further.\<close>

lemma UN_two: "(\<Union>(v, i)\<in>{..<2::nat} \<times> I. F v i) = (\<Union>i\<in>I. F 0 i) \<union> (\<Union>i\<in>I. F 1 i)"
proof -
  have "{..<2::nat} \<times> I = {0} \<times> I \<union> {1} \<times> I"
    by auto
  then show ?thesis
    by (simp only: UN_Un) auto
qed

lemma kv_split: "(\<Union>i\<in>I. run (f i) (h i) len) \<union> shift_rel sl dl (\<Union>i\<in>I. run (f i) (h i) len) =
    (\<Union>(v, i)\<in>{..<2} \<times> I. run (f i + v * sl) (h i + v * dl) len)"
  unfolding UN_two shift_UN shift_run by simp

section \<open>Equal TP sizes\<close>

definition flash_eq_ok ::
  "kvt_env \<Rightarrow> worker_info \<Rightarrow> worker_info \<Rightarrow> nat \<Rightarrow> req_send_task \<Rightarrow> nat \<Rightarrow> nat \<Rightarrow> bool" where
  "flash_eq_ok env src dst kvt_tp_size task kt n \<longleftrightarrow>
     token_sizes src = [2 * kt] \<and> block_sizes src = [2 * (n * kt)] \<and>
     token_sizes dst = [2 * kt] \<and> block_sizes dst = [2 * (n * kt)] \<and>
     0 < kt \<and> 0 < n \<and> n < 2 ^ 32 \<and> 0 < layer_num_blocks src \<and> 0 < layer_num_blocks dst \<and>
     2 * (n * kt) * layer_num_blocks src < 2 ^ 64 \<and> 2 * (n * kt) * layer_num_blocks dst < 2 ^ 64 \<and>
     task_ok n (layer_num_blocks src) n (layer_num_blocks dst) task \<and>
     \<not> env_bf162fp8_conversion env \<and> kvt_tp_size = engine_tp_size dst \<and>
     worker_tp_rank src = worker_tp_rank dst"

lemma flash_eq_copies:
  assumes ok: "flash_eq_ok env src dst kvt_tp_size task kt n" and "length sbs \<le> 1"
  defines "sl \<equiv> n * kt * layer_num_blocks src" and "dl \<equiv> n * kt * layer_num_blocks dst"
  shows "\<exists>out. vllm_parse_block_send_p_eq_d env src dst vr kvt_tp_size kvt_tp_rank task sbs = Inr [concat sbs @ out] \<and>
    copied out = (\<Union>(v, i)\<in>{..<2} \<times> task_tokens task.
      run (slot n (n * kt) kt (src_blocks task ! 0) i + v * sl) (slot n (n * kt) kt (dst_blocks task ! 0) i + v * dl) kt) \<and>
    total_len out = new_tokens task * (2 * kt)"
proof -
  note d = ok [unfolded flash_eq_ok_def]
  let ?f = "slot n (n * kt) kt (src_blocks task ! 0)" and ?h = "slot n (n * kt) kt (dst_blocks task ! 0)"
  let ?b = "\<lparr> src_capacity = 2 * (n * kt) * layer_num_blocks src, dst_capacity = 2 * (n * kt) * layer_num_blocks dst,
      src_length_scale = 1, bounds_cache_idx = 0 \<rparr>"
  have nn: "n * kt div kt = n"
    using d by simp
  have lt: "sl < 2 ^ 64" "dl < 2 ^ 64" "n * kt < 2 ^ 64" "2 * kt < 2 ^ 64" "2 * (n * kt) < 2 ^ 64"
  proof -
    have cap: "2 * (n * kt) * layer_num_blocks src < 2 ^ 64" "2 * (n * kt) * layer_num_blocks dst < 2 ^ 64"
      and pos: "0 < layer_num_blocks src" "0 < n"
      using d by blast+
    have two: "2 * (n * kt) < 2 ^ 64"
      using cap(1) pos(1) by (rule factor_less)
    then have "2 * kt * n < 2 ^ 64"
      by (simp add: ac_simps)
    then show "2 * kt < 2 ^ 64"
      using pos(2) by (rule factor_less)
    show "sl < 2 ^ 64" "dl < 2 ^ 64" "n * kt < 2 ^ 64" "2 * (n * kt) < 2 ^ 64"
      using cap two unfolding sl_def dl_def by linarith+
  qed
  have wf: "eqd_wf (n * kt) kt (n * kt div kt) (src_blocks task ! 0) (dst_blocks task ! 0) ?b
      (layer_num_blocks src) (layer_num_blocks dst) (seen_tokens task) (new_tokens task)"
    using d unfolding nn by (simp add: eqd_wf_def task_ok_def)
  obtain K where K: "do_parse_block_send_p_eq_d env (n * kt) kt task ?b (concat sbs) = Inr (concat sbs @ K)"
    "copied K = (\<Union>i\<in>task_tokens task. run (?f i) (?h i) kt)" "total_len K = new_tokens task * kt"
    "\<forall>b\<in>set K. \<exists>i\<in>task_tokens task. eqd_origin (n * kt) kt n (src_blocks task ! 0) (dst_blocks task ! 0) i b"
    using do_parse_p_eq_d_copies [OF _ _ _ _ _ _ wf, of env "concat sbs"] d lt unfolding nn
    by (auto simp: task_ok_def)
  have V: "send_v_layer sl dl ?b (length (concat sbs)) (length (concat sbs @ K)) (concat sbs @ K) =
      Inr (concat sbs @ K @ map (shift_blk sl dl) K)"
  proof (rule send_v_layer_copies)
    fix b
    assume "b \<in> set K"
    then obtain i where i: "i \<in> task_tokens task" "eqd_origin (n * kt) kt n (src_blocks task ! 0) (dst_blocks task ! 0) i b"
      using K(4) by blast
    then obtain c where c: "0 < c" "c \<le> n - i mod n" "b = IpcBlock (?f i) (?h i) (c * kt)"
      by (auto simp: eqd_origin_def)
    have tab: "src_blocks task ! 0 ! (i div n) < layer_num_blocks src" "dst_blocks task ! 0 ! (i div n) < layer_num_blocks dst"
      using d i(1) by (auto simp: task_ok_def table_ok_def)
    have "?f i + c * kt \<le> n * kt * layer_num_blocks src" "?h i + c * kt \<le> n * kt * layer_num_blocks dst"
      using slot_end_bound [OF tab(1) c(2)] slot_end_bound [OF tab(2) c(2)] d by auto
    then show "0 < blk_len b \<and> src_offset b + sl + blk_len b \<le> src_capacity ?b \<and>
        dst_offset b + dl + blk_len b \<le> dst_capacity ?b"
      using c d by (simp add: sl_def dl_def ac_simps)
  qed (use d in simp_all)
  have "vllm_parse_block_send_p_eq_d env src dst vr kvt_tp_size kvt_tp_rank task sbs =
      Inr [concat sbs @ K @ map (shift_blk sl dl) K]"
    using d lt K(1) V concat_resize1 [OF assms(2)]
    by (simp add: vllm_parse_block_send_p_eq_d_def make_ipc_block_bounds_def checked_layer_capacity_ok cache_ok_def Let_def
        u64_id sl_def dl_def)
  moreover have "copied (K @ map (shift_blk sl dl) K) = (\<Union>(v, i)\<in>{..<2} \<times> task_tokens task. run (?f i + v * sl) (?h i + v * dl) kt)"
    by (simp add: copied_shift K(2) kv_split)
  moreover have "total_len (K @ map (shift_blk sl dl) K) = new_tokens task * (2 * kt)"
    by (simp add: total_len_append total_len_shift K(3))
  ultimately show ?thesis
    by blast
qed

section \<open>Prefill TP larger than decode TP\<close>

text \<open>
  \<open>pk\<close> bytes of K per token on a prefill worker, \<open>g\<close> times as many on the decode worker, blocks of
  \<open>n\<close> tokens; \<open>valid_ranks\<close> selects \<open>g\<close> prefill ranks per decode rank.
\<close>

definition flash_pair_ok :: "worker_info \<Rightarrow> worker_info \<Rightarrow> nat \<Rightarrow> nat \<Rightarrow> nat \<Rightarrow> bool" where
  "flash_pair_ok p d pk g n \<longleftrightarrow>
     token_sizes p = [2 * pk] \<and> block_sizes p = [2 * pk * n] \<and>
     token_sizes d = [2 * pk * g] \<and> block_sizes d = [2 * pk * g * n] \<and>
     0 < pk \<and> 0 < g \<and> 0 < n \<and> n < 2 ^ 32 \<and> 0 < layer_num_blocks p \<and> 0 < layer_num_blocks d \<and>
     2 * pk * n * layer_num_blocks p < 2 ^ 64 \<and> 2 * pk * g * n * layer_num_blocks d < 2 ^ 64"

lemma flash_gt_copies:
  assumes ok: "flash_pair_ok p d pk g n" and vr: "worker_tp_rank p < length vr" "vr ! worker_tp_rank p"
      "valid_count vr = g * engine_tp_size d" "0 < engine_tp_size d" "kvt_tp_size > engine_tp_size d"
    and rank: "kvt_tp_rank = worker_tp_rank d * g + off" "off < g"
    and conv: "\<not> env_bf162fp8_conversion env"
    and tk: "task_ok n (layer_num_blocks p) n (layer_num_blocks d) task" and "length sbs \<le> 1"
  defines "sl \<equiv> pk * n * layer_num_blocks p" and "dl \<equiv> pk * g * n * layer_num_blocks d"
  shows "\<exists>out. vllm_parse_block_send_p_gt_d env p d vr kvt_tp_size kvt_tp_rank task sbs = Inr [concat sbs @ out] \<and>
    copied out = (\<Union>(v, i)\<in>{..<2} \<times> task_tokens task.
      run (slot n (pk * n) pk (src_blocks task ! 0) i + v * sl)
          (slot n (pk * g * n) (pk * g) (dst_blocks task ! 0) i + off * pk + v * dl) pk) \<and>
    total_len out = new_tokens task * (2 * pk)"
proof -
  note d = ok [unfolded flash_pair_ok_def]
  let ?pb = "src_blocks task ! 0" and ?db = "dst_blocks task ! 0"
  let ?b = "\<lparr> src_capacity = 2 * pk * n * layer_num_blocks p, dst_capacity = 2 * pk * g * n * layer_num_blocks d,
      src_length_scale = 1, bounds_cache_idx = 0 \<rparr>"
  let ?blk = "gt_blk pk pk (pk * g) n off (pk * n) (pk * g * n) ?pb ?db False"
  have cap: "2 * pk * n * layer_num_blocks p < 2 ^ 64" "2 * pk * g * n * layer_num_blocks d < 2 ^ 64"
    and pos: "0 < layer_num_blocks p" "0 < layer_num_blocks d" "0 < n" "0 < g" "0 < pk"
    using d by blast+
  note sz1 = factor_less [OF cap(1) pos(1)] factor_less [OF cap(2) pos(2)]
  note sz2 = factor_less [OF sz1(1) pos(3)] factor_less [OF sz1(2) pos(3)]
  have sz3: "pk * n < 2 ^ 64" "pk * g * n < 2 ^ 64" "sl < 2 ^ 64" "dl < 2 ^ 64" "pk < 2 ^ 64" "pk * g < 2 ^ 64"
    using cap sz1 sz2 unfolding sl_def dl_def by linarith+
  have wf: "gt_wf pk pk (pk * g) n off (pk * n) (pk * g * n) ?pb ?db ?b False (layer_num_blocks p) (layer_num_blocks d)
      (seen_tokens task) (new_tokens task)"
    using d tk slice_bound [OF rank(2), of pk] by (simp add: gt_wf_def task_ok_def)
  obtain K where K: "parse_block_send_gt env pk pk (pk * g) n off ?pb ?db (seen_tokens task) (new_tokens task) ?b False
        (concat sbs) = Inr (concat sbs @ K)"
    "copied K = (\<Union>i\<in>task_tokens task. block_bytes (?blk i))" "total_len K = new_tokens task * pk"
    "\<forall>b\<in>set K. \<exists>i\<in>task_tokens task. b = ?blk i"
    using parse_block_send_gt_copies [OF conv _ sz3(5,1,2) wf, of "concat sbs"] by auto
  have V: "send_v_layer sl dl ?b (length (concat sbs)) (length (concat sbs @ K)) (concat sbs @ K) =
      Inr (concat sbs @ K @ map (shift_blk sl dl) K)"
  proof (rule send_v_layer_copies)
    fix b
    assume "b \<in> set K"
    then obtain i where i: "i \<in> task_tokens task" "b = ?blk i"
      using K(4) by blast
    have tab: "?pb ! (i div n) < layer_num_blocks p" "?db ! (i div n) < layer_num_blocks d"
      using tk i(1) by (auto simp: task_ok_def table_ok_def)
    have "slot n (pk * n) pk ?pb i + 0 + pk \<le> pk * n * layer_num_blocks p"
      "slot n (pk * g * n) (pk * g) ?db i + off * pk + pk \<le> pk * g * n * layer_num_blocks d"
      using slot_field_bound [OF tab(1), of 0 pk pk "pk * n"]
        slot_field_bound [OF tab(2), of "off * pk" pk "pk * g" "pk * g * n"] slice_bound [OF rank(2), of pk] pos
      by (simp_all add: mult.commute)
    then show "0 < blk_len b \<and> src_offset b + sl + blk_len b \<le> src_capacity ?b \<and>
        dst_offset b + dl + blk_len b \<le> dst_capacity ?b"
      using pos i(2) by (simp add: sl_def dl_def gt_blk_def Let_def ac_simps)
  qed (use d in simp_all)
  have bounds: "make_ipc_block_bounds env p d 0 = Inr ?b"
    using make_ipc_block_bounds_ok [of p 0 d env] d conv by (simp add: cache_ok_def)
  have arith: "kvt_tp_rank div g = worker_tp_rank d" "kvt_tp_rank mod g = off"
    "valid_count vr div engine_tp_size d = g" "2 * pk * n div (2 * pk) = n" "2 * pk * g div 2 = pk * g" "2 * pk * g mod 2 = 0"
    "u64 (2 * pk * g) = 2 * pk * g" "u32 n = n" "n * pk * layer_num_blocks p = sl" "n * (pk * g) * layer_num_blocks d = dl"
    using rank vr(3,4) pos d sz2(2) by (auto simp: u32_id u64_id sl_def dl_def)
  have "vllm_parse_block_send_p_gt_d env p d vr kvt_tp_size kvt_tp_rank task sbs =
      Inr [concat sbs @ K @ map (shift_blk sl dl) K]"
    using d vr tk K(1) V concat_resize1 [OF assms(11)] arith sz1 sz3 bounds
    by (simp add: vllm_parse_block_send_p_gt_d_def Let_def u64_id task_ok_def mult.commute [of n])
  moreover have "copied (K @ map (shift_blk sl dl) K) = (\<Union>(v, i)\<in>{..<2} \<times> task_tokens task.
      run (slot n (pk * n) pk ?pb i + v * sl) (slot n (pk * g * n) (pk * g) ?db i + off * pk + v * dl) pk)"
    unfolding copied_append copied_shift K(2)
    using kv_split [of "slot n (pk * n) pk ?pb" "\<lambda>i. slot n (pk * g * n) (pk * g) ?db i + off * pk" pk "task_tokens task" sl dl]
    by (simp add: gt_blk_def Let_def)
  moreover have "total_len (K @ map (shift_blk sl dl) K) = new_tokens task * (2 * pk)"
    by (simp add: total_len_append total_len_shift K(3))
  ultimately show ?thesis
    by blast
qed

section \<open>Properties\<close>

text \<open>Bytes of the K part and of the V part of different tokens are different.\<close>

lemma layer_slot_inj:
  assumes "distinct db" and "0 < n" and "n * dt \<le> bsz" and "x < dt" and "x' < dt"
    and i: "i div n < length db" "db ! (i div n) < nd" and i': "i' div n < length db" "db ! (i' div n) < nd"
    and eq: "slot n bsz dt db i + x + v * (bsz * nd) = slot n bsz dt db i' + x' + v' * (bsz * nd)"
  shows "v = v' \<and> i = i' \<and> x = x'"
proof -
  have "slot n bsz dt db i + x < bsz * nd" "slot n bsz dt db i' + x' < bsz * nd"
    using slot_field_bound [OF i(2), of x 1 dt bsz] slot_field_bound [OF i'(2), of x' 1 dt bsz] assms(2-5)
    by simp_all
  then have "v = v'" "slot n bsz dt db i + x = slot n bsz dt db i' + x'"
    using radix_inj [of v "bsz * nd" "slot n bsz dt db i + x" v' "slot n bsz dt db i' + x'"] eq by simp_all
  then show ?thesis
    using slot_inj [OF assms(1) i(1) i'(1) assms(3,2,4,5)] by simp
qed

text \<open>
  With equal TP sizes the flash parser returns descriptors for the new tokens whose execution
  leaves, in both the K part (\<open>v = 0\<close>) and the V part (\<open>v = 1\<close>) of the destination layer, the bytes
  of the source token in the destination's slot, and changes no other byte.
\<close>

theorem flash_p_eq_d_memory:
  assumes "flash_eq_ok env src dst kvt_tp_size task kt n" and "distinct (dst_blocks task ! 0)"
  shows "\<exists>out. vllm_parse_block_send_p_eq_d env src dst vr kvt_tp_size kvt_tp_rank task [] = Inr [out] \<and>
    total_len out = new_tokens task * (2 * kt) \<and>
    (\<forall>mem dmem.
      (\<forall>v<2. \<forall>i\<in>task_tokens task. \<forall>k<kt.
        transfer mem out dmem
          (slot n (n * kt) kt (dst_blocks task ! 0) i + v * (n * kt * layer_num_blocks dst) + k) =
        mem (slot n (n * kt) kt (src_blocks task ! 0) i + v * (n * kt * layer_num_blocks src) + k)) \<and>
      (\<forall>a. (\<forall>v<2. \<forall>i\<in>task_tokens task.
          a \<notin> {slot n (n * kt) kt (dst_blocks task ! 0) i + v * (n * kt * layer_num_blocks dst)..<
               slot n (n * kt) kt (dst_blocks task ! 0) i + v * (n * kt * layer_num_blocks dst) + kt}) \<longrightarrow>
        transfer mem out dmem a = dmem a))"
proof -
  let ?sb = "src_blocks task ! 0" and ?db = "dst_blocks task ! 0" and ?X = "{..<2::nat} \<times> task_tokens task"
  let ?f = "\<lambda>(v, i). slot n (n * kt) kt ?sb i + v * (n * kt * layer_num_blocks src)"
  let ?h = "\<lambda>(v, i). slot n (n * kt) kt ?db i + v * (n * kt * layer_num_blocks dst)"
  note d = assms(1) [unfolded flash_eq_ok_def]
  obtain out where out: "vllm_parse_block_send_p_eq_d env src dst vr kvt_tp_size kvt_tp_rank task [] = Inr [out]"
    "copied out = (\<Union>x\<in>?X. run (?f x) (?h x) kt)" "total_len out = new_tokens task * (2 * kt)"
    using flash_eq_copies [OF assms(1), of "[]" vr kvt_tp_rank] by (auto simp: case_prod_beta)
  have "(\<forall>x\<in>?X. \<forall>k<kt. transfer mem out dmem (?h x + k) = mem (?f x + k)) \<and>
      (\<forall>a. (\<forall>x\<in>?X. a \<notin> {?h x..<?h x + kt}) \<longrightarrow> transfer mem out dmem a = dmem a)" for mem dmem :: "nat \<Rightarrow> 'a"
  proof (rule layout_memory [OF out(2)])
    fix x x' k k'
    assume x: "x \<in> ?X" "x' \<in> ?X" "k < kt" "k' < kt" "?h x + k = ?h x' + k'"
    obtain v i v' i' where xs: "x = (v, i)" "x' = (v', i')"
      by (cases x, cases x')
    show "x = x' \<and> k = k'"
      using layer_slot_inj [OF assms(2), of n kt "n * kt" k k' i "layer_num_blocks dst" i' v v'] x d
      by (auto simp: xs task_ok_def table_ok_def ac_simps)
  qed
  then show ?thesis
    using out(1,3) by (intro exI [of _ out]) (simp add: Ball_def)
qed

text \<open>
  C30. With more prefill than decode ranks, the \<open>g\<close> selected prefill workers of a decode worker,
  running one after the other, leave in its K part and in its V part of each new token the head
  slice of worker \<open>off\<close> at offset \<open>off\<close>, and change no other byte.
\<close>

theorem flash_p_gt_d_memory:
  assumes "flash_pair_ok p d pk g n" and "\<forall>off<g. r off < length vr \<and> vr ! r off"
    and "valid_count vr = g * engine_tp_size d" and "0 < engine_tp_size d" and "kvt_tp_size > engine_tp_size d"
    and "\<not> env_bf162fp8_conversion env" and "task_ok n (layer_num_blocks p) n (layer_num_blocks d) task"
    and "distinct (dst_blocks task ! 0)"
  shows "\<exists>outs. (\<forall>off<g. vllm_parse_block_send_p_gt_d env (p\<lparr>worker_tp_rank := r off\<rparr>) d vr kvt_tp_size
        (worker_tp_rank d * g + off) task [] = Inr [outs off]) \<and>
    (\<forall>mem dmem. \<forall>off<g. \<forall>v<2. \<forall>i\<in>task_tokens task. \<forall>k<pk.
      gather mem outs g dmem (slot n (pk * g * n) (pk * g) (dst_blocks task ! 0) i + off * pk +
        v * (pk * g * n * layer_num_blocks d) + k) =
      mem off (slot n (pk * n) pk (src_blocks task ! 0) i + v * (pk * n * layer_num_blocks p) + k)) \<and>
    (\<forall>mem dmem a. (\<forall>off<g. \<forall>v<2. \<forall>i\<in>task_tokens task.
          a \<notin> {slot n (pk * g * n) (pk * g) (dst_blocks task ! 0) i + off * pk + v * (pk * g * n * layer_num_blocks d)..<
               slot n (pk * g * n) (pk * g) (dst_blocks task ! 0) i + off * pk + v * (pk * g * n * layer_num_blocks d) + pk}) \<longrightarrow>
      gather mem outs g dmem a = dmem a)"
proof -
  let ?sb = "src_blocks task ! 0" and ?db = "dst_blocks task ! 0" and ?X = "{..<2::nat} \<times> task_tokens task"
  let ?p = "\<lambda>off. p\<lparr>worker_tp_rank := r off\<rparr>"
  let ?f = "\<lambda>off::nat. \<lambda>(v, i). slot n (pk * n) pk ?sb i + v * (pk * n * layer_num_blocks p)"
  let ?h = "\<lambda>off. \<lambda>(v, i). slot n (pk * g * n) (pk * g) ?db i + off * pk + v * (pk * g * n * layer_num_blocks d)"
  note d = assms(1) [unfolded flash_pair_ok_def]
  let ?A = "\<lambda>off out. vllm_parse_block_send_p_gt_d env (?p off) d vr kvt_tp_size (worker_tp_rank d * g + off) task [] = Inr [out]"
    and ?B = "\<lambda>off out. copied out = (\<Union>x\<in>?X. run (?f off x) (?h off x) pk)"
  have "\<forall>off<g. \<exists>out. ?A off out \<and> ?B off out"
  proof (intro allI impI)
    fix off
    assume off: "off < g"
    have "flash_pair_ok (?p off) d pk g n"
      using assms(1) by (simp add: flash_pair_ok_def)
    from flash_gt_copies [OF this _ _ assms(3-5) refl off assms(6), of task "[]"]
    show "\<exists>out. ?A off out \<and> ?B off out"
      using assms(2,7) off by (auto simp: case_prod_beta)
  qed
  from choose_family [where A = ?A and B = ?B, OF this]
  obtain outs where outs: "\<forall>off<g. ?A off (outs off)" and copied: "\<forall>off<g. ?B off (outs off)"
    by (elim exE conjE)
  have mem: "(\<forall>off<g. \<forall>x\<in>?X. \<forall>k<pk. gather mem outs g dmem (?h off x + k) = mem off (?f off x + k)) \<and>
      (\<forall>a. (\<forall>off<g. \<forall>x\<in>?X. a \<notin> {?h off x..<?h off x + pk}) \<longrightarrow> gather mem outs g dmem a = dmem a)"
    for mem :: "nat \<Rightarrow> nat \<Rightarrow> 'v" and dmem
  proof (rule layout_gather [OF copied [rule_format]])
    fix o1 o2 x x' k k'
    assume x: "o1 < g" "o2 < g" "x \<in> ?X" "x' \<in> ?X" "k < pk" "k' < pk" "?h o1 x + k = ?h o2 x' + k'"
    obtain v i v' i' where xs: "x = (v, i)" "x' = (v', i')"
      by (cases x, cases x')
    have lt: "o1 * pk + k < pk * g" "o2 * pk + k' < pk * g"
      using slice_bound [OF x(1), of pk] slice_bound [OF x(2), of pk] x(5,6) by linarith+
    have "v = v' \<and> i = i' \<and> o1 * pk + k = o2 * pk + k'"
      using layer_slot_inj [OF assms(8), of n "pk * g" "pk * g * n" "o1 * pk + k" "o2 * pk + k'" i "layer_num_blocks d" i' v v']
        x d lt assms(7) by (auto simp: xs task_ok_def table_ok_def ac_simps)
    then show "o1 = o2 \<and> x = x' \<and> k = k'"
      using radix_inj [of o1 pk k o2 k'] x(5,6) by (simp add: xs)
  qed
  show ?thesis
  proof (intro exI [of _ outs] conjI allI ballI impI)
    fix mem :: "nat \<Rightarrow> nat \<Rightarrow> 'a" and dmem off v i k
    assume "off < g" and "v < (2::nat)" and "i \<in> task_tokens task" and "k < pk"
    then show "gather mem outs g dmem (slot n (pk * g * n) (pk * g) ?db i + off * pk + v * (pk * g * n * layer_num_blocks d) + k) =
        mem off (slot n (pk * n) pk ?sb i + v * (pk * n * layer_num_blocks p) + k)"
      using mem [THEN conjunct1, rule_format, of off "(v, i)" k] by simp
  next
    fix mem :: "nat \<Rightarrow> nat \<Rightarrow> 'b" and dmem a
    assume "\<forall>off<g. \<forall>v<2. \<forall>i\<in>task_tokens task.
      a \<notin> {slot n (pk * g * n) (pk * g) ?db i + off * pk + v * (pk * g * n * layer_num_blocks d)..<
           slot n (pk * g * n) (pk * g) ?db i + off * pk + v * (pk * g * n * layer_num_blocks d) + pk}"
    then show "gather mem outs g dmem a = dmem a"
      using mem [THEN conjunct2, rule_format, of a] by auto
  qed (use outs in simp)
qed

section \<open>Concrete instances\<close>

theorem flash_p_eq_d_memory_witness:
  "\<exists>out. vllm_parse_block_send_p_eq_d demo_env (demo_worker [4] [8] 5 1 0) (demo_worker [4] [8] 6 1 0)
      [True] 1 0 (demo_task [[4, 0]] [[1, 3]] 1 2 True) [] = Inr [out] \<and>
    (\<forall>mem dmem :: nat \<Rightarrow> nat. transfer mem out dmem 31 = mem 39)"
proof -
  let ?src = "demo_worker [4] [8] 5 1 0" and ?dst = "demo_worker [4] [8] 6 1 0"
    and ?task = "demo_task [[4, 0]] [[1, 3]] 1 2 True"
  have "flash_eq_ok demo_env ?src ?dst 1 ?task 2 2" and "distinct (dst_blocks ?task ! 0)"
    by (simp_all add: flash_eq_ok_def task_ok_def table_ok_code)
  from flash_p_eq_d_memory [OF this, where vr = "[True]" and kvt_tp_rank = 0]
  obtain out where out: "vllm_parse_block_send_p_eq_d demo_env ?src ?dst [True] 1 0 ?task [] = Inr [out]"
    and mem: "\<forall>mem dmem :: nat \<Rightarrow> nat.
      (\<forall>v<2. \<forall>i\<in>task_tokens ?task. \<forall>k<2.
        transfer mem out dmem (slot 2 (2 * 2) 2 (dst_blocks ?task ! 0) i + v * (2 * 2 * layer_num_blocks ?dst) + k) =
        mem (slot 2 (2 * 2) 2 (src_blocks ?task ! 0) i + v * (2 * 2 * layer_num_blocks ?src) + k))"
    by blast
  have "transfer mem out dmem 31 = mem 39" for mem dmem :: "nat \<Rightarrow> nat"
    using mem [rule_format, of 1 1 1 mem dmem] by (simp add: slot_def)
  with out show ?thesis
    by blast
qed

theorem flash_p_gt_d_memory_witness:
  "\<exists>outs. (\<forall>off<2. vllm_parse_block_send_p_gt_d demo_env ((demo_worker [4] [8] 5 2 0)\<lparr>worker_tp_rank := off\<rparr>)
        (demo_worker [8] [16] 6 1 0) [True, True] 2 (worker_tp_rank (demo_worker [8] [16] 6 1 0) * 2 + off)
        (demo_task [[4, 0]] [[1, 3]] 1 2 True) [] = Inr [outs off]) \<and>
    (\<forall>mem :: nat \<Rightarrow> nat \<Rightarrow> nat. \<forall>dmem. gather mem outs 2 dmem 62 = mem 1 38)"
proof -
  let ?p = "demo_worker [4] [8] 5 2 0" and ?d = "demo_worker [8] [16] 6 1 0"
    and ?task = "demo_task [[4, 0]] [[1, 3]] 1 2 True"
  have "flash_pair_ok ?p ?d 2 2 2" "\<forall>off<2. off < length [True, True] \<and> [True, True] ! off"
    "valid_count [True, True] = 2 * engine_tp_size ?d" "0 < engine_tp_size ?d" "2 > engine_tp_size ?d"
    "\<not> env_bf162fp8_conversion demo_env" "task_ok 2 (layer_num_blocks ?p) 2 (layer_num_blocks ?d) ?task"
    "distinct (dst_blocks ?task ! 0)"
    by (simp_all add: flash_pair_ok_def task_ok_def table_ok_code valid_count_def less_2_cases_iff all_conj_distrib)
  from flash_p_gt_d_memory [where r = "\<lambda>off. off", OF this]
  obtain outs where outs: "\<forall>off<2. vllm_parse_block_send_p_gt_d demo_env (?p\<lparr>worker_tp_rank := off\<rparr>) ?d [True, True] 2
      (worker_tp_rank ?d * 2 + off) ?task [] = Inr [outs off]"
    and mem: "\<forall>(mem :: nat \<Rightarrow> nat \<Rightarrow> nat) dmem. \<forall>off<2. \<forall>v<2. \<forall>i\<in>task_tokens ?task. \<forall>k<2.
        gather mem outs 2 dmem (slot 2 (2 * 2 * 2) (2 * 2) (dst_blocks ?task ! 0) i + off * 2 +
          v * (2 * 2 * 2 * layer_num_blocks ?d) + k) =
        mem off (slot 2 (2 * 2) 2 (src_blocks ?task ! 0) i + v * (2 * 2 * layer_num_blocks ?p) + k)"
    by (elim exE conjE) (rule that)
  have "gather mem outs 2 dmem 62 = mem 1 38" for mem :: "nat \<Rightarrow> nat \<Rightarrow> nat" and dmem
    using mem [rule_format, of 1 1 1 0 mem dmem] by (simp add: slot_def)
  with outs show ?thesis
    by (intro exI [of _ outs] conjI) simp_all
qed

end
