(* ===== verification/ParseFlashInfer.thy ===== *)
theory ParseFlashInfer
  imports ParseFlash
begin

text \<open>
  \<open>src/parse_block_flashinfer.cpp\<close>: the layout \<open>FLASHINFER_CACHE_SHAPE\<close>,
  \<open>(num_blocks, 2, num_kv_heads, block_size, head_dim)\<close> (HND): inside a block first the K and then
  the V section, a section has one run of tokens per head. The theory also has the hybrid variant
  of the HND parser, where a block is divided into kernel blocks, and the zero fill of the last
  decode block.
\<close>

section \<open>Model\<close>

lemma min_chunk2_less:
  fixes a b l w :: nat
  shows "0 < l \<Longrightarrow> 0 < a \<Longrightarrow> 0 < b \<Longrightarrow> l - min (min (a - w mod a) (b - w mod b)) l < l"
  using mod_less_divisor [of a w] mod_less_divisor [of b w] by linarith

text \<open>\<open>static_cast<size_t>\<close> of an \<open>int\<close>.\<close>

definition to_size :: "int \<Rightarrow> nat" where
  "to_size x = nat (x mod 2 ^ 64)"

text \<open>
  The local variables that the HND parsers compute before their loop over the tokens. The whole block
  of \<open>parse_flashinfer_HND_block\<close> counts as its only kernel block.
\<close>

record hnd_layout =
  hl_p_block :: nat
  hl_d_block :: nat
  hl_p_ntpb :: nat
  hl_d_ntpb :: nat
  hl_p_kbn :: nat
  hl_d_kbn :: nat
  hl_p_kblock :: nat
  hl_d_kblock :: nat
  hl_head_dim :: nat
  hl_p_head :: nat
  hl_d_head :: nat
  hl_p_kv :: nat
  hl_d_kv :: nat
  hl_group_kv :: nat
  hl_group_off :: nat
  hl_heads :: nat
  hl_swap :: bool

text \<open>
  The body of the loop over the heads, the same in both HND parsers: the K and the V descriptor of one
  head for a run of \<open>len\<close> bytes starting at token \<open>p_tok\<close> (\<open>d_tok\<close>) of the kernel block at \<open>p_base\<close>
  (\<open>d_base\<close>).
\<close>

definition hnd_head ::
  "hnd_layout \<Rightarrow> nat \<Rightarrow> nat \<Rightarrow> nat \<Rightarrow> nat \<Rightarrow> nat \<Rightarrow> ipc_block_bounds \<Rightarrow> nat \<Rightarrow> ipc_block list \<Rightarrow> ipc_block list result" where
  "hnd_head L p_base d_base p_tok d_tok len bounds head_idx out =
     (let pk_off = u64 (p_base + head_idx * hl_p_head L + p_tok * hl_head_dim L);
          pv_off = u64 (pk_off + hl_p_kv L);
          dk_off = u64 (d_base + hl_group_off L * hl_group_kv L + head_idx * hl_d_head L + d_tok * hl_head_dim L);
          dv_off = u64 (dk_off + hl_d_kv L)
      in rbind (append_ipc_block_checked out bounds (if hl_swap L then dk_off else pk_off)
                  (if hl_swap L then pk_off else dk_off) len) (\<lambda>out'.
         append_ipc_block_checked out' bounds (if hl_swap L then dv_off else pv_off)
           (if hl_swap L then pv_off else dv_off) len))"

function hnd_loop ::
  "hnd_layout \<Rightarrow> nat list \<Rightarrow> nat list \<Rightarrow> ipc_block_bounds \<Rightarrow> nat \<Rightarrow> nat \<Rightarrow> ipc_block list \<Rightarrow> ipc_block list result" where
  "hnd_loop L sblocks dblocks bounds wrote left out =
     (if left > 0 then
        ck_div wrote (hl_p_ntpb L) (\<lambda>block_idx.
        ck_mod wrote (hl_p_ntpb L) (\<lambda>token_idx.
        vec_at sblocks block_idx (\<lambda>p_blk.
        vec_at dblocks block_idx (\<lambda>d_blk.
        let p_blk_off = u64 (p_blk * hl_p_block L);
            d_blk_off = u64 (d_blk * hl_d_block L);
            tokens = min (hl_p_ntpb L - token_idx) left;
            len = u64 (tokens * hl_head_dim L) in
        rbind (rfold (hnd_head L p_blk_off d_blk_off token_idx token_idx len bounds) [0..<hl_heads L] out) (\<lambda>out'.
        hnd_loop L sblocks dblocks bounds (u32 (wrote + tokens)) (left - tokens) out')))))
      else Inr out)"
  by pat_completeness auto
termination
  by (relation "measure (\<lambda>(_, _, _, _, _, left, _). left)") auto

declare hnd_loop.simps [simp del]

definition parse_flashinfer_HND_block ::
  "kvt_env \<Rightarrow> nat \<Rightarrow> nat \<Rightarrow> nat \<Rightarrow> nat \<Rightarrow> nat \<Rightarrow> nat list \<Rightarrow> nat list \<Rightarrow> nat \<Rightarrow> nat \<Rightarrow> nat \<Rightarrow> nat \<Rightarrow> int \<Rightarrow>
   ipc_block_bounds \<Rightarrow> bool \<Rightarrow> ipc_block list \<Rightarrow> ipc_block list result" where
  "parse_flashinfer_HND_block env p_token_size d_token_size p_block_size d_block_size ntpb sblocks dblocks
     wrote left attn_group_n attn_group_off n_kv_heads bounds swap out =
     c_assert (ndebug env) (n_kv_heads > 0) (
     c_assert_mod0 (ndebug env) p_token_size (u64 (2 * to_size n_kv_heads)) (
     ck_div (p_token_size div 2) (to_size n_kv_heads) (\<lambda>head_dim_size.
     let p_head_section_size = u64 (ntpb * head_dim_size);
         d_head_section_size = u64 (ntpb * head_dim_size);
         p_kv_section_size = p_block_size div 2;
         d_kv_section_size = d_block_size div 2;
         per_group_kv_size = u64 (to_size n_kv_heads * d_head_section_size) in
     c_assert (ndebug env) (u64 (per_group_kv_size * attn_group_n) = d_kv_section_size) (
     hnd_loop \<lparr> hl_p_block = p_block_size, hl_d_block = d_block_size, hl_p_ntpb = ntpb, hl_d_ntpb = ntpb,
         hl_p_kbn = ntpb, hl_d_kbn = ntpb, hl_p_kblock = p_block_size, hl_d_kblock = d_block_size,
         hl_head_dim = head_dim_size, hl_p_head = p_head_section_size, hl_d_head = d_head_section_size,
         hl_p_kv = p_kv_section_size, hl_d_kv = d_kv_section_size, hl_group_kv = per_group_kv_size,
         hl_group_off = attn_group_off, hl_heads = nat n_kv_heads, hl_swap = swap \<rparr>
       sblocks dblocks bounds wrote left out))))"

function hybrid_hnd_loop ::
  "bool \<Rightarrow> hnd_layout \<Rightarrow> nat list \<Rightarrow> nat list \<Rightarrow> ipc_block_bounds \<Rightarrow> nat \<Rightarrow> nat \<Rightarrow> ipc_block list \<Rightarrow>
   ipc_block list result" where
  "hybrid_hnd_loop nd L sblocks dblocks bounds wrote left out =
     (if left > 0 then
        ck_div wrote (hl_p_ntpb L) (\<lambda>p_blk_idx.
        ck_div (wrote - p_blk_idx * hl_p_ntpb L) (hl_p_kbn L) (\<lambda>p_kernel_blk_idx.
        ck_mod wrote (hl_p_kbn L) (\<lambda>p_token_idx_base.
        ck_div wrote (hl_d_ntpb L) (\<lambda>d_blk_idx.
        ck_div (wrote - d_blk_idx * hl_d_ntpb L) (hl_d_kbn L) (\<lambda>d_kernel_blk_idx.
        ck_mod wrote (hl_d_kbn L) (\<lambda>d_token_idx_base.
        c_assert nd (p_blk_idx < length sblocks \<and> d_blk_idx < length dblocks) (
        vec_at sblocks p_blk_idx (\<lambda>p_blk.
        vec_at dblocks d_blk_idx (\<lambda>d_blk.
        let p_blk_off = u64 (p_blk * hl_p_block L);
            d_blk_off = u64 (d_blk * hl_d_block L);
            p_kernel_blk_off = u64 (p_blk_off + p_kernel_blk_idx * hl_p_kblock L);
            d_kernel_blk_off = u64 (d_blk_off + d_kernel_blk_idx * hl_d_kblock L);
            tokens = min (min (hl_p_kbn L - p_token_idx_base) (hl_d_kbn L - d_token_idx_base)) left;
            len = u64 (tokens * hl_head_dim L) in
        rbind (rfold (hnd_head L p_kernel_blk_off d_kernel_blk_off p_token_idx_base d_token_idx_base len bounds)
                 [0..<hl_heads L] out) (\<lambda>out'.
        hybrid_hnd_loop nd L sblocks dblocks bounds (u32 (wrote + tokens)) (left - tokens) out'))))))))))
      else Inr out)"
  by pat_completeness auto
termination
proof (relation "measure (\<lambda>(_, _, _, _, _, _, left, _). left)", goal_cases)
  case 2
  then show ?case
    by (simp only: in_measure case_prod_conv min_chunk2_less)
qed simp

declare hybrid_hnd_loop.simps [simp del]

definition parse_hybrid_flashinfer_HND_block ::
  "kvt_env \<Rightarrow> nat \<Rightarrow> nat \<Rightarrow> nat \<Rightarrow> nat \<Rightarrow> nat \<Rightarrow> nat \<Rightarrow> nat list \<Rightarrow> nat list \<Rightarrow> nat \<Rightarrow> nat \<Rightarrow> nat \<Rightarrow> nat \<Rightarrow> nat \<Rightarrow> nat \<Rightarrow>
   int \<Rightarrow> ipc_block_bounds \<Rightarrow> bool \<Rightarrow> ipc_block list \<Rightarrow> ipc_block list result" where
  "parse_hybrid_flashinfer_HND_block env p_token_size d_token_size p_block_size d_block_size p_ntpb d_ntpb
     sblocks dblocks wrote left attn_group_n attn_group_off src_kbn dst_kbn n_kv_heads bounds swap out =
     (let p_kernel_blk_size = u64 (src_kbn * p_token_size);
          d_kernel_blk_size = u64 (dst_kbn * d_token_size);
          p_kv_section_size = p_kernel_blk_size div 2;
          d_kv_section_size = d_kernel_blk_size div 2 in
      c_assert (ndebug env) (u64 (p_kv_section_size * 2) = p_kernel_blk_size) (
      c_assert (ndebug env) (u64 (d_kv_section_size * 2) = d_kernel_blk_size) (
      c_assert (ndebug env) (n_kv_heads > 0) (
      c_assert_mod0 (ndebug env) p_token_size (u64 (2 * to_size n_kv_heads)) (
      ck_div (p_token_size div 2) (to_size n_kv_heads) (\<lambda>head_dim_size.
      let p_head_section_size = u64 (src_kbn * head_dim_size);
          d_head_section_size = u64 (dst_kbn * head_dim_size);
          per_group_kv_size = u64 (to_size n_kv_heads * d_head_section_size) in
      c_assert (ndebug env) (u64 (per_group_kv_size * attn_group_n) = d_kv_section_size) (
      hybrid_hnd_loop (ndebug env)
        \<lparr> hl_p_block = p_block_size, hl_d_block = d_block_size, hl_p_ntpb = p_ntpb, hl_d_ntpb = d_ntpb,
          hl_p_kbn = src_kbn, hl_d_kbn = dst_kbn, hl_p_kblock = p_kernel_blk_size, hl_d_kblock = d_kernel_blk_size,
          hl_head_dim = head_dim_size, hl_p_head = p_head_section_size, hl_d_head = d_head_section_size,
          hl_p_kv = p_kv_section_size, hl_d_kv = d_kv_section_size, hl_group_kv = per_group_kv_size,
          hl_group_off = attn_group_off, hl_heads = nat n_kv_heads, hl_swap = swap \<rparr>
        sblocks dblocks bounds wrote left out)))))))"

definition fill_last_hybrid_flashinfer_HND_block ::
  "kvt_env \<Rightarrow> nat \<Rightarrow> nat \<Rightarrow> nat \<Rightarrow> nat \<Rightarrow> nat \<Rightarrow> nat list \<Rightarrow> nat list \<Rightarrow> nat \<Rightarrow> nat \<Rightarrow> int \<Rightarrow>
   ipc_block_bounds \<Rightarrow> ipc_block list \<Rightarrow> ipc_block list result" where
  "fill_last_hybrid_flashinfer_HND_block env p_token_size d_token_size p_block_size d_block_size d_ntpb
     sblocks dblocks total_tokens attn_group_off n_kv_heads bounds out =
     (if total_tokens = 0 then Inr out
      else ck_mod total_tokens d_ntpb (\<lambda>filled.
      if filled = 0 then Inr out
      else
      let remaining = d_ntpb - filled in
      ck_div total_tokens d_ntpb (\<lambda>d_blk_idx.
      c_assert (ndebug env) (d_blk_idx < length dblocks) (
      c_assert (ndebug env) (n_kv_heads > 0) (
      c_assert_mod0 (ndebug env) p_token_size (u64 (2 * to_size n_kv_heads)) (
      ck_div (p_token_size div 2) (to_size n_kv_heads) (\<lambda>head_dim_size.
      let d_head_section_size = u64 (d_ntpb * head_dim_size);
          d_kv_section_size = u64 (d_ntpb * d_token_size) div 2;
          per_group_kv_size = u64 (to_size n_kv_heads * d_head_section_size);
          len = u64 (remaining * head_dim_size) in
      vec_at sblocks 0 (\<lambda>p_blk0.
      vec_at dblocks d_blk_idx (\<lambda>d_blk.
      let zero_src_off = u64 (p_blk0 * p_block_size);
          d_blk_off = u64 (d_blk * d_block_size) in
      rfold (\<lambda>head_idx out.
        let dk_off = u64 (d_blk_off + attn_group_off * per_group_kv_size + head_idx * d_head_section_size
                          + filled * head_dim_size);
            dv_off = u64 (dk_off + d_kv_section_size) in
        rbind (emit_zero_fill_segments env zero_src_off dk_off len p_block_size bounds out)
          (emit_zero_fill_segments env zero_src_off dv_off len p_block_size bounds))
        [0..<nat n_kv_heads] out)))))))))"

text \<open>The number of KV heads one prefill rank holds, as both FlashInfer parsers compute it.\<close>

definition flashinfer_per_tp_kv_heads :: "worker_info \<Rightarrow> (int \<Rightarrow> 'a result) \<Rightarrow> 'a result" where
  "flashinfer_per_tp_kv_heads p_info k =
     (if num_kv_heads p_info > 0 \<and> nat (num_kv_heads p_info) \<ge> engine_tp_size p_info
      then ck_div (nat (num_kv_heads p_info)) (engine_tp_size p_info) (\<lambda>q. k (int q))
      else k (max 1 (num_kv_heads p_info)))"

definition vllm_parse_flashinfer_block_send_p_eq_d :: parse_block_func where
  "vllm_parse_flashinfer_block_send_p_eq_d env p_info d_info valid_ranks kvt_tp_size kvt_tp_rank task send_blocks =
     c_assert (ndebug env) (kvt_tp_size = engine_tp_size d_info) (
     c_assert (ndebug env) (length (token_sizes p_info) = 1) (
     c_assert (ndebug env) (length (token_sizes d_info) = 1) (
     c_assert (ndebug env) (length (block_sizes p_info) = 1) (
     c_assert (ndebug env) (length (block_sizes d_info) = 1) (
     vec_at (token_sizes p_info) 0 (\<lambda>p_token_size.
     vec_at (token_sizes d_info) 0 (\<lambda>d_token_size.
     vec_at (block_sizes p_info) 0 (\<lambda>p_block_size.
     vec_at (block_sizes d_info) 0 (\<lambda>d_block_size.
     ck_div p_block_size p_token_size (\<lambda>q.
     ck_div d_block_size d_token_size (\<lambda>q'.
     let src_ntpb = u32 q; dst_ntpb = u32 q' in
     c_assert (ndebug env) (src_ntpb = dst_ntpb) (
     vec_at (src_blocks task) 0 (\<lambda>sblocks.
     vec_at (dst_blocks task) 0 (\<lambda>dblocks.
     flashinfer_per_tp_kv_heads p_info (\<lambda>heads.
     let send_blocks' = vec_resize 1 send_blocks in
     vec_at send_blocks' 0 (\<lambda>per_cache_send_blocks.
     rbind (make_ipc_block_bounds env p_info d_info 0) (\<lambda>bounds.
     rbind (parse_flashinfer_HND_block env p_token_size d_token_size p_block_size d_block_size src_ntpb
              sblocks dblocks (seen_tokens task) (new_tokens task) 1 0 heads bounds False per_cache_send_blocks) (\<lambda>out.
     Inr (send_blocks'[0 := out])))))))))))))))))))"

definition vllm_parse_flashinfer_block_send_p_gt_d :: parse_block_func where
  "vllm_parse_flashinfer_block_send_p_gt_d env p_info d_info valid_ranks kvt_tp_size kvt_tp_rank task send_blocks =
     vec_idx valid_ranks (worker_tp_rank p_info) (\<lambda>valid.
     if \<not> valid then Inr send_blocks
     else
     ck_div (valid_count valid_ranks) (engine_tp_size d_info) (\<lambda>attn_group_n.
     ck_mod kvt_tp_rank attn_group_n (\<lambda>attn_group_off.
     c_assert (ndebug env) (kvt_tp_size > engine_tp_size d_info) (
     c_assert (ndebug env) (kvt_tp_rank div attn_group_n = worker_tp_rank d_info) (
     c_assert (ndebug env) (length (token_sizes p_info) = 1) (
     c_assert (ndebug env) (length (token_sizes d_info) = 1) (
     c_assert (ndebug env) (length (block_sizes p_info) = 1) (
     c_assert (ndebug env) (length (block_sizes d_info) = 1) (
     vec_at (token_sizes p_info) 0 (\<lambda>p_token_size.
     vec_at (token_sizes d_info) 0 (\<lambda>d_token_size.
     vec_at (block_sizes p_info) 0 (\<lambda>p_block_size.
     vec_at (block_sizes d_info) 0 (\<lambda>d_block_size.
     ck_div p_block_size p_token_size (\<lambda>q.
     ck_div d_block_size d_token_size (\<lambda>q'.
     let src_ntpb = u32 q; dst_ntpb = u32 q' in
     c_assert (ndebug env) (src_ntpb = dst_ntpb) (
     vec_at (src_blocks task) 0 (\<lambda>sblocks.
     vec_at (dst_blocks task) 0 (\<lambda>dblocks.
     flashinfer_per_tp_kv_heads p_info (\<lambda>heads.
     let send_blocks' = vec_resize 1 send_blocks in
     vec_at send_blocks' 0 (\<lambda>per_cache_send_blocks.
     rbind (make_ipc_block_bounds env p_info d_info 0) (\<lambda>bounds.
     rbind (parse_flashinfer_HND_block env p_token_size d_token_size p_block_size d_block_size src_ntpb
              sblocks dblocks (seen_tokens task) (new_tokens task) attn_group_n attn_group_off heads bounds
              False per_cache_send_blocks) (\<lambda>out.
     Inr (send_blocks'[0 := out])))))))))))))))))))))))"

section \<open>Addresses of the HND layout\<close>

text \<open>
  The byte offset of head \<open>h\<close> of token \<open>i\<close>, in the K (\<open>v = 0\<close>) or V (\<open>v = 1\<close>) section, of a paged cache
  with blocks of \<open>ntpb\<close> tokens which are divided into kernel blocks of \<open>kbn\<close> tokens; \<open>heads\<close> is the number
  of heads a worker holds, \<open>hsz\<close> the bytes of a head of one token.
\<close>

definition hnd_addr :: "nat \<Rightarrow> nat \<Rightarrow> nat \<Rightarrow> nat \<Rightarrow> nat \<Rightarrow> nat list \<Rightarrow> nat \<Rightarrow> nat \<Rightarrow> nat \<Rightarrow> nat" where
  "hnd_addr ntpb bsz kbn heads hsz blocks v h i =
     blocks ! (i div ntpb) * bsz + i mod ntpb div kbn * (kbn * (2 * heads * hsz)) +
     ((v * heads + h) * kbn + i mod kbn) * hsz"

lemma mod_chunk_dvd:
  fixes n k w c :: nat
  assumes "k dvd n" and "0 < n" and "c < k - w mod k"
  shows "(w + c) div n = w div n" and "(w + c) mod n div k = w mod n div k" and "(w + c) mod k = w mod k + c"
proof -
  obtain q where q: "n = k * q"
    using assms(1) by blast
  have k: "0 < k"
    using assms(2) q by simp
  have wk: "w div k = (w + c) div k" "(w + c) mod k = w mod k + c"
    using mod_add_chunk [OF assms(3) k] by simp_all
  show "(w + c) div n = w div n"
    using wk(1) by (simp add: q div_mult2_eq)
  have "x mod n div k = x div k mod q" for x
    unfolding q mod_mult2_eq using k by simp
  then show "(w + c) mod n div k = w mod n div k"
    using wk(1) by simp
  show "(w + c) mod k = w mod k + c"
    by (rule wk(2))
qed

lemma hnd_addr_chunk:
  assumes "kbn dvd ntpb" and "0 < ntpb" and "c < kbn - w mod kbn"
  shows "hnd_addr ntpb bsz kbn heads hsz bl v h (w + c) = hnd_addr ntpb bsz kbn heads hsz bl v h w + c * hsz"
  using mod_chunk_dvd [OF assms] by (simp add: hnd_addr_def algebra_simps)

text \<open>Positions inside a kernel block and inside a block.\<close>

lemma hnd_inner_bound:
  fixes heads kbn hsz :: nat
  assumes "v < 2" and "h < heads" and "t + c \<le> kbn"
  shows "((v * heads + h) * kbn + t) * hsz + c * hsz \<le> kbn * (2 * heads * hsz)"
proof -
  have "v * heads + h + 1 \<le> 2 * heads"
    using assms(1,2) by (auto simp: less_2_cases_iff)
  then have "(v * heads + h + 1) * kbn \<le> 2 * heads * kbn"
    by (rule mult_right_mono) simp
  then have "(v * heads + h) * kbn + t + c \<le> 2 * heads * kbn"
    using assms(3) by simp
  then have "((v * heads + h) * kbn + t + c) * hsz \<le> 2 * heads * kbn * hsz"
    by (rule mult_right_mono) simp
  then show ?thesis
    by (simp add: algebra_simps)
qed

lemma kernel_bound:
  fixes ntpb kbn ts :: nat
  assumes "kbn dvd ntpb" and "0 < ntpb" and "x \<le> kbn * ts"
  shows "i mod ntpb div kbn * (kbn * ts) + x \<le> ntpb * ts"
proof -
  obtain q where q: "ntpb = kbn * q"
    using assms(1) by blast
  have "i mod ntpb div kbn < q"
    using assms(2) q by (simp add: less_mult_imp_div_less mult.commute)
  then have "(i mod ntpb div kbn + 1) * (kbn * ts) \<le> q * (kbn * ts)"
    by (intro mult_right_mono) simp_all
  then show ?thesis
    using assms(3) by (simp add: q algebra_simps)
qed

lemma hnd_addr_bound:
  assumes "kbn dvd ntpb" and "0 < ntpb" and "v < 2" and "h < heads" and "c \<le> kbn - i mod kbn"
    and "bl ! (i div ntpb) < nblk" and "ntpb * (2 * heads * hsz) \<le> bsz"
  shows "hnd_addr ntpb bsz kbn heads hsz bl v h i + c * hsz \<le> bsz * nblk"
proof -
  have k: "0 < kbn"
    using assms(1,2) by (auto intro: Nat.gr0I)
  have "i mod kbn + c \<le> kbn"
    using assms(5) mod_less_divisor [OF k, of i] by linarith
  note x = hnd_inner_bound [OF assms(3,4) this, of hsz]
  have "i mod ntpb div kbn * (kbn * (2 * heads * hsz)) + (((v * heads + h) * kbn + i mod kbn) * hsz + c * hsz) \<le> bsz"
    using kernel_bound [OF assms(1,2) x, of i] assms(7) by linarith
  then show ?thesis
    using mult_block_bound [OF assms(6), of 0 "i mod ntpb div kbn * (kbn * (2 * heads * hsz)) + (((v * heads + h) * kbn + i mod kbn) * hsz + c * hsz)" bsz]
    by (simp add: hnd_addr_def add.assoc)
qed

lemma mod_div_mod_eq:
  fixes i j n k :: nat
  assumes "k dvd n" and "i mod n div k = j mod n div k" and "i mod k = j mod k" and "i div n = j div n"
  shows "i = j"
proof -
  have x: "x mod n = x mod n div k * k + x mod k" for x
    using div_mult_mod_eq [of "x mod n" k, symmetric] unfolding mod_mod_cancel [OF assms(1)] .
  have "i mod n = j mod n div k * k + j mod k"
    using x [of i] unfolding assms(2,3) .
  also have "\<dots> = j mod n"
    by (rule x [symmetric])
  finally have m: "i mod n = j mod n" .
  have "i = j div n * n + j mod n"
    using div_mult_mod_eq [of i n, symmetric] unfolding assms(4) m .
  then show ?thesis
    unfolding div_mult_mod_eq .
qed

lemma hnd_addr_inj:
  assumes "kbn dvd ntpb" and "0 < ntpb" and "distinct bl" and "i div ntpb < length bl" and "j div ntpb < length bl"
    and "v < 2" and "v' < 2" and "h < heads" and "h' < heads" and "k < hsz" and "k' < hsz"
    and "ntpb * (2 * heads * hsz) \<le> bsz"
    and eq: "hnd_addr ntpb bsz kbn heads hsz bl v h i + k = hnd_addr ntpb bsz kbn heads hsz bl v' h' j + k'"
  shows "v = v' \<and> h = h' \<and> i = j \<and> k = k'"
proof -
  have kb: "0 < kbn"
    using assms(1,2) by (auto intro: Nat.gr0I)
  let ?K = "kbn * (2 * heads * hsz)"
  let ?x = "\<lambda>v h i k. ((v * heads + h) * kbn + i mod kbn) * hsz + k"
  have x: "?x v h i k < ?K" if "v < 2" "h < heads" "k < hsz" for v h i k
  proof -
    have "i mod kbn + 1 \<le> kbn"
      using kb by (simp add: Suc_leI)
    note b = hnd_inner_bound [OF that(1,2) this, of hsz]
    have "?x v h i k < ((v * heads + h) * kbn + i mod kbn) * hsz + 1 * hsz"
      using that(3) by simp
    then show ?thesis
      using b by (rule less_le_trans)
  qed
  have y: "i mod ntpb div kbn * ?K + ?x v h i k < bsz" if "v < 2" "h < heads" "k < hsz" for v h i k
    using le_trans [OF kernel_bound [OF assms(1,2) Suc_leI [OF x [OF that, of i]], of i] assms(12)]
    by (simp only: add_Suc_right Suc_le_eq)
  have e: "bl ! (i div ntpb) * bsz + (i mod ntpb div kbn * ?K + ?x v h i k) =
      bl ! (j div ntpb) * bsz + (j mod ntpb div kbn * ?K + ?x v' h' j k')"
    using eq unfolding hnd_addr_def by (simp only: add.assoc)
  note r1 = radix_inj [OF e y [OF assms(6,8,10), of i] y [OF assms(7,9,11), of j]]
  note r2 = radix_inj [OF r1 [THEN conjunct2] x [OF assms(6,8,10), of i] x [OF assms(7,9,11), of j]]
  note r3 = radix_inj [OF r2 [THEN conjunct2] assms(10,11)]
  note r4 = radix_inj [OF r3 [THEN conjunct1] mod_less_divisor [OF kb, of i] mod_less_divisor [OF kb, of j]]
  note r5 = radix_inj [OF r4 [THEN conjunct1] assms(8,9)]
  have "i div ntpb = j div ntpb"
    using r1 [THEN conjunct1] nth_eq_iff_index_eq [OF assms(3-5)] by (rule iffD1 [rotated])
  from mod_div_mod_eq [OF assms(1) r2 [THEN conjunct1] r4 [THEN conjunct2] this] r5 r3 [THEN conjunct2]
  show ?thesis
    by simp
qed

section \<open>The loop over tokens copies the heads\<close>

text \<open>
  The local variables without wrap-around: \<open>H\<close> heads of \<open>hsz\<close> bytes per prefill worker and token, \<open>G\<close>
  prefill workers per decode worker of which this one has offset \<open>off\<close>.
\<close>

definition hnd_lay ::
  "nat \<Rightarrow> nat \<Rightarrow> nat \<Rightarrow> nat \<Rightarrow> nat \<Rightarrow> nat \<Rightarrow> nat \<Rightarrow> nat \<Rightarrow> nat \<Rightarrow> nat \<Rightarrow> bool \<Rightarrow> hnd_layout" where
  "hnd_lay pbsz dbsz pn dn pk dk hsz H G off swap =
     \<lparr> hl_p_block = pbsz, hl_d_block = dbsz, hl_p_ntpb = pn, hl_d_ntpb = dn, hl_p_kbn = pk, hl_d_kbn = dk,
       hl_p_kblock = pk * (2 * H * hsz), hl_d_kblock = dk * (2 * (G * H) * hsz), hl_head_dim = hsz,
       hl_p_head = pk * hsz, hl_d_head = dk * hsz, hl_p_kv = H * (pk * hsz), hl_d_kv = G * H * (dk * hsz),
       hl_group_kv = H * (dk * hsz), hl_group_off = off, hl_heads = H, hl_swap = swap \<rparr>"

definition hnd_wf ::
  "nat \<Rightarrow> nat \<Rightarrow> nat \<Rightarrow> nat \<Rightarrow> nat \<Rightarrow> nat \<Rightarrow> nat \<Rightarrow> nat \<Rightarrow> nat \<Rightarrow> nat \<Rightarrow> bool \<Rightarrow> ipc_block_bounds \<Rightarrow>
   nat list \<Rightarrow> nat list \<Rightarrow> nat \<Rightarrow> nat \<Rightarrow> nat \<Rightarrow> nat \<Rightarrow> bool" where
  "hnd_wf pbsz dbsz pn dn pk dk hsz H G off swap bounds pb db np nd w l \<longleftrightarrow>
     0 < pn \<and> 0 < dn \<and> pk dvd pn \<and> dk dvd dn \<and> 0 < hsz \<and> 0 < H \<and> off < G \<and>
     pn * (2 * H * hsz) \<le> pbsz \<and> dn * (2 * (G * H) * hsz) \<le> dbsz \<and>
     pbsz * np \<le> (if swap then dst_capacity bounds else src_capacity bounds) \<and>
     dbsz * nd \<le> (if swap then src_capacity bounds else dst_capacity bounds) \<and>
     src_length_scale bounds = 1 \<and> src_capacity bounds < 2 ^ 64 \<and> dst_capacity bounds < 2 ^ 64 \<and>
     w + l < 2 ^ 32 \<and> table_ok pn pb np w l \<and> table_ok dn db nd w l"

abbreviation hnd_chunk :: "nat \<Rightarrow> nat \<Rightarrow> nat \<Rightarrow> nat \<Rightarrow> nat" where
  "hnd_chunk pk dk w l \<equiv> min (min (pk - w mod pk) (dk - w mod dk)) l"

definition hnd_run :: "bool \<Rightarrow> nat \<Rightarrow> nat \<Rightarrow> nat \<Rightarrow> (nat \<times> nat) set" where
  "hnd_run swap p d len = (if swap then run d p len else run p d len)"

definition hnd_blk :: "bool \<Rightarrow> nat \<Rightarrow> nat \<Rightarrow> nat \<Rightarrow> ipc_block" where
  "hnd_blk swap p d len = IpcBlock (if swap then d else p) (if swap then p else d) len"

lemma block_bytes_hnd_blk: "block_bytes (hnd_blk swap p d len) = hnd_run swap p d len"
  by (simp add: hnd_blk_def hnd_run_def)

lemma append_hnd_blk:
  assumes "p + len \<le> (if swap then dst_capacity bounds else src_capacity bounds)"
    and "d + len \<le> (if swap then src_capacity bounds else dst_capacity bounds)"
    and "src_length_scale bounds = 1" and "src_capacity bounds < 2 ^ 64" and "0 < len"
  shows "append_ipc_block_checked out bounds (if swap then d else p) (if swap then p else d) len =
    Inr (out @ [hnd_blk swap p d len])"
  using assms by (auto simp: append_ipc_block_checked_Inr_iff hnd_blk_def split: if_splits)

lemma u64_u64 [simp]: "u64 (u64 x) = u64 x"
  by (simp add: u64_def)

lemma run_progression:
  assumes "\<And>k. k < c \<Longrightarrow> f (w + k) = f w + k * t" and "\<And>k. k < c \<Longrightarrow> g (w + k) = g w + k * t"
  shows "run (f w) (g w) (c * t) = (\<Union>i\<in>{w..<w + c}. run (f i) (g i) t)"
proof -
  have "(\<Union>i\<in>{w..<w + c}. run (f i) (g i) t) = (\<Union>k<c. run (f (w + k)) (g (w + k)) t)"
    by (rule UN_shift)
  also have "\<dots> = (\<Union>k<c. run (f w + k * t) (g w + k * t) t)"
    using assms by (intro SUP_cong) auto
  finally show ?thesis
    by (simp add: run_tokens)
qed

lemma radix_bound:
  fixes x y m n :: nat
  assumes "x < n" and "y < m"
  shows "x * m + y < n * m"
proof -
  have "(x + 1) * m \<le> n * m"
    using assms(1) by (intro mult_right_mono) simp_all
  then show ?thesis
    using assms(2) by simp
qed

text \<open>The two descriptors of one head of a chunk.\<close>

lemma hnd_head_copies:
  assumes wf: "hnd_wf pbsz dbsz pn dn pk dk hsz H G off swap bounds pb db np nd w l" and "0 < l" and h: "h < H"
  defines "c \<equiv> hnd_chunk pk dk w l"
  defines "p \<equiv> \<lambda>v. hnd_addr pn pbsz pk H hsz pb v h w"
    and "d \<equiv> \<lambda>v. hnd_addr dn dbsz dk (G * H) hsz db v (off * H + h) w"
  shows "hnd_head (hnd_lay pbsz dbsz pn dn pk dk hsz H G off swap)
      (u64 (u64 (pb ! (w div pn) * pbsz) + w mod pn div pk * (pk * (2 * H * hsz))))
      (u64 (u64 (db ! (w div dn) * dbsz) + w mod dn div dk * (dk * (2 * (G * H) * hsz))))
      (w mod pk) (w mod dk) (u64 (c * hsz)) bounds h out =
    Inr (out @ [hnd_blk swap (p 0) (d 0) (c * hsz), hnd_blk swap (p 1) (d 1) (c * hsz)])"
proof -
  note df = wf [unfolded hnd_wf_def]
  have tab: "pb ! (w div pn) < np" "db ! (w div dn) < nd"
    using df assms(2) by (auto dest: table_ok_at)
  have cc: "c \<le> pk - w mod pk" "c \<le> dk - w mod dk" "0 < c"
  proof -
    have "0 < pk" "0 < dk"
      using df by (auto intro: Nat.gr0I)
    then show "0 < c"
      using assms(2) by (simp add: c_def)
  qed (simp_all add: c_def)
  have hh: "off * H + h < G * H"
    using radix_bound [OF _ h, of off G] df by blast
  have pe: "p v + c * hsz \<le> (if swap then dst_capacity bounds else src_capacity bounds)" if "v < 2" for v
    using hnd_addr_bound [OF _ _ that h cc(1) tab(1), of hsz pbsz] df unfolding p_def by (meson le_trans)
  have de: "d v + c * hsz \<le> (if swap then src_capacity bounds else dst_capacity bounds)" if "v < 2" for v
    using hnd_addr_bound [OF _ _ that hh cc(2) tab(2), of hsz dbsz] df unfolding d_def by (meson le_trans)
  have lt: "p v < 2 ^ 64" "d v < 2 ^ 64" "c * hsz < 2 ^ 64" if "v < 2" for v
    using pe [OF that] de [OF that] df by (auto split: if_splits)
  have a: "u64 (u64 (u64 (u64 (pb ! (w div pn) * pbsz) + w mod pn div pk * (pk * (2 * H * hsz))) + h * (pk * hsz) + w mod pk * hsz)
      + v * (H * (pk * hsz))) = p v" if "v < 2" for v
  proof -
    have "p v = pb ! (w div pn) * pbsz + w mod pn div pk * (pk * (2 * H * hsz)) + h * (pk * hsz) + w mod pk * hsz
        + v * (H * (pk * hsz))"
      by (simp add: p_def hnd_addr_def algebra_simps)
    then show ?thesis
      using lt(1) [OF that] unfolding u64_def by (simp only: mod_simps mod_less)
  qed
  have b: "u64 (u64 (u64 (u64 (db ! (w div dn) * dbsz) + w mod dn div dk * (dk * (2 * (G * H) * hsz))) + off * (H * (dk * hsz))
      + h * (dk * hsz) + w mod dk * hsz) + v * (G * H * (dk * hsz))) = d v" if "v < 2" for v
  proof -
    have "d v = db ! (w div dn) * dbsz + w mod dn div dk * (dk * (2 * (G * H) * hsz)) + off * (H * (dk * hsz))
        + h * (dk * hsz) + w mod dk * hsz + v * (G * H * (dk * hsz))"
      by (simp add: d_def hnd_addr_def algebra_simps)
    then show ?thesis
      using lt(2) [OF that] unfolding u64_def by (simp only: mod_simps mod_less)
  qed
  have len: "u64 (c * hsz) = c * hsz"
    using lt(3) [of 0] by (simp add: u64_id)
  have app: "append_ipc_block_checked out bounds (if swap then d v else p v) (if swap then p v else d v) (c * hsz) =
      Inr (out @ [hnd_blk swap (p v) (d v) (c * hsz)])" if "v < 2" for v out
    using df cc(3) by (intro append_hnd_blk pe de that) auto
  show ?thesis
    using a [of 0] a [of 1] b [of 0] b [of 1] app [of 0] app [of 1]
    unfolding hnd_head_def hnd_lay_def len Let_def by (cases swap) simp_all
qed

definition hnd_body ::
  "nat \<Rightarrow> nat \<Rightarrow> nat \<Rightarrow> nat \<Rightarrow> nat \<Rightarrow> nat \<Rightarrow> nat \<Rightarrow> nat \<Rightarrow> nat \<Rightarrow> nat \<Rightarrow> bool \<Rightarrow> nat list \<Rightarrow> nat list \<Rightarrow>
   nat \<Rightarrow> nat \<Rightarrow> ipc_block list" where
  "hnd_body pbsz dbsz pn dn pk dk hsz H G off swap pb db w len =
     concat (map (\<lambda>h.
       [hnd_blk swap (hnd_addr pn pbsz pk H hsz pb 0 h w) (hnd_addr dn dbsz dk (G * H) hsz db 0 (off * H + h) w) len,
        hnd_blk swap (hnd_addr pn pbsz pk H hsz pb 1 h w) (hnd_addr dn dbsz dk (G * H) hsz db 1 (off * H + h) w) len])
       [0..<H])"

definition hnd_rows ::
  "nat \<Rightarrow> nat \<Rightarrow> nat \<Rightarrow> nat \<Rightarrow> nat \<Rightarrow> nat \<Rightarrow> nat \<Rightarrow> nat \<Rightarrow> nat \<Rightarrow> nat \<Rightarrow> bool \<Rightarrow> nat list \<Rightarrow> nat list \<Rightarrow>
   nat \<Rightarrow> nat \<Rightarrow> (nat \<times> nat) set" where
  "hnd_rows pbsz dbsz pn dn pk dk hsz H G off swap pb db len i =
     (\<Union>(v, h)\<in>{..<2} \<times> {..<H}.
       hnd_run swap (hnd_addr pn pbsz pk H hsz pb v h i) (hnd_addr dn dbsz dk (G * H) hsz db v (off * H + h) i) len)"

lemma copied_hnd_body:
  "copied (hnd_body pbsz dbsz pn dn pk dk hsz H G off swap pb db w len) =
   hnd_rows pbsz dbsz pn dn pk dk hsz H G off swap pb db len w"
  unfolding hnd_rows_def UN_two
  by (auto simp: hnd_body_def copied_def block_bytes_hnd_blk)

lemma total_len_hnd_body:
  "total_len (hnd_body pbsz dbsz pn dn pk dk hsz H G off swap pb db w len) = 2 * H * len"
proof -
  have "total_len (concat (map (\<lambda>h. [hnd_blk swap (f h) (f' h) len, hnd_blk swap (g h) (g' h) len]) xs)) =
      2 * length xs * len" for f f' g g' and xs :: "nat list"
    by (induction xs) (simp_all add: total_len_def hnd_blk_def)
  then show ?thesis
    by (simp add: hnd_body_def)
qed

lemma hnd_run_progression:
  assumes "\<And>k. k < c \<Longrightarrow> f (w + k) = f w + k * t" and "\<And>k. k < c \<Longrightarrow> g (w + k) = g w + k * t"
  shows "hnd_run swap (f w) (g w) (c * t) = (\<Union>i\<in>{w..<w + c}. hnd_run swap (f i) (g i) t)"
  using run_progression [of c f w t g] run_progression [of c g w t f] assms by (cases swap) (simp_all add: hnd_run_def)

lemma hnd_rows_chunk:
  assumes wf: "hnd_wf pbsz dbsz pn dn pk dk hsz H G off swap bounds pb db np nd w l"
    and c: "c \<le> pk - w mod pk" "c \<le> dk - w mod dk"
  shows "hnd_rows pbsz dbsz pn dn pk dk hsz H G off swap pb db (c * hsz) w =
    (\<Union>i\<in>{w..<w + c}. hnd_rows pbsz dbsz pn dn pk dk hsz H G off swap pb db hsz i)"
proof -
  note df = wf [unfolded hnd_wf_def]
  have "hnd_run swap (hnd_addr pn pbsz pk H hsz pb v h w) (hnd_addr dn dbsz dk (G * H) hsz db v (off * H + h) w) (c * hsz) =
      (\<Union>i\<in>{w..<w + c}. hnd_run swap (hnd_addr pn pbsz pk H hsz pb v h i) (hnd_addr dn dbsz dk (G * H) hsz db v (off * H + h) i) hsz)"
    for v h
    using df c by (intro hnd_run_progression) (auto intro!: hnd_addr_chunk)
  then show ?thesis
    unfolding hnd_rows_def by (auto simp: case_prod_beta)
qed

lemma hnd_step:
  assumes wf: "hnd_wf pbsz dbsz pn dn pk dk hsz H G off swap bounds pb db np nd w l" and l: "0 < l"
  defines "c \<equiv> hnd_chunk pk dk w l"
  shows "hybrid_hnd_loop ndb (hnd_lay pbsz dbsz pn dn pk dk hsz H G off swap) pb db bounds w l bs =
    hybrid_hnd_loop ndb (hnd_lay pbsz dbsz pn dn pk dk hsz H G off swap) pb db bounds (w + c) (l - c)
      (bs @ hnd_body pbsz dbsz pn dn pk dk hsz H G off swap pb db w (c * hsz))"
proof -
  note df = wf [unfolded hnd_wf_def]
  let ?L = "hnd_lay pbsz dbsz pn dn pk dk hsz H G off swap"
  have tab: "w div pn < length pb" "w div dn < length db"
    using df l by (auto dest: table_ok_at)
  have pos: "0 < pk" "0 < dk" "0 < pn" "0 < dn"
    using df by (auto intro: Nat.gr0I)
  have r: "rfold (hnd_head ?L (u64 (u64 (pb ! (w div pn) * pbsz) + w mod pn div pk * (pk * (2 * H * hsz))))
        (u64 (u64 (db ! (w div dn) * dbsz) + w mod dn div dk * (dk * (2 * (G * H) * hsz))))
        (w mod pk) (w mod dk) (u64 (c * hsz)) bounds) [0..<H] bs =
      Inr (bs @ hnd_body pbsz dbsz pn dn pk dk hsz H G off swap pb db w (c * hsz))"
    unfolding hnd_body_def
    by (rule rfold_emit) (use hnd_head_copies [OF wf l] in \<open>simp add: c_def\<close>)
  have L: "hl_p_ntpb ?L = pn" "hl_d_ntpb ?L = dn" "hl_p_kbn ?L = pk" "hl_d_kbn ?L = dk" "hl_p_block ?L = pbsz"
    "hl_d_block ?L = dbsz" "hl_p_kblock ?L = pk * (2 * H * hsz)" "hl_d_kblock ?L = dk * (2 * (G * H) * hsz)"
    "hl_head_dim ?L = hsz" "hl_heads ?L = H"
    by (simp_all add: hnd_lay_def)
  have u: "u32 (w + c) = w + c"
    using df by (intro u32_id) (auto simp: c_def)
  show ?thesis
    by (subst hybrid_hnd_loop.simps)
      (simp only: L Let_def minus_div_mult_eq_mod c_def [symmetric] ck_div_pass ck_mod_pass pos tab vec_at_pass
        c_assert_pass simp_thms l if_True r rbind_Inr u)
qed

interpretation hnd: token_loop "hybrid_hnd_loop ndb (hnd_lay pbsz dbsz pn dn pk dk hsz H G off swap) pb db bounds"
  "hnd_wf pbsz dbsz pn dn pk dk hsz H G off swap bounds pb db np nd" "hnd_chunk pk dk"
  "\<lambda>w l. hnd_body pbsz dbsz pn dn pk dk hsz H G off swap pb db w (hnd_chunk pk dk w l * hsz)"
  "hnd_rows pbsz dbsz pn dn pk dk hsz H G off swap pb db hsz" "2 * H * hsz"
  "\<lambda>i b. \<exists>p d c. b = hnd_blk swap p d (c * hsz)"
  for ndb pbsz dbsz pn dn pk dk hsz H G off swap pb db bounds np nd
proof (unfold_locales, goal_cases)
  case (1 w bs)
  show ?case
    by (simp add: hybrid_hnd_loop.simps)
next
  case (2 w l bs)
  then show ?case
    by (rule hnd_step)
next
  case (3 w l)
  then have "0 < pk" "0 < dk"
    by (auto simp: hnd_wf_def intro: Nat.gr0I)
  with 3 show ?case
    by simp
next
  case (4 w l)
  then show ?case
    by (auto simp: hnd_wf_def intro!: table_ok_shift)
next
  case (5 w l)
  then show ?case
    unfolding copied_hnd_body by (intro hnd_rows_chunk) auto
next
  case (6 w l)
  then show ?case
    by (simp add: total_len_hnd_body)
next
  case (7 w l b)
  have "0 < pk" "0 < dk"
    using 7 by (auto simp: hnd_wf_def intro: Nat.gr0I)
  with 7 show ?case
    by (intro bexI [of _ w]) (auto simp: hnd_body_def)
qed

text \<open>
  The plain HND loop is the hybrid one in which the block is the only kernel block.
\<close>

lemma hnd_loop_hybrid:
  assumes "hl_d_ntpb L = hl_p_ntpb L" and "hl_p_kbn L = hl_p_ntpb L" and "hl_d_kbn L = hl_p_ntpb L"
  shows "hnd_loop L sb db bounds w l out = hybrid_hnd_loop True L sb db bounds w l out"
  using assms
proof (induction L sb db bounds w l out rule: hnd_loop.induct)
  case (1 L sb db bounds w l out)
  let ?n = "hl_p_ntpb L"
  show ?case
  proof (cases "0 < l \<and> 0 < ?n")
    case True
    have z: "w - w div ?n * ?n = w mod ?n" "w mod ?n div ?n = 0"
      using True by (simp_all add: minus_div_mult_eq_mod)
    have pos: "0 < l" "0 < ?n"
      using True by simp_all
    show ?thesis
      by (subst hnd_loop.simps, subst hybrid_hnd_loop.simps,
          simp only: pos if_True ck_div_pass ck_mod_pass "1.prems" z min.idem mult_0 add_0_right u64_u64
            Let_def c_assert_ndebug)
        (intro vec_at_cong rbind_cong refl "1.IH" "1.prems" pos; use pos in simp)
  next
    case False
    then show ?thesis
      by (subst hnd_loop.simps, subst hybrid_hnd_loop.simps) (auto simp: ck_div_def)
  qed
qed

text \<open>The bytes a run of the loop copies, over all heads and tokens.\<close>

lemma hnd_rows_triple:
  "(\<Union>i\<in>I. hnd_rows pbsz dbsz pn dn pk dk hsz H G off False pb db hsz i) =
   (\<Union>(v, h, i)\<in>{..<2} \<times> {..<H} \<times> I.
     run (hnd_addr pn pbsz pk H hsz pb v h i) (hnd_addr dn dbsz dk (G * H) hsz db v (off * H + h) i) hsz)"
  by (auto simp: hnd_rows_def hnd_run_def)

lemma to_size_of_nat: "n < 2 ^ 64 \<Longrightarrow> to_size (int n) = n"
  by (simp add: to_size_def)

lemma parse_flashinfer_HND_copies:
  assumes wf: "hnd_wf pbsz dbsz n n n n hsz H G off swap bounds pb db np nd w l"
    and sizes: "pbsz = n * (2 * H * hsz)" "dbsz = n * (2 * (G * H) * hsz)" "pbsz < 2 ^ 64" "dbsz < 2 ^ 64"
  shows "\<exists>out. parse_flashinfer_HND_block env (2 * H * hsz) dt pbsz dbsz n pb db w l G off (int H) bounds swap bs =
      Inr (bs @ out) \<and>
    copied out = (\<Union>i\<in>{w..<w + l}. hnd_rows pbsz dbsz n n n n hsz H G off swap pb db hsz i) \<and>
    total_len out = l * (2 * H * hsz)"
proof -
  note df = wf [unfolded hnd_wf_def]
  have pos: "0 < n" "0 < H" "0 < hsz" "0 < G"
    using df by auto
  have G: "dbsz = 2 * (H * (n * hsz)) * G" "pbsz = 2 * (H * (n * hsz))"
    using sizes by simp_all
  have l1: "2 * (H * (n * hsz)) < 2 ^ 64"
    using factor_less [of "2 * (H * (n * hsz))" G] sizes(4) pos(4) unfolding G by blast
  have "2 * H * (n * hsz) < 2 ^ 64" "n * hsz * (2 * H) < 2 ^ 64"
    using l1 by (simp_all add: ac_simps)
  then have l2: "2 * H < 2 ^ 64" "n * hsz < 2 ^ 64"
    using factor_less [of "2 * H" "n * hsz"] factor_less [of "n * hsz" "2 * H"] pos by simp_all
  have lt: "H < 2 ^ 64" "H * (n * hsz) < 2 ^ 64" "H * (n * hsz) * G < 2 ^ 64"
    using l1 l2 sizes(4) unfolding G by linarith+
  let ?L = "hnd_lay pbsz dbsz n n n n hsz H G off swap"
  have "\<lparr> hl_p_block = pbsz, hl_d_block = dbsz, hl_p_ntpb = n, hl_d_ntpb = n, hl_p_kbn = n, hl_d_kbn = n,
      hl_p_kblock = pbsz, hl_d_kblock = dbsz, hl_head_dim = hsz, hl_p_head = n * hsz, hl_d_head = n * hsz,
      hl_p_kv = pbsz div 2, hl_d_kv = dbsz div 2, hl_group_kv = H * (n * hsz), hl_group_off = off,
      hl_heads = H, hl_swap = swap \<rparr> = ?L"
    using sizes by (simp add: hnd_lay_def ac_simps)
  moreover have "H * (n * hsz) * G = dbsz div 2" "2 * H * hsz div 2 div H = hsz" "2 * H * hsz mod (2 * H) = 0"
    using pos sizes by (simp_all add: ac_simps)
  ultimately have "parse_flashinfer_HND_block env (2 * H * hsz) dt pbsz dbsz n pb db w l G off (int H) bounds swap bs =
      hnd_loop ?L pb db bounds w l bs"
    using pos lt l2 by (simp add: parse_flashinfer_HND_block_def to_size_of_nat u64_id Let_def)
  also have "\<dots> = hybrid_hnd_loop True ?L pb db bounds w l bs"
    by (rule hnd_loop_hybrid) (simp_all add: hnd_lay_def)
  finally show ?thesis
    using hnd.loop_copies [OF wf, of True bs] by auto
qed

lemma parse_hybrid_HND_copies:
  assumes wf: "hnd_wf pbsz dbsz pn dn pk dk hsz H G off swap bounds pb db np nd w l"
    and sizes: "pk * (2 * H * hsz) < 2 ^ 64" "dk * (2 * (G * H) * hsz) < 2 ^ 64"
  shows "\<exists>out. parse_hybrid_flashinfer_HND_block env (2 * H * hsz) (2 * (G * H) * hsz) pbsz dbsz pn dn pb db w l G off
      pk dk (int H) bounds swap bs = Inr (bs @ out) \<and>
    copied out = (\<Union>i\<in>{w..<w + l}. hnd_rows pbsz dbsz pn dn pk dk hsz H G off swap pb db hsz i) \<and>
    total_len out = l * (2 * H * hsz)"
proof -
  note df = wf [unfolded hnd_wf_def]
  have pos: "0 < pk" "0 < dk" "0 < H" "0 < hsz" "0 < G"
    using df by (auto intro: Nat.gr0I)
  have "2 * H * (pk * hsz) < 2 ^ 64" "pk * hsz * (2 * H) < 2 ^ 64" "dk * hsz * (2 * (G * H)) < 2 ^ 64"
    "2 * (H * (dk * hsz)) * G < 2 ^ 64"
    using sizes by (simp_all add: ac_simps)
  then have "2 * H < 2 ^ 64" "pk * hsz < 2 ^ 64" "dk * hsz < 2 ^ 64" "2 * (H * (dk * hsz)) < 2 ^ 64"
    and d: "2 * (H * (dk * hsz)) * G < 2 ^ 64"
    using factor_less [of "2 * H" "pk * hsz"] factor_less [of "pk * hsz" "2 * H"]
      factor_less [of "dk * hsz" "2 * (G * H)"] factor_less [of "2 * (H * (dk * hsz))" G] pos by simp_all
  then have lt: "H < 2 ^ 64" "H * (dk * hsz) < 2 ^ 64" "H * (dk * hsz) * G < 2 ^ 64" "2 * H < 2 ^ 64" "pk * hsz < 2 ^ 64"
    "dk * hsz < 2 ^ 64"
    by linarith+
  let ?L = "hnd_lay pbsz dbsz pn dn pk dk hsz H G off swap"
  have L: "\<lparr> hl_p_block = pbsz, hl_d_block = dbsz, hl_p_ntpb = pn, hl_d_ntpb = dn, hl_p_kbn = pk, hl_d_kbn = dk,
      hl_p_kblock = pk * (2 * H * hsz), hl_d_kblock = dk * (2 * (G * H) * hsz), hl_head_dim = hsz,
      hl_p_head = pk * hsz, hl_d_head = dk * hsz, hl_p_kv = H * (pk * hsz), hl_d_kv = H * (dk * hsz) * G,
      hl_group_kv = H * (dk * hsz), hl_group_off = off, hl_heads = H, hl_swap = swap \<rparr> = ?L"
    by (simp add: hnd_lay_def ac_simps)
  have halves: "pk * (2 * H * hsz) div 2 = H * (pk * hsz)" "dk * (2 * (G * H) * hsz) div 2 = H * (dk * hsz) * G"
    "H * (pk * hsz) * 2 = pk * (2 * H * hsz)" "H * (dk * hsz) * G * 2 = dk * (2 * (G * H) * hsz)"
    "2 * H * hsz div 2 div H = hsz" "2 * H * hsz mod (2 * H) = 0"
    using pos by (simp_all add: ac_simps)
  have "parse_hybrid_flashinfer_HND_block env (2 * H * hsz) (2 * (G * H) * hsz) pbsz dbsz pn dn pb db w l G off
      pk dk (int H) bounds swap bs = hybrid_hnd_loop (ndebug env) ?L pb db bounds w l bs"
    unfolding parse_hybrid_flashinfer_HND_block_def Let_def to_size_of_nat [OF lt(1)] u64_id [OF sizes(1)] u64_id [OF sizes(2)]
      halves u64_id [OF lt(4)]
    using pos lt by (simp add: halves u64_id L)
  then show ?thesis
    using hnd.loop_copies [OF wf, of "ndebug env" bs] by auto
qed

section \<open>Filling the last decode block\<close>

lemma UN_progression:
  assumes "\<And>k. k < c \<Longrightarrow> f (w + k) = f w + k * t"
  shows "(\<Union>i\<in>{w..<w + c}. {f i..<f i + t}) = {f w..<f w + c * (t::nat)}"
proof -
  have "snd ` run (f w) (f w) (c * t) = snd ` (\<Union>i\<in>{w..<w + c}. run (f i) (f i) t)"
    using assms by (subst run_progression [of c f w t f]) simp_all
  then show ?thesis
    by (simp add: image_UN snd_run)
qed

definition hnd_tail :: "nat \<Rightarrow> nat \<Rightarrow> nat \<Rightarrow> nat \<Rightarrow> nat \<Rightarrow> nat \<Rightarrow> nat list \<Rightarrow> nat \<Rightarrow> nat set" where
  "hnd_tail n bsz H G hsz off db total_tokens =
     (\<Union>v\<in>{..<2}. \<Union>h\<in>{..<H}. \<Union>i\<in>{total_tokens..<(total_tokens div n + 1) * n}.
        {hnd_addr n bsz n (G * H) hsz db v (off * H + h) i..<hnd_addr n bsz n (G * H) hsz db v (off * H + h) i + hsz})"

lemma hnd_tail_segments:
  assumes "0 < n"
  shows "hnd_tail n bsz H G hsz off db t =
    (\<Union>h\<in>set [0..<H].
      {hnd_addr n bsz n (G * H) hsz db 0 (off * H + h) t..<hnd_addr n bsz n (G * H) hsz db 0 (off * H + h) t + (n - t mod n) * hsz} \<union>
      {hnd_addr n bsz n (G * H) hsz db 1 (off * H + h) t..<hnd_addr n bsz n (G * H) hsz db 1 (off * H + h) t + (n - t mod n) * hsz})"
proof -
  have "t mod n < n"
    using assms by simp
  then have e: "(t div n + 1) * n = t + (n - t mod n)"
    using div_mult_mod_eq [of t n] add_mult_distrib [of "t div n" 1 n] by linarith
  have "(\<Union>i\<in>{t..<(t div n + 1) * n}. {hnd_addr n bsz n (G * H) hsz db v h i..<hnd_addr n bsz n (G * H) hsz db v h i + hsz}) =
      {hnd_addr n bsz n (G * H) hsz db v h t..<hnd_addr n bsz n (G * H) hsz db v h t + (n - t mod n) * hsz}" for v h
    unfolding e using assms by (intro UN_progression hnd_addr_chunk) simp_all
  then show ?thesis
    unfolding hnd_tail_def lessThan_Suc numeral_2_eq_2 by (auto simp: lessThan_Suc)
qed

lemma fill_last_hybrid_HND_fills:
  assumes n: "0 < n" and t: "0 < t" "t mod n \<noteq> 0" and off: "off < G" and pos: "0 < H" "0 < hsz"
    and dsz: "n * (2 * (G * H) * hsz) \<le> dbsz" and psz: "0 < pbsz"
    and sb: "sb \<noteq> []" "sb ! 0 < np" "pbsz * np \<le> src_capacity bounds"
    and db: "t div n < length db" "db ! (t div n) < nd" "dbsz * nd \<le> dst_capacity bounds"
    and b: "src_length_scale bounds = 1" "src_capacity bounds < 2 ^ 64" "dst_capacity bounds < 2 ^ 64"
  shows "\<exists>new. fill_last_hybrid_flashinfer_HND_block env (2 * H * hsz) (2 * (G * H) * hsz) pbsz dbsz n sb db t off (int H)
      bounds out = Inr (out @ new) \<and>
    fills {sb ! 0 * pbsz..<sb ! 0 * pbsz + pbsz} (hnd_tail n dbsz H G hsz off db t) new \<and>
    total_len new = H * (2 * ((n - t mod n) * hsz))"
proof -
  let ?len = "(n - t mod n) * hsz"
  let ?d = "\<lambda>v h. hnd_addr n dbsz n (G * H) hsz db v (off * H + h) t"
  let ?Z = "{sb ! 0 * pbsz..<sb ! 0 * pbsz + pbsz}"
  have z: "sb ! 0 * pbsz + pbsz \<le> src_capacity bounds"
    using mult_block_bound [OF sb(2), of 0 pbsz pbsz] sb(3) by simp
  have de: "?d v h + ?len \<le> dst_capacity bounds" if "v < 2" "h < H" for v h
    using hnd_addr_bound [OF dvd_refl n that(1) radix_bound [OF off that(2)] le_refl db(2) dsz] db(3) by (rule le_trans)
  have nl: "n * (2 * (G * H) * hsz) < 2 ^ 64"
  proof -
    have "dbsz * 1 \<le> dbsz * nd"
      using db(2) by (intro mult_left_mono) simp_all
    then show ?thesis
      using dsz db(3) b(3) by linarith
  qed
  have "2 * (H * (n * hsz)) * G < 2 ^ 64"
    using nl by (simp add: ac_simps)
  then have g2: "2 * (H * (n * hsz)) < 2 ^ 64"
    by (rule factor_less) (use off in simp)
  have "2 * H * (n * hsz) < 2 ^ 64" "n * hsz * (2 * H) < 2 ^ 64"
    using g2 by (simp_all add: ac_simps)
  then have lt: "2 * H < 2 ^ 64" "n * hsz < 2 ^ 64"
    using factor_less [of "2 * H" "n * hsz"] factor_less [of "n * hsz" "2 * H"] n pos by simp_all
  have lt': "H < 2 ^ 64" "H * (n * hsz) < 2 ^ 64" "?len < 2 ^ 64" "sb ! 0 * pbsz < 2 ^ 64"
    using lt g2 z b(2) de [OF zero_less_numeral pos(1)] b(3) by linarith+
  have dk: "u64 (u64 (u64 (db ! (t div n) * dbsz) + off * (H * (n * hsz)) + h * (n * hsz) + t mod n * hsz) +
      v * (G * H * (n * hsz))) = ?d v h" if "v < 2" "h < H" for v h
  proof -
    have "?d v h = db ! (t div n) * dbsz + off * (H * (n * hsz)) + h * (n * hsz) + t mod n * hsz + v * (G * H * (n * hsz))"
      using n by (simp add: hnd_addr_def algebra_simps)
    moreover have "?d v h < 2 ^ 64"
      using de [OF that] b(3) by linarith
    ultimately show ?thesis
      unfolding u64_def by (simp only: mod_simps mod_less)
  qed
  note emit = emit_zero_fill_segments_fills [OF psz b z]
  let ?f = "\<lambda>h out. let dk_off = u64 (u64 (db ! (t div n) * dbsz) + off * (H * (n * hsz)) + h * (n * hsz) + t mod n * hsz);
      dv_off = u64 (dk_off + G * H * (n * hsz)) in
      rbind (emit_zero_fill_segments env (sb ! 0 * pbsz) dk_off ?len pbsz bounds out)
        (emit_zero_fill_segments env (sb ! 0 * pbsz) dv_off ?len pbsz bounds)"
  have step: "\<exists>new. ?f h out = Inr (out @ new) \<and>
      fills ?Z ({?d 0 h..<?d 0 h + ?len} \<union> {?d 1 h..<?d 1 h + ?len}) new \<and> total_len new = 2 * ?len"
    if "h \<in> set [0..<H]" for h out
  proof -
    have h: "h < H"
      using that by simp
    obtain K where K: "emit_zero_fill_segments env (sb ! 0 * pbsz) (?d 0 h) ?len pbsz bounds out = Inr (out @ K)"
      "fills ?Z {?d 0 h..<?d 0 h + ?len} K" "total_len K = ?len"
      using emit [OF de [OF _ h], of 0 env out] by auto
    obtain V where V: "emit_zero_fill_segments env (sb ! 0 * pbsz) (?d 1 h) ?len pbsz bounds (out @ K) = Inr ((out @ K) @ V)"
      "fills ?Z {?d 1 h..<?d 1 h + ?len} V" "total_len V = ?len"
      using emit [OF de [OF _ h], of 1 env "out @ K"] by auto
    have "?f h out = Inr (out @ (K @ V))"
      using dk [of 0 h] dk [of 1 h] h K(1) V(1) by (simp add: Let_def)
    then show ?thesis
      using fills_append [OF K(2) V(2)] K(3) V(3) by (intro exI [of _ "K @ V"]) (simp add: total_len_append)
  qed
  have "fill_last_hybrid_flashinfer_HND_block env (2 * H * hsz) (2 * (G * H) * hsz) pbsz dbsz n sb db t off (int H)
      bounds out = rfold ?f [0..<H] out"
  proof -
    have half: "2 * H * hsz div 2 div H = hsz" "2 * H * hsz mod (2 * H) = 0" "n * (2 * (G * H) * hsz) div 2 = G * H * (n * hsz)"
      using pos by (simp_all add: ac_simps)
    show ?thesis
      unfolding fill_last_hybrid_flashinfer_HND_block_def to_size_of_nat [OF lt'(1)] u64_id [OF nl] u64_id [OF lt(1)] half
      using half n t pos sb(1) db(1) lt lt' by (simp add: u64_id Let_def)
  qed
  then show ?thesis
    using rfold_fills [of "[0..<H]" ?f ?Z "\<lambda>h. {?d 0 h..<?d 0 h + ?len} \<union> {?d 1 h..<?d 1 h + ?len}" "2 * ?len" out, OF step]
    unfolding hnd_tail_segments [OF n] by simp
qed
section \<open>Whatever the HND parsers emit is in bounds\<close>

lemma emits_hnd_head:
  "src_capacity bounds < 2 ^ 64 \<Longrightarrow> emits (in_bounds bounds) out (hnd_head L pb db pt dt len bounds h out)"
  unfolding hnd_head_def by (intro emits_intros)

lemma emits_hnd_loop:
  assumes "src_capacity bounds < 2 ^ 64"
  shows "emits (in_bounds bounds) out (hnd_loop L sb db bounds w l out)"
  using assms
proof (induction L sb db bounds w l out rule: hnd_loop.induct)
  case (1 L sb db bounds w l out)
  then show ?case
    by (subst hnd_loop.simps) (intro emits_intros emits_hnd_head; simp)
qed

lemma emits_hybrid_hnd_loop:
  assumes "src_capacity bounds < 2 ^ 64"
  shows "emits (in_bounds bounds) out (hybrid_hnd_loop nd L sb db bounds w l out)"
proof (induction l arbitrary: w out rule: less_induct)
  case (less l)
  show ?case
    by (subst hybrid_hnd_loop.simps) (intro emits_intros emits_hnd_head assms less.IH min_chunk2_less; (assumption | simp))
qed

lemma emits_parse_flashinfer_HND_block:
  "src_capacity bounds < 2 ^ 64 \<Longrightarrow>
   emits (in_bounds bounds) out (parse_flashinfer_HND_block env pt dt pb db n sbl dbl w l g off h bounds swap out)"
  unfolding parse_flashinfer_HND_block_def by (intro emits_intros emits_hnd_loop)

lemma emits_parse_hybrid_flashinfer_HND_block:
  "src_capacity bounds < 2 ^ 64 \<Longrightarrow>
   emits (in_bounds bounds) out
     (parse_hybrid_flashinfer_HND_block env pt dt pb db pn dn sbl dbl w l g off sk dk h bounds swap out)"
  unfolding parse_hybrid_flashinfer_HND_block_def by (intro emits_intros emits_hybrid_hnd_loop)

lemma emits_fill_last_hybrid_flashinfer_HND_block:
  "src_capacity bounds < 2 ^ 64 \<Longrightarrow>
   emits (in_bounds bounds) out (fill_last_hybrid_flashinfer_HND_block env pt dt pb db dn sbl dbl t off h bounds out)"
  unfolding fill_last_hybrid_flashinfer_HND_block_def by (intro emits_intros emits_emit_zero_fill)
section \<open>The FlashInfer parsers\<close>

text \<open>
  A prefill worker holds \<open>H\<close> of the model's heads, of \<open>hsz\<close> bytes per token, a decode worker \<open>G\<close> times
  as many, both in blocks of \<open>n\<close> tokens. \<open>num_kv_heads\<close> counts the heads of the model.
\<close>

definition flashinfer_pair_ok :: "worker_info \<Rightarrow> worker_info \<Rightarrow> nat \<Rightarrow> nat \<Rightarrow> nat \<Rightarrow> nat \<Rightarrow> bool" where
  "flashinfer_pair_ok p d hsz H G n \<longleftrightarrow>
     token_sizes p = [2 * H * hsz] \<and> block_sizes p = [n * (2 * H * hsz)] \<and>
     token_sizes d = [2 * (G * H) * hsz] \<and> block_sizes d = [n * (2 * (G * H) * hsz)] \<and>
     0 < hsz \<and> 0 < H \<and> 0 < G \<and> 0 < n \<and> n < 2 ^ 32 \<and> 0 < layer_num_blocks p \<and> 0 < layer_num_blocks d \<and>
     n * (2 * H * hsz) * layer_num_blocks p < 2 ^ 64 \<and> n * (2 * (G * H) * hsz) * layer_num_blocks d < 2 ^ 64 \<and>
     0 < engine_tp_size p \<and> num_kv_heads p = int (H * engine_tp_size p)"

lemma flashinfer_per_tp:
  assumes "flashinfer_pair_ok p d hsz H G n"
  shows "flashinfer_per_tp_kv_heads p k = k (int H)"
proof -
  have "0 < H" "0 < engine_tp_size p" and n: "num_kv_heads p = int (H * engine_tp_size p)"
    using assms by (auto simp: flashinfer_pair_ok_def)
  then show ?thesis
    unfolding flashinfer_per_tp_kv_heads_def n nat_int by simp
qed

text \<open>The address of a head in a cache of \<open>H\<close> heads whose blocks are their only kernel block.\<close>

abbreviation head_addr :: "nat \<Rightarrow> nat \<Rightarrow> nat \<Rightarrow> nat list \<Rightarrow> nat \<Rightarrow> nat \<Rightarrow> nat \<Rightarrow> nat" where
  "head_addr n H hsz blocks v h i \<equiv> hnd_addr n (n * (2 * H * hsz)) n H hsz blocks v h i"

lemma flashinfer_HND_pair_copies:
  assumes ok: "flashinfer_pair_ok p d hsz H G n" and off: "off < G" and conv: "\<not> env_bf162fp8_conversion env"
    and tk: "task_ok n (layer_num_blocks p) n (layer_num_blocks d) task"
  defines "bounds \<equiv> \<lparr> src_capacity = n * (2 * H * hsz) * layer_num_blocks p,
      dst_capacity = n * (2 * (G * H) * hsz) * layer_num_blocks d, src_length_scale = 1, bounds_cache_idx = 0 \<rparr>"
  shows "make_ipc_block_bounds env p d 0 = Inr bounds"
    and "\<exists>out. parse_flashinfer_HND_block env (2 * H * hsz) (2 * (G * H) * hsz) (n * (2 * H * hsz)) (n * (2 * (G * H) * hsz)) n
        (src_blocks task ! 0) (dst_blocks task ! 0) (seen_tokens task) (new_tokens task) G off (int H) bounds False bs =
      Inr (bs @ out) \<and>
    copied out = (\<Union>(v, h, i)\<in>{..<2} \<times> {..<H} \<times> task_tokens task.
      run (head_addr n H hsz (src_blocks task ! 0) v h i)
        (head_addr n (G * H) hsz (dst_blocks task ! 0) v (off * H + h) i) hsz) \<and>
    total_len out = new_tokens task * (2 * H * hsz)"
proof -
  note df = ok [unfolded flashinfer_pair_ok_def]
  have cap: "n * (2 * H * hsz) * layer_num_blocks p < 2 ^ 64" "n * (2 * (G * H) * hsz) * layer_num_blocks d < 2 ^ 64"
    and pos: "0 < layer_num_blocks p" "0 < layer_num_blocks d"
    using df by blast+
  note sz = factor_less [OF cap(1) pos(1)] factor_less [OF cap(2) pos(2)]
  show "make_ipc_block_bounds env p d 0 = Inr bounds"
    using make_ipc_block_bounds_ok [of p 0 d env] df conv by (simp add: cache_ok_def bounds_def)
  have wf: "hnd_wf (n * (2 * H * hsz)) (n * (2 * (G * H) * hsz)) n n n n hsz H G off False bounds (src_blocks task ! 0)
      (dst_blocks task ! 0) (layer_num_blocks p) (layer_num_blocks d) (seen_tokens task) (new_tokens task)"
    using df tk off cap by (simp add: hnd_wf_def bounds_def task_ok_def)
  show "\<exists>out. parse_flashinfer_HND_block env (2 * H * hsz) (2 * (G * H) * hsz) (n * (2 * H * hsz)) (n * (2 * (G * H) * hsz)) n
        (src_blocks task ! 0) (dst_blocks task ! 0) (seen_tokens task) (new_tokens task) G off (int H) bounds False bs =
      Inr (bs @ out) \<and>
    copied out = (\<Union>(v, h, i)\<in>{..<2} \<times> {..<H} \<times> task_tokens task.
      run (head_addr n H hsz (src_blocks task ! 0) v h i)
        (head_addr n (G * H) hsz (dst_blocks task ! 0) v (off * H + h) i) hsz) \<and>
    total_len out = new_tokens task * (2 * H * hsz)"
    using parse_flashinfer_HND_copies [OF wf refl refl sz] unfolding hnd_rows_triple .
qed

lemma flashinfer_gt_copies:
  assumes ok: "flashinfer_pair_ok p d hsz H G n" and vr: "worker_tp_rank p < length vr" "vr ! worker_tp_rank p"
      "valid_count vr = G * engine_tp_size d" "0 < engine_tp_size d" "kvt_tp_size > engine_tp_size d"
    and rank: "kvt_tp_rank = worker_tp_rank d * G + off" "off < G"
    and conv: "\<not> env_bf162fp8_conversion env"
    and tk: "task_ok n (layer_num_blocks p) n (layer_num_blocks d) task" and sbs: "length sbs \<le> 1"
  shows "\<exists>out. vllm_parse_flashinfer_block_send_p_gt_d env p d vr kvt_tp_size kvt_tp_rank task sbs =
      Inr [concat sbs @ out] \<and>
    copied out = (\<Union>(v, h, i)\<in>{..<2} \<times> {..<H} \<times> task_tokens task.
      run (head_addr n H hsz (src_blocks task ! 0) v h i)
        (head_addr n (G * H) hsz (dst_blocks task ! 0) v (off * H + h) i) hsz) \<and>
    total_len out = new_tokens task * (2 * H * hsz)"
proof -
  note df = ok [unfolded flashinfer_pair_ok_def]
  note hnd = flashinfer_HND_pair_copies [OF ok rank(2) conv tk]
  obtain out where out: "parse_flashinfer_HND_block env (2 * H * hsz) (2 * (G * H) * hsz) (n * (2 * H * hsz)) (n * (2 * (G * H) * hsz)) n
        (src_blocks task ! 0) (dst_blocks task ! 0) (seen_tokens task) (new_tokens task) G off (int H)
        \<lparr> src_capacity = n * (2 * H * hsz) * layer_num_blocks p,
          dst_capacity = n * (2 * (G * H) * hsz) * layer_num_blocks d, src_length_scale = 1, bounds_cache_idx = 0 \<rparr>
        False (concat sbs) = Inr (concat sbs @ out)"
    and c: "copied out = (\<Union>(v, h, i)\<in>{..<2} \<times> {..<H} \<times> task_tokens task.
      run (head_addr n H hsz (src_blocks task ! 0) v h i)
        (head_addr n (G * H) hsz (dst_blocks task ! 0) v (off * H + h) i) hsz)"
      "total_len out = new_tokens task * (2 * H * hsz)"
    using hnd(2) [of "concat sbs"] by (elim exE conjE) (rule that)
  have arith: "kvt_tp_rank div G = worker_tp_rank d" "kvt_tp_rank mod G = off"
    "valid_count vr div engine_tp_size d = G" "n * (2 * H * hsz) div (2 * H * hsz) = n"
    "n * (2 * (G * H) * hsz) div (2 * (G * H) * hsz) = n" "u32 n = n" "0 < 2 * H * hsz" "0 < 2 * (G * H) * hsz"
    using rank vr(3,4) df by (auto simp: u32_id)
  have lst: "token_sizes p = [2 * H * hsz]" "block_sizes p = [n * (2 * H * hsz)]"
    "token_sizes d = [2 * (G * H) * hsz]" "block_sizes d = [n * (2 * (G * H) * hsz)]" "0 < G"
    "src_blocks task \<noteq> []" "dst_blocks task \<noteq> []"
    using df tk by (auto simp: task_ok_def)
  have "vllm_parse_flashinfer_block_send_p_gt_d env p d vr kvt_tp_size kvt_tp_rank task sbs = Inr [concat sbs @ out]"
    unfolding vllm_parse_flashinfer_block_send_p_gt_d_def flashinfer_per_tp [OF ok]
    using vr lst arith out hnd(1) concat_resize1 [OF sbs] by (simp add: Let_def)
  then show ?thesis
    using c by blast
qed

lemma flashinfer_eq_copies:
  assumes ok: "flashinfer_pair_ok p d hsz H 1 n" and tp: "kvt_tp_size = engine_tp_size d"
    and conv: "\<not> env_bf162fp8_conversion env"
    and tk: "task_ok n (layer_num_blocks p) n (layer_num_blocks d) task" and sbs: "length sbs \<le> 1"
  shows "\<exists>out. vllm_parse_flashinfer_block_send_p_eq_d env p d vr kvt_tp_size kvt_tp_rank task sbs =
      Inr [concat sbs @ out] \<and>
    copied out = (\<Union>(v, h, i)\<in>{..<2} \<times> {..<H} \<times> task_tokens task.
      run (head_addr n H hsz (src_blocks task ! 0) v h i) (head_addr n H hsz (dst_blocks task ! 0) v h i) hsz) \<and>
    total_len out = new_tokens task * (2 * H * hsz)"
proof -
  note df = ok [unfolded flashinfer_pair_ok_def]
  note hnd = flashinfer_HND_pair_copies [OF ok zero_less_one conv tk, simplified mult_1 mult_0 add_0]
  obtain out where out: "parse_flashinfer_HND_block env (2 * H * hsz) (2 * H * hsz) (n * (2 * H * hsz)) (n * (2 * H * hsz)) n
        (src_blocks task ! 0) (dst_blocks task ! 0) (seen_tokens task) (new_tokens task) 1 0 (int H)
        \<lparr> src_capacity = n * (2 * H * hsz) * layer_num_blocks p,
          dst_capacity = n * (2 * H * hsz) * layer_num_blocks d, src_length_scale = 1, bounds_cache_idx = 0 \<rparr>
        False (concat sbs) = Inr (concat sbs @ out)"
    and c: "copied out = (\<Union>(v, h, i)\<in>{..<2} \<times> {..<H} \<times> task_tokens task.
      run (head_addr n H hsz (src_blocks task ! 0) v h i) (head_addr n H hsz (dst_blocks task ! 0) v h i) hsz)"
      "total_len out = new_tokens task * (2 * H * hsz)"
    using hnd(2) [of "concat sbs"] by (elim exE conjE) (rule that)
  have arith: "n * (2 * H * hsz) div (2 * H * hsz) = n" "u32 n = n" "0 < 2 * H * hsz"
    using df by (auto simp: u32_id)
  have lst: "token_sizes p = [2 * H * hsz]" "block_sizes p = [n * (2 * H * hsz)]"
    "token_sizes d = [2 * H * hsz]" "block_sizes d = [n * (2 * H * hsz)]"
    "src_blocks task \<noteq> []" "dst_blocks task \<noteq> []"
    using df tk by (auto simp: task_ok_def)
  have "vllm_parse_flashinfer_block_send_p_eq_d env p d vr kvt_tp_size kvt_tp_rank task sbs = Inr [concat sbs @ out]"
    unfolding vllm_parse_flashinfer_block_send_p_eq_d_def flashinfer_per_tp [OF ok]
    using tp lst arith out hnd(1) concat_resize1 [OF sbs] by (simp add: Let_def)
  then show ?thesis
    using c by blast
qed

text \<open>Different heads of different tokens have different bytes; the heads of the senders are disjoint.\<close>

lemma head_addr_inj:
  assumes "distinct bl" and "0 < n" and "i div n < length bl" and "j div n < length bl"
    and "v < 2" and "v' < 2" and "h < H" and "h' < H" and "k < hsz" and "k' < hsz"
    and "head_addr n H hsz bl v h i + k = head_addr n H hsz bl v' h' j + k'"
  shows "v = v' \<and> h = h' \<and> i = j \<and> k = k'"
  using hnd_addr_inj [OF dvd_refl assms(2,1,3-10) le_refl assms(11)] .

lemma task_ok_table:
  assumes "task_ok n np n' nd task" and "i \<in> task_tokens task"
  shows "i div n < length (src_blocks task ! 0)" "i div n' < length (dst_blocks task ! 0)"
  using assms by (auto simp: task_ok_def table_ok_def)

section \<open>Properties\<close>

text \<open>
  With equal TP sizes the FlashInfer parser returns descriptors for the new tokens whose
  execution leaves, for every head of the worker and in both the K and the V section, the bytes of
  the source token in the destination's slot of that head, and changes no other byte.
\<close>

theorem flashinfer_p_eq_d_memory:
  assumes "flashinfer_pair_ok p d hsz H 1 n" and "kvt_tp_size = engine_tp_size d"
    and "\<not> env_bf162fp8_conversion env" and "task_ok n (layer_num_blocks p) n (layer_num_blocks d) task"
    and "distinct (dst_blocks task ! 0)"
  shows "\<exists>out. vllm_parse_flashinfer_block_send_p_eq_d env p d vr kvt_tp_size kvt_tp_rank task [] = Inr [out] \<and>
    total_len out = new_tokens task * (2 * H * hsz) \<and>
    (\<forall>mem dmem.
      (\<forall>v<2. \<forall>h<H. \<forall>i\<in>task_tokens task. \<forall>k<hsz.
        transfer mem out dmem (head_addr n H hsz (dst_blocks task ! 0) v h i + k) =
        mem (head_addr n H hsz (src_blocks task ! 0) v h i + k)) \<and>
      (\<forall>a. (\<forall>v<2. \<forall>h<H. \<forall>i\<in>task_tokens task.
          a \<notin> {head_addr n H hsz (dst_blocks task ! 0) v h i..<head_addr n H hsz (dst_blocks task ! 0) v h i + hsz}) \<longrightarrow>
        transfer mem out dmem a = dmem a))"
proof -
  let ?sb = "src_blocks task ! 0" and ?db = "dst_blocks task ! 0" and ?X = "{..<2::nat} \<times> {..<H} \<times> task_tokens task"
  let ?f = "\<lambda>(v, h, i). head_addr n H hsz ?sb v h i" and ?h = "\<lambda>(v, h, i). head_addr n H hsz ?db v h i"
  obtain out where out: "vllm_parse_flashinfer_block_send_p_eq_d env p d vr kvt_tp_size kvt_tp_rank task [] = Inr [out]"
    "copied out = (\<Union>x\<in>?X. run (?f x) (?h x) hsz)" "total_len out = new_tokens task * (2 * H * hsz)"
    using flashinfer_eq_copies [OF assms(1-4), of "[]" vr kvt_tp_rank] by (auto simp: case_prod_beta)
  have "0 < n"
    using assms(1) by (simp add: flashinfer_pair_ok_def)
  note tab = task_ok_table(2) [OF assms(4)]
  have "(\<forall>x\<in>?X. \<forall>k<hsz. transfer mem out dmem (?h x + k) = mem (?f x + k)) \<and>
      (\<forall>a. (\<forall>x\<in>?X. a \<notin> {?h x..<?h x + hsz}) \<longrightarrow> transfer mem out dmem a = dmem a)" for mem dmem :: "nat \<Rightarrow> 'a"
  proof (rule layout_memory [OF out(2)])
    fix x x' k k'
    assume x: "x \<in> ?X" "x' \<in> ?X" "k < hsz" "k' < hsz" "?h x + k = ?h x' + k'"
    obtain v h i v' h' i' where xs: "x = (v, h, i)" "x' = (v', h', i')"
      by (cases x, cases x')
    show "x = x' \<and> k = k'"
      using head_addr_inj [OF assms(5) \<open>0 < n\<close> tab tab, of i i' v v' h H h' k hsz k'] x by (simp add: xs)
  qed
  then show ?thesis
    using out(1,3) by (intro exI [of _ out]) (simp add: Ball_def)
qed

text \<open>
  C29. With more prefill than decode ranks, the \<open>G\<close> selected prefill workers of a decode worker, running
  one after the other, leave head \<open>h\<close> of worker \<open>off\<close> as head \<open>off * H + h\<close> of the decode worker for every
  new token, in both the K and the V section, and change no other byte.
\<close>

theorem flashinfer_p_gt_d_memory:
  assumes "flashinfer_pair_ok p d hsz H G n" and "\<forall>off<G. r off < length vr \<and> vr ! r off"
    and "valid_count vr = G * engine_tp_size d" and "0 < engine_tp_size d" and "kvt_tp_size > engine_tp_size d"
    and "\<not> env_bf162fp8_conversion env" and "task_ok n (layer_num_blocks p) n (layer_num_blocks d) task"
    and "distinct (dst_blocks task ! 0)"
  shows "\<exists>outs. (\<forall>off<G. vllm_parse_flashinfer_block_send_p_gt_d env (p\<lparr>worker_tp_rank := r off\<rparr>) d vr kvt_tp_size
        (worker_tp_rank d * G + off) task [] = Inr [outs off]) \<and>
    (\<forall>mem dmem. \<forall>off<G. \<forall>v<2. \<forall>h<H. \<forall>i\<in>task_tokens task. \<forall>k<hsz.
      gather mem outs G dmem (head_addr n (G * H) hsz (dst_blocks task ! 0) v (off * H + h) i + k) =
      mem off (head_addr n H hsz (src_blocks task ! 0) v h i + k)) \<and>
    (\<forall>mem dmem a. (\<forall>off<G. \<forall>v<2. \<forall>h<H. \<forall>i\<in>task_tokens task.
          a \<notin> {head_addr n (G * H) hsz (dst_blocks task ! 0) v (off * H + h) i..<
               head_addr n (G * H) hsz (dst_blocks task ! 0) v (off * H + h) i + hsz}) \<longrightarrow>
      gather mem outs G dmem a = dmem a)"
proof -
  let ?sb = "src_blocks task ! 0" and ?db = "dst_blocks task ! 0" and ?X = "{..<2::nat} \<times> {..<H} \<times> task_tokens task"
  let ?p = "\<lambda>off. p\<lparr>worker_tp_rank := r off\<rparr>"
  let ?f = "\<lambda>off::nat. \<lambda>(v, h, i). head_addr n H hsz ?sb v h i"
  let ?h = "\<lambda>off. \<lambda>(v, h, i). head_addr n (G * H) hsz ?db v (off * H + h) i"
  let ?A = "\<lambda>off out. vllm_parse_flashinfer_block_send_p_gt_d env (?p off) d vr kvt_tp_size (worker_tp_rank d * G + off) task [] =
      Inr [out]"
    and ?B = "\<lambda>off out. copied out = (\<Union>x\<in>?X. run (?f off x) (?h off x) hsz)"
  have "\<forall>off<G. \<exists>out. ?A off out \<and> ?B off out"
  proof (intro allI impI)
    fix off
    assume off: "off < G"
    have "flashinfer_pair_ok (?p off) d hsz H G n"
      using assms(1) by (simp add: flashinfer_pair_ok_def)
    from flashinfer_gt_copies [OF this _ _ assms(3-5) refl off assms(6), of task "[]"]
    show "\<exists>out. ?A off out \<and> ?B off out"
      using assms(2,7) off by (auto simp: case_prod_beta)
  qed
  from choose_family [where A = ?A and B = ?B, OF this]
  obtain outs where outs: "\<forall>off<G. ?A off (outs off)" and copied: "\<forall>off<G. ?B off (outs off)"
    by (elim exE conjE)
  have "0 < n"
    using assms(1) by (simp add: flashinfer_pair_ok_def)
  note tab = task_ok_table(2) [OF assms(7)]
  have mem: "(\<forall>off<G. \<forall>x\<in>?X. \<forall>k<hsz. gather mem outs G dmem (?h off x + k) = mem off (?f off x + k)) \<and>
      (\<forall>a. (\<forall>off<G. \<forall>x\<in>?X. a \<notin> {?h off x..<?h off x + hsz}) \<longrightarrow> gather mem outs G dmem a = dmem a)"
    for mem :: "nat \<Rightarrow> nat \<Rightarrow> 'v" and dmem
  proof (rule layout_gather [OF copied [rule_format]])
    fix o1 o2 x x' k k'
    assume x: "o1 < G" "o2 < G" "x \<in> ?X" "x' \<in> ?X" "k < hsz" "k' < hsz" "?h o1 x + k = ?h o2 x' + k'"
    obtain v h i v' h' i' where xs: "x = (v, h, i)" "x' = (v', h', i')"
      by (cases x, cases x')
    have lt: "h < H" "h' < H" and hh: "o1 * H + h < G * H" "o2 * H + h' < G * H"
      using x radix_bound [OF x(1)] radix_bound [OF x(2)] by (auto simp: xs)
    have "v = v' \<and> o1 * H + h = o2 * H + h' \<and> i = i' \<and> k = k'"
      using head_addr_inj [OF assms(8) \<open>0 < n\<close> tab tab _ _ hh, of i i' v v' k hsz k'] x by (simp add: xs)
    then show "o1 = o2 \<and> x = x' \<and> k = k'"
      using radix_inj [OF _ lt, of o1 o2] by (simp add: xs)
  qed
  show ?thesis
  proof (intro exI [of _ outs] conjI allI ballI impI)
    fix mem :: "nat \<Rightarrow> nat \<Rightarrow> 'a" and dmem off v h i k
    assume "off < G" and "v < (2::nat)" and "h < H" and "i \<in> task_tokens task" and "k < hsz"
    then show "gather mem outs G dmem (head_addr n (G * H) hsz ?db v (off * H + h) i + k) =
        mem off (head_addr n H hsz ?sb v h i + k)"
      using mem [THEN conjunct1, rule_format, of off "(v, h, i)" k] by simp
  next
    fix mem :: "nat \<Rightarrow> nat \<Rightarrow> 'b" and dmem a
    assume "\<forall>off<G. \<forall>v<2. \<forall>h<H. \<forall>i\<in>task_tokens task.
      a \<notin> {head_addr n (G * H) hsz ?db v (off * H + h) i..<head_addr n (G * H) hsz ?db v (off * H + h) i + hsz}"
    then show "gather mem outs G dmem a = dmem a"
      using mem [THEN conjunct2, rule_format, of a] by auto
  qed (use outs in simp)
qed


section \<open>Concrete instances\<close>

theorem flashinfer_p_eq_d_memory_witness:
  "\<exists>out. vllm_parse_flashinfer_block_send_p_eq_d demo_env ((demo_worker [4] [8] 5 1 0)\<lparr>num_kv_heads := 2\<rparr>)
      (demo_worker [4] [8] 6 1 0) [True] 1 0 (demo_task [[4, 0]] [[1, 3]] 1 2 True) [] = Inr [out] \<and>
    (\<forall>mem dmem :: nat \<Rightarrow> nat. transfer mem out dmem 15 = mem 39)"
proof -
  let ?src = "(demo_worker [4] [8] 5 1 0)\<lparr>num_kv_heads := 2\<rparr>" and ?dst = "demo_worker [4] [8] 6 1 0"
    and ?task = "demo_task [[4, 0]] [[1, 3]] 1 2 True"
  have "flashinfer_pair_ok ?src ?dst 1 2 1 2" "1 = engine_tp_size ?dst" "\<not> env_bf162fp8_conversion demo_env"
    "task_ok 2 (layer_num_blocks ?src) 2 (layer_num_blocks ?dst) ?task" "distinct (dst_blocks ?task ! 0)"
    by (simp_all add: flashinfer_pair_ok_def task_ok_def table_ok_code)
  from flashinfer_p_eq_d_memory [OF this, where vr = "[True]" and kvt_tp_rank = 0]
  obtain out where out: "vllm_parse_flashinfer_block_send_p_eq_d demo_env ?src ?dst [True] 1 0 ?task [] = Inr [out]"
    and mem: "\<forall>mem dmem :: nat \<Rightarrow> nat. (\<forall>v<2. \<forall>h<2. \<forall>i\<in>task_tokens ?task. \<forall>k<1.
        transfer mem out dmem (head_addr 2 2 1 (dst_blocks ?task ! 0) v h i + k) =
        mem (head_addr 2 2 1 (src_blocks ?task ! 0) v h i + k)) \<and>
      (\<forall>a. (\<forall>v<2. \<forall>h<2. \<forall>i\<in>task_tokens ?task.
          a \<notin> {head_addr 2 2 1 (dst_blocks ?task ! 0) v h i..<head_addr 2 2 1 (dst_blocks ?task ! 0) v h i + 1}) \<longrightarrow>
        transfer mem out dmem a = dmem a)"
    by (elim exE conjE) (rule that)
  have "transfer mem out dmem 15 = mem 39" for mem dmem :: "nat \<Rightarrow> nat"
    using mem [rule_format, THEN conjunct1, rule_format, of 1 1 1 0 mem dmem] by (simp add: hnd_addr_def)
  with out show ?thesis
    by (intro exI [of _ out] conjI) simp_all
qed

theorem flashinfer_p_gt_d_memory_witness:
  "\<exists>outs. (\<forall>off<2. vllm_parse_flashinfer_block_send_p_gt_d demo_env
        (((demo_worker [4] [8] 5 2 0)\<lparr>num_kv_heads := 2\<rparr>)\<lparr>worker_tp_rank := off\<rparr>)
        (demo_worker [8] [16] 6 1 0) [True, True] 2 (worker_tp_rank (demo_worker [8] [16] 6 1 0) * 2 + off)
        (demo_task [[4, 0]] [[1, 3]] 1 2 True) [] = Inr [outs off]) \<and>
    (\<forall>mem :: nat \<Rightarrow> nat \<Rightarrow> nat. \<forall>dmem. gather mem outs 2 dmem 30 = mem 1 38)"
proof -
  let ?p = "(demo_worker [4] [8] 5 2 0)\<lparr>num_kv_heads := 2\<rparr>" and ?d = "demo_worker [8] [16] 6 1 0"
    and ?task = "demo_task [[4, 0]] [[1, 3]] 1 2 True"
  have "flashinfer_pair_ok ?p ?d 2 1 2 2" "\<forall>off<2. off < length [True, True] \<and> [True, True] ! off"
    "valid_count [True, True] = 2 * engine_tp_size ?d" "0 < engine_tp_size ?d" "2 > engine_tp_size ?d"
    "\<not> env_bf162fp8_conversion demo_env" "task_ok 2 (layer_num_blocks ?p) 2 (layer_num_blocks ?d) ?task"
    "distinct (dst_blocks ?task ! 0)"
    by (simp_all add: flashinfer_pair_ok_def task_ok_def table_ok_code valid_count_def less_2_cases_iff all_conj_distrib)
  from flashinfer_p_gt_d_memory [where r = "\<lambda>off. off", OF this]
  obtain outs where outs: "\<forall>off<2. vllm_parse_flashinfer_block_send_p_gt_d demo_env (?p\<lparr>worker_tp_rank := off\<rparr>) ?d
      [True, True] 2 (worker_tp_rank ?d * 2 + off) ?task [] = Inr [outs off]"
    and mem: "\<forall>(mem :: nat \<Rightarrow> nat \<Rightarrow> nat) dmem. \<forall>off<2. \<forall>v<2. \<forall>h<1. \<forall>i\<in>task_tokens ?task. \<forall>k<2.
        gather mem outs 2 dmem (head_addr 2 (2 * 1) 2 (dst_blocks ?task ! 0) v (off * 1 + h) i + k) =
        mem off (head_addr 2 1 2 (src_blocks ?task ! 0) v h i + k)"
    by (elim exE conjE) (rule that)
  have "gather mem outs 2 dmem 30 = mem 1 38" for mem :: "nat \<Rightarrow> nat \<Rightarrow> nat" and dmem
    using mem [rule_format, of 1 1 0 1 0 mem dmem] by (simp add: hnd_addr_def)
  with outs show ?thesis
    by (intro exI [of _ outs] conjI) simp_all
qed

end
