(* ===== verification/ParseHybrid.thy ===== *)
theory ParseHybrid
  imports ParseFlashInfer
begin

text \<open>
  The helper functions of \<open>src/parse_block_qwen3_next.cpp\<close> for hybrid models, whose layers share one
  pool of equally sized pages: block-aligned sending, the FlashAttention blocks of packed layers, the
  indexer cache, and the recurrent state (GDN and short convolution) of the linear attention layers.
\<close>

section \<open>Block-aligned sending\<close>

text \<open>The bytes to send for \<open>tokens\<close> tokens from \<open>token_idx\<close> of a block: the whole block or nothing.\<close>

definition aligned_length :: "bool \<Rightarrow> bool \<Rightarrow> nat \<Rightarrow> nat \<Rightarrow> nat \<Rightarrow> nat \<Rightarrow> (nat \<Rightarrow> 'a result) \<Rightarrow> 'a result" where
  "aligned_length nd reach_last block_size ntpb token_idx tokens k =
     (if tokens \<noteq> ntpb then
        if reach_last then k block_size
        else if token_idx = 0 then k 0
        else if token_idx + tokens = ntpb then k block_size
        else c_assert nd (token_idx + tokens < ntpb) (k 0)
      else k block_size)"

lemma aligned_length_cong [fundef_cong]:
  "nd = nd' \<Longrightarrow> r = r' \<Longrightarrow> b = b' \<Longrightarrow> n = n' \<Longrightarrow> i = i' \<Longrightarrow> t = t' \<Longrightarrow> (\<And>len. k len = k' len) \<Longrightarrow>
   aligned_length nd r b n i t k = aligned_length nd' r' b' n' i' t' k'"
  by (simp add: aligned_length_def)

text \<open>The loop over the tokens; \<open>k\<close> is what follows it, which reads \<open>wrote_tokens\<close>.\<close>

function aligned_loop ::
  "bool \<Rightarrow> bool \<Rightarrow> nat \<Rightarrow> nat \<Rightarrow> nat list \<Rightarrow> nat list \<Rightarrow> ipc_block_bounds \<Rightarrow>
   (nat \<Rightarrow> ipc_block list \<Rightarrow> ipc_block list result) \<Rightarrow> nat \<Rightarrow> nat \<Rightarrow> ipc_block list \<Rightarrow> ipc_block list result" where
  "aligned_loop nd reach_last block_size ntpb sblocks dblocks bounds k wrote left out =
     (if left > 0 then
        ck_div wrote ntpb (\<lambda>blk_idx.
        ck_mod wrote ntpb (\<lambda>token_idx.
        c_assert nd (blk_idx < length sblocks \<and> blk_idx < length dblocks) (
        vec_at sblocks blk_idx (\<lambda>p_blk.
        vec_at dblocks blk_idx (\<lambda>d_blk.
        let p_blk_off = u64 (p_blk * block_size);
            d_blk_off = u64 (d_blk * block_size);
            tokens = min (ntpb - token_idx) left in
        rbind (aligned_length nd reach_last block_size ntpb token_idx tokens (\<lambda>len.
                 if len > 0 then append_ipc_block_checked out bounds p_blk_off d_blk_off len else Inr out)) (\<lambda>out'.
        aligned_loop nd reach_last block_size ntpb sblocks dblocks bounds k
          (u32 (wrote + tokens)) (left - tokens) out'))))))
      else k wrote out)"
  by pat_completeness auto
termination
  by (relation "measure (\<lambda>(_, _, _, _, _, _, _, _, _, left, _). left)") auto

declare aligned_loop.simps [simp del]

definition aligned_trailing ::
  "bool \<Rightarrow> bool \<Rightarrow> nat \<Rightarrow> nat \<Rightarrow> nat list \<Rightarrow> nat list \<Rightarrow> ipc_block_bounds \<Rightarrow> nat \<Rightarrow> ipc_block list \<Rightarrow> ipc_block list result" where
  "aligned_trailing nd reach_last block_size ntpb sblocks dblocks bounds wrote out =
     (if reach_last then
        ck_div (u32 (wrote + ntpb - 1)) ntpb (\<lambda>next_blk.
        c_assert nd (length sblocks = length dblocks) (
        rfold (\<lambda>i out.
          vec_at sblocks i (\<lambda>p_blk.
          vec_at dblocks i (\<lambda>d_blk.
          append_ipc_block_checked out bounds (u64 (p_blk * block_size)) (u64 (d_blk * block_size)) block_size)))
          [next_blk..<length sblocks] out))
      else Inr out)"

definition do_parse_block_aligned_send ::
  "kvt_env \<Rightarrow> nat \<Rightarrow> req_send_task \<Rightarrow> nat list \<Rightarrow> nat list \<Rightarrow> nat \<Rightarrow> ipc_block_bounds \<Rightarrow> ipc_block list \<Rightarrow>
   ipc_block list result" where
  "do_parse_block_aligned_send env block_size task sblocks dblocks ntpb bounds out =
     aligned_loop (ndebug env) (reach_last_token task) block_size ntpb sblocks dblocks bounds
       (aligned_trailing (ndebug env) (reach_last_token task) block_size ntpb sblocks dblocks bounds)
       (seen_tokens task) (new_tokens task) out"

section \<open>Attention blocks of packed layers\<close>

text \<open>
  The scalar arguments of \<open>parse_hybrid_attn_block\<close> and \<open>fill_last_hybrid_attn_block\<close>. A page holds
  \<open>attn_pack_size\<close> layers, whose kernel blocks are interleaved.
\<close>

record hybrid_attn =
  ha_src_ntpb :: nat
  ha_dst_ntpb :: nat
  ha_p_token_size :: nat
  ha_d_token_size :: nat
  ha_p_block_size :: nat
  ha_d_block_size :: nat
  ha_group_off :: nat
  ha_src_kbn :: nat
  ha_dst_kbn :: nat
  ha_pack_size :: nat

definition ha_pack :: "hybrid_attn \<Rightarrow> nat" where
  "ha_pack A = (if ha_pack_size A = 0 then 1 else ha_pack_size A)"

definition ha_p_kblk :: "hybrid_attn \<Rightarrow> nat" where
  "ha_p_kblk A = u64 (ha_src_kbn A * ha_p_token_size A)"

definition ha_d_kblk :: "hybrid_attn \<Rightarrow> nat" where
  "ha_d_kblk A = u64 (ha_dst_kbn A * ha_d_token_size A)"

text \<open>The local variables of one round of the loop over the tokens.\<close>

record attn_pos =
  ap_p_blk_idx :: nat
  ap_d_blk_idx :: nat
  ap_p_token_idx :: nat
  ap_d_token_idx :: nat
  ap_p_off_base :: nat
  ap_d_off_base :: nat
  ap_sub_blocks :: nat

definition hybrid_attn_pos :: "bool \<Rightarrow> hybrid_attn \<Rightarrow> nat \<Rightarrow> attn_pos result" where
  "hybrid_attn_pos nd A wrote =
     (if ha_pack A = 1 then
        ck_div wrote (ha_src_ntpb A) (\<lambda>p_blk_idx.
        ck_div (wrote - p_blk_idx * ha_src_ntpb A) (ha_src_kbn A) (\<lambda>p_kernel_blk_idx.
        ck_mod wrote (ha_src_kbn A) (\<lambda>p_token_idx.
        ck_div wrote (ha_dst_ntpb A) (\<lambda>d_blk_idx.
        ck_div (wrote - d_blk_idx * ha_dst_ntpb A) (ha_dst_kbn A) (\<lambda>d_kernel_blk_idx.
        ck_mod wrote (ha_dst_kbn A) (\<lambda>d_token_idx.
        Inr \<lparr> ap_p_blk_idx = p_blk_idx, ap_d_blk_idx = d_blk_idx, ap_p_token_idx = p_token_idx,
              ap_d_token_idx = d_token_idx, ap_p_off_base = u64 (p_kernel_blk_idx * ha_p_kblk A),
              ap_d_off_base = u64 (d_kernel_blk_idx * ha_d_kblk A), ap_sub_blocks = 1 \<rparr>))))))
      else
        let src_per = ha_src_ntpb A div ha_pack A; dst_per = ha_dst_ntpb A div ha_pack A in
        c_assert nd (u32 (src_per * ha_pack A) = ha_src_ntpb A) (
        c_assert nd (u32 (dst_per * ha_pack A) = ha_dst_ntpb A) (
        c_assert_mod0 nd src_per (ha_src_kbn A) (
        c_assert_mod0 nd dst_per (ha_dst_kbn A) (
        ck_div wrote src_per (\<lambda>p_blk_idx.
        ck_div wrote dst_per (\<lambda>d_blk_idx.
        ck_mod wrote src_per (\<lambda>p_in_blk.
        ck_div p_in_blk (ha_src_kbn A) (\<lambda>p_kernel_in_vllm.
        ck_mod wrote dst_per (\<lambda>d_in_blk.
        ck_div d_in_blk (ha_dst_kbn A) (\<lambda>d_kernel_in_vllm.
        ck_mod wrote (ha_src_kbn A) (\<lambda>p_token_idx.
        ck_mod wrote (ha_dst_kbn A) (\<lambda>d_token_idx.
        Inr \<lparr> ap_p_blk_idx = p_blk_idx, ap_d_blk_idx = d_blk_idx, ap_p_token_idx = p_token_idx,
              ap_d_token_idx = d_token_idx,
              ap_p_off_base = u64 (u32 (p_kernel_in_vllm * ha_pack A) * ha_p_kblk A),
              ap_d_off_base = u64 (u32 (d_kernel_in_vllm * ha_pack A) * ha_d_kblk A),
              ap_sub_blocks = ha_pack A \<rparr>)))))))))))))"

lemma hybrid_attn_pos_tokens:
  "hybrid_attn_pos nd A w = Inr pos \<Longrightarrow>
   0 < ha_src_kbn A \<and> 0 < ha_dst_kbn A \<and> ap_p_token_idx pos = w mod ha_src_kbn A \<and> ap_d_token_idx pos = w mod ha_dst_kbn A"
  by (auto simp: hybrid_attn_pos_def kvt_ctrl Let_def split: if_splits)

text \<open>The K and V descriptor of one token of one sub-block.\<close>

definition hybrid_attn_token ::
  "hybrid_attn \<Rightarrow> attn_pos \<Rightarrow> nat \<Rightarrow> nat \<Rightarrow> ipc_block_bounds \<Rightarrow> bool \<Rightarrow> nat \<Rightarrow> ipc_block list \<Rightarrow> ipc_block list result" where
  "hybrid_attn_token A pos p_kernel_blk_off d_kernel_blk_off bounds swap idx out =
     (let p_step = ha_p_token_size A div 2; d_step = ha_d_token_size A div 2;
          p_token_idx = u32 (ap_p_token_idx pos + idx);
          d_token_idx = u32 (ap_d_token_idx pos + idx);
          pk = u64 (p_kernel_blk_off + p_token_idx * p_step);
          pv = u64 (pk + ha_p_kblk A div 2);
          d_token_off = u64 (d_kernel_blk_off + d_token_idx * d_step);
          dk = u64 (d_token_off + ha_group_off A * p_step);
          dv = u64 (dk + ha_d_kblk A div 2)
      in rbind (append_ipc_block_checked out bounds (if swap then dk else pk) (if swap then pk else dk) p_step) (\<lambda>out'.
         append_ipc_block_checked out' bounds (if swap then dv else pv) (if swap then pv else dv) p_step))"

function hybrid_attn_loop ::
  "bool \<Rightarrow> hybrid_attn \<Rightarrow> nat list \<Rightarrow> nat list \<Rightarrow> ipc_block_bounds \<Rightarrow> bool \<Rightarrow> nat \<Rightarrow> nat \<Rightarrow> ipc_block list \<Rightarrow>
   ipc_block list result" where
  "hybrid_attn_loop nd A sblocks dblocks bounds swap wrote left out =
     (if left > 0 then
        rbind (hybrid_attn_pos nd A wrote) (\<lambda>pos.
        let tokens = min (min (ha_src_kbn A - ap_p_token_idx pos) (ha_dst_kbn A - ap_d_token_idx pos)) left in
        c_assert nd (ap_p_blk_idx pos < length sblocks \<and> ap_d_blk_idx pos < length dblocks) (
        vec_at sblocks (ap_p_blk_idx pos) (\<lambda>p_blk.
        vec_at dblocks (ap_d_blk_idx pos) (\<lambda>d_blk.
        let p_blk_off = u64 (p_blk * ha_p_block_size A); d_blk_off = u64 (d_blk * ha_d_block_size A) in
        c_assert nd (ha_p_token_size A div 2 * 2 = ha_p_token_size A) (
        c_assert nd (ha_d_token_size A div 2 * 2 = ha_d_token_size A) (
        rbind (rfold (\<lambda>sub out.
                 let p_kernel_blk_off = u64 (p_blk_off + ap_p_off_base pos + sub * ha_p_kblk A);
                     d_kernel_blk_off = u64 (d_blk_off + ap_d_off_base pos + sub * ha_d_kblk A) in
                 rfold (hybrid_attn_token A pos p_kernel_blk_off d_kernel_blk_off bounds swap) [0..<tokens] out)
               [0..<ap_sub_blocks pos] out) (\<lambda>out'.
        hybrid_attn_loop nd A sblocks dblocks bounds swap (u32 (wrote + tokens)) (left - tokens) out')))))))
      else Inr out)"
  by pat_completeness auto
termination
proof (relation "measure (\<lambda>(_, _, _, _, _, _, _, left, _). left)", goal_cases)
  case (2 nd A sblocks dblocks bounds swap wrote left out pos)
  then show ?case
    by (auto dest!: hybrid_attn_pos_tokens intro!: min_chunk2_less simp only: in_measure case_prod_conv)
qed simp

declare hybrid_attn_loop.simps [simp del]

definition parse_hybrid_attn_block ::
  "kvt_env \<Rightarrow> hybrid_attn \<Rightarrow> nat list \<Rightarrow> nat list \<Rightarrow> nat \<Rightarrow> nat \<Rightarrow> ipc_block_bounds \<Rightarrow> bool \<Rightarrow> ipc_block list \<Rightarrow>
   ipc_block list result" where
  "parse_hybrid_attn_block env A sblocks dblocks attn_wrote_tokens attn_left_tokens bounds swap out =
     hybrid_attn_loop (ndebug env) A sblocks dblocks bounds swap attn_wrote_tokens attn_left_tokens out"

section \<open>Filling the tail of the last attention block\<close>

text \<open>The position in the destination of one round of \<open>fill_last_hybrid_attn_block\<close>, and the source indices it checks.\<close>

definition fill_attn_pos :: "hybrid_attn \<Rightarrow> nat \<Rightarrow> nat \<Rightarrow> nat \<Rightarrow> nat \<Rightarrow> attn_pos result" where
  "fill_attn_pos A src_per dst_per src_pos dst_pos =
     (if ha_pack A = 1 then
        ck_div src_pos (ha_src_ntpb A) (\<lambda>p_blk_idx.
        ck_mod src_pos (ha_src_kbn A) (\<lambda>p_token_idx.
        ck_div dst_pos (ha_dst_ntpb A) (\<lambda>d_blk_idx.
        ck_div (dst_pos - d_blk_idx * ha_dst_ntpb A) (ha_dst_kbn A) (\<lambda>d_kernel_blk_idx.
        ck_mod dst_pos (ha_dst_kbn A) (\<lambda>d_token_idx.
        Inr \<lparr> ap_p_blk_idx = p_blk_idx, ap_d_blk_idx = d_blk_idx, ap_p_token_idx = p_token_idx,
              ap_d_token_idx = d_token_idx, ap_p_off_base = 0,
              ap_d_off_base = u64 (d_kernel_blk_idx * ha_d_kblk A), ap_sub_blocks = 1 \<rparr>)))))
      else
        ck_div src_pos src_per (\<lambda>p_blk_idx.
        ck_div dst_pos dst_per (\<lambda>d_blk_idx.
        ck_mod dst_pos dst_per (\<lambda>d_in_blk.
        ck_div d_in_blk (ha_dst_kbn A) (\<lambda>d_kernel_in_vllm.
        ck_mod src_pos (ha_src_kbn A) (\<lambda>p_token_idx.
        ck_mod dst_pos (ha_dst_kbn A) (\<lambda>d_token_idx.
        Inr \<lparr> ap_p_blk_idx = p_blk_idx, ap_d_blk_idx = d_blk_idx, ap_p_token_idx = p_token_idx,
              ap_d_token_idx = d_token_idx, ap_p_off_base = 0,
              ap_d_off_base = u64 (u32 (d_kernel_in_vllm * ha_pack A) * ha_d_kblk A),
              ap_sub_blocks = ha_pack A \<rparr>)))))))"

lemma fill_attn_pos_tokens:
  "fill_attn_pos A src_per dst_per s d = Inr pos \<Longrightarrow>
   0 < ha_src_kbn A \<and> 0 < ha_dst_kbn A \<and> ap_p_token_idx pos = s mod ha_src_kbn A \<and> ap_d_token_idx pos = d mod ha_dst_kbn A"
  by (auto simp: fill_attn_pos_def kvt_ctrl Let_def split: if_splits)

lemma fill_chunk_less:
  fixes a b l w w' :: nat
  shows "0 < l \<Longrightarrow> 0 < a \<Longrightarrow> 0 < b \<Longrightarrow> l - min (min (a - w mod a) (b - w' mod b)) l < l"
  using mod_less_divisor [of a w] mod_less_divisor [of b w'] by linarith

definition fill_attn_token ::
  "kvt_env \<Rightarrow> hybrid_attn \<Rightarrow> attn_pos \<Rightarrow> nat \<Rightarrow> nat \<Rightarrow> ipc_block_bounds \<Rightarrow> nat \<Rightarrow> ipc_block list \<Rightarrow> ipc_block list result" where
  "fill_attn_token env A pos zero_src_off d_kernel_blk_off bounds idx out =
     (let p_step = ha_p_token_size A div 2; d_step = ha_d_token_size A div 2;
          d_token_idx = u32 (ap_d_token_idx pos + idx);
          d_token_off = u64 (d_kernel_blk_off + d_token_idx * d_step);
          dk = u64 (d_token_off + ha_group_off A * p_step);
          dv = u64 (dk + ha_d_kblk A div 2)
      in rbind (emit_zero_fill_segments env zero_src_off dk p_step (ha_p_block_size A) bounds out)
           (emit_zero_fill_segments env zero_src_off dv p_step (ha_p_block_size A) bounds))"

function fill_attn_loop ::
  "kvt_env \<Rightarrow> hybrid_attn \<Rightarrow> nat \<Rightarrow> nat \<Rightarrow> nat \<Rightarrow> nat list \<Rightarrow> ipc_block_bounds \<Rightarrow> nat \<Rightarrow> nat \<Rightarrow> nat \<Rightarrow> ipc_block list \<Rightarrow>
   ipc_block list result" where
  "fill_attn_loop env A src_per dst_per zero_src_off dblocks bounds src_pos dst_pos to_fill out =
     (if to_fill > 0 then
        rbind (fill_attn_pos A src_per dst_per src_pos dst_pos) (\<lambda>pos.
        c_assert (ndebug env) (ap_p_blk_idx pos = 0) (
        c_assert (ndebug env) (ap_d_blk_idx pos < length dblocks) (
        vec_at dblocks (ap_d_blk_idx pos) (\<lambda>d_blk.
        let d_blk_off = u64 (d_blk * ha_d_block_size A);
            tokens = min (min (ha_src_kbn A - ap_p_token_idx pos) (ha_dst_kbn A - ap_d_token_idx pos)) to_fill in
        rbind (rfold (\<lambda>sub out.
                 let d_kernel_blk_off = u64 (d_blk_off + ap_d_off_base pos + sub * ha_d_kblk A) in
                 rfold (fill_attn_token env A pos zero_src_off d_kernel_blk_off bounds) [0..<tokens] out)
               [0..<ap_sub_blocks pos] out) (\<lambda>out'.
        fill_attn_loop env A src_per dst_per zero_src_off dblocks bounds
          (u32 (src_pos + tokens)) (u32 (dst_pos + tokens)) (to_fill - tokens) out')))))
      else Inr out)"
  by pat_completeness auto
termination
proof (relation "measure (\<lambda>(_, _, _, _, _, _, _, _, _, to_fill, _). to_fill)", goal_cases)
  case (2 env A src_per dst_per zero_src_off dblocks bounds src_pos dst_pos to_fill out pos)
  then show ?case
    by (auto dest!: fill_attn_pos_tokens intro!: fill_chunk_less simp only: in_measure case_prod_conv)
qed simp

declare fill_attn_loop.simps [simp del]

definition fill_last_hybrid_attn_block ::
  "kvt_env \<Rightarrow> hybrid_attn \<Rightarrow> nat list \<Rightarrow> nat list \<Rightarrow> nat \<Rightarrow> ipc_block_bounds \<Rightarrow> ipc_block list \<Rightarrow> ipc_block list result" where
  "fill_last_hybrid_attn_block env A sblocks dblocks total_tokens bounds out =
     (if total_tokens = 0 then Inr out
      else
      let src_per = (if ha_pack A = 1 then ha_src_ntpb A else ha_src_ntpb A div ha_pack A);
          dst_per = (if ha_pack A = 1 then ha_dst_ntpb A else ha_dst_ntpb A div ha_pack A) in
      c_assert (ndebug env) (u32 (src_per * ha_pack A) = ha_src_ntpb A) (
      c_assert (ndebug env) (u32 (dst_per * ha_pack A) = ha_dst_ntpb A) (
      ck_mod total_tokens dst_per (\<lambda>filled.
      if filled = 0 then Inr out
      else
      c_assert (ndebug env) (ha_p_token_size A div 2 * 2 = ha_p_token_size A) (
      c_assert (ndebug env) (ha_d_token_size A div 2 * 2 = ha_d_token_size A) (
      vec_at sblocks 0 (\<lambda>p_blk0.
      fill_attn_loop env A src_per dst_per (u64 (p_blk0 * ha_p_block_size A)) dblocks bounds
        0 total_tokens (dst_per - filled) out)))))))"

section \<open>The indexer cache\<close>

function hybrid_indexer_loop ::
  "bool \<Rightarrow> nat \<Rightarrow> nat \<Rightarrow> nat list \<Rightarrow> nat list \<Rightarrow> nat \<Rightarrow> nat \<Rightarrow> nat \<Rightarrow> ipc_block_bounds \<Rightarrow> nat \<Rightarrow> nat \<Rightarrow> ipc_block list \<Rightarrow>
   ipc_block list result" where
  "hybrid_indexer_loop nd p_block_size d_block_size sblocks dblocks p_ntpb d_ntpb token_size bounds wrote left out =
     (if left > 0 then
        ck_div wrote p_ntpb (\<lambda>src_block_idx.
        ck_mod wrote p_ntpb (\<lambda>src_token_idx.
        ck_div wrote d_ntpb (\<lambda>dst_block_idx.
        ck_mod wrote d_ntpb (\<lambda>dst_token_idx.
        c_assert nd (src_block_idx < length sblocks) (
        c_assert nd (dst_block_idx < length dblocks) (
        vec_at sblocks src_block_idx (\<lambda>p_blk.
        vec_at dblocks dst_block_idx (\<lambda>d_blk.
        let tokens = min (min (p_ntpb - src_token_idx) (d_ntpb - dst_token_idx)) left;
            src_off = u64 (p_blk * p_block_size + u32 (src_token_idx * token_size));
            dst_off = u64 (d_blk * d_block_size + u32 (dst_token_idx * token_size));
            len = u32 (tokens * token_size) in
        rbind (append_ipc_block_checked out bounds src_off dst_off len) (\<lambda>out'.
        hybrid_indexer_loop nd p_block_size d_block_size sblocks dblocks p_ntpb d_ntpb token_size bounds
          (u32 (wrote + tokens)) (left - tokens) out')))))))))
      else Inr out)"
  by pat_completeness auto
termination
proof (relation "measure (\<lambda>(_, _, _, _, _, _, _, _, _, _, left, _). left)", goal_cases)
  case 2
  then show ?case
    by (simp only: in_measure case_prod_conv min_chunk2_less)
qed simp

declare hybrid_indexer_loop.simps [simp del]

definition parse_hybrid_indexer_block ::
  "kvt_env \<Rightarrow> nat \<Rightarrow> nat \<Rightarrow> nat \<Rightarrow> nat \<Rightarrow> nat list \<Rightarrow> nat list \<Rightarrow> nat \<Rightarrow> nat \<Rightarrow> nat \<Rightarrow> ipc_block_bounds \<Rightarrow>
   ipc_block list \<Rightarrow> ipc_block list result" where
  "parse_hybrid_indexer_block env p_block_size d_block_size wrote left sblocks dblocks p_ntpb d_ntpb token_size bounds out =
     c_assert (ndebug env) (token_size > 0) (
     hybrid_indexer_loop (ndebug env) p_block_size d_block_size sblocks dblocks p_ntpb d_ntpb token_size bounds
       wrote left out)"

section \<open>Recurrent state: GDN blocks\<close>

text \<open>The loop over the blocks of one group, shared by the emitters that send equally long pieces.\<close>

definition send_group_blocks ::
  "bool \<Rightarrow> nat \<Rightarrow> nat \<Rightarrow> nat \<Rightarrow> block_ids \<Rightarrow> block_ids \<Rightarrow> ipc_block_bounds \<Rightarrow> nat \<Rightarrow> ipc_block list \<Rightarrow> ipc_block list result" where
  "send_group_blocks nd p_block_size d_block_size len sblocks dblocks bounds group_idx out =
     c_assert nd (group_idx < length sblocks \<and> group_idx < length dblocks) (
     vec_at sblocks group_idx (\<lambda>src_grp.
     vec_at dblocks group_idx (\<lambda>dst_grp.
     c_assert nd (length src_grp = length dst_grp) (
     rfold (\<lambda>block_idx out.
       vec_at src_grp block_idx (\<lambda>p_blk.
       vec_at dst_grp block_idx (\<lambda>d_blk.
       append_ipc_block_checked out bounds (u64 (p_blk * p_block_size)) (u64 (d_blk * d_block_size)) len)))
       [0..<length src_grp] out))))"

definition parse_hybrid_gdn_block_send_p_eq_d ::
  "kvt_env \<Rightarrow> nat \<Rightarrow> nat \<Rightarrow> block_ids \<Rightarrow> block_ids \<Rightarrow> ipc_block_bounds \<Rightarrow> ipc_block list \<Rightarrow> ipc_block list result" where
  "parse_hybrid_gdn_block_send_p_eq_d env block_size n_gdn_layers sblocks dblocks bounds out =
     rfold (send_group_blocks (ndebug env) block_size block_size block_size sblocks dblocks bounds)
       [0..<n_gdn_layers] out"

text \<open>
  One row of the convolution state, P > D: the channel segments of \<open>dims\<close>, the \<open>inner\<close> bytes before
  them already sent; at the end the segments must fill the row of \<open>p_dim\<close> bytes.
\<close>

primrec gdn_conv_channels_gt ::
  "bool \<Rightarrow> nat \<Rightarrow> nat \<Rightarrow> nat \<Rightarrow> nat \<Rightarrow> nat \<Rightarrow> nat \<Rightarrow> ipc_block_bounds \<Rightarrow> nat list \<Rightarrow> nat \<Rightarrow> ipc_block list \<Rightarrow>
   ipc_block list result" where
  "gdn_conv_channels_gt nd p_row d_row p_dim group_n group_off elem_size bounds [] inner out =
     c_assert nd (inner = p_dim) (Inr out)"
| "gdn_conv_channels_gt nd p_row d_row p_dim group_n group_off elem_size bounds (c # cs) inner out =
     (let step = u64 (c * elem_size);
          p_off = u64 (p_row + inner);
          d_off = u64 (d_row + group_n * inner + group_off * step) in
      rbind (append_ipc_block_checked out bounds p_off d_off step) (\<lambda>out'.
      gdn_conv_channels_gt nd p_row d_row p_dim group_n group_off elem_size bounds cs (u64 (inner + step)) out'))"

definition parse_hybrid_gdn_block_send_p_gt_d ::
  "kvt_env \<Rightarrow> nat \<Rightarrow> nat \<Rightarrow> nat \<Rightarrow> nat \<Rightarrow> nat \<Rightarrow> worker_info \<Rightarrow> block_ids \<Rightarrow> block_ids \<Rightarrow> ipc_block_bounds \<Rightarrow>
   ipc_block list \<Rightarrow> ipc_block list result" where
  "parse_hybrid_gdn_block_send_p_gt_d env p_block_size d_block_size n_gdn_layers group_n group_off src sblocks dblocks
     bounds out =
     c_assert (ndebug env) (n_gdn_layers \<le> length sblocks) (
     c_assert (ndebug env) (n_gdn_layers \<le> length dblocks) (
     c_assert (ndebug env) (conv_state_shape src \<noteq> []) (
     c_assert (ndebug env) (ssm_state_shape src \<noteq> []) (
     c_assert (ndebug env) (gdn_conv_channel_dims src \<noteq> []) (
     vec_at (conv_state_shape src) 2 (\<lambda>c2.
     vec_at (conv_state_shape src) 1 (\<lambda>c1.
     vec_at (ssm_state_shape src) 1 (\<lambda>s1.
     vec_at (ssm_state_shape src) 2 (\<lambda>s2.
     vec_at (ssm_state_shape src) 3 (\<lambda>s3.
     let p_conv_dim = u64 (c2 * gdn_conv_elem_size src);
         p_conv_block = u64 (c1 * p_conv_dim);
         p_ssm_block = u64 (s1 * s2 * s3 * gdn_ssm_elem_size src);
         d_conv_dim = u64 (group_n * p_conv_dim) in
     rfold (\<lambda>group_idx out.
       vec_at sblocks group_idx (\<lambda>src_blks.
       vec_at dblocks group_idx (\<lambda>dst_blks.
       rfold (\<lambda>blk_idx out.
         vec_at src_blks blk_idx (\<lambda>p_blk.
         vec_at dst_blks blk_idx (\<lambda>d_blk.
         let p_gdn_off = u64 (p_blk * p_block_size); d_gdn_off = u64 (d_blk * d_block_size) in
         rbind (rfold (\<lambda>conv_dim out.
                  gdn_conv_channels_gt (ndebug env) (u64 (p_gdn_off + conv_dim * p_conv_dim))
                    (u64 (d_gdn_off + conv_dim * d_conv_dim)) p_conv_dim group_n group_off (gdn_conv_elem_size src)
                    bounds (gdn_conv_channel_dims src) 0 out)
                [0..<c1] out) (\<lambda>out'.
         append_ipc_block_checked out' bounds (u64 (p_gdn_off + p_conv_block))
           (u64 (d_gdn_off + group_n * p_conv_block + group_off * p_ssm_block)) p_ssm_block))))
         [0..<length src_blks] out)))
       [0..<n_gdn_layers] out))))))))))"

text \<open>One row of the convolution state, P < D: slice \<open>group_off\<close> of every channel segment.\<close>

primrec gdn_conv_channels_lt ::
  "bool \<Rightarrow> nat \<Rightarrow> nat \<Rightarrow> nat \<Rightarrow> nat \<Rightarrow> nat \<Rightarrow> nat \<Rightarrow> nat \<Rightarrow> ipc_block_bounds \<Rightarrow> nat list \<Rightarrow> nat \<Rightarrow> nat \<Rightarrow>
   ipc_block list \<Rightarrow> ipc_block list result" where
  "gdn_conv_channels_lt nd p_row d_row p_dim d_dim group_n group_off elem_size bounds [] p_inner d_inner out =
     c_assert nd (p_inner = p_dim) (c_assert nd (d_inner = d_dim) (Inr out))"
| "gdn_conv_channels_lt nd p_row d_row p_dim d_dim group_n group_off elem_size bounds (c # cs) p_inner d_inner out =
     (let p_step = u64 (c * elem_size) in
      c_assert_mod0 nd p_step group_n (
      ck_div p_step group_n (\<lambda>d_step.
      let p_off = u64 (p_row + p_inner + group_off * d_step);
          d_off = u64 (d_row + d_inner) in
      rbind (append_ipc_block_checked out bounds p_off d_off d_step) (\<lambda>out'.
      gdn_conv_channels_lt nd p_row d_row p_dim d_dim group_n group_off elem_size bounds cs
        (u64 (p_inner + p_step)) (u64 (d_inner + d_step)) out'))))"

definition parse_hybrid_gdn_block_send_p_lt_d ::
  "kvt_env \<Rightarrow> nat \<Rightarrow> nat \<Rightarrow> nat \<Rightarrow> nat \<Rightarrow> nat \<Rightarrow> worker_info \<Rightarrow> block_ids \<Rightarrow> block_ids \<Rightarrow> ipc_block_bounds \<Rightarrow>
   ipc_block list \<Rightarrow> ipc_block list result" where
  "parse_hybrid_gdn_block_send_p_lt_d env p_block_size d_block_size n_gdn_layers group_n group_off src sblocks dblocks
     bounds out =
     c_assert (ndebug env) (n_gdn_layers \<le> length sblocks) (
     c_assert (ndebug env) (n_gdn_layers \<le> length dblocks) (
     c_assert (ndebug env) (conv_state_shape src \<noteq> []) (
     c_assert (ndebug env) (ssm_state_shape src \<noteq> []) (
     c_assert (ndebug env) (gdn_conv_channel_dims src \<noteq> []) (
     c_assert (ndebug env) (group_n > 0) (
     vec_at (conv_state_shape src) 2 (\<lambda>c2.
     vec_at (conv_state_shape src) 1 (\<lambda>c1.
     vec_at (ssm_state_shape src) 1 (\<lambda>s1.
     vec_at (ssm_state_shape src) 2 (\<lambda>s2.
     vec_at (ssm_state_shape src) 3 (\<lambda>s3.
     let p_conv_dim = u64 (c2 * gdn_conv_elem_size src);
         p_conv_block = u64 (c1 * p_conv_dim);
         p_ssm_block = u64 (s1 * s2 * s3 * gdn_ssm_elem_size src) in
     c_assert_mod0 (ndebug env) p_conv_dim group_n (
     c_assert_mod0 (ndebug env) p_ssm_block group_n (
     ck_div p_conv_dim group_n (\<lambda>d_conv_dim.
     let d_conv_block = u64 (c1 * d_conv_dim) in
     ck_div p_ssm_block group_n (\<lambda>d_ssm_block.
     rfold (\<lambda>group_idx out.
       vec_at sblocks group_idx (\<lambda>src_blks.
       vec_at dblocks group_idx (\<lambda>dst_blks.
       rfold (\<lambda>blk_idx out.
         vec_at src_blks blk_idx (\<lambda>p_blk.
         vec_at dst_blks blk_idx (\<lambda>d_blk.
         let p_gdn_off = u64 (p_blk * p_block_size); d_gdn_off = u64 (d_blk * d_block_size) in
         rbind (rfold (\<lambda>conv_dim out.
                  gdn_conv_channels_lt (ndebug env) (u64 (p_gdn_off + conv_dim * p_conv_dim))
                    (u64 (d_gdn_off + conv_dim * d_conv_dim)) p_conv_dim d_conv_dim group_n group_off
                    (gdn_conv_elem_size src) bounds (gdn_conv_channel_dims src) 0 0 out)
                [0..<c1] out) (\<lambda>out'.
         append_ipc_block_checked out' bounds (u64 (p_gdn_off + p_conv_block + group_off * d_ssm_block))
           (u64 (d_gdn_off + d_conv_block)) d_ssm_block))))
         [0..<length src_blks] out)))
       [0..<n_gdn_layers] out)))))))))))))))"

section \<open>Recurrent state: short convolution blocks\<close>

definition parse_hybrid_short_conv_block_send_p_eq_d ::
  "kvt_env \<Rightarrow> nat \<Rightarrow> nat \<Rightarrow> nat \<Rightarrow> block_ids \<Rightarrow> block_ids \<Rightarrow> ipc_block_bounds \<Rightarrow> ipc_block list \<Rightarrow> ipc_block list result" where
  "parse_hybrid_short_conv_block_send_p_eq_d env block_size n_ple_layers block_group sblocks dblocks bounds out =
     (if n_ple_layers = 0 then Inr out
      else rfold (\<lambda>i. send_group_blocks (ndebug env) block_size block_size block_size sblocks dblocks bounds
                   (block_group + i)) [0..<n_ple_layers] out)"

text \<open>The size of the complete short convolution state, with the checks that it fits in a page.\<close>

definition short_conv_state_size ::
  "kvt_env \<Rightarrow> nat \<Rightarrow> nat \<Rightarrow> worker_info \<Rightarrow> (nat \<Rightarrow> 'a result) \<Rightarrow> 'a result" where
  "short_conv_state_size env p_block_size d_block_size src k =
     c_assert (ndebug env) (length (ple_conv_state_shape src) = 3) (
     vec_at (ple_conv_state_shape src) 1 (\<lambda>c1.
     vec_at (ple_conv_state_shape src) 2 (\<lambda>c2.
     let conv_state_size = u64 (c1 * c2 * ple_conv_elem_size src) in
     c_assert (ndebug env) (conv_state_size \<le> p_block_size) (
     c_assert (ndebug env) (conv_state_size \<le> d_block_size) (k conv_state_size)))))"

definition parse_hybrid_short_conv_block_send_p_gt_d ::
  "kvt_env \<Rightarrow> nat \<Rightarrow> nat \<Rightarrow> nat \<Rightarrow> nat \<Rightarrow> nat \<Rightarrow> nat \<Rightarrow> worker_info \<Rightarrow> block_ids \<Rightarrow> block_ids \<Rightarrow> ipc_block_bounds \<Rightarrow>
   ipc_block list \<Rightarrow> ipc_block list result" where
  "parse_hybrid_short_conv_block_send_p_gt_d env p_block_size d_block_size n_ple_layers block_group group_n group_off
     src sblocks dblocks bounds out =
     (if n_ple_layers = 0 then Inr out
      else
      c_assert (ndebug env) (ple_conv_state_shape src \<noteq> []) (
      c_assert (ndebug env) (group_n > 0) (
      c_assert (ndebug env) (group_off < group_n) (
      if group_off \<noteq> 0 then Inr out
      else
      short_conv_state_size env p_block_size d_block_size src (\<lambda>conv_state_size.
      rfold (\<lambda>i. send_group_blocks (ndebug env) p_block_size d_block_size conv_state_size sblocks dblocks bounds
               (block_group + i)) [0..<n_ple_layers] out)))))"

definition parse_hybrid_short_conv_block_send_p_lt_d ::
  "kvt_env \<Rightarrow> nat \<Rightarrow> nat \<Rightarrow> nat \<Rightarrow> nat \<Rightarrow> nat \<Rightarrow> nat \<Rightarrow> worker_info \<Rightarrow> block_ids \<Rightarrow> block_ids \<Rightarrow> ipc_block_bounds \<Rightarrow>
   ipc_block list \<Rightarrow> ipc_block list result" where
  "parse_hybrid_short_conv_block_send_p_lt_d env p_block_size d_block_size n_ple_layers block_group group_n group_off
     src sblocks dblocks bounds out =
     (if n_ple_layers = 0 then Inr out
      else
      c_assert (ndebug env) (ple_conv_state_shape src \<noteq> []) (
      c_assert (ndebug env) (group_n > 0) (
      c_assert (ndebug env) (group_off < group_n) (
      short_conv_state_size env p_block_size d_block_size src (\<lambda>conv_state_size.
      rfold (\<lambda>i. send_group_blocks (ndebug env) p_block_size d_block_size conv_state_size sblocks dblocks bounds
               (block_group + i)) [0..<n_ple_layers] out)))))"

section \<open>Filling the tail, P < D\<close>

lemma chunk_end_less:
  fixes d e k :: nat
  shows "d < e \<Longrightarrow> 0 < k \<Longrightarrow> e - (d + min (k - d mod k) (e - d)) < e - d"
  using mod_less_divisor [of k d] by linarith

function fill_tail_loop ::
  "kvt_env \<Rightarrow> hybrid_attn \<Rightarrow> nat \<Rightarrow> nat \<Rightarrow> nat list \<Rightarrow> ipc_block_bounds \<Rightarrow> nat \<Rightarrow> nat \<Rightarrow> ipc_block list \<Rightarrow> ipc_block list result" where
  "fill_tail_loop env A dst_per zero_src_off dblocks bounds end_toks dst_pos out =
     (if dst_pos < end_toks then
        ck_div dst_pos dst_per (\<lambda>d_blk_idx.
        ck_mod dst_pos dst_per (\<lambda>d_in_blk.
        ck_div d_in_blk (ha_dst_kbn A) (\<lambda>d_kernel_in_vllm.
        ck_mod dst_pos (ha_dst_kbn A) (\<lambda>d_token_idx.
        let tokens = min (ha_dst_kbn A - d_token_idx) (end_toks - dst_pos) in
        c_assert (ndebug env) (d_blk_idx < length dblocks) (
        vec_at dblocks d_blk_idx (\<lambda>d_blk.
        let d_blk_off = u64 (d_blk * ha_d_block_size A);
            d_kernel_off_base = u64 (d_kernel_in_vllm * ha_pack A * ha_d_kblk A);
            d_step = ha_d_token_size A div 2;
            len = u64 (tokens * d_step) in
        rbind (rfold (\<lambda>sub out.
                 let d_kernel_blk_off = u64 (d_blk_off + d_kernel_off_base + sub * ha_d_kblk A);
                     dk_off = u64 (d_kernel_blk_off + d_token_idx * d_step);
                     dv_off = u64 (dk_off + ha_d_kblk A div 2) in
                 rbind (emit_zero_fill_segments env zero_src_off dk_off len (ha_p_block_size A) bounds out)
                   (emit_zero_fill_segments env zero_src_off dv_off len (ha_p_block_size A) bounds))
               [0..<ha_pack A] out) (\<lambda>out'.
        fill_tail_loop env A dst_per zero_src_off dblocks bounds end_toks (dst_pos + tokens) out')))))))
      else Inr out)"
  by pat_completeness auto
termination
proof (relation "measure (\<lambda>(_, _, _, _, _, _, end_toks, dst_pos, _). end_toks - dst_pos)", goal_cases)
  case 2
  then show ?case
    by (simp only: in_measure case_prod_conv chunk_end_less)
qed simp

declare fill_tail_loop.simps [simp del]

text \<open>
  The scalar arguments are bundled as above; those of the source side that the function does not
  have are not read.
\<close>

definition fill_tail_hybrid_attn_block_p_lt_d ::
  "kvt_env \<Rightarrow> hybrid_attn \<Rightarrow> nat list \<Rightarrow> nat list \<Rightarrow> nat \<Rightarrow> ipc_block_bounds \<Rightarrow> ipc_block list \<Rightarrow> ipc_block list result" where
  "fill_tail_hybrid_attn_block_p_lt_d env A sblocks dblocks total_tokens bounds out =
     (let dst_per = (if ha_pack A = 1 then ha_dst_ntpb A else ha_dst_ntpb A div ha_pack A) in
      c_assert (ndebug env) (u32 (dst_per * ha_pack A) = ha_dst_ntpb A) (
      c_assert_mod0 (ndebug env) dst_per (ha_dst_kbn A) (
      c_assert (ndebug env) (ha_d_token_size A div 2 * 2 = ha_d_token_size A) (
      let end_toks = u32 (u32 (length dblocks) * dst_per) in
      if total_tokens \<ge> end_toks then Inr out
      else
      vec_at sblocks 0 (\<lambda>p_blk0.
      fill_tail_loop env A dst_per (u64 (p_blk0 * ha_p_block_size A)) dblocks bounds end_toks total_tokens out)))))"

section \<open>Whatever is emitted is in bounds\<close>

lemma emits_aligned_length:
  "(\<And>len. emits P out (k len)) \<Longrightarrow> emits P out (aligned_length nd r b n i t k)"
  by (simp add: aligned_length_def emits_intros)

lemma emits_aligned_loop:
  assumes "src_capacity bounds < 2 ^ 64" and "\<And>w out. emits (in_bounds bounds) out (k w out)"
  shows "emits (in_bounds bounds) out (aligned_loop nd r b n sb db bounds k w l out)"
proof (induction l arbitrary: w out rule: less_induct)
  case (less l)
  show ?case
    by (subst aligned_loop.simps) (intro emits_intros emits_aligned_length assms less.IH; simp)
qed

lemma emits_do_parse_block_aligned_send:
  "src_capacity bounds < 2 ^ 64 \<Longrightarrow>
   emits (in_bounds bounds) out (do_parse_block_aligned_send env b task sb db n bounds out)"
  unfolding do_parse_block_aligned_send_def aligned_trailing_def by (intro emits_intros emits_aligned_loop)

text \<open>A step that only computes a position emits nothing.\<close>

lemma emits_rbind_pure:
  "(\<And>x. m = Inr x \<Longrightarrow> emits P out (f x)) \<Longrightarrow> emits P out (rbind m f)"
  by (cases m) (simp_all add: emits_intros)

lemma emits_hybrid_attn_token:
  "src_capacity bounds < 2 ^ 64 \<Longrightarrow>
   emits (in_bounds bounds) out (hybrid_attn_token A pos p d bounds swap i out)"
  unfolding hybrid_attn_token_def by (intro emits_intros)

lemma emits_fill_attn_token:
  "src_capacity bounds < 2 ^ 64 \<Longrightarrow>
   emits (in_bounds bounds) out (fill_attn_token env A pos z d bounds i out)"
  unfolding fill_attn_token_def by (intro emits_intros emits_emit_zero_fill)

lemma emits_parse_hybrid_attn_block:
  assumes "src_capacity bounds < 2 ^ 64"
  shows "emits (in_bounds bounds) out (parse_hybrid_attn_block env A sb db w l bounds swap out)"
  unfolding parse_hybrid_attn_block_def
proof (induction l arbitrary: w out rule: less_induct)
  case (less l)
  show ?case
    by (subst hybrid_attn_loop.simps, intro emits_if emits_Inr, rule emits_rbind_pure, drule hybrid_attn_pos_tokens)
      (intro emits_intros emits_hybrid_attn_token assms less.IH; auto intro!: min_chunk2_less)
qed

lemma emits_fill_attn_loop:
  assumes "src_capacity bounds < 2 ^ 64"
  shows "emits (in_bounds bounds) out (fill_attn_loop env A sp dp z db bounds s d l out)"
proof (induction l arbitrary: s d out rule: less_induct)
  case (less l)
  show ?case
    by (subst fill_attn_loop.simps, intro emits_if emits_Inr, rule emits_rbind_pure, drule fill_attn_pos_tokens)
      (intro emits_intros emits_fill_attn_token assms less.IH; auto intro!: fill_chunk_less)
qed

lemma emits_fill_last_hybrid_attn_block:
  "src_capacity bounds < 2 ^ 64 \<Longrightarrow>
   emits (in_bounds bounds) out (fill_last_hybrid_attn_block env A sb db t bounds out)"
  unfolding fill_last_hybrid_attn_block_def by (intro emits_intros emits_fill_attn_loop)

lemma emits_parse_hybrid_indexer_block:
  assumes "src_capacity bounds < 2 ^ 64"
  shows "emits (in_bounds bounds) out (parse_hybrid_indexer_block env pb db w l sb dbl pn dn ts bounds out)"
  unfolding parse_hybrid_indexer_block_def
proof (rule emits_c_assert, induction l arbitrary: w out rule: less_induct)
  case (less l)
  show ?case
    by (subst hybrid_indexer_loop.simps) (intro emits_intros assms less.IH; auto intro!: min_chunk2_less)
qed

lemma emits_send_group_blocks [emits_intros]:
  "src_capacity bounds < 2 ^ 64 \<Longrightarrow>
   emits (in_bounds bounds) out (send_group_blocks nd pb db len sb dbl bounds g out)"
  unfolding send_group_blocks_def by (intro emits_intros)

lemma emits_gdn_conv_channels_gt [emits_intros]:
  "src_capacity bounds < 2 ^ 64 \<Longrightarrow>
   emits (in_bounds bounds) out (gdn_conv_channels_gt nd p d dim gn goff el bounds cs inner out)"
  by (induction cs arbitrary: inner out) (auto intro!: emits_intros)

lemma emits_gdn_conv_channels_lt [emits_intros]:
  "src_capacity bounds < 2 ^ 64 \<Longrightarrow>
   emits (in_bounds bounds) out (gdn_conv_channels_lt nd p d pdim ddim gn goff el bounds cs pi di out)"
  by (induction cs arbitrary: pi di out) (auto intro!: emits_intros)

lemma emits_gdn_p_eq_d:
  "src_capacity bounds < 2 ^ 64 \<Longrightarrow>
   emits (in_bounds bounds) out (parse_hybrid_gdn_block_send_p_eq_d env b n sb db bounds out)"
  unfolding parse_hybrid_gdn_block_send_p_eq_d_def by (intro emits_intros)

lemma emits_gdn_p_gt_d:
  "src_capacity bounds < 2 ^ 64 \<Longrightarrow>
   emits (in_bounds bounds) out (parse_hybrid_gdn_block_send_p_gt_d env pb db n gn goff src sb dbl bounds out)"
  unfolding parse_hybrid_gdn_block_send_p_gt_d_def by (intro emits_intros)

lemma emits_gdn_p_lt_d:
  "src_capacity bounds < 2 ^ 64 \<Longrightarrow>
   emits (in_bounds bounds) out (parse_hybrid_gdn_block_send_p_lt_d env pb db n gn goff src sb dbl bounds out)"
  unfolding parse_hybrid_gdn_block_send_p_lt_d_def by (intro emits_intros)

lemma emits_short_conv_p_eq_d:
  "src_capacity bounds < 2 ^ 64 \<Longrightarrow>
   emits (in_bounds bounds) out (parse_hybrid_short_conv_block_send_p_eq_d env b n g sb db bounds out)"
  unfolding parse_hybrid_short_conv_block_send_p_eq_d_def by (intro emits_intros)

lemma emits_short_conv_p_gt_d:
  "src_capacity bounds < 2 ^ 64 \<Longrightarrow>
   emits (in_bounds bounds) out (parse_hybrid_short_conv_block_send_p_gt_d env pb db n g gn goff src sb dbl bounds out)"
  unfolding parse_hybrid_short_conv_block_send_p_gt_d_def short_conv_state_size_def by (intro emits_intros)

lemma emits_short_conv_p_lt_d:
  "src_capacity bounds < 2 ^ 64 \<Longrightarrow>
   emits (in_bounds bounds) out (parse_hybrid_short_conv_block_send_p_lt_d env pb db n g gn goff src sb dbl bounds out)"
  unfolding parse_hybrid_short_conv_block_send_p_lt_d_def short_conv_state_size_def by (intro emits_intros)

lemma emits_fill_tail_hybrid_attn_block_p_lt_d:
  assumes "src_capacity bounds < 2 ^ 64"
  shows "emits (in_bounds bounds) out (fill_tail_hybrid_attn_block_p_lt_d env A sb db t bounds out)"
proof -
  have "emits (in_bounds bounds) out (fill_tail_loop env A dp z db bounds e d out)" for dp z e d out
  proof (induction "e - d" arbitrary: d out rule: less_induct)
    case less
    show ?case
      by (subst fill_tail_loop.simps)
        (intro emits_intros emits_emit_zero_fill assms less; auto intro!: chunk_end_less)
  qed
  then show ?thesis
    unfolding fill_tail_hybrid_attn_block_p_lt_d_def by (intro emits_intros)
qed

lemmas emits_hybrid =
  emits_do_parse_block_aligned_send emits_parse_hybrid_attn_block emits_fill_last_hybrid_attn_block
  emits_parse_hybrid_indexer_block emits_gdn_p_eq_d emits_gdn_p_gt_d emits_gdn_p_lt_d emits_short_conv_p_eq_d
  emits_short_conv_p_gt_d emits_short_conv_p_lt_d emits_fill_tail_hybrid_attn_block_p_lt_d

end
