(* ===== verification/HybridAligned.thy ===== *)
theory HybridAligned
  imports ParseHybrid
begin

text \<open>
  Block-aligned sending of \<open>parse_block_qwen3_next.cpp\<close>: which blocks a step of a chunked prefill sends, and
  that all steps together send every block once.
\<close>

section \<open>Block-aligned sending sends every block once\<close>

definition aligned_blk :: "nat \<Rightarrow> nat list \<Rightarrow> nat list \<Rightarrow> nat \<Rightarrow> ipc_block" where
  "aligned_blk bs sb db b = IpcBlock (sb ! b * bs) (db ! b * bs) bs"

definition aligned_ok :: "nat \<Rightarrow> nat \<Rightarrow> nat list \<Rightarrow> nat list \<Rightarrow> ipc_block_bounds \<Rightarrow> bool" where
  "aligned_ok bs n sb db bounds \<longleftrightarrow>
     0 < n \<and> 0 < bs \<and> length sb = length db \<and>
     (\<forall>b\<in>set sb. (b + 1) * bs \<le> src_capacity bounds) \<and> (\<forall>b\<in>set db. (b + 1) * bs \<le> dst_capacity bounds) \<and>
     src_length_scale bounds = 1 \<and> src_capacity bounds < 2 ^ 64 \<and> dst_capacity bounds < 2 ^ 64"

lemma upt_split: "i \<le> j \<Longrightarrow> j \<le> k \<Longrightarrow> [i..<j] @ [j..<k] = [i..<k]"
  by (metis le_Suc_ex upt_add_eq_append)

lemma aligned_append:
  assumes ok: "aligned_ok bs n sb db bounds" and b: "b < length sb"
  shows "append_ipc_block_checked out bounds (u64 (sb ! b * bs)) (u64 (db ! b * bs)) bs = Inr (out @ [aligned_blk bs sb db b])"
proof -
  have "(sb ! b + 1) * bs \<le> src_capacity bounds" "(db ! b + 1) * bs \<le> dst_capacity bounds"
    using ok b by (auto simp: aligned_ok_def)
  then show ?thesis
    using ok by (auto simp: aligned_ok_def aligned_blk_def append_ipc_block_checked_Inr_iff u64_id)
qed

text \<open>The first block that a chunk ending at token \<open>e\<close> leaves for the next chunk.\<close>

definition aligned_next :: "bool \<Rightarrow> nat \<Rightarrow> nat \<Rightarrow> nat" where
  "aligned_next fin n e = (if fin then (e + n - 1) div n else e div n)"

lemma aligned_next_step: "0 < n \<Longrightarrow> aligned_next fin n (b * n) = b"
proof -
  assume n: "0 < n"
  then have "b * n + n - 1 = (n - 1) + b * n"
    by simp
  moreover have "((n - 1) + b * n) div n = b"
    using n by (subst div_mult_self1) simp_all
  ultimately show ?thesis
    using n by (simp add: aligned_next_def)
qed

lemma aligned_loop_sends:
  assumes ok: "aligned_ok bs n sb db bounds" and "w + l < 2 ^ 32" and "w + l \<le> length sb * n"
  shows "aligned_loop nd fin bs n sb db bounds k w l out =
    k (w + l) (out @ map (aligned_blk bs sb db) [w div n..<if l = 0 then w div n else aligned_next fin n (w + l)])"
  using assms(2,3)
proof (induction l arbitrary: w out rule: less_induct)
  case (less l)
  note d = ok [unfolded aligned_ok_def]
  have n: "0 < n" and len: "length db = length sb"
    using d by auto
  show ?case
  proof (cases "l = 0")
    case True
    then show ?thesis
      by (simp add: aligned_loop.simps)
  next
    case False
    let ?b = "w div n" and ?i = "w mod n"
    have wi: "w = ?b * n + ?i" "?i < n"
      using n by simp_all
    have b: "?b < length sb"
    proof -
      have "w < length sb * n"
        using False less.prems(2) by linarith
      then show ?thesis
        by (simp add: less_mult_imp_div_less)
    qed
    show ?thesis
    proof (cases "n - ?i \<le> l")
      case True
      let ?w' = "(?b + 1) * n"
      have w': "w + (n - ?i) = ?w'" and dv: "?w' div n = ?b + 1"
        using wi n add_mult_distrib [of ?b 1 n] by (linarith, simp)
      have lt: "l - (n - ?i) < l" and pre: "?w' + (l - (n - ?i)) < 2 ^ 32" "?w' + (l - (n - ?i)) \<le> length sb * n"
        and s: "?w' + (l - (n - ?i)) = w + l" and u: "u32 ?w' = ?w'"
        using True less.prems wi(2) w' False by (auto intro!: u32_id)
      have len: "aligned_length nd fin bs n ?i (n - ?i) k' = k' bs" for k' :: "nat \<Rightarrow> ipc_block list result"
        using wi(2) by (simp add: aligned_length_def)
      have "aligned_loop nd fin bs n sb db bounds k w l out =
          aligned_loop nd fin bs n sb db bounds k ?w' (l - (n - ?i)) (out @ [aligned_blk bs sb db ?b])"
        using True b d n False len aligned_append [OF ok b, of out] w' u
        by (subst aligned_loop.simps) (simp add: Let_def min_def)
      also have "\<dots> = k (w + l) ((out @ [aligned_blk bs sb db ?b]) @ map (aligned_blk bs sb db)
          [?b + 1..<if l - (n - ?i) = 0 then ?b + 1 else aligned_next fin n (w + l)])"
        unfolding less.IH [OF lt pre] dv s ..
      also have "[?b + 1..<if l - (n - ?i) = 0 then ?b + 1 else aligned_next fin n (w + l)] =
          [?b + 1..<aligned_next fin n (w + l)]"
      proof (cases "l - (n - ?i) = 0")
        case True
        then have "w + l = (?b + 1) * n"
          using s by simp
        then show ?thesis
          using aligned_next_step [OF n, of fin "?b + 1"] True by simp
      qed simp
      also have "(out @ [aligned_blk bs sb db ?b]) @ map (aligned_blk bs sb db) [?b + 1..<aligned_next fin n (w + l)] =
          out @ map (aligned_blk bs sb db) [?b..<aligned_next fin n (w + l)]"
      proof -
        have "?b + 1 \<le> (w + l) div n" "?b + 1 \<le> (w + l + n - 1) div n"
          using div_le_mono [of ?w' "w + l" n] div_le_mono [of ?w' "w + l + n - 1" n] dv s n by simp_all
        then have "?b < aligned_next fin n (w + l)"
          by (simp add: aligned_next_def)
        then show ?thesis
          by (simp add: upt_rec)
      qed
      finally show ?thesis
        using False by simp
    next
      case part: False
      have e: "(w + l) div n = ?b" "(w + l) mod n = ?i + l"
        using mod_add_chunk [of l n w] part n by auto
      have e': "(w + l + n - 1) div n = ?b + 1"
      proof -
        have "w + l + n - 1 = (?i + l - 1) + (?b + 1) * n"
          using wi(1) False add_mult_distrib [of ?b 1 n] by linarith
        moreover have "?i + l - 1 < n"
          using part by linarith
        ultimately show ?thesis
          using n by (simp only: div_mult_self1 [of n] div_less)
      qed
      have u: "u32 (w + l) = w + l"
        using less.prems(1) by (rule u32_id)
      have len: "aligned_length nd fin bs n ?i l k' = (if fin then k' bs else k' 0)" for k' :: "nat \<Rightarrow> ipc_block list result"
        using part wi(2) by (auto simp: aligned_length_def)
      show ?thesis
        using part b d n False len aligned_append [OF ok b, of out] u e e'
        by (subst aligned_loop.simps) (simp add: Let_def min_def aligned_loop.simps aligned_next_def)
    qed
  qed
qed

lemma aligned_trailing_sends:
  assumes ok: "aligned_ok bs n sb db bounds" and "w + n < 2 ^ 32"
  shows "aligned_trailing nd fin bs n sb db bounds w out =
    Inr (out @ (if fin then map (aligned_blk bs sb db) [(w + n - 1) div n..<length sb] else []))"
proof -
  have n: "0 < n" and len: "length db = length sb"
    using ok by (simp_all add: aligned_ok_def)
  have "rfold (\<lambda>i out. vec_at sb i (\<lambda>p_blk. vec_at db i (\<lambda>d_blk.
        append_ipc_block_checked out bounds (u64 (p_blk * bs)) (u64 (d_blk * bs)) bs))) [m..<length sb] out =
      Inr (out @ concat (map (\<lambda>b. [aligned_blk bs sb db b]) [m..<length sb]))" for m
    using aligned_append [OF ok] len by (intro rfold_emit) simp
  moreover have "u32 (w + n - 1) = w + n - 1"
    using assms(2) by (intro u32_id) simp
  ultimately show ?thesis
    using n len by (simp add: aligned_trailing_def)
qed

lemma do_parse_block_aligned_send_blocks:
  assumes ok: "aligned_ok bs n sb db bounds" and "seen_tokens task + new_tokens task + n < 2 ^ 32"
    and "seen_tokens task + new_tokens task \<le> length sb * n" and "reach_last_token task \<longrightarrow> 0 < new_tokens task"
  shows "do_parse_block_aligned_send env bs task sb db n bounds out = Inr (out @ map (aligned_blk bs sb db)
    [seen_tokens task div n..<if reach_last_token task then length sb else (seen_tokens task + new_tokens task) div n])"
proof -
  let ?s = "seen_tokens task" and ?l = "new_tokens task"
  have n: "0 < n"
    using ok by (simp add: aligned_ok_def)
  have "?s + ?l < 2 ^ 32"
    using assms(2) by linarith
  note loop = aligned_loop_sends [OF ok this assms(3)]
  note tail = aligned_trailing_sends [OF ok assms(2)]
  show ?thesis
  proof (cases "reach_last_token task")
    case True
    let ?e = "(?s + ?l + n - 1) div n"
    have "?s div n \<le> ?e"
      using n by (intro div_le_mono) simp
    moreover have "?e \<le> length sb"
    proof -
      have "?s + ?l + n - 1 < (length sb + 1) * n"
        using assms(3) n add_mult_distrib [of "length sb" 1 n] by linarith
      then show ?thesis
        using less_mult_imp_div_less [of "?s + ?l + n - 1" "length sb + 1" n] by simp
    qed
    ultimately have "[?s div n..<?e] @ [?e..<length sb] = [?s div n..<length sb]"
      by (rule upt_split)
    then have "map (aligned_blk bs sb db) [?s div n..<?e] @ map (aligned_blk bs sb db) [?e..<length sb] =
        map (aligned_blk bs sb db) [?s div n..<length sb]"
      by (metis map_append)
    then show ?thesis
      using True assms(4) unfolding do_parse_block_aligned_send_def loop tail by (simp add: aligned_next_def)
  next
    case False
    then show ?thesis
      unfolding do_parse_block_aligned_send_def loop tail by (simp add: aligned_next_def)
  qed
qed

text \<open>
  The steps of a chunked prefill that starts at token \<open>s\<close> and computes \<open>ls\<close> tokens per step; only the
  last step reaches the last token.
\<close>

fun chunk_steps :: "req_send_task \<Rightarrow> nat \<Rightarrow> nat list \<Rightarrow> req_send_task list" where
  "chunk_steps task s [] = []"
| "chunk_steps task s [l] = [task\<lparr>seen_tokens := s, new_tokens := l, reach_last_token := True\<rparr>]"
| "chunk_steps task s (l # l' # ls) =
     task\<lparr>seen_tokens := s, new_tokens := l, reach_last_token := False\<rparr> # chunk_steps task (s + l) (l' # ls)"

text \<open>
  C22. However a prefill is chunked, the block-aligned parser sends every block of the request from
  the one that holds the first new token on exactly once, whole and in order, the blocks after the
  last token included.
\<close>

theorem aligned_send_chunks:
  assumes ok: "aligned_ok bs n sb db bounds" and "ls \<noteq> []" and "0 < last ls"
    and "s + sum_list ls + n < 2 ^ 32" and "s + sum_list ls \<le> length sb * n"
  shows "rfold (\<lambda>t. do_parse_block_aligned_send env bs t sb db n bounds) (chunk_steps task s ls) out =
    Inr (out @ map (aligned_blk bs sb db) [s div n..<length sb])"
  using assms(2-)
proof (induction task s ls arbitrary: out rule: chunk_steps.induct)
  case (1 task s)
  then show ?case
    by simp
next
  case (2 task s l)
  then show ?case
    using do_parse_block_aligned_send_blocks [OF ok, of "task\<lparr>seen_tokens := s, new_tokens := l, reach_last_token := True\<rparr>"]
    by simp
next
  case (3 task s l l' ls)
  let ?t = "task\<lparr>seen_tokens := s, new_tokens := l, reach_last_token := False\<rparr>"
  have head: "do_parse_block_aligned_send env bs ?t sb db n bounds out =
      Inr (out @ map (aligned_blk bs sb db) [s div n..<(s + l) div n])"
    using do_parse_block_aligned_send_blocks [OF ok, of ?t] "3.prems" by simp
  have n: "0 < n"
    using ok by (simp add: aligned_ok_def)
  have "s div n \<le> (s + l) div n"
    by (intro div_le_mono) simp
  moreover have "(s + l) div n \<le> length sb"
    using "3.prems"(4) div_le_mono [of "s + l" "length sb * n" n] n by simp
  ultimately have "map (aligned_blk bs sb db) [s div n..<(s + l) div n] @ map (aligned_blk bs sb db) [(s + l) div n..<length sb] =
      map (aligned_blk bs sb db) [s div n..<length sb]"
    using upt_split [of "s div n" "(s + l) div n" "length sb"] by (metis map_append)
  then show ?case
    using head "3.IH" "3.prems" by (simp add: add.assoc)
qed

theorem aligned_send_chunks_witness:
  "rfold (\<lambda>t. do_parse_block_aligned_send demo_env 8 t [4, 0, 2] [1, 3, 5] 2
      \<lparr> src_capacity = 48, dst_capacity = 48, src_length_scale = 1, bounds_cache_idx = 0 \<rparr>)
    (chunk_steps (demo_task [] [] 0 0 False) 1 [2, 1, 1]) [] =
   Inr [IpcBlock 32 8 8, IpcBlock 0 24 8, IpcBlock 16 40 8]"
  using aligned_send_chunks [where bs = 8 and n = 2 and sb = "[4, 0, 2]" and db = "[1, 3, 5]" and ls = "[2, 1, 1]" and s = 1
      and bounds = "\<lparr> src_capacity = 48, dst_capacity = 48, src_length_scale = 1, bounds_cache_idx = 0 \<rparr>"
      and out = "[]" and env = demo_env and task = "demo_task [] [] 0 0 False"]
  by (simp add: aligned_ok_def aligned_blk_def upt_rec)

end
