(* ===== verification/HybridAttn.thy ===== *)
theory HybridAttn
  imports ParseHybrid
begin

text \<open>
  The packed attention blocks of \<open>parse_block_qwen3_next.cpp\<close>: the addresses of the layout, and that the loop over
  the tokens copies every entry of every layer to its place, with either side the wider one.
\<close>

section \<open>Addresses of packed attention blocks\<close>

text \<open>
  The byte offset of the K (\<open>v = 0\<close>) or V (\<open>v = 1\<close>) entry of token \<open>i\<close> of layer \<open>sub\<close> in a paged cache
  whose pages hold \<open>per\<close> tokens of each of \<open>pack\<close> layers. A page is divided into kernel blocks of \<open>kbn\<close>
  tokens, the kernel blocks of the layers are interleaved, and a kernel block holds its K before its V entries
  of \<open>step\<close> bytes.
\<close>

definition attn_index :: "nat \<Rightarrow> nat \<Rightarrow> nat \<Rightarrow> nat \<Rightarrow> nat \<Rightarrow> nat \<Rightarrow> nat" where
  "attn_index per kbn pack sub v i = ((i mod per div kbn * pack + sub) * 2 + v) * kbn + i mod kbn"

definition attn_addr :: "nat \<Rightarrow> nat \<Rightarrow> nat \<Rightarrow> nat \<Rightarrow> nat \<Rightarrow> nat list \<Rightarrow> nat \<Rightarrow> nat \<Rightarrow> nat \<Rightarrow> nat" where
  "attn_addr per bsz kbn pack step bl sub v i = bl ! (i div per) * bsz + attn_index per kbn pack sub v i * step"

lemma attn_index_chunk:
  assumes "kbn dvd per" and "0 < per" and "c < kbn - w mod kbn"
  shows "attn_index per kbn pack sub v (w + c) = attn_index per kbn pack sub v w + c"
  using mod_chunk_dvd [OF assms] by (simp add: attn_index_def)

lemma attn_addr_chunk:
  assumes "kbn dvd per" and "0 < per" and "c < kbn - w mod kbn"
  shows "attn_addr per bsz kbn pack step bl sub v (w + c) = attn_addr per bsz kbn pack step bl sub v w + c * step"
  using attn_index_chunk [OF assms] mod_chunk_dvd(1) [OF assms] by (simp add: attn_addr_def add_mult_distrib)

lemma attn_index_less:
  assumes "kbn dvd per" and "0 < per" and "sub < pack" and "v < 2"
  shows "attn_index per kbn pack sub v i < 2 * (per * pack)"
proof -
  obtain q where q: "per = kbn * q"
    using assms(1) by blast
  then have pos: "0 < kbn" "0 < q"
    using assms(2) by simp_all
  have "i mod per div kbn < q"
    using assms(2) q by (simp add: less_mult_imp_div_less mult.commute)
  then have "i mod per div kbn * pack + sub < q * pack"
    using assms(3) by (rule radix_bound)
  then have "(i mod per div kbn * pack + sub) * 2 + v < q * pack * 2"
    using assms(4) by (rule radix_bound)
  then have "attn_index per kbn pack sub v i < q * pack * 2 * kbn"
    unfolding attn_index_def by (rule radix_bound) (use pos in simp)
  then show ?thesis
    by (simp add: q ac_simps)
qed

lemma attn_addr_bound:
  assumes "kbn dvd per" and "0 < per" and "sub < pack" and "v < 2" and "bl ! (i div per) < nblk"
    and "2 * (per * pack) * step \<le> bsz" and "x \<le> step"
  shows "attn_addr per bsz kbn pack step bl sub v i + x \<le> bsz * nblk"
proof -
  have "(attn_index per kbn pack sub v i + 1) * step \<le> 2 * (per * pack) * step"
    using attn_index_less [OF assms(1-4)] by (intro mult_right_mono) (simp_all add: Suc_leI)
  then have "attn_index per kbn pack sub v i * step + x \<le> bsz"
    using assms(6,7) by simp
  then show ?thesis
    using mult_block_bound [OF assms(5), of "attn_index per kbn pack sub v i * step" x bsz] by (simp add: attn_addr_def)
qed

lemma attn_index_inj:
  assumes "kbn dvd per" and "0 < per" and "sub < pack" and "sub' < pack" and "v < 2" and "v' < 2"
    and eq: "attn_index per kbn pack sub v i = attn_index per kbn pack sub' v' j" and "i div per = j div per"
  shows "sub = sub' \<and> v = v' \<and> i = j"
proof -
  have kb: "0 < kbn"
    using assms(1,2) by (auto intro: Nat.gr0I)
  note r1 = radix_inj [OF eq [unfolded attn_index_def] mod_less_divisor [OF kb] mod_less_divisor [OF kb]]
  note r2 = radix_inj [OF r1 [THEN conjunct1] assms(5,6)]
  note r3 = radix_inj [OF r2 [THEN conjunct1] assms(3,4)]
  have "i = j"
    using mod_div_mod_eq [OF assms(1) r3 [THEN conjunct1] r1 [THEN conjunct2] assms(8)] .
  then show ?thesis
    using r2 r3 by simp
qed

lemma attn_addr_inj:
  assumes "kbn dvd per" and "0 < per" and "distinct bl" and "i div per < length bl" and "j div per < length bl"
    and "sub < pack" and "sub' < pack" and "v < 2" and "v' < 2" and "x < step" and "y < step"
    and "2 * (per * pack) * step \<le> bsz"
    and eq: "attn_addr per bsz kbn pack step bl sub v i + x = attn_addr per bsz kbn pack step bl sub' v' j + y"
  shows "sub = sub' \<and> v = v' \<and> i = j \<and> x = y"
proof -
  have low: "attn_index per kbn pack s u k * step + z < bsz" if "s < pack" "u < 2" "z < step" for s u k z
  proof -
    have "attn_index per kbn pack s u k * step + z < 2 * (per * pack) * step"
      using attn_index_less [OF assms(1,2) that(1,2)] that(3) by (rule radix_bound)
    then show ?thesis
      using assms(12) by (rule less_le_trans)
  qed
  have e: "bl ! (i div per) * bsz + (attn_index per kbn pack sub v i * step + x) =
      bl ! (j div per) * bsz + (attn_index per kbn pack sub' v' j * step + y)"
    using eq unfolding attn_addr_def by (simp only: add.assoc)
  note r1 = radix_inj [OF e low [OF assms(6,8,10)] low [OF assms(7,9,11)]]
  note r2 = radix_inj [OF r1 [THEN conjunct2] assms(10,11)]
  have "i div per = j div per"
    using r1 [THEN conjunct1] nth_eq_iff_index_eq [OF assms(3-5)] by (rule iffD1 [rotated])
  then show ?thesis
    using attn_index_inj [OF assms(1,2,6-9) r2 [THEN conjunct1]] r2 by simp
qed

section \<open>The loop over tokens copies the attention entries\<close>

text \<open>
  The arguments when a page holds \<open>sp\<close> (\<open>dp\<close>) tokens per layer, a K or V entry of the first side has \<open>ps\<close>
  bytes and one of the second side \<open>G\<close> times as many.
\<close>

definition attn_lay :: "nat \<Rightarrow> nat \<Rightarrow> nat \<Rightarrow> nat \<Rightarrow> nat \<Rightarrow> nat \<Rightarrow> nat \<Rightarrow> nat \<Rightarrow> nat \<Rightarrow> nat \<Rightarrow> hybrid_attn" where
  "attn_lay pbsz dbsz sp dp sk dk ps G off pack =
     \<lparr> ha_src_ntpb = sp * pack, ha_dst_ntpb = dp * pack, ha_p_token_size = 2 * ps, ha_d_token_size = 2 * (G * ps),
       ha_p_block_size = pbsz, ha_d_block_size = dbsz, ha_group_off = off, ha_src_kbn = sk, ha_dst_kbn = dk,
       ha_pack_size = pack \<rparr>"

definition attn_wf ::
  "nat \<Rightarrow> nat \<Rightarrow> nat \<Rightarrow> nat \<Rightarrow> nat \<Rightarrow> nat \<Rightarrow> nat \<Rightarrow> nat \<Rightarrow> nat \<Rightarrow> nat \<Rightarrow> bool \<Rightarrow> ipc_block_bounds \<Rightarrow>
   nat list \<Rightarrow> nat list \<Rightarrow> nat \<Rightarrow> nat \<Rightarrow> nat \<Rightarrow> nat \<Rightarrow> bool" where
  "attn_wf pbsz dbsz sp dp sk dk ps G off pack swap bounds pb db np nd w l \<longleftrightarrow>
     0 < sp \<and> 0 < dp \<and> sk dvd sp \<and> dk dvd dp \<and> 0 < ps \<and> off < G \<and> 0 < pack \<and>
     sp * pack < 2 ^ 32 \<and> dp * pack < 2 ^ 32 \<and>
     2 * (sp * pack) * ps \<le> pbsz \<and> 2 * (dp * pack) * (G * ps) \<le> dbsz \<and>
     pbsz * np \<le> (if swap then dst_capacity bounds else src_capacity bounds) \<and>
     dbsz * nd \<le> (if swap then src_capacity bounds else dst_capacity bounds) \<and>
     src_length_scale bounds = 1 \<and> src_capacity bounds < 2 ^ 64 \<and> dst_capacity bounds < 2 ^ 64 \<and>
     w + l < 2 ^ 32 \<and> table_ok sp pb np w l \<and> table_ok dp db nd w l"

lemma attn_lay_simps:
  "ha_src_ntpb (attn_lay pbsz dbsz sp dp sk dk ps G off pack) = sp * pack"
  "ha_dst_ntpb (attn_lay pbsz dbsz sp dp sk dk ps G off pack) = dp * pack"
  "ha_p_token_size (attn_lay pbsz dbsz sp dp sk dk ps G off pack) = 2 * ps"
  "ha_d_token_size (attn_lay pbsz dbsz sp dp sk dk ps G off pack) = 2 * (G * ps)"
  "ha_p_block_size (attn_lay pbsz dbsz sp dp sk dk ps G off pack) = pbsz"
  "ha_d_block_size (attn_lay pbsz dbsz sp dp sk dk ps G off pack) = dbsz"
  "ha_group_off (attn_lay pbsz dbsz sp dp sk dk ps G off pack) = off"
  "ha_src_kbn (attn_lay pbsz dbsz sp dp sk dk ps G off pack) = sk"
  "ha_dst_kbn (attn_lay pbsz dbsz sp dp sk dk ps G off pack) = dk"
  by (simp_all add: attn_lay_def)

lemma ha_pack_lay: "0 < pack \<Longrightarrow> ha_pack (attn_lay pbsz dbsz sp dp sk dk ps G off pack) = pack"
  by (simp add: ha_pack_def attn_lay_def)

lemma attn_wf_sizes:
  assumes wf: "attn_wf pbsz dbsz sp dp sk dk ps G off pack swap bounds pb db np nd w l" and l: "0 < l"
  shows "0 < sk" "0 < dk" "sk * (2 * ps) < 2 ^ 64" "dk * (2 * (G * ps)) < 2 ^ 64"
    "u64 (sk * (2 * ps)) = sk * (2 * ps)" "u64 (dk * (2 * (G * ps))) = dk * (2 * (G * ps))"
proof -
  note d = wf [unfolded attn_wf_def]
  show pos: "0 < sk" "0 < dk"
    using d by (auto intro: Nat.gr0I)
  have le: "k * (2 * st) \<le> bsz * nblk"
    if "k dvd per" "0 < per" "2 * (per * pack) * st \<le> bsz" "0 < nblk" for k per bsz st nblk
  proof -
    have "k * 1 \<le> per * pack"
      using that(1,2) d by (intro mult_mono dvd_imp_le) auto
    then have "k * (2 * st) \<le> per * pack * (2 * st)"
      by (intro mult_right_mono) simp_all
    also have "\<dots> \<le> bsz * 1"
      using that(3) by (simp add: ac_simps)
    also have "\<dots> \<le> bsz * nblk"
      using that(4) by (intro mult_left_mono) simp_all
    finally show ?thesis .
  qed
  have np: "0 < np" "0 < nd"
    using d l by (auto dest!: table_ok_at intro: Nat.gr0I)
  have cap: "pbsz * np < 2 ^ 64" "dbsz * nd < 2 ^ 64"
    using d by (auto split: if_splits)
  have "sk * (2 * ps) \<le> pbsz * np" "dk * (2 * (G * ps)) \<le> dbsz * nd"
    using le [of sk sp ps pbsz np] le [of dk dp "G * ps" dbsz nd] d np by blast+
  note lt = le_less_trans [OF this(1) cap(1)] le_less_trans [OF this(2) cap(2)]
  show "sk * (2 * ps) < 2 ^ 64"
    by (rule lt)
  then show "u64 (sk * (2 * ps)) = sk * (2 * ps)"
    by (rule u64_id)
  show "dk * (2 * (G * ps)) < 2 ^ 64"
    by (rule lt)
  then show "u64 (dk * (2 * (G * ps))) = dk * (2 * (G * ps))"
    by (rule u64_id)
qed

lemma hybrid_attn_pos_lay:
  assumes wf: "attn_wf pbsz dbsz sp dp sk dk ps G off pack swap bounds pb db np nd w l" and l: "0 < l"
  shows "hybrid_attn_pos ndb (attn_lay pbsz dbsz sp dp sk dk ps G off pack) w =
    Inr \<lparr> ap_p_blk_idx = w div sp, ap_d_blk_idx = w div dp, ap_p_token_idx = w mod sk, ap_d_token_idx = w mod dk,
      ap_p_off_base = u64 (w mod sp div sk * pack * (sk * (2 * ps))),
      ap_d_off_base = u64 (w mod dp div dk * pack * (dk * (2 * (G * ps)))), ap_sub_blocks = pack \<rparr>"
proof -
  note d = wf [unfolded attn_wf_def]
  note sz = attn_wf_sizes [OF wf l]
  have pos: "0 < sp" "0 < dp" "0 < pack" "sp * pack < 2 ^ 32" "dp * pack < 2 ^ 32" "sk dvd sp" "dk dvd dp"
    using d by blast+
  have u: "u32 (x mod per div k * pack) = x mod per div k * pack" if "per * pack < 2 ^ 32" "0 < per" for x per k
  proof (rule u32_id)
    have "x mod per div k \<le> x mod per"
      by (rule div_le_dividend)
    also have "\<dots> \<le> per"
      using that(2) by simp
    finally have "x mod per div k * pack \<le> per * pack"
      by (rule mult_right_mono) simp
    then show "x mod per div k * pack < 2 ^ 32"
      using that(1) by linarith
  qed
  show ?thesis
  proof (cases "pack = 1")
    case True
    then show ?thesis
      using pos sz unfolding hybrid_attn_pos_def ha_pack_lay [OF pos(3)] ha_p_kblk_def ha_d_kblk_def attn_lay_simps
      by (simp add: minus_div_mult_eq_mod)
  next
    case False
    then show ?thesis
      using pos sz u [OF pos(4,1), of w sk] u [OF pos(5,2), of w dk]
      unfolding hybrid_attn_pos_def ha_pack_lay [OF pos(3)] ha_p_kblk_def ha_d_kblk_def attn_lay_simps
      by (simp add: Let_def u32_id)
  qed
qed

text \<open>The two descriptors of one token of one sub-block.\<close>

lemma hybrid_attn_token_copies:
  assumes wf: "attn_wf pbsz dbsz sp dp sk dk ps G off pack swap bounds pb db np nd w l" and l: "0 < l"
    and sub: "sub < pack" and idx: "idx < sk - w mod sk" "idx < dk - w mod dk"
  defines "p \<equiv> \<lambda>v. attn_addr sp pbsz sk pack ps pb sub v (w + idx)"
    and "d \<equiv> \<lambda>v. attn_addr dp dbsz dk pack (G * ps) db sub v (w + idx) + off * ps"
  assumes pos: "ap_p_token_idx pos = w mod sk" "ap_d_token_idx pos = w mod dk"
  shows "hybrid_attn_token (attn_lay pbsz dbsz sp dp sk dk ps G off pack) pos
      (u64 (u64 (pb ! (w div sp) * pbsz) + u64 (w mod sp div sk * pack * (sk * (2 * ps))) + sub * (sk * (2 * ps))))
      (u64 (u64 (db ! (w div dp) * dbsz) + u64 (w mod dp div dk * pack * (dk * (2 * (G * ps)))) + sub * (dk * (2 * (G * ps)))))
      bounds swap idx out =
    Inr (out @ [hnd_blk swap (p 0) (d 0) ps, hnd_blk swap (p 1) (d 1) ps])"
proof -
  note df = wf [unfolded attn_wf_def]
  note sz = attn_wf_sizes [OF wf l]
  have tab: "pb ! (w div sp) < np" "db ! (w div dp) < nd"
    using df l by (auto dest: table_ok_at)
  have per: "(w + idx) div sp = w div sp" "(w + idx) mod sp div sk = w mod sp div sk" "(w + idx) mod sk = w mod sk + idx"
    "(w + idx) div dp = w div dp" "(w + idx) mod dp div dk = w mod dp div dk" "(w + idx) mod dk = w mod dk + idx"
    using mod_chunk_dvd [of sk sp idx w] mod_chunk_dvd [of dk dp idx w] df idx by auto
  have sl: "off * ps + ps \<le> G * ps"
    using df add_mult_distrib [of off 1 ps] mult_right_mono [of "off + 1" G ps] by simp
  have pe: "p v + ps \<le> (if swap then dst_capacity bounds else src_capacity bounds)" if "v < 2" for v
    using attn_addr_bound [OF _ _ sub that, of sk sp pb "w + idx" np ps pbsz ps] df tab per unfolding p_def by auto
  have de: "d v + ps \<le> (if swap then src_capacity bounds else dst_capacity bounds)" if "v < 2" for v
    using attn_addr_bound [OF _ _ sub that, of dk dp db "w + idx" nd "G * ps" dbsz "off * ps + ps"] df tab per sl
    unfolding d_def by (auto simp: add.assoc)
  have lt: "p v < 2 ^ 64" "d v < 2 ^ 64" if "v < 2" for v
    using pe [OF that] de [OF that] df by (auto split: if_splits)
  have u: "u32 (w mod sk + idx) = w mod sk + idx" "u32 (w mod dk + idx) = w mod dk + idx"
  proof -
    have "sk \<le> sp" "dk \<le> dp" "sp * 1 \<le> sp * pack" "dp * 1 \<le> dp * pack"
      using df by (auto intro!: dvd_imp_le mult_left_mono)
    moreover have "sp * pack < 2 ^ 32" "dp * pack < 2 ^ 32"
      using df by blast+
    ultimately have "w mod sk + idx < 2 ^ 32" "w mod dk + idx < 2 ^ 32"
      using idx by linarith+
    then show "u32 (w mod sk + idx) = w mod sk + idx" "u32 (w mod dk + idx) = w mod dk + idx"
      by (simp_all only: u32_id)
  qed
  have a: "u64 (u64 (u64 (u64 (pb ! (w div sp) * pbsz) + u64 (w mod sp div sk * pack * (sk * (2 * ps))) + sub * (sk * (2 * ps)))
      + (w mod sk + idx) * ps) + v * (sk * ps)) = p v" if "v < 2" for v
  proof -
    have "p v = pb ! (w div sp) * pbsz + w mod sp div sk * pack * (sk * (2 * ps)) + sub * (sk * (2 * ps))
        + (w mod sk + idx) * ps + v * (sk * ps)"
      unfolding p_def attn_addr_def attn_index_def per by (simp add: algebra_simps)
    then show ?thesis
      using lt(1) [OF that] unfolding u64_def by (simp only: mod_simps mod_less)
  qed
  have b: "u64 (u64 (u64 (u64 (u64 (db ! (w div dp) * dbsz) + u64 (w mod dp div dk * pack * (dk * (2 * (G * ps)))) + sub * (dk * (2 * (G * ps))))
      + (w mod dk + idx) * (G * ps)) + off * ps) + v * (dk * (G * ps))) = d v" if "v < 2" for v
  proof -
    have "d v = db ! (w div dp) * dbsz + w mod dp div dk * pack * (dk * (2 * (G * ps))) + sub * (dk * (2 * (G * ps)))
        + (w mod dk + idx) * (G * ps) + off * ps + v * (dk * (G * ps))"
      unfolding d_def attn_addr_def attn_index_def per by (simp add: algebra_simps)
    then show ?thesis
      using lt(2) [OF that] unfolding u64_def by (simp only: mod_simps mod_less)
  qed
  have app: "append_ipc_block_checked out bounds (if swap then d v else p v) (if swap then p v else d v) ps =
      Inr (out @ [hnd_blk swap (p v) (d v) ps])" if "v < 2" for v out
    using df by (intro append_hnd_blk pe de that) auto
  have half: "2 * ps div 2 = ps" "2 * (G * ps) div 2 = G * ps" "sk * (2 * ps) div 2 = sk * ps" "dk * (2 * (G * ps)) div 2 = dk * (G * ps)"
    by simp_all
  show ?thesis
    unfolding hybrid_attn_token_def attn_lay_simps ha_p_kblk_def ha_d_kblk_def sz(5,6) half pos u Let_def
    using a [of 0] a [of 1] b [of 0] b [of 1] app [of 0] app [of 1] by (cases swap) simp_all
qed

abbreviation attn_tok ::
  "nat \<Rightarrow> nat \<Rightarrow> nat \<Rightarrow> nat \<Rightarrow> nat \<Rightarrow> nat \<Rightarrow> nat \<Rightarrow> nat \<Rightarrow> nat \<Rightarrow> nat \<Rightarrow> bool \<Rightarrow> nat list \<Rightarrow> nat list \<Rightarrow>
   nat \<Rightarrow> nat \<Rightarrow> nat \<Rightarrow> ipc_block" where
  "attn_tok pbsz dbsz sp dp sk dk ps G off pack swap pb db sub v i \<equiv>
     hnd_blk swap (attn_addr sp pbsz sk pack ps pb sub v i) (attn_addr dp dbsz dk pack (G * ps) db sub v i + off * ps) ps"

definition attn_body ::
  "nat \<Rightarrow> nat \<Rightarrow> nat \<Rightarrow> nat \<Rightarrow> nat \<Rightarrow> nat \<Rightarrow> nat \<Rightarrow> nat \<Rightarrow> nat \<Rightarrow> nat \<Rightarrow> bool \<Rightarrow> nat list \<Rightarrow> nat list \<Rightarrow>
   nat \<Rightarrow> nat \<Rightarrow> ipc_block list" where
  "attn_body pbsz dbsz sp dp sk dk ps G off pack swap pb db w c =
     concat (map (\<lambda>sub. concat (map (\<lambda>idx.
       [attn_tok pbsz dbsz sp dp sk dk ps G off pack swap pb db sub 0 (w + idx),
        attn_tok pbsz dbsz sp dp sk dk ps G off pack swap pb db sub 1 (w + idx)]) [0..<c])) [0..<pack])"

definition attn_rows ::
  "nat \<Rightarrow> nat \<Rightarrow> nat \<Rightarrow> nat \<Rightarrow> nat \<Rightarrow> nat \<Rightarrow> nat \<Rightarrow> nat \<Rightarrow> nat \<Rightarrow> nat \<Rightarrow> bool \<Rightarrow> nat list \<Rightarrow> nat list \<Rightarrow>
   nat \<Rightarrow> (nat \<times> nat) set" where
  "attn_rows pbsz dbsz sp dp sk dk ps G off pack swap pb db i =
     (\<Union>(v, sub)\<in>{..<2} \<times> {..<pack}.
       hnd_run swap (attn_addr sp pbsz sk pack ps pb sub v i) (attn_addr dp dbsz dk pack (G * ps) db sub v i + off * ps) ps)"

lemma copied_concat_map: "copied (concat (map f xs)) = (\<Union>x\<in>set xs. copied (f x))"
  by (auto simp: copied_def)

lemma UN_regroup:
  "(\<Union>x\<in>A. \<Union>y\<in>B. F (0::nat) x y \<union> F 1 x y) = (\<Union>y\<in>B. \<Union>(v, x)\<in>{..<2} \<times> A. F v x y)"
  unfolding UN_two by blast

lemma copied_attn_body:
  "copied (attn_body pbsz dbsz sp dp sk dk ps G off pack swap pb db w c) =
   (\<Union>i\<in>{w..<w + c}. attn_rows pbsz dbsz sp dp sk dk ps G off pack swap pb db i)"
proof -
  have pair: "copied [attn_tok pbsz dbsz sp dp sk dk ps G off pack swap pb db sub 0 i,
        attn_tok pbsz dbsz sp dp sk dk ps G off pack swap pb db sub 1 i] =
      block_bytes (attn_tok pbsz dbsz sp dp sk dk ps G off pack swap pb db sub 0 i) \<union>
      block_bytes (attn_tok pbsz dbsz sp dp sk dk ps G off pack swap pb db sub 1 i)" for sub i
    by (simp add: copied_def)
  show ?thesis
    unfolding attn_body_def copied_concat_map pair attn_rows_def UN_shift set_upt atLeast0LessThan block_bytes_hnd_blk
    by (rule UN_regroup)
qed

lemma total_len_attn_body:
  "total_len (attn_body pbsz dbsz sp dp sk dk ps G off pack swap pb db w c) = c * (2 * pack * ps)"
proof -
  have "total_len (concat (map (\<lambda>idx. [hnd_blk swap (f idx) (f' idx) ps, hnd_blk swap (g idx) (g' idx) ps]) xs)) =
      2 * length xs * ps" for f f' g g' and xs :: "nat list"
    by (induction xs) (simp_all add: total_len_def hnd_blk_def)
  then have "total_len (concat (map (\<lambda>sub. concat (map (\<lambda>idx.
       [attn_tok pbsz dbsz sp dp sk dk ps G off pack swap pb db sub 0 (w + idx),
        attn_tok pbsz dbsz sp dp sk dk ps G off pack swap pb db sub 1 (w + idx)]) [0..<c])) ys)) = length ys * (2 * c * ps)" for ys
    by (induction ys) (simp_all add: total_len_append, simp add: total_len_def)
  then show ?thesis
    by (simp add: attn_body_def)
qed

lemma hybrid_attn_step:
  assumes wf: "attn_wf pbsz dbsz sp dp sk dk ps G off pack swap bounds pb db np nd w l" and l: "0 < l"
  defines "c \<equiv> hnd_chunk sk dk w l"
  shows "hybrid_attn_loop ndb (attn_lay pbsz dbsz sp dp sk dk ps G off pack) pb db bounds swap w l bs =
    hybrid_attn_loop ndb (attn_lay pbsz dbsz sp dp sk dk ps G off pack) pb db bounds swap (w + c) (l - c)
      (bs @ attn_body pbsz dbsz sp dp sk dk ps G off pack swap pb db w c)"
proof -
  note df = wf [unfolded attn_wf_def]
  note sz = attn_wf_sizes [OF wf l]
  let ?A = "attn_lay pbsz dbsz sp dp sk dk ps G off pack"
  let ?pos = "\<lparr> ap_p_blk_idx = w div sp, ap_d_blk_idx = w div dp, ap_p_token_idx = w mod sk, ap_d_token_idx = w mod dk,
      ap_p_off_base = u64 (w mod sp div sk * pack * (sk * (2 * ps))),
      ap_d_off_base = u64 (w mod dp div dk * pack * (dk * (2 * (G * ps)))), ap_sub_blocks = pack \<rparr>"
  have tab: "w div sp < length pb" "w div dp < length db"
    using df l by (auto dest: table_ok_at)
  have tok: "hybrid_attn_token ?A ?pos
      (u64 (u64 (pb ! (w div sp) * pbsz) + u64 (w mod sp div sk * pack * (sk * (2 * ps))) + sub * (sk * (2 * ps))))
      (u64 (u64 (db ! (w div dp) * dbsz) + u64 (w mod dp div dk * pack * (dk * (2 * (G * ps)))) + sub * (dk * (2 * (G * ps)))))
      bounds swap idx out =
    Inr (out @ [attn_tok pbsz dbsz sp dp sk dk ps G off pack swap pb db sub 0 (w + idx),
        attn_tok pbsz dbsz sp dp sk dk ps G off pack swap pb db sub 1 (w + idx)])"
    if "sub \<in> set [0..<pack]" "idx \<in> set [0..<c]" for sub idx out
    using hybrid_attn_token_copies [OF wf l, of sub idx ?pos out] that by (simp add: c_def)
  have r: "rfold (\<lambda>sub. rfold (hybrid_attn_token ?A ?pos
      (u64 (u64 (pb ! (w div sp) * pbsz) + u64 (w mod sp div sk * pack * (sk * (2 * ps))) + sub * (sk * (2 * ps))))
      (u64 (u64 (db ! (w div dp) * dbsz) + u64 (w mod dp div dk * pack * (dk * (2 * (G * ps)))) + sub * (dk * (2 * (G * ps)))))
      bounds swap) [0..<c]) [0..<pack] bs = Inr (bs @ attn_body pbsz dbsz sp dp sk dk ps G off pack swap pb db w c)"
    unfolding attn_body_def by (intro rfold_emit tok)
  have u: "u32 (w + c) = w + c"
    using df by (intro u32_id) (auto simp: c_def)
  have half: "2 * ps div 2 * 2 = 2 * ps" "2 * (G * ps) div 2 * 2 = 2 * (G * ps)"
    by simp_all
  show ?thesis
    by (subst hybrid_attn_loop.simps)
      (simp only: hybrid_attn_pos_lay [OF wf l] attn_lay_simps ha_p_kblk_def ha_d_kblk_def sz(5,6) attn_pos.simps rbind_Inr
        Let_def c_def [symmetric] tab vec_at_pass c_assert_pass simp_thms l if_True r u half)
qed

interpretation hattn: token_loop "hybrid_attn_loop ndb (attn_lay pbsz dbsz sp dp sk dk ps G off pack) pb db bounds swap"
  "attn_wf pbsz dbsz sp dp sk dk ps G off pack swap bounds pb db np nd" "hnd_chunk sk dk"
  "\<lambda>w l. attn_body pbsz dbsz sp dp sk dk ps G off pack swap pb db w (hnd_chunk sk dk w l)"
  "attn_rows pbsz dbsz sp dp sk dk ps G off pack swap pb db" "2 * pack * ps"
  "\<lambda>i b. \<exists>sub v. b = attn_tok pbsz dbsz sp dp sk dk ps G off pack swap pb db sub v i"
  for ndb pbsz dbsz sp dp sk dk ps G off pack swap pb db bounds np nd
proof (unfold_locales, goal_cases)
  case (1 w bs)
  show ?case
    by (simp add: hybrid_attn_loop.simps)
next
  case (2 w l bs)
  then show ?case
    by (rule hybrid_attn_step)
next
  case (3 w l)
  then show ?case
    using attn_wf_sizes(1,2) [OF 3] by simp
next
  case (4 w l)
  then show ?case
    by (auto simp: attn_wf_def intro!: table_ok_shift)
next
  case (5 w l)
  show ?case
    by (rule copied_attn_body)
next
  case (6 w l)
  show ?case
    by (rule total_len_attn_body)
next
  case (7 w l b)
  then obtain sub idx v where b: "idx < hnd_chunk sk dk w l"
    "b = attn_tok pbsz dbsz sp dp sk dk ps G off pack swap pb db sub v (w + idx)"
    unfolding attn_body_def by auto
  show ?case
    by (intro bexI [of _ "w + idx"] exI, rule b(2)) (use b(1) in simp)
qed

lemma parse_hybrid_attn_copies:
  assumes "attn_wf pbsz dbsz sp dp sk dk ps G off pack swap bounds pb db np nd w l"
  shows "\<exists>out. parse_hybrid_attn_block env (attn_lay pbsz dbsz sp dp sk dk ps G off pack) pb db w l bounds swap bs =
      Inr (bs @ out) \<and>
    copied out = (\<Union>i\<in>{w..<w + l}. attn_rows pbsz dbsz sp dp sk dk ps G off pack swap pb db i) \<and>
    total_len out = l * (2 * pack * ps)"
  using hattn.loop_copies [OF assms, of "ndebug env" bs] by (auto simp: parse_hybrid_attn_block_def)

lemma UN_triple: "(\<Union>i\<in>I. \<Union>(v, s)\<in>A \<times> B. F v s i) = (\<Union>(i, v, s)\<in>I \<times> A \<times> B. F v s i)"
  by blast

text \<open>
  C27. Packed attention blocks, prefill TP larger than decode TP: the \<open>G\<close> prefill workers of a decode worker,
  running one after the other, leave for every layer of the pack, K and V, and every new token the entry
  of worker \<open>off\<close> as slice \<open>off\<close> of the decode worker's entry, and change no other byte. Prefill and
  decode may differ in tokens per page and in kernel block size.
\<close>

theorem hybrid_attn_gather:
  assumes wf: "\<forall>off<G. attn_wf pbsz dbsz sp dp sk dk ps G off pack False bounds pb db np nd w l" and "distinct db"
  shows "\<exists>outs. (\<forall>off<G. parse_hybrid_attn_block env (attn_lay pbsz dbsz sp dp sk dk ps G off pack) pb db w l bounds False [] =
      Inr (outs off)) \<and>
    (\<forall>mem dmem. \<forall>off<G. \<forall>sub<pack. \<forall>v<2. \<forall>i\<in>{w..<w + l}. \<forall>k<ps.
      gather mem outs G dmem (attn_addr dp dbsz dk pack (G * ps) db sub v i + off * ps + k) =
      mem off (attn_addr sp pbsz sk pack ps pb sub v i + k)) \<and>
    (\<forall>mem dmem a. (\<forall>off<G. \<forall>sub<pack. \<forall>v<2. \<forall>i\<in>{w..<w + l}.
          a \<notin> {attn_addr dp dbsz dk pack (G * ps) db sub v i + off * ps..<
               attn_addr dp dbsz dk pack (G * ps) db sub v i + off * ps + ps}) \<longrightarrow>
      gather mem outs G dmem a = dmem a)"
proof -
  let ?X = "{w..<w + l} \<times> {..<2::nat} \<times> {..<pack}"
  let ?f = "\<lambda>off::nat. \<lambda>(i, v, sub). attn_addr sp pbsz sk pack ps pb sub v i"
  let ?h = "\<lambda>off. \<lambda>(i, v, sub). attn_addr dp dbsz dk pack (G * ps) db sub v i + off * ps"
  let ?A = "\<lambda>off out. parse_hybrid_attn_block env (attn_lay pbsz dbsz sp dp sk dk ps G off pack) pb db w l bounds False [] = Inr out"
    and ?B = "\<lambda>off out. copied out = (\<Union>x\<in>?X. run (?f off x) (?h off x) ps)"
  have rows: "(\<Union>i\<in>I. attn_rows pbsz dbsz sp dp sk dk ps G off pack False pb db i) =
      (\<Union>x\<in>I \<times> {..<2} \<times> {..<pack}. run (?f off x) (?h off x) ps)" for I off
    unfolding attn_rows_def hnd_run_def UN_triple by (simp add: case_prod_beta)
  have "\<forall>off<G. \<exists>out. ?A off out \<and> ?B off out"
  proof (intro allI impI)
    fix off
    assume "off < G"
    from parse_hybrid_attn_copies [OF wf [rule_format, OF this], of env "[]"]
    show "\<exists>out. ?A off out \<and> ?B off out"
      unfolding rows append_Nil by (elim exE conjE) (intro exI conjI)
  qed
  from choose_family [where A = ?A and B = ?B, OF this]
  obtain outs where outs: "\<forall>off<G. ?A off (outs off)" and copied: "\<forall>off<G. ?B off (outs off)"
    by (elim exE conjE)
  have mem: "(\<forall>off<G. \<forall>x\<in>?X. \<forall>k<ps. gather mem outs G dmem (?h off x + k) = mem off (?f off x + k)) \<and>
      (\<forall>a. (\<forall>off<G. \<forall>x\<in>?X. a \<notin> {?h off x..<?h off x + ps}) \<longrightarrow> gather mem outs G dmem a = dmem a)"
    for mem :: "nat \<Rightarrow> nat \<Rightarrow> 'v" and dmem
  proof (rule layout_gather [OF copied [rule_format]])
    fix o1 o2 x x' k k'
    assume x: "o1 < G" "o2 < G" "x \<in> ?X" "x' \<in> ?X" "k < ps" "k' < ps" "?h o1 x + k = ?h o2 x' + k'"
    obtain i v sub i' v' sub' where xs: "x = (i, v, sub)" "x' = (i', v', sub')"
      by (cases x, cases x')
    note d = wf [rule_format, OF x(1), unfolded attn_wf_def]
    have tab: "i div dp < length db" "i' div dp < length db"
      using d x(3,4) by (auto simp: xs table_ok_def)
    have "sub = sub' \<and> v = v' \<and> i = i' \<and> o1 * ps + k = o2 * ps + k'"
      using attn_addr_inj [OF _ _ assms(2) tab, of dk sub pack sub' v v' "o1 * ps + k" "G * ps" "o2 * ps + k'" dbsz]
        d x radix_bound [OF x(1,5)] radix_bound [OF x(2,6)] by (simp add: xs add.assoc)
    then show "o1 = o2 \<and> x = x' \<and> k = k'"
      using radix_inj [OF _ x(5,6), of o1 o2] by (simp add: xs)
  qed
  show ?thesis
  proof (intro exI [of _ outs] conjI allI ballI impI)
    fix mem :: "nat \<Rightarrow> nat \<Rightarrow> 'a" and dmem off sub v i k
    assume "off < G" and "sub < pack" and "v < (2::nat)" and "i \<in> {w..<w + l}" and "k < ps"
    then show "gather mem outs G dmem (attn_addr dp dbsz dk pack (G * ps) db sub v i + off * ps + k) =
        mem off (attn_addr sp pbsz sk pack ps pb sub v i + k)"
      using mem [THEN conjunct1, rule_format, of off "(i, v, sub)" k] by simp
  next
    fix mem :: "nat \<Rightarrow> nat \<Rightarrow> 'b" and dmem a
    assume "\<forall>off<G. \<forall>sub<pack. \<forall>v<2. \<forall>i\<in>{w..<w + l}.
      a \<notin> {attn_addr dp dbsz dk pack (G * ps) db sub v i + off * ps..<attn_addr dp dbsz dk pack (G * ps) db sub v i + off * ps + ps}"
    then show "gather mem outs G dmem a = dmem a"
      using mem [THEN conjunct2, rule_format, of a] by auto
  qed (use outs in simp)
qed

text \<open>
  C28. Packed attention blocks, decode TP larger than prefill TP (the two sides swapped): the descriptors leave in
  the decode worker's entry of every layer, K and V, and new token its own slice \<open>off\<close> of the prefill entry, and
  change no other byte.
\<close>

theorem hybrid_attn_slice:
  assumes wf: "attn_wf pbsz dbsz sp dp sk dk ps G off pack True bounds pb db np nd w l" and "distinct pb"
  shows "\<exists>out. parse_hybrid_attn_block env (attn_lay pbsz dbsz sp dp sk dk ps G off pack) pb db w l bounds True [] = Inr out \<and>
    total_len out = l * (2 * pack * ps) \<and>
    (\<forall>mem dmem.
      (\<forall>sub<pack. \<forall>v<2. \<forall>i\<in>{w..<w + l}. \<forall>k<ps.
        transfer mem out dmem (attn_addr sp pbsz sk pack ps pb sub v i + k) =
        mem (attn_addr dp dbsz dk pack (G * ps) db sub v i + off * ps + k)) \<and>
      (\<forall>a. (\<forall>sub<pack. \<forall>v<2. \<forall>i\<in>{w..<w + l}.
          a \<notin> {attn_addr sp pbsz sk pack ps pb sub v i..<attn_addr sp pbsz sk pack ps pb sub v i + ps}) \<longrightarrow>
        transfer mem out dmem a = dmem a))"
proof -
  let ?X = "{w..<w + l} \<times> {..<2::nat} \<times> {..<pack}"
  let ?h = "\<lambda>(i, v, sub). attn_addr sp pbsz sk pack ps pb sub v i"
  let ?f = "\<lambda>(i, v, sub). attn_addr dp dbsz dk pack (G * ps) db sub v i + off * ps"
  note d = wf [unfolded attn_wf_def]
  have rows: "(\<Union>i\<in>I. attn_rows pbsz dbsz sp dp sk dk ps G off pack True pb db i) =
      (\<Union>x\<in>I \<times> {..<2} \<times> {..<pack}. run (?f x) (?h x) ps)" for I
    unfolding attn_rows_def hnd_run_def UN_triple by (simp add: case_prod_beta)
  obtain out where out: "parse_hybrid_attn_block env (attn_lay pbsz dbsz sp dp sk dk ps G off pack) pb db w l bounds True [] = Inr out"
    "copied out = (\<Union>x\<in>?X. run (?f x) (?h x) ps)" "total_len out = l * (2 * pack * ps)"
    using parse_hybrid_attn_copies [OF wf, of env "[]"] unfolding rows by auto
  have "(\<forall>x\<in>?X. \<forall>k<ps. transfer mem out dmem (?h x + k) = mem (?f x + k)) \<and>
      (\<forall>a. (\<forall>x\<in>?X. a \<notin> {?h x..<?h x + ps}) \<longrightarrow> transfer mem out dmem a = dmem a)" for mem dmem :: "nat \<Rightarrow> 'a"
  proof (rule layout_memory [OF out(2)])
    fix x x' k k'
    assume x: "x \<in> ?X" "x' \<in> ?X" "k < ps" "k' < ps" "?h x + k = ?h x' + k'"
    obtain i v sub i' v' sub' where xs: "x = (i, v, sub)" "x' = (i', v', sub')"
      by (cases x, cases x')
    have tab: "i div sp < length pb" "i' div sp < length pb"
      using d x(1,2) by (auto simp: xs table_ok_def)
    show "x = x' \<and> k = k'"
      using attn_addr_inj [OF _ _ assms(2) tab, of sk sub pack sub' v v' k ps k' pbsz] d x by (simp add: xs)
  qed
  then show ?thesis
    using out(1,3) by (intro exI [of _ out]) (auto simp: Ball_def)
qed

text \<open>Instances: two packed layers, pages of four tokens on one side and of two on the other.\<close>

lemma demo_attn_wf:
  assumes "off < 2"
  shows "attn_wf 16 16 4 2 2 2 1 2 off 2 swap
    \<lparr> src_capacity = 48, dst_capacity = 48, src_length_scale = 1, bounds_cache_idx = 0 \<rparr> [2, 1] [0, 2, 1] 3 3 3 2"
  using assms by (simp add: attn_wf_def table_ok_code)

theorem hybrid_attn_gather_witness:
  "\<exists>outs. (\<forall>off<2. parse_hybrid_attn_block demo_env (attn_lay 16 16 4 2 2 2 1 2 off 2) [2, 1] [0, 2, 1] 3 2
      \<lparr> src_capacity = 48, dst_capacity = 48, src_length_scale = 1, bounds_cache_idx = 0 \<rparr> False [] = Inr (outs off)) \<and>
    (\<forall>mem :: nat \<Rightarrow> nat \<Rightarrow> nat. \<forall>dmem. gather mem outs 2 dmem 47 = mem 1 47)"
proof -
  let ?b = "\<lparr> src_capacity = 48, dst_capacity = 48, src_length_scale = 1, bounds_cache_idx = 0 \<rparr>"
  have "\<forall>off<2. attn_wf 16 16 4 2 2 2 1 2 off 2 False ?b [2, 1] [0, 2, 1] 3 3 3 2" "distinct [0::nat, 2, 1]"
    using demo_attn_wf by simp_all
  from hybrid_attn_gather [OF this, where env = demo_env]
  obtain outs where outs: "\<forall>off<2. parse_hybrid_attn_block demo_env (attn_lay 16 16 4 2 2 2 1 2 off 2) [2, 1] [0, 2, 1] 3 2
      ?b False [] = Inr (outs off)"
    and mem: "\<forall>(mem :: nat \<Rightarrow> nat \<Rightarrow> nat) dmem. \<forall>off<2. \<forall>sub<2. \<forall>v<2. \<forall>i\<in>{3..<3 + 2}. \<forall>k<1.
      gather mem outs 2 dmem (attn_addr 2 16 2 2 (2 * 1) [0, 2, 1] sub v i + off * 1 + k) =
      mem off (attn_addr 4 16 2 2 1 [2, 1] sub v i + k)"
    by (elim exE conjE) (rule that)
  have "gather mem outs 2 dmem 47 = mem 1 47" for mem :: "nat \<Rightarrow> nat \<Rightarrow> nat" and dmem
    using mem [rule_format, of 1 1 1 3 0 mem dmem] by (simp add: attn_addr_def attn_index_def)
  with outs show ?thesis
    by (intro exI [of _ outs] conjI) simp_all
qed

theorem hybrid_attn_slice_witness:
  "\<exists>out. parse_hybrid_attn_block demo_env (attn_lay 16 16 4 2 2 2 1 2 1 2) [2, 1] [0, 2, 1] 3 2
      \<lparr> src_capacity = 48, dst_capacity = 48, src_length_scale = 1, bounds_cache_idx = 0 \<rparr> True [] = Inr out \<and>
    (\<forall>mem dmem :: nat \<Rightarrow> nat. transfer mem out dmem 47 = mem 47)"
proof -
  let ?b = "\<lparr> src_capacity = 48, dst_capacity = 48, src_length_scale = 1, bounds_cache_idx = 0 \<rparr>"
  have "attn_wf 16 16 4 2 2 2 1 2 1 2 True ?b [2, 1] [0, 2, 1] 3 3 3 2" "distinct [2::nat, 1]"
    using demo_attn_wf by simp_all
  from hybrid_attn_slice [OF this, where env = demo_env]
  obtain out where out: "parse_hybrid_attn_block demo_env (attn_lay 16 16 4 2 2 2 1 2 1 2) [2, 1] [0, 2, 1] 3 2 ?b True [] = Inr out"
    and mem: "\<forall>mem dmem :: nat \<Rightarrow> nat. (\<forall>sub<2. \<forall>v<2. \<forall>i\<in>{3..<3 + 2}. \<forall>k<1.
        transfer mem out dmem (attn_addr 4 16 2 2 1 [2, 1] sub v i + k) =
        mem (attn_addr 2 16 2 2 (2 * 1) [0, 2, 1] sub v i + 1 * 1 + k)) \<and>
      (\<forall>a. (\<forall>sub<2. \<forall>v<2. \<forall>i\<in>{3..<3 + 2}.
          a \<notin> {attn_addr 4 16 2 2 1 [2, 1] sub v i..<attn_addr 4 16 2 2 1 [2, 1] sub v i + 1}) \<longrightarrow>
        transfer mem out dmem a = dmem a)"
    by (elim exE conjE) (rule that)
  have "transfer mem out dmem 47 = mem 47" for mem dmem :: "nat \<Rightarrow> nat"
    using mem [rule_format, THEN conjunct1, rule_format, of 1 1 3 0 mem dmem] by (simp add: attn_addr_def attn_index_def)
  with out show ?thesis
    by (intro exI [of _ out] conjI) simp_all
qed

end
