(* ===== verification/HybridState.thy ===== *)
theory HybridState
  imports ParseHybrid
begin

text \<open>
  The recurrent state of the linear attention layers (\<open>parse_block_qwen3_next.cpp\<close>): where each byte of the state
  of a prefill worker lies in the state of the decode worker, and that the emitted descriptors put it there.
\<close>

section \<open>GDN state, prefill TP larger than decode TP\<close>

text \<open>
  The place of byte \<open>x\<close> of a convolution row of prefill worker \<open>off\<close> in the row of the decode worker: within each
  channel segment (of \<open>c * el\<close> bytes per worker) the segments of the \<open>gn\<close> workers lie side by side.
\<close>

primrec gdn_spread :: "nat \<Rightarrow> nat \<Rightarrow> nat \<Rightarrow> nat list \<Rightarrow> nat \<Rightarrow> nat" where
  "gdn_spread el gn off [] x = x"
| "gdn_spread el gn off (c # cs) x =
     (if x < c * el then off * (c * el) + x else gn * (c * el) + gdn_spread el gn off cs (x - c * el))"

lemma gdn_spread_less:
  "off < gn \<Longrightarrow> x < sum_list cs * el \<Longrightarrow> gdn_spread el gn off cs x < gn * (sum_list cs * el)"
proof (induction cs arbitrary: x)
  case (Cons c cs)
  have "gn * (c * el) + gn * (sum_list cs * el) = gn * (sum_list (c # cs) * el)"
    by (simp add: algebra_simps)
  moreover have "off * (c * el) + x < gn * (c * el)" if "x < c * el"
    using radix_bound [OF Cons.prems(1) that] .
  moreover have "gdn_spread el gn off cs (x - c * el) < gn * (sum_list cs * el)" if "\<not> x < c * el"
    using Cons.IH [OF Cons.prems(1), of "x - c * el"] Cons.prems(2) that by (simp add: algebra_simps)
  ultimately show ?case
    by (simp, linarith)
qed simp

lemma gdn_spread_inj:
  assumes "off < gn" and "off' < gn" and "x < sum_list cs * el" and "y < sum_list cs * el"
    and "gdn_spread el gn off cs x = gdn_spread el gn off' cs y"
  shows "off = off' \<and> x = y"
  using assms(3-)
proof (induction cs arbitrary: x y)
  case (Cons c cs)
  let ?s = "c * el"
  have low: "o' * ?s + z < gn * ?s" if "o' < gn" "z < ?s" for o' z
    using that by (rule radix_bound)
  consider "x < ?s" "y < ?s" | "\<not> x < ?s" "\<not> y < ?s" | "x < ?s" "\<not> y < ?s" | "\<not> x < ?s" "y < ?s"
    by blast
  then show ?case
  proof cases
    case 1
    then show ?thesis
      using Cons.prems(3) radix_inj [of off ?s x off' y] by simp
  next
    case 2
    then have "off = off' \<and> x - ?s = y - ?s"
      using Cons.prems by (intro Cons.IH) (auto simp: algebra_simps)
    with 2 show ?thesis
      by linarith
  next
    case 3
    then show ?thesis
      using Cons.prems(3) low [OF assms(1) 3(1)] by simp
  next
    case 4
    then show ?thesis
      using Cons.prems(3) low [OF assms(2) 4(2)] by simp
  qed
qed simp

definition copy_map :: "nat \<Rightarrow> nat \<Rightarrow> (nat \<Rightarrow> nat) \<Rightarrow> nat \<Rightarrow> (nat \<times> nat) set" where
  "copy_map s d f n = (\<lambda>x. (s + x, d + f x)) ` {..<n}"

lemma copy_map_run: "run s d n = copy_map s d (\<lambda>x. x) n"
  by (auto simp: run_def copy_map_def)

lemma copy_map_split:
  "copy_map s d f (a + b) = copy_map s d f a \<union> copy_map (s + a) d (\<lambda>x. f (a + x)) b"
proof -
  have "{..<a + b} = {..<a} \<union> (\<lambda>x. a + x) ` {..<b}"
    using image_add_atLeastLessThan [of a 0 b] by (auto simp: lessThan_atLeast0 add.commute)
  then show ?thesis
    by (simp add: copy_map_def image_Un image_image add.assoc)
qed

lemma copy_map_cong: "(\<And>x. x < n \<Longrightarrow> d + f x = d' + g x) \<Longrightarrow> copy_map s d f n = copy_map s d' g n"
  by (auto simp: copy_map_def)

lemma gdn_channels_copies:
  assumes "off < gn" and "0 < el" and "src_length_scale bounds = 1" and "src_capacity bounds < 2 ^ 64"
    and "dst_capacity bounds < 2 ^ 64" and "p + T \<le> src_capacity bounds" and "d + gn * T \<le> dst_capacity bounds"
    and "\<forall>c\<in>set cs. 0 < c" and "inner + sum_list cs * el = T"
  shows "\<exists>out. gdn_conv_channels_gt nd p d T gn off el bounds cs inner bs = Inr (bs @ out) \<and>
    copied out = copy_map (p + inner) (d + gn * inner) (gdn_spread el gn off cs) (sum_list cs * el) \<and>
    total_len out = sum_list cs * el"
  using assms(8,9)
proof (induction cs arbitrary: inner bs)
  case Nil
  then show ?case
    by (intro exI [of _ "[]"]) (simp add: copied_def copy_map_def total_len_def)
next
  case (Cons c cs)
  let ?s = "c * el" and ?r = "sum_list cs * el"
  have pos: "0 < ?s" and T: "inner + ?s + ?r = T"
    using Cons.prems assms(2) by (simp_all add: algebra_simps)
  have T1: "inner + ?s \<le> T"
    using T by linarith
  then have gT: "gn * inner + gn * ?s \<le> gn * T"
    using mult_left_mono [of "inner + ?s" T gn] by (simp add: add_mult_distrib2)
  have os: "off * ?s + ?s \<le> gn * ?s"
    using mult_right_mono [of "off + 1" gn ?s] assms(1) by simp
  have u: "u64 ?s = ?s" "u64 (p + inner) = p + inner" "u64 (d + gn * inner + off * ?s) = d + gn * inner + off * ?s"
    "u64 (inner + ?s) = inner + ?s"
    using T1 gT os assms(4-7) by (auto intro!: u64_id)
  let ?b = "IpcBlock (p + inner) (d + gn * inner + off * ?s) ?s"
  have app: "append_ipc_block_checked bs bounds (p + inner) (d + gn * inner + off * ?s) ?s = Inr (bs @ [?b])"
    using T1 gT os pos assms(3-7) by (auto simp: append_ipc_block_checked_Inr_iff)
  obtain out where out: "gdn_conv_channels_gt nd p d T gn off el bounds cs (inner + ?s) (bs @ [?b]) = Inr ((bs @ [?b]) @ out)"
    "copied out = copy_map (p + (inner + ?s)) (d + gn * (inner + ?s)) (gdn_spread el gn off cs) ?r" "total_len out = ?r"
    using Cons.IH [of "inner + ?s" "bs @ [?b]"] Cons.prems(1) T by (auto simp: add.assoc)
  have "gdn_conv_channels_gt nd p d T gn off el bounds (c # cs) inner bs = Inr (bs @ (?b # out))"
    using app out(1) u by (simp add: Let_def)
  moreover have "copied (?b # out) =
      copy_map (p + inner) (d + gn * inner) (gdn_spread el gn off (c # cs)) (?s + ?r)"
  proof -
    have "block_bytes ?b = copy_map (p + inner) (d + gn * inner) (gdn_spread el gn off (c # cs)) ?s"
      by (simp add: copy_map_run) (rule copy_map_cong, simp)
    moreover have "copied out = copy_map (p + inner + ?s) (d + gn * inner) (\<lambda>x. gdn_spread el gn off (c # cs) (?s + x)) ?r"
      unfolding out(2) by (simp add: add.assoc) (rule copy_map_cong, simp add: add_mult_distrib2)
    ultimately show ?thesis
      by (simp add: copy_map_split copied_def)
  qed
  moreover have "total_len (?b # out) = ?s + ?r"
    using out(3) by (simp add: total_len_def)
  moreover have "sum_list (c # cs) * el = ?s + ?r"
    by (simp add: add_mult_distrib)
  ultimately show ?case
    by (intro exI [of _ "?b # out"]) (simp only:)
qed

text \<open>
  The place of byte \<open>y\<close> of the state of worker \<open>off\<close>: \<open>c1\<close> convolution rows of \<open>dim\<close> bytes, then \<open>ssm\<close> bytes of the
  recurrent state.
\<close>

definition gdn_place :: "nat list \<Rightarrow> nat \<Rightarrow> nat \<Rightarrow> nat \<Rightarrow> nat \<Rightarrow> nat \<Rightarrow> nat \<Rightarrow> nat" where
  "gdn_place dims el c1 ssm gn off y =
     (let dim = sum_list dims * el in
      if y < c1 * dim then y div dim * (gn * dim) + gdn_spread el gn off dims (y mod dim)
      else gn * (c1 * dim) + off * ssm + (y - c1 * dim))"

lemma gdn_place_less:
  assumes "off < gn" and "y < c1 * (sum_list dims * el) + ssm"
  shows "gdn_place dims el c1 ssm gn off y < gn * (c1 * (sum_list dims * el) + ssm)"
proof (cases "y < c1 * (sum_list dims * el)")
  case True
  let ?dim = "sum_list dims * el"
  have "0 < ?dim"
    using True by (auto intro: Nat.gr0I)
  then have "gdn_spread el gn off dims (y mod ?dim) < gn * ?dim"
    using assms(1) by (intro gdn_spread_less) simp_all
  moreover have "y div ?dim < c1"
    using True by (simp add: less_mult_imp_div_less)
  ultimately have "y div ?dim * (gn * ?dim) + gdn_spread el gn off dims (y mod ?dim) < c1 * (gn * ?dim)"
    by (intro radix_bound)
  then show ?thesis
    using True by (simp add: gdn_place_def Let_def algebra_simps)
next
  case False
  let ?dim = "sum_list dims * el"
  have "off * ssm + (y - c1 * ?dim) < gn * ssm"
    using False assms by (intro radix_bound) auto
  then show ?thesis
    using False by (simp add: gdn_place_def Let_def add_mult_distrib2)
qed

lemma gdn_place_inj:
  assumes "off < gn" and "off' < gn" and "x < c1 * (sum_list dims * el) + ssm" and "y < c1 * (sum_list dims * el) + ssm"
    and eq: "gdn_place dims el c1 ssm gn off x = gdn_place dims el c1 ssm gn off' y"
  shows "off = off' \<and> x = y"
proof -
  let ?dim = "sum_list dims * el"
  have conv: "0 < ?dim \<and> z div ?dim * (gn * ?dim) + gdn_spread el gn o' dims (z mod ?dim) < gn * (c1 * ?dim) \<and>
      gdn_spread el gn o' dims (z mod ?dim) < gn * ?dim \<and> z mod ?dim < ?dim"
    if "o' < gn" "z < c1 * ?dim" for o' z
  proof -
    have dim: "0 < ?dim"
      using that(2) by (auto intro: Nat.gr0I)
    then have sp: "gdn_spread el gn o' dims (z mod ?dim) < gn * ?dim"
      using that(1) by (intro gdn_spread_less) simp_all
    moreover have "z div ?dim < c1"
      using that(2) by (simp add: less_mult_imp_div_less)
    ultimately have "z div ?dim * (gn * ?dim) + gdn_spread el gn o' dims (z mod ?dim) < c1 * (gn * ?dim)"
      by (intro radix_bound)
    with dim sp show ?thesis
      by (simp add: algebra_simps)
  qed
  consider "x < c1 * ?dim" "y < c1 * ?dim" | "\<not> x < c1 * ?dim" "\<not> y < c1 * ?dim"
    | "x < c1 * ?dim" "\<not> y < c1 * ?dim" | "\<not> x < c1 * ?dim" "y < c1 * ?dim"
    by blast
  then show ?thesis
  proof cases
    case 1
    note cx = conv [OF assms(1) 1(1)] and cy = conv [OF assms(2) 1(2)]
    have e: "x div ?dim * (gn * ?dim) + gdn_spread el gn off dims (x mod ?dim) =
        y div ?dim * (gn * ?dim) + gdn_spread el gn off' dims (y mod ?dim)"
      using eq 1 by (simp add: gdn_place_def Let_def)
    have r: "x div ?dim = y div ?dim" "gdn_spread el gn off dims (x mod ?dim) = gdn_spread el gn off' dims (y mod ?dim)"
      using radix_inj [OF e] cx cy by blast+
    have m: "off = off' \<and> x mod ?dim = y mod ?dim"
      using r(2) cx cy by (intro gdn_spread_inj [OF assms(1,2)]) blast+
    have "x = x div ?dim * ?dim + x mod ?dim" "y = y div ?dim * ?dim + y mod ?dim"
      by (simp_all only: div_mult_mod_eq)
    then show ?thesis
      using r(1) m by argo
  next
    case 2
    then have "off * ssm + (x - c1 * ?dim) = off' * ssm + (y - c1 * ?dim)"
      using eq by (simp add: gdn_place_def Let_def)
    then have "off = off' \<and> x - c1 * ?dim = y - c1 * ?dim"
      by (rule radix_inj) (use 2 assms(3,4) in linarith)+
    with 2 show ?thesis
      by linarith
  next
    case 3
    then show ?thesis
      using eq conv [OF assms(1) 3(1)] by (simp add: gdn_place_def Let_def) linarith
  next
    case 4
    then show ?thesis
      using eq conv [OF assms(2) 4(2)] by (simp add: gdn_place_def Let_def) linarith
  qed
qed

lemma rfold_copies:
  assumes "\<And>x out. x \<in> set xs \<Longrightarrow> \<exists>new. f x out = Inr (out @ new) \<and> copied new = R x \<and> total_len new = len x"
  shows "\<exists>new. rfold f xs out = Inr (out @ new) \<and> copied new = (\<Union>x\<in>set xs. R x) \<and>
    total_len new = sum_list (map len xs)"
  using assms
proof (induction xs arbitrary: out)
  case Nil
  then show ?case
    by (auto simp: copied_def total_len_def)
next
  case (Cons x xs)
  obtain new where new: "f x out = Inr (out @ new)" "copied new = R x" "total_len new = len x"
    using Cons.prems [of x out] by auto
  obtain news where "rfold f xs (out @ new) = Inr ((out @ new) @ news)" "copied news = (\<Union>x\<in>set xs. R x)"
    "total_len news = sum_list (map len xs)"
    using Cons.IH [of "out @ new"] Cons.prems by auto
  then show ?case
    using new by (intro exI [of _ "new @ news"]) (simp add: total_len_append)
qed

lemma copy_map_rows:
  assumes "0 < dim"
  shows "(\<Union>c\<in>{..<n}. copy_map (s + c * dim) (d + c * e) f dim) = copy_map s d (\<lambda>y. y div dim * e + f (y mod dim)) (n * dim)"
proof (induction n)
  case 0
  then show ?case
    by (simp add: copy_map_def)
next
  case (Suc n)
  have "copy_map s d (\<lambda>y. y div dim * e + f (y mod dim)) (n * dim + dim) =
      copy_map s d (\<lambda>y. y div dim * e + f (y mod dim)) (n * dim) \<union> copy_map (s + n * dim) (d + n * e) f dim"
    unfolding copy_map_split using assms by (intro arg_cong2 [where f = "(\<union>)"] refl copy_map_cong) simp
  then show ?case
    using Suc by (simp add: lessThan_Suc Un_commute add.commute [of dim])
qed

lemma gdn_block_copies:
  assumes bd: "src_length_scale bounds = 1" "src_capacity bounds < 2 ^ 64" "dst_capacity bounds < 2 ^ 64"
    and off: "off < gn" and el: "0 < el" and dims: "dims \<noteq> []" "\<forall>c\<in>set dims. 0 < c" and ssm: "0 < ssm"
    and cap: "p + (c1 * (sum_list dims * el) + ssm) \<le> src_capacity bounds"
      "d + gn * (c1 * (sum_list dims * el) + ssm) \<le> dst_capacity bounds"
  shows "\<exists>out. rbind (rfold (\<lambda>conv_dim out.
          gdn_conv_channels_gt nd (u64 (u64 p + conv_dim * (sum_list dims * el)))
            (u64 (u64 d + conv_dim * (gn * (sum_list dims * el)))) (sum_list dims * el) gn off el bounds dims 0 out)
        [0..<c1] bs) (\<lambda>out'.
        append_ipc_block_checked out' bounds (u64 (u64 p + c1 * (sum_list dims * el)))
          (u64 (u64 d + gn * (c1 * (sum_list dims * el)) + off * ssm)) ssm) = Inr (bs @ out) \<and>
    copied out = copy_map p d (gdn_place dims el c1 ssm gn off) (c1 * (sum_list dims * el) + ssm) \<and>
    total_len out = c1 * (sum_list dims * el) + ssm"
proof -
  let ?dim = "sum_list dims * el"
  have dim: "0 < ?dim"
    using dims el by (cases dims) auto
  have gS: "gn * (c1 * ?dim + ssm) = gn * (c1 * ?dim) + gn * ssm"
    by (rule add_mult_distrib2)
  have os: "off * ssm + ssm \<le> gn * ssm"
    using mult_right_mono [of "off + 1" gn ssm] off by simp
  have row: "\<exists>out. gdn_conv_channels_gt nd (u64 (u64 p + c * ?dim)) (u64 (u64 d + c * (gn * ?dim))) ?dim gn off el bounds dims 0 bs =
      Inr (bs @ out) \<and> copied out = copy_map (p + c * ?dim) (d + c * (gn * ?dim)) (gdn_spread el gn off dims) ?dim \<and>
      total_len out = ?dim" if "c \<in> set [0..<c1]" for c bs
  proof -
    have "(c + 1) * ?dim \<le> c1 * ?dim"
      using that by (intro mult_right_mono) auto
    then have c: "c * ?dim + ?dim \<le> c1 * ?dim"
      by simp
    then have "gn * (c * ?dim) + gn * ?dim \<le> gn * (c1 * ?dim)"
      using mult_left_mono [OF c, of gn] by (simp add: add_mult_distrib2)
    then have g: "c * (gn * ?dim) + gn * ?dim \<le> gn * (c1 * ?dim)"
      by (simp add: ac_simps)
    have le: "p + c * ?dim + ?dim \<le> src_capacity bounds" "d + c * (gn * ?dim) + gn * ?dim \<le> dst_capacity bounds"
      using c g cap gS by linarith+
    then have "u64 (p + c * ?dim) = p + c * ?dim" "u64 (d + c * (gn * ?dim)) = d + c * (gn * ?dim)"
      using bd(2,3) by (auto intro!: u64_id)
    then show ?thesis
      using gdn_channels_copies [OF off el bd le dims(2), of 0 nd bs] by simp
  qed
  obtain out where out: "rfold (\<lambda>c. gdn_conv_channels_gt nd (u64 (u64 p + c * ?dim)) (u64 (u64 d + c * (gn * ?dim))) ?dim gn off
      el bounds dims 0) [0..<c1] bs = Inr (bs @ out)"
    "copied out = (\<Union>c\<in>set [0..<c1]. copy_map (p + c * ?dim) (d + c * (gn * ?dim)) (gdn_spread el gn off dims) ?dim)"
    "total_len out = sum_list (map (\<lambda>_. ?dim) [0..<c1])"
    using rfold_copies [of "[0..<c1]" _ "\<lambda>c. copy_map (p + c * ?dim) (d + c * (gn * ?dim)) (gdn_spread el gn off dims) ?dim"
        "\<lambda>_. ?dim", OF row] by blast
  let ?b = "IpcBlock (p + c1 * ?dim) (d + gn * (c1 * ?dim) + off * ssm) ssm"
  have u: "u64 (p + c1 * ?dim) = p + c1 * ?dim" "u64 (d + gn * (c1 * ?dim) + off * ssm) = d + gn * (c1 * ?dim) + off * ssm"
    using cap gS os bd by (auto intro!: u64_id)
  have u': "u64 (u64 d + gn * (c1 * ?dim) + off * ssm) = u64 (d + gn * (c1 * ?dim) + off * ssm)"
    unfolding u64_def by (simp only: add.assoc mod_add_left_eq)
  have app: "append_ipc_block_checked (bs @ out) bounds (p + c1 * ?dim) (d + gn * (c1 * ?dim) + off * ssm) ssm =
      Inr (bs @ (out @ [?b]))"
    using cap gS os bd ssm by (auto simp: append_ipc_block_checked_Inr_iff)
  let ?S = "c1 * ?dim + ssm"
  have "copied (out @ [?b]) = copy_map p d (gdn_place dims el c1 ssm gn off) ?S"
  proof -
    have "copied out = copy_map p d (gdn_place dims el c1 ssm gn off) (c1 * ?dim)"
      unfolding out(2) set_upt atLeast0LessThan copy_map_rows [OF dim]
      by (rule copy_map_cong) (simp add: gdn_place_def Let_def)
    moreover have "block_bytes ?b = copy_map (p + c1 * ?dim) d (\<lambda>x. gdn_place dims el c1 ssm gn off (c1 * ?dim + x)) ssm"
      by (simp add: copy_map_run) (rule copy_map_cong, simp add: gdn_place_def Let_def)
    ultimately show ?thesis
      by (simp add: copy_map_split)
  qed
  moreover have "total_len (out @ [?b]) = ?S"
    using out(3) by (simp add: total_len_append map_replicate_const sum_list_replicate) (simp add: total_len_def)
  ultimately show ?thesis
    using out(1) app u u' by (intro exI [of _ "out @ [?b]"]) simp
qed

lemma gdn_place_bij:
  "bij_betw (\<lambda>(off, y). gdn_place dims el c1 ssm gn off y) ({..<gn} \<times> {..<c1 * (sum_list dims * el) + ssm})
     {..<gn * (c1 * (sum_list dims * el) + ssm)}"
proof -
  let ?S = "c1 * (sum_list dims * el) + ssm" and ?f = "\<lambda>(off, y). gdn_place dims el c1 ssm gn off y"
  have inj: "inj_on ?f ({..<gn} \<times> {..<?S})"
    by (rule inj_onI) (auto dest: gdn_place_inj [rotated 4])
  moreover have "?f ` ({..<gn} \<times> {..<?S}) = {..<gn * ?S}"
    by (rule card_subset_eq) (auto simp: card_image [OF inj] card_cartesian_product gdn_place_less)
  ultimately show ?thesis
    by (simp add: bij_betw_def)
qed

text \<open>The sizes that the parser derives from the shapes of the source worker.\<close>

definition gdn_c1 :: "worker_info \<Rightarrow> nat" where
  "gdn_c1 src = conv_state_shape src ! 1"

definition gdn_ssm :: "worker_info \<Rightarrow> nat" where
  "gdn_ssm src = ssm_state_shape src ! 1 * ssm_state_shape src ! 2 * ssm_state_shape src ! 3 * gdn_ssm_elem_size src"

definition gdn_dim :: "worker_info \<Rightarrow> nat" where
  "gdn_dim src = sum_list (gdn_conv_channel_dims src) * gdn_conv_elem_size src"

definition gdn_state :: "worker_info \<Rightarrow> nat" where
  "gdn_state src = gdn_c1 src * gdn_dim src + gdn_ssm src"

definition gdn_shapes_ok :: "worker_info \<Rightarrow> bool" where
  "gdn_shapes_ok src \<longleftrightarrow>
     3 \<le> length (conv_state_shape src) \<and> 4 \<le> length (ssm_state_shape src) \<and> gdn_conv_channel_dims src \<noteq> [] \<and>
     (\<forall>c\<in>set (gdn_conv_channel_dims src). 0 < c) \<and> 0 < gdn_conv_elem_size src \<and> 0 < gdn_ssm src \<and>
     conv_state_shape src ! 2 = sum_list (gdn_conv_channel_dims src)"

text \<open>The first \<open>n\<close> groups of both tables have the same shape and lie in pools of \<open>np\<close> and \<open>nd\<close> pages.\<close>

definition groups_ok :: "nat \<Rightarrow> block_ids \<Rightarrow> block_ids \<Rightarrow> nat \<Rightarrow> nat \<Rightarrow> bool" where
  "groups_ok n sb db np nd \<longleftrightarrow>
     n \<le> length sb \<and> n \<le> length db \<and>
     (\<forall>g<n. length (sb ! g) = length (db ! g) \<and> (\<forall>b<length (sb ! g). sb ! g ! b < np \<and> db ! g ! b < nd))"

lemma groups_rfold_copies:
  assumes ok: "groups_ok n sb db np nd"
    and F: "\<And>p d out. p < np \<Longrightarrow> d < nd \<Longrightarrow> \<exists>new. F p d out = Inr (out @ new) \<and> copied new = R p d \<and> total_len new = S"
  shows "\<exists>out. rfold (\<lambda>g out. vec_at sb g (\<lambda>sblks. vec_at db g (\<lambda>dblks.
      rfold (\<lambda>b out. vec_at sblks b (\<lambda>p. vec_at dblks b (\<lambda>d. F p d out))) [0..<length sblks] out))) [0..<n] bs = Inr (bs @ out) \<and>
    copied out = (\<Union>g<n. \<Union>b<length (sb ! g). R (sb ! g ! b) (db ! g ! b)) \<and>
    total_len out = (\<Sum>g\<leftarrow>[0..<n]. length (sb ! g) * S)"
proof -
  have inner: "\<exists>new. vec_at sb g (\<lambda>sblks. vec_at db g (\<lambda>dblks.
      rfold (\<lambda>b out. vec_at sblks b (\<lambda>p. vec_at dblks b (\<lambda>d. F p d out))) [0..<length sblks] out)) = Inr (out @ new) \<and>
    copied new = (\<Union>b<length (sb ! g). R (sb ! g ! b) (db ! g ! b)) \<and> total_len new = length (sb ! g) * S"
    if "g \<in> set [0..<n]" for g out
  proof -
    have g: "g < length sb" "g < length db" "length (db ! g) = length (sb ! g)"
      "\<forall>b<length (sb ! g). sb ! g ! b < np \<and> db ! g ! b < nd"
      using ok that by (simp_all add: groups_ok_def)
    have "\<exists>new. rfold (\<lambda>b out. vec_at (sb ! g) b (\<lambda>p. vec_at (db ! g) b (\<lambda>d. F p d out))) [0..<length (sb ! g)] out =
        Inr (out @ new) \<and> copied new = (\<Union>b\<in>set [0..<length (sb ! g)]. R (sb ! g ! b) (db ! g ! b)) \<and>
        total_len new = (\<Sum>b\<leftarrow>[0..<length (sb ! g)]. S)"
      using g F by (intro rfold_copies) simp
    then show ?thesis
      using g by (simp add: map_replicate_const sum_list_replicate atLeast0LessThan)
  qed
  have "\<exists>out. rfold (\<lambda>g out. vec_at sb g (\<lambda>sblks. vec_at db g (\<lambda>dblks.
      rfold (\<lambda>b out. vec_at sblks b (\<lambda>p. vec_at dblks b (\<lambda>d. F p d out))) [0..<length sblks] out))) [0..<n] bs = Inr (bs @ out) \<and>
    copied out = (\<Union>g\<in>set [0..<n]. \<Union>b<length (sb ! g). R (sb ! g ! b) (db ! g ! b)) \<and>
    total_len out = sum_list (map (\<lambda>g. length (sb ! g) * S) [0..<n])"
    by (rule rfold_copies) (rule inner)
  then show ?thesis
    by (simp add: atLeast0LessThan)
qed

definition gdn_gt_ok ::
  "worker_info \<Rightarrow> nat \<Rightarrow> nat \<Rightarrow> nat \<Rightarrow> nat \<Rightarrow> block_ids \<Rightarrow> block_ids \<Rightarrow> nat \<Rightarrow> nat \<Rightarrow> ipc_block_bounds \<Rightarrow> bool" where
  "gdn_gt_ok src pbsz dbsz n gn sb db np nd bounds \<longleftrightarrow>
     gdn_shapes_ok src \<and> groups_ok n sb db np nd \<and> 0 < gn \<and> gdn_state src \<le> pbsz \<and> gn * gdn_state src \<le> dbsz \<and>
     0 < np \<and> 0 < nd \<and>
     pbsz * np \<le> src_capacity bounds \<and> dbsz * nd \<le> dst_capacity bounds \<and> src_length_scale bounds = 1 \<and>
     src_capacity bounds < 2 ^ 64 \<and> dst_capacity bounds < 2 ^ 64"

lemma gdn_p_gt_d_copies:
  assumes ok: "gdn_gt_ok src pbsz dbsz n gn sb db np nd bounds" and off: "off < gn"
  shows "\<exists>out. parse_hybrid_gdn_block_send_p_gt_d env pbsz dbsz n gn off src sb db bounds bs = Inr (bs @ out) \<and>
    copied out = (\<Union>g<n. \<Union>b<length (sb ! g).
      copy_map (sb ! g ! b * pbsz) (db ! g ! b * dbsz)
        (gdn_place (gdn_conv_channel_dims src) (gdn_conv_elem_size src) (gdn_c1 src) (gdn_ssm src) gn off) (gdn_state src)) \<and>
    total_len out = (\<Sum>g\<leftarrow>[0..<n]. length (sb ! g) * gdn_state src)"
proof -
  let ?dims = "gdn_conv_channel_dims src" and ?el = "gdn_conv_elem_size src" and ?c1 = "gdn_c1 src" and ?ssm = "gdn_ssm src"
  let ?dim = "sum_list ?dims * ?el"
  note d = ok [unfolded gdn_gt_ok_def gdn_shapes_ok_def groups_ok_def]
  have S: "gdn_state src = ?c1 * ?dim + ?ssm"
    by (simp add: gdn_state_def gdn_dim_def)
  have grp: "groups_ok n sb db np nd"
    using ok by (simp add: gdn_gt_ok_def)
  have bd: "src_length_scale bounds = 1" "src_capacity bounds < 2 ^ 64" "dst_capacity bounds < 2 ^ 64" "0 < ?el"
    "?dims \<noteq> []" "\<forall>c\<in>set ?dims. 0 < c" "0 < ?ssm"
    using d by simp_all
  have cap: "x * pbsz + gdn_state src \<le> src_capacity bounds" if "x < np" for x
    using mult_block_bound [OF that, of 0 "gdn_state src" pbsz] d by linarith
  have cap': "x * dbsz + gn * gdn_state src \<le> dst_capacity bounds" if "x < nd" for x
    using mult_block_bound [OF that, of 0 "gn * gdn_state src" dbsz] d by linarith
  have lt: "gdn_state src < 2 ^ 64" "gn * gdn_state src < 2 ^ 64"
    using cap [of 0] cap' [of 0] d by auto
  have gdim: "gn * ?dim < 2 ^ 64 \<or> ?c1 = 0"
  proof (cases "?c1 = 0")
    case False
    then have "?dim \<le> gdn_state src"
      unfolding S by (cases ?c1) auto
    then have "gn * ?dim \<le> gn * gdn_state src"
      by (rule mult_left_mono) simp
    then show ?thesis
      using lt(2) by linarith
  qed simp
  have u: "u64 (?c1 * ?dim) = ?c1 * ?dim" "u64 ?ssm = ?ssm"
    using lt(1) unfolding S by (auto intro!: u64_id)
  have at: "conv_state_shape src ! 2 = sum_list ?dims" "conv_state_shape src ! 1 = ?c1"
    "ssm_state_shape src ! 1 * ssm_state_shape src ! 2 * ssm_state_shape src ! 3 * gdn_ssm_elem_size src = ?ssm"
    using d by (simp_all add: gdn_c1_def gdn_ssm_def)
  have len: "2 < length (conv_state_shape src)" "1 < length (conv_state_shape src)" "1 < length (ssm_state_shape src)"
    "2 < length (ssm_state_shape src)" "3 < length (ssm_state_shape src)"
    and asserts: "n \<le> length sb" "n \<le> length db" "conv_state_shape src \<noteq> []" "ssm_state_shape src \<noteq> []" "?dims \<noteq> []"
    using d by auto
  let ?blk = "\<lambda>p_blk d_blk out. rbind (rfold (\<lambda>conv_dim out.
          gdn_conv_channels_gt (ndebug env) (u64 (u64 (p_blk * pbsz) + conv_dim * u64 ?dim))
            (u64 (u64 (d_blk * dbsz) + conv_dim * u64 (gn * u64 ?dim))) (u64 ?dim) gn off ?el bounds ?dims 0 out)
        [0..<?c1] out) (\<lambda>out'.
        append_ipc_block_checked out' bounds (u64 (u64 (p_blk * pbsz) + ?c1 * ?dim))
          (u64 (u64 (d_blk * dbsz) + gn * (?c1 * ?dim) + off * ?ssm)) ?ssm)"
  let ?R = "\<lambda>p_blk d_blk. copy_map (p_blk * pbsz) (d_blk * dbsz) (gdn_place ?dims ?el ?c1 ?ssm gn off) (gdn_state src)"
  have blk: "\<exists>new. ?blk p_blk d_blk out = Inr (out @ new) \<and> copied new = ?R p_blk d_blk \<and> total_len new = gdn_state src"
    if "p_blk < np" "d_blk < nd" for p_blk d_blk out
  proof -
    have e: "rfold (\<lambda>conv_dim out.
          gdn_conv_channels_gt (ndebug env) (u64 (u64 (p_blk * pbsz) + conv_dim * u64 ?dim))
            (u64 (u64 (d_blk * dbsz) + conv_dim * u64 (gn * u64 ?dim))) (u64 ?dim) gn off ?el bounds ?dims 0 out)
        [0..<?c1] out =
      rfold (\<lambda>conv_dim out.
          gdn_conv_channels_gt (ndebug env) (u64 (u64 (p_blk * pbsz) + conv_dim * ?dim))
            (u64 (u64 (d_blk * dbsz) + conv_dim * (gn * ?dim))) ?dim gn off ?el bounds ?dims 0 out)
        [0..<?c1] out"
    proof (cases "?c1 = 0")
      case False
      then have g: "gn * ?dim < 2 ^ 64"
        using gdim by simp
      have "?dim < 2 ^ 64"
        using g off by (intro factor_less [of ?dim gn, OF _ le_less_trans [OF le0 off]]) (simp only: mult.commute)
      with g have "u64 ?dim = ?dim" "u64 (gn * ?dim) = gn * ?dim"
        by (simp_all only: u64_id)
      then show ?thesis
        by (simp only:)
    qed simp
    show ?thesis
      unfolding e unfolding S
      by (rule gdn_block_copies [OF bd(1-3) off bd(4-7) cap [OF that(1), unfolded S] cap' [OF that(2), unfolded S]])
  qed
  have e0: "parse_hybrid_gdn_block_send_p_gt_d env pbsz dbsz n gn off src sb db bounds bs =
      rfold (\<lambda>g out. vec_at sb g (\<lambda>src_blks. vec_at db g (\<lambda>dst_blks.
        rfold (\<lambda>b out. vec_at src_blks b (\<lambda>p_blk. vec_at dst_blks b (\<lambda>d_blk. ?blk p_blk d_blk out)))
          [0..<length src_blks] out))) [0..<n] bs"
    unfolding parse_hybrid_gdn_block_send_p_gt_d_def Let_def vec_at_pass [OF len(1)] vec_at_pass [OF len(2)]
      vec_at_pass [OF len(3)] vec_at_pass [OF len(4)] vec_at_pass [OF len(5)] at u64_mult_right u
    using asserts by simp
  show ?thesis
    unfolding e0 by (rule groups_rfold_copies [where F = ?blk and R = ?R and S = "gdn_state src", OF grp]) (rule blk)
qed

lemma copy_map_bytes: "copy_map s d f n = (\<Union>y<n. run (s + y) (d + f y) 1)"
  by (auto simp: copy_map_def run_def)

lemma UN_sigma:
  "(\<Union>g\<in>A. \<Union>b\<in>B g. \<Union>y\<in>C. F g b y) = (\<Union>(g, b, y)\<in>(SIGMA g:A. B g \<times> C). F g b y)"
  by blast

text \<open>No two blocks of the first \<open>n\<close> groups are the same page.\<close>

definition groups_distinct :: "nat \<Rightarrow> block_ids \<Rightarrow> bool" where
  "groups_distinct n db \<longleftrightarrow> distinct (concat (take n db))"

lemma distinct_concat_nth:
  assumes "distinct (concat xss)" and "g < length xss" and "g' < length xss" and "b < length (xss ! g)"
    and "b' < length (xss ! g')" and "xss ! g ! b = xss ! g' ! b'"
  shows "g = g' \<and> b = b'"
  using assms
proof (induction xss arbitrary: g g')
  case (Cons xs xss)
  have disj: "xs ! i \<noteq> xss ! g ! j" if "i < length xs" "g < length xss" "j < length (xss ! g)" for i g j
    using Cons.prems(1) that by (metis IntI UN_I concat.simps(2) distinct_append empty_iff nth_mem set_concat)
  show ?case
    using Cons disj [of b "g' - 1" b'] disj [of b' "g - 1" b]
    by (cases g; cases g') (auto simp: nth_eq_iff_index_eq)
qed simp

lemma groups_distinct_nth:
  assumes "groups_distinct n db" and "n \<le> length db" and "g < n" and "g' < n" and "b < length (db ! g)"
    and "b' < length (db ! g')" and "db ! g ! b = db ! g' ! b'"
  shows "g = g' \<and> b = b'"
  using distinct_concat_nth [of "take n db" g g' b b'] assms by (simp add: groups_distinct_def)

text \<open>
  C26. GDN state, prefill TP larger than decode TP: when a prefill ends, the \<open>gn\<close> prefill workers of a decode worker,
  running one after the other, write every byte of the decode worker's recurrent state of every GDN block
  exactly from the worker that owns it (the convolution channels of the workers side by side within each of
  the q, k and v segments of every row, then their SSM states), and change nothing else.
\<close>

theorem gdn_p_gt_d_memory:
  assumes ok: "gdn_gt_ok src pbsz dbsz n gn sb db np nd bounds" and dist: "groups_distinct n db"
  shows "\<exists>outs. (\<forall>off<gn. parse_hybrid_gdn_block_send_p_gt_d env pbsz dbsz n gn off src sb db bounds [] = Inr (outs off)) \<and>
    bij_betw (\<lambda>(off, y). gdn_place (gdn_conv_channel_dims src) (gdn_conv_elem_size src) (gdn_c1 src) (gdn_ssm src) gn off y)
      ({..<gn} \<times> {..<gdn_state src}) {..<gn * gdn_state src} \<and>
    (\<forall>mem dmem. \<forall>off<gn. \<forall>g<n. \<forall>b<length (sb ! g). \<forall>y<gdn_state src.
      gather mem outs gn dmem (db ! g ! b * dbsz +
        gdn_place (gdn_conv_channel_dims src) (gdn_conv_elem_size src) (gdn_c1 src) (gdn_ssm src) gn off y) =
      mem off (sb ! g ! b * pbsz + y)) \<and>
    (\<forall>mem dmem a. (\<forall>g<n. \<forall>b<length (sb ! g). a \<notin> {db ! g ! b * dbsz..<db ! g ! b * dbsz + gn * gdn_state src}) \<longrightarrow>
      gather mem outs gn dmem a = dmem a)"
proof -
  let ?pl = "gdn_place (gdn_conv_channel_dims src) (gdn_conv_elem_size src) (gdn_c1 src) (gdn_ssm src) gn"
  let ?X = "SIGMA g:{..<n}. {..<length (sb ! g)} \<times> {..<gdn_state src}"
  let ?f = "\<lambda>off::nat. \<lambda>(g, b, y). sb ! g ! b * pbsz + y" and ?h = "\<lambda>off. \<lambda>(g, b, y). db ! g ! b * dbsz + ?pl off y"
  let ?A = "\<lambda>off out. parse_hybrid_gdn_block_send_p_gt_d env pbsz dbsz n gn off src sb db bounds [] = Inr out"
    and ?B = "\<lambda>off out. copied out = (\<Union>x\<in>?X. run (?f off x) (?h off x) 1)"
  have S: "gdn_state src = gdn_c1 src * (sum_list (gdn_conv_channel_dims src) * gdn_conv_elem_size src) + gdn_ssm src"
    by (simp add: gdn_state_def gdn_dim_def)
  have grp: "n \<le> length db" "\<forall>g<n. length (sb ! g) = length (db ! g)" and sz: "gn * gdn_state src \<le> dbsz"
    using ok by (auto simp: gdn_gt_ok_def groups_ok_def)
  have "\<forall>off<gn. \<exists>out. ?A off out \<and> ?B off out"
  proof (intro allI impI)
    fix off
    assume "off < gn"
    from gdn_p_gt_d_copies [OF ok this, of env "[]"]
    obtain out where "?A off out" and "copied out = (\<Union>g<n. \<Union>b<length (sb ! g).
        copy_map (sb ! g ! b * pbsz) (db ! g ! b * dbsz) (?pl off) (gdn_state src))"
      unfolding append_Nil by (elim exE conjE) (rule that)
    then show "\<exists>out. ?A off out \<and> ?B off out"
      unfolding copy_map_bytes UN_sigma by (intro exI [of _ out]) (simp add: case_prod_beta)
  qed
  from choose_family [where A = ?A and B = ?B, OF this]
  obtain outs where outs: "\<forall>off<gn. ?A off (outs off)" and copied: "\<forall>off<gn. ?B off (outs off)"
    by (elim exE conjE)
  have place: "?pl o' y < gn * gdn_state src" if "o' < gn" "y < gdn_state src" for o' y
    using gdn_place_less [OF that(1)] that(2) unfolding S by blast
  have mem: "(\<forall>off<gn. \<forall>x\<in>?X. \<forall>k<1. gather mem outs gn dmem (?h off x + k) = mem off (?f off x + k)) \<and>
      (\<forall>a. (\<forall>off<gn. \<forall>x\<in>?X. a \<notin> {?h off x..<?h off x + 1}) \<longrightarrow> gather mem outs gn dmem a = dmem a)"
    for mem :: "nat \<Rightarrow> nat \<Rightarrow> 'v" and dmem
  proof (rule layout_gather [OF copied [rule_format]])
    fix o1 o2 x x' k k'
    assume x: "o1 < gn" "o2 < gn" "x \<in> ?X" "x' \<in> ?X" "k < (1::nat)" "k' < (1::nat)" "?h o1 x + k = ?h o2 x' + k'"
    obtain g b y g' b' y' where xs: "x = (g, b, y)" "x' = (g', b', y')"
      by (cases x, cases x')
    have y: "y < gdn_state src" "y' < gdn_state src"
      using x by (auto simp: xs)
    have "?pl o1 y < dbsz" "?pl o2 y' < dbsz"
      using place [OF x(1) y(1)] place [OF x(2) y(2)] sz by linarith+
    then have r: "db ! g ! b = db ! g' ! b' \<and> ?pl o1 y = ?pl o2 y'"
      using x(5-7) by (intro radix_inj) (auto simp: xs)
    then have "g = g' \<and> b = b'"
      using groups_distinct_nth [OF dist grp(1), of g g' b b'] grp(2) x(3,4) by (auto simp: xs)
    moreover have "o1 = o2 \<and> y = y'"
      using r y unfolding S by (intro gdn_place_inj [OF x(1,2)]) auto
    ultimately show "o1 = o2 \<and> x = x' \<and> k = k'"
      using x(5,6) by (simp add: xs)
  qed
  show ?thesis
  proof (intro exI [of _ outs] conjI allI impI)
    show "bij_betw (\<lambda>(off, y). ?pl off y) ({..<gn} \<times> {..<gdn_state src}) {..<gn * gdn_state src}"
      unfolding S by (rule gdn_place_bij)
  next
    fix mem :: "nat \<Rightarrow> nat \<Rightarrow> 'a" and dmem off g b y
    assume "off < gn" and "g < n" and "b < length (sb ! g)" and "y < gdn_state src"
    then show "gather mem outs gn dmem (db ! g ! b * dbsz + ?pl off y) = mem off (sb ! g ! b * pbsz + y)"
      using mem [THEN conjunct1, rule_format, of off "(g, b, y)" 0] by simp
  next
    fix mem :: "nat \<Rightarrow> nat \<Rightarrow> 'b" and dmem a
    assume a: "\<forall>g<n. \<forall>b<length (sb ! g). a \<notin> {db ! g ! b * dbsz..<db ! g ! b * dbsz + gn * gdn_state src}"
    show "gather mem outs gn dmem a = dmem a"
    proof (rule mem [THEN conjunct2, rule_format])
      fix off x
      assume off: "off < gn" and x: "x \<in> ?X"
      obtain g b y where xs: "x = (g, b, y)"
        by (cases x)
      show "a \<notin> {?h off x..<?h off x + 1}"
        using a [rule_format, of g b] place [OF off, of y] x by (auto simp: xs)
    qed
  qed (use outs in simp)
qed

definition demo_gdn :: worker_info where
  "demo_gdn = (demo_worker [4] [16] 3 2 0)\<lparr>conv_state_shape := [1, 2, 3], ssm_state_shape := [1, 1, 1, 2],
     gdn_conv_channel_dims := [1, 2], gdn_conv_elem_size := 1, gdn_ssm_elem_size := 1\<rparr>"

theorem gdn_p_gt_d_memory_witness:
  "\<exists>outs. (\<forall>off<2. parse_hybrid_gdn_block_send_p_gt_d demo_env 8 16 1 2 off demo_gdn [[2, 0]] [[1, 0]]
      \<lparr> src_capacity = 24, dst_capacity = 32, src_length_scale = 1, bounds_cache_idx = 0 \<rparr> [] = Inr (outs off)) \<and>
    (\<forall>mem :: nat \<Rightarrow> nat \<Rightarrow> nat. \<forall>dmem. gather mem outs 2 dmem 26 = mem 1 20)"
proof -
  let ?b = "\<lparr> src_capacity = 24, dst_capacity = 32, src_length_scale = 1, bounds_cache_idx = 0 \<rparr>"
  have "gdn_gt_ok demo_gdn 8 16 1 2 [[2, 0]] [[1, 0]] 3 2 ?b" "groups_distinct 1 [[1, 0]]"
    by (simp_all add: gdn_gt_ok_def gdn_shapes_ok_def groups_ok_def demo_gdn_def gdn_ssm_def gdn_state_def gdn_dim_def
        gdn_c1_def groups_distinct_def less_Suc_eq all_conj_distrib)
  from gdn_p_gt_d_memory [OF this, where env = demo_env]
  obtain outs where outs: "\<forall>off<2. parse_hybrid_gdn_block_send_p_gt_d demo_env 8 16 1 2 off demo_gdn [[2, 0]] [[1, 0]] ?b [] =
      Inr (outs off)"
    and mem: "\<forall>(mem :: nat \<Rightarrow> nat \<Rightarrow> nat) dmem. \<forall>off<2. \<forall>g<1. \<forall>b<length ([[2::nat, 0]] ! g). \<forall>y<gdn_state demo_gdn.
      gather mem outs 2 dmem ([[1, 0]] ! g ! b * 16 +
        gdn_place (gdn_conv_channel_dims demo_gdn) (gdn_conv_elem_size demo_gdn) (gdn_c1 demo_gdn) (gdn_ssm demo_gdn) 2 off y) =
      mem off ([[2, 0]] ! g ! b * 8 + y)"
    by (elim exE conjE) (rule that)
  have "gather mem outs 2 dmem 26 = mem 1 20" for mem :: "nat \<Rightarrow> nat \<Rightarrow> nat" and dmem
    using mem [rule_format, of 1 0 0 4 mem dmem]
    by (simp add: gdn_place_def demo_gdn_def gdn_ssm_def gdn_state_def gdn_dim_def gdn_c1_def)
  with outs show ?thesis
    by (intro exI [of _ outs] conjI) simp_all
qed

end
