(* ===== verification/ParseQwen3Next.thy ===== *)
theory ParseQwen3Next
  imports HybridAligned HybridAttn HybridState
begin

text \<open>
  The three parsers of \<open>QWEN3_NEXT_FLASH_CACHE_SHAPE\<close> (\<open>src/parse_block_qwen3_next.cpp\<close>). The block groups of a
  request are the GDN groups, then the indexer group when there is one, then the attention group.
\<close>

section \<open>Model\<close>

abbreviation pack_of :: "worker_info \<Rightarrow> nat" where
  "pack_of w \<equiv> (if attn_pack_size w = 0 then 1 else attn_pack_size w)"

definition do_parse_hybrid_block_send_p_gt_d ::
  "kvt_env \<Rightarrow> nat \<Rightarrow> nat \<Rightarrow> nat \<Rightarrow> nat \<Rightarrow> nat \<Rightarrow> nat \<Rightarrow> nat \<Rightarrow> nat \<Rightarrow> bool list \<Rightarrow> worker_info \<Rightarrow> worker_info \<Rightarrow>
   req_send_task \<Rightarrow> ipc_block_bounds \<Rightarrow> ipc_block list \<Rightarrow> ipc_block list result" where
  "do_parse_hybrid_block_send_p_gt_d env p_token_size d_token_size src_ntpb dst_ntpb attn_group_n attn_group_off
     gdn_group_n gdn_group_off validranks src dst task bounds out =
     (let p_block_size = u64 (p_token_size * src_ntpb);
          d_block_size = u64 (d_token_size * dst_ntpb);
          sblocks = src_blocks task; dblocks = dst_blocks task;
          p_indexer_ntpb = indexer_blk_ntpb src; d_indexer_ntpb = indexer_blk_ntpb dst;
          wrote = seen_tokens task; left = new_tokens task;
          n_gdn = num_gdn_layers src;
          A = \<lparr> ha_src_ntpb = src_ntpb, ha_dst_ntpb = dst_ntpb, ha_p_token_size = p_token_size,
                ha_d_token_size = d_token_size, ha_p_block_size = p_block_size, ha_d_block_size = d_block_size,
                ha_group_off = attn_group_off, ha_src_kbn = attn_kernel_blk_ntpb src,
                ha_dst_kbn = attn_kernel_blk_ntpb dst, ha_pack_size = pack_of src \<rparr> in
      c_assert (ndebug env) (pack_of src = pack_of dst) (
      c_assert (ndebug env) (n_gdn < length sblocks) (
      c_assert (ndebug env) (n_gdn < length dblocks) (
      rbind (if reach_last_token task then
               rbind (parse_hybrid_gdn_block_send_p_gt_d env p_block_size d_block_size n_gdn gdn_group_n gdn_group_off
                        src sblocks dblocks bounds out)
                 (parse_hybrid_short_conv_block_send_p_gt_d env p_block_size d_block_size (num_ple_layers src)
                    (ple_block_group src) gdn_group_n gdn_group_off src sblocks dblocks bounds)
             else Inr out) (\<lambda>out.
      c_assert (ndebug env) (n_gdn < length sblocks) (
      c_assert (ndebug env) (n_gdn < length dblocks) (
      c_assert (ndebug env) (p_indexer_ntpb = 0 \<and> d_indexer_ntpb = 0 \<or> p_indexer_ntpb > 0 \<and> d_indexer_ntpb > 0) (
      rbind (if p_indexer_ntpb > 0 \<and> d_indexer_ntpb > 0 then
               ck_mod (worker_tp_rank src) gdn_group_n (\<lambda>r.
               if r = 0 then
                 vec_at sblocks n_gdn (\<lambda>src_indexer_blks.
                 vec_at dblocks n_gdn (\<lambda>dst_indexer_blks.
                 parse_hybrid_indexer_block env p_block_size d_block_size wrote left src_indexer_blks dst_indexer_blks
                   p_indexer_ntpb d_indexer_ntpb (hybrid_indexer_token_size src) bounds out))
               else Inr out)
             else Inr out) (\<lambda>out.
      let attn_group = (if p_indexer_ntpb > 0 \<and> d_indexer_ntpb > 0 then n_gdn + 1 else n_gdn) in
      c_assert (ndebug env) (attn_group < length sblocks) (
      c_assert (ndebug env) (attn_group < length dblocks) (
      vec_idx validranks (worker_tp_rank src) (\<lambda>valid.
      if \<not> valid then Inr out
      else
      vec_at sblocks attn_group (\<lambda>src_attn_blks.
      vec_at dblocks attn_group (\<lambda>dst_attn_blks.
      rbind (parse_hybrid_attn_block env A src_attn_blks dst_attn_blks wrote left bounds False out) (\<lambda>out.
      if env_pad_last_attn_block env \<and> reach_last_token task
      then fill_last_hybrid_attn_block env A src_attn_blks dst_attn_blks (u32 (wrote + left)) bounds out
      else Inr out)))))))))))))))"

definition vllm_parse_hybrid_block_send_p_gt_d :: parse_block_func where
  "vllm_parse_hybrid_block_send_p_gt_d env src dst valid_ranks kvt_tp_size kvt_tp_rank task send_blocks =
     c_assert (ndebug env) (engine_tp_size src > engine_tp_size dst) (
     c_assert_mod0 (ndebug env) (engine_tp_size src) (engine_tp_size dst) (
     ck_div (engine_tp_size src) (engine_tp_size dst) (\<lambda>gdn_group_n.
     c_assert (ndebug env) (worker_tp_rank src div gdn_group_n = worker_tp_rank dst) (
     ck_mod (worker_tp_rank src) gdn_group_n (\<lambda>gdn_group_off.
     ck_div (valid_count valid_ranks) (engine_tp_size dst) (\<lambda>attn_group_n.
     ck_mod kvt_tp_rank attn_group_n (\<lambda>attn_group_off.
     c_assert (ndebug env) (length (token_sizes src) = 1) (
     c_assert (ndebug env) (length (token_sizes dst) = 1) (
     c_assert (ndebug env) (length (block_sizes src) = 1) (
     c_assert (ndebug env) (length (block_sizes dst) = 1) (
     vec_at (token_sizes src) 0 (\<lambda>p_token_size.
     vec_at (token_sizes dst) 0 (\<lambda>d_token_size.
     vec_at (block_sizes src) 0 (\<lambda>p_block_size.
     vec_at (block_sizes dst) 0 (\<lambda>d_block_size.
     c_assert (ndebug env) (d_token_size = u64 (p_token_size * attn_group_n)) (
     ck_div p_block_size p_token_size (\<lambda>q.
     ck_div d_block_size d_token_size (\<lambda>q'.
     let src_ntpb = u32 q; dst_ntpb = u32 q' in
     c_assert (ndebug env) (u64 (src_ntpb * p_token_size) = p_block_size) (
     c_assert (ndebug env) (u64 (dst_ntpb * d_token_size) = d_block_size) (
     let send_blocks' = vec_resize (length (token_sizes src)) send_blocks in
     vec_at send_blocks' 0 (\<lambda>per_cache_send_blocks.
     rbind (make_ipc_block_bounds env src dst 0) (\<lambda>bounds.
     rbind (do_parse_hybrid_block_send_p_gt_d env p_token_size d_token_size src_ntpb dst_ntpb attn_group_n attn_group_off
              gdn_group_n gdn_group_off valid_ranks src dst task bounds per_cache_send_blocks) (\<lambda>out.
     Inr (send_blocks'[0 := out]))))))))))))))))))))))))"

definition vllm_parse_hybrid_block_send_p_eq_d_block_aligned :: parse_block_func where
  "vllm_parse_hybrid_block_send_p_eq_d_block_aligned env src dst valid_ranks kvt_tp_size kvt_tp_rank task send_blocks =
     c_assert (ndebug env) (engine_tp_size src = engine_tp_size dst) (
     c_assert (ndebug env) (kvt_tp_size = engine_tp_size dst) (
     c_assert (ndebug env) (worker_tp_rank src = worker_tp_rank dst) (
     c_assert (ndebug env) (token_sizes src = token_sizes dst) (
     c_assert (ndebug env) (block_sizes src = block_sizes dst) (
     c_assert (ndebug env) (length (token_sizes src) = length (block_sizes src)) (
     c_assert (ndebug env) (length (token_sizes dst) = length (block_sizes dst)) (
     c_assert (ndebug env) (length (token_sizes src) = 1) (
     c_assert (ndebug env) (length (block_sizes src) = 1) (
     let send_blocks' = vec_resize (length (token_sizes src)) send_blocks in
     vec_at send_blocks' 0 (\<lambda>out.
     rbind (make_ipc_block_bounds env src dst 0) (\<lambda>bounds.
     let sblocks = src_blocks task; dblocks = dst_blocks task; n_gdn = num_gdn_layers src; pack = pack_of src;
         indexer_ntpb = indexer_blk_ntpb src in
     vec_at (block_sizes src) 0 (\<lambda>block_size.
     vec_at (token_sizes src) 0 (\<lambda>token_size.
     ck_div block_size token_size (\<lambda>ntpb.
     c_assert_mod0 (ndebug env) ntpb pack (
     let attn_ntpb = u32 (ntpb div pack) in
     c_assert (ndebug env) (attn_kernel_blk_ntpb src = attn_kernel_blk_ntpb dst) (
     c_assert (ndebug env) (indexer_ntpb = indexer_blk_ntpb dst) (
     c_assert (ndebug env) (attn_pack_size src = attn_pack_size dst) (
     rbind (if indexer_ntpb > 0 then
              vec_at sblocks n_gdn (\<lambda>src_indexer_blks.
              vec_at dblocks n_gdn (\<lambda>dst_indexer_blks.
              do_parse_block_aligned_send env block_size task src_indexer_blks dst_indexer_blks indexer_ntpb bounds out))
            else Inr out) (\<lambda>out.
     let attn_group = (if indexer_ntpb > 0 then n_gdn + 1 else n_gdn) in
     vec_at sblocks attn_group (\<lambda>src_attn_blks.
     vec_at dblocks attn_group (\<lambda>dst_attn_blks.
     rbind (do_parse_block_aligned_send env block_size task src_attn_blks dst_attn_blks attn_ntpb bounds out) (\<lambda>out.
     rbind (if reach_last_token task then
              rbind (parse_hybrid_gdn_block_send_p_eq_d env block_size n_gdn sblocks dblocks bounds out)
                (parse_hybrid_short_conv_block_send_p_eq_d env block_size (num_ple_layers src) (ple_block_group src)
                   sblocks dblocks bounds)
            else Inr out) (\<lambda>out.
     Inr (send_blocks'[0 := out]))))))))))))))))))))))))"

text \<open>
  P less than D. The attention part has two regimes: equal token sizes (replicated heads, whole blocks)
  and a row of P that holds the rows of several ranks of D (sliced), where \<open>parse_hybrid_attn_block\<close> runs with
  the sides exchanged.
\<close>

definition hybrid_p_lt_d_replicated ::
  "kvt_env \<Rightarrow> worker_info \<Rightarrow> worker_info \<Rightarrow> req_send_task \<Rightarrow> nat \<Rightarrow> nat \<Rightarrow> nat \<Rightarrow> ipc_block_bounds \<Rightarrow> ipc_block list \<Rightarrow>
   ipc_block list result" where
  "hybrid_p_lt_d_replicated env src dst task p_token_size p_block_size d_block_size bounds out =
     (let sblocks = src_blocks task; dblocks = dst_blocks task; n_gdn = num_gdn_layers src;
          p_indexer_ntpb = indexer_blk_ntpb src in
      c_assert (ndebug env) (p_block_size = d_block_size) (
      ck_div p_block_size p_token_size (\<lambda>ntpb.
      c_assert_mod0 (ndebug env) ntpb (pack_of src) (
      let attn_ntpb = u32 (ntpb div pack_of src) in
      c_assert (ndebug env) (attn_kernel_blk_ntpb src = attn_kernel_blk_ntpb dst) (
      c_assert (ndebug env) (p_indexer_ntpb = indexer_blk_ntpb dst) (
      rbind (if p_indexer_ntpb > 0 then
               vec_at sblocks n_gdn (\<lambda>src_indexer_blks.
               vec_at dblocks n_gdn (\<lambda>dst_indexer_blks.
               do_parse_block_aligned_send env p_block_size task src_indexer_blks dst_indexer_blks p_indexer_ntpb
                 bounds out))
             else Inr out) (\<lambda>out.
      let attn_group = (if p_indexer_ntpb > 0 then n_gdn + 1 else n_gdn) in
      vec_at sblocks attn_group (\<lambda>src_attn_blks.
      vec_at dblocks attn_group (\<lambda>dst_attn_blks.
      do_parse_block_aligned_send env p_block_size task src_attn_blks dst_attn_blks attn_ntpb bounds out)))))))))"

definition hybrid_p_lt_d_sliced ::
  "kvt_env \<Rightarrow> worker_info \<Rightarrow> worker_info \<Rightarrow> req_send_task \<Rightarrow> nat \<Rightarrow> nat \<Rightarrow> nat \<Rightarrow> nat \<Rightarrow> ipc_block_bounds \<Rightarrow>
   ipc_block list \<Rightarrow> ipc_block list result" where
  "hybrid_p_lt_d_sliced env src dst task p_token_size d_token_size p_block_size d_block_size bounds out =
     (let sblocks = src_blocks task; dblocks = dst_blocks task; n_gdn = num_gdn_layers src; pack = pack_of src;
          p_indexer_ntpb = indexer_blk_ntpb src; d_indexer_ntpb = indexer_blk_ntpb dst in
      c_assert (ndebug env) (p_token_size > d_token_size) (
      c_assert_mod0 (ndebug env) p_token_size d_token_size (
      ck_div p_token_size d_token_size (\<lambda>q.
      let attn_group_n = u32 q; p_slices = u32 (engine_tp_size src * attn_group_n) in
      c_assert_mod0 (ndebug env) (engine_tp_size dst) p_slices (
      ck_div (engine_tp_size dst) p_slices (\<lambda>replicas.
      ck_div (worker_tp_rank dst) replicas (\<lambda>slice.
      ck_mod slice attn_group_n (\<lambda>attn_group_off.
      c_assert (ndebug env) (num_kv_heads src \<le> 0 \<or> nat (num_kv_heads src) mod engine_tp_size src = 0) (
      ck_div p_block_size p_token_size (\<lambda>pq.
      ck_div d_block_size d_token_size (\<lambda>dq.
      let src_ntpb = u32 pq; dst_ntpb = u32 dq;
          M = \<lparr> ha_src_ntpb = dst_ntpb, ha_dst_ntpb = src_ntpb, ha_p_token_size = d_token_size,
                ha_d_token_size = p_token_size, ha_p_block_size = d_block_size, ha_d_block_size = p_block_size,
                ha_group_off = attn_group_off, ha_src_kbn = attn_kernel_blk_ntpb dst,
                ha_dst_kbn = attn_kernel_blk_ntpb src, ha_pack_size = pack \<rparr>;
          F = \<lparr> ha_src_ntpb = src_ntpb, ha_dst_ntpb = dst_ntpb, ha_p_token_size = p_token_size,
                ha_d_token_size = d_token_size, ha_p_block_size = p_block_size, ha_d_block_size = d_block_size,
                ha_group_off = attn_group_off, ha_src_kbn = attn_kernel_blk_ntpb src,
                ha_dst_kbn = attn_kernel_blk_ntpb dst, ha_pack_size = pack \<rparr> in
      c_assert (ndebug env) (u64 (src_ntpb * p_token_size) = p_block_size) (
      c_assert (ndebug env) (u64 (dst_ntpb * d_token_size) = d_block_size) (
      rbind (if p_indexer_ntpb > 0 then
               vec_at sblocks n_gdn (\<lambda>src_indexer_blks.
               vec_at dblocks n_gdn (\<lambda>dst_indexer_blks.
               parse_hybrid_indexer_block env p_block_size d_block_size (seen_tokens task) (new_tokens task)
                 src_indexer_blks dst_indexer_blks p_indexer_ntpb d_indexer_ntpb (hybrid_indexer_token_size src)
                 bounds out))
             else Inr out) (\<lambda>out.
      let attn_group = (if p_indexer_ntpb > 0 then n_gdn + 1 else n_gdn) in
      c_assert (ndebug env) (attn_group < length sblocks) (
      c_assert (ndebug env) (attn_group < length dblocks) (
      vec_at sblocks attn_group (\<lambda>src_attn_blks.
      vec_at dblocks attn_group (\<lambda>dst_attn_blks.
      rbind (parse_hybrid_attn_block env M dst_attn_blks src_attn_blks (seen_tokens task) (new_tokens task) bounds
               True out) (\<lambda>out.
      if env_pad_last_attn_block env \<and> reach_last_token task
      then fill_tail_hybrid_attn_block_p_lt_d env F src_attn_blks dst_attn_blks
             (u32 (seen_tokens task + new_tokens task)) bounds out
      else Inr out)))))))))))))))))))"

definition vllm_parse_hybrid_block_send_p_lt_d :: parse_block_func where
  "vllm_parse_hybrid_block_send_p_lt_d env src dst valid_ranks kvt_tp_size kvt_tp_rank task send_blocks =
     c_assert (ndebug env) (engine_tp_size src < engine_tp_size dst) (
     c_assert_mod0 (ndebug env) (engine_tp_size dst) (engine_tp_size src) (
     ck_div (engine_tp_size dst) (engine_tp_size src) (\<lambda>gdn_group_n.
     ck_mod (worker_tp_rank dst) gdn_group_n (\<lambda>gdn_group_off.
     c_assert (ndebug env) (worker_tp_rank dst div gdn_group_n = worker_tp_rank src) (
     c_assert (ndebug env) (length (token_sizes src) = 1) (
     c_assert (ndebug env) (length (block_sizes src) = 1) (
     c_assert (ndebug env) (length (token_sizes dst) = 1) (
     c_assert (ndebug env) (length (block_sizes dst) = 1) (
     vec_at (token_sizes src) 0 (\<lambda>p_token_size.
     vec_at (block_sizes src) 0 (\<lambda>p_block_size.
     vec_at (token_sizes dst) 0 (\<lambda>d_token_size.
     vec_at (block_sizes dst) 0 (\<lambda>d_block_size.
     let send_blocks' = vec_resize (length (token_sizes src)) send_blocks;
         p_indexer_ntpb = indexer_blk_ntpb src; d_indexer_ntpb = indexer_blk_ntpb dst in
     vec_at send_blocks' 0 (\<lambda>out.
     rbind (make_ipc_block_bounds env src dst 0) (\<lambda>bounds.
     c_assert (ndebug env) (p_indexer_ntpb = 0 \<and> d_indexer_ntpb = 0 \<or> p_indexer_ntpb > 0 \<and> d_indexer_ntpb > 0) (
     c_assert (ndebug env) (attn_pack_size src = attn_pack_size dst) (
     rbind (if p_token_size = d_token_size
            then hybrid_p_lt_d_replicated env src dst task p_token_size p_block_size d_block_size bounds out
            else hybrid_p_lt_d_sliced env src dst task p_token_size d_token_size p_block_size d_block_size bounds out)
       (\<lambda>out.
     rbind (if reach_last_token task then
              rbind (parse_hybrid_gdn_block_send_p_lt_d env p_block_size d_block_size (num_gdn_layers src) gdn_group_n
                       gdn_group_off src (src_blocks task) (dst_blocks task) bounds out)
                (parse_hybrid_short_conv_block_send_p_lt_d env p_block_size d_block_size (num_ple_layers src)
                   (ple_block_group src) gdn_group_n gdn_group_off src (src_blocks task) (dst_blocks task) bounds)
            else Inr out) (\<lambda>out.
     Inr (send_blocks'[0 := out]))))))))))))))))))))"

text \<open>The parsers of \<open>TURBOQUANT_CACHE_SHAPE\<close> (\<open>src/parse_block_turboquant.cpp\<close>) are those of the hybrid layout.\<close>

definition turboquant_parse_block_send_p_eq_d :: parse_block_func where
  "turboquant_parse_block_send_p_eq_d env src dst valid_ranks kvt_tp_size kvt_tp_rank task send_blocks =
     vllm_parse_hybrid_block_send_p_eq_d_block_aligned env src dst valid_ranks kvt_tp_size kvt_tp_rank task send_blocks"

definition turboquant_parse_block_send_p_gt_d :: parse_block_func where
  "turboquant_parse_block_send_p_gt_d env src dst valid_ranks kvt_tp_size kvt_tp_rank task send_blocks =
     vllm_parse_hybrid_block_send_p_gt_d env src dst valid_ranks kvt_tp_size kvt_tp_rank task send_blocks"

end
