(* ===== verification/ParseQwen3FlashInfer.thy ===== *)
theory ParseQwen3FlashInfer
  imports ParseQwen3Next
begin

text \<open>
  The three parsers of \<open>QWEN3_NEXT_FLASHINFER_CACHE_SHAPE\<close> (\<open>src/parse_block_qwen3_next_flashinfer.cpp\<close>): the block
  groups of the hybrid layout with the attention group stored in the FlashInfer HND order.
\<close>

section \<open>Model\<close>

text \<open>
  The quotient of two \<open>int\<close> values rounds to zero. The one quotient that leaves the range of \<open>int\<close> needs a
  divisor of \<open>-1\<close>, a TP size of \<open>2 ^ 32 - 1\<close>.
\<close>

definition c_quot :: "int \<Rightarrow> int \<Rightarrow> int" where
  "c_quot a b = sgn a * sgn b * (\<bar>a\<bar> div \<bar>b\<bar>)"

definition per_tp_kv_heads :: "worker_info \<Rightarrow> (int \<Rightarrow> 'a result) \<Rightarrow> 'a result" where
  "per_tp_kv_heads info k =
     (let tp = to_int32 (int (engine_tp_size info)) in
      if tp = 0 then Inl DivByZero else k (max 1 (c_quot (num_kv_heads info) tp)))"

definition vllm_parse_qwen3_next_flashinfer_block_send_p_eq_d :: parse_block_func where
  "vllm_parse_qwen3_next_flashinfer_block_send_p_eq_d env src dst valid_ranks kvt_tp_size kvt_tp_rank task send_blocks =
     c_assert (ndebug env) (engine_tp_size src = engine_tp_size dst) (
     c_assert (ndebug env) (kvt_tp_size = engine_tp_size dst) (
     c_assert (ndebug env) (worker_tp_rank src = worker_tp_rank dst) (
     c_assert (ndebug env) (token_sizes src = token_sizes dst) (
     c_assert (ndebug env) (block_sizes src = block_sizes dst) (
     c_assert (ndebug env) (length (token_sizes src) = 1) (
     c_assert (ndebug env) (length (block_sizes src) = 1) (
     vec_at (token_sizes src) 0 (\<lambda>p_token_size.
     vec_at (token_sizes dst) 0 (\<lambda>d_token_size.
     vec_at (block_sizes src) 0 (\<lambda>p_block_size.
     vec_at (block_sizes dst) 0 (\<lambda>d_block_size.
     ck_div p_block_size p_token_size (\<lambda>q.
     let ntpb = u32 q in
     c_assert (ndebug env) (u64 (ntpb * p_token_size) = p_block_size) (
     c_assert (ndebug env) (attn_kernel_blk_ntpb src = ntpb) (
     c_assert (ndebug env) (attn_kernel_blk_ntpb dst = ntpb) (
     let send_blocks' = vec_resize (length (token_sizes src)) send_blocks in
     vec_at send_blocks' 0 (\<lambda>out.
     rbind (make_ipc_block_bounds env src dst 0) (\<lambda>bounds.
     let sblocks = src_blocks task; dblocks = dst_blocks task; n_gdn = num_gdn_layers src;
         indexer_ntpb = indexer_blk_ntpb src in
     c_assert (ndebug env) (n_gdn < length sblocks) (
     c_assert (ndebug env) (n_gdn < length dblocks) (
     c_assert (ndebug env) (indexer_ntpb = indexer_blk_ntpb dst) (
     rbind (if indexer_ntpb > 0 then
              vec_at sblocks n_gdn (\<lambda>src_indexer_blks.
              vec_at dblocks n_gdn (\<lambda>dst_indexer_blks.
              do_parse_block_aligned_send env p_block_size task src_indexer_blks dst_indexer_blks indexer_ntpb bounds out))
            else Inr out) (\<lambda>out.
     let attn_group = (if indexer_ntpb > 0 then n_gdn + 1 else n_gdn) in
     c_assert (ndebug env) (attn_group < length sblocks) (
     c_assert (ndebug env) (attn_group < length dblocks) (
     vec_at sblocks attn_group (\<lambda>src_attn_blks.
     vec_at dblocks attn_group (\<lambda>dst_attn_blks.
     rbind (do_parse_block_aligned_send env p_block_size task src_attn_blks dst_attn_blks ntpb bounds out) (\<lambda>out.
     rbind (if reach_last_token task then
              rbind (parse_hybrid_gdn_block_send_p_eq_d env p_block_size n_gdn sblocks dblocks bounds out)
                (parse_hybrid_short_conv_block_send_p_eq_d env p_block_size (num_ple_layers src) (ple_block_group src)
                   sblocks dblocks bounds)
            else Inr out) (\<lambda>out.
     Inr (send_blocks'[0 := out]))))))))))))))))))))))))))))"

definition hybrid_flashinfer_p_gt_d_body ::
  "kvt_env \<Rightarrow> worker_info \<Rightarrow> worker_info \<Rightarrow> bool list \<Rightarrow> req_send_task \<Rightarrow> int \<Rightarrow> hybrid_attn \<Rightarrow> nat \<Rightarrow> nat \<Rightarrow> nat \<Rightarrow>
   ipc_block_bounds \<Rightarrow> ipc_block list \<Rightarrow> ipc_block list result" where
  "hybrid_flashinfer_p_gt_d_body env src dst valid_ranks task src_heads_per_rank A attn_group_n gdn_group_n gdn_group_off
     bounds out =
     (let sblocks = src_blocks task; dblocks = dst_blocks task; n_gdn = num_gdn_layers src;
          p_block_size = ha_p_block_size A; d_block_size = ha_d_block_size A;
          p_indexer_ntpb = indexer_blk_ntpb src; d_indexer_ntpb = indexer_blk_ntpb dst in
      c_assert (ndebug env) (n_gdn < length sblocks) (
      c_assert (ndebug env) (n_gdn < length dblocks) (
      c_assert (ndebug env) (p_indexer_ntpb = 0 \<and> d_indexer_ntpb = 0 \<or> p_indexer_ntpb > 0 \<and> d_indexer_ntpb > 0) (
      rbind (if reach_last_token task then
               rbind (parse_hybrid_gdn_block_send_p_gt_d env p_block_size d_block_size n_gdn gdn_group_n gdn_group_off
                        src sblocks dblocks bounds out)
                 (parse_hybrid_short_conv_block_send_p_gt_d env p_block_size d_block_size (num_ple_layers src)
                    (ple_block_group src) gdn_group_n gdn_group_off src sblocks dblocks bounds)
             else Inr out) (\<lambda>out.
      rbind (if p_indexer_ntpb > 0 \<and> d_indexer_ntpb > 0 then
               ck_mod (worker_tp_rank src) gdn_group_n (\<lambda>r.
               if r = 0 then
                 c_assert (ndebug env) (n_gdn < length sblocks) (
                 c_assert (ndebug env) (n_gdn < length dblocks) (
                 vec_at sblocks n_gdn (\<lambda>src_indexer_blks.
                 vec_at dblocks n_gdn (\<lambda>dst_indexer_blks.
                 parse_hybrid_indexer_block env p_block_size d_block_size (seen_tokens task) (new_tokens task)
                   src_indexer_blks dst_indexer_blks p_indexer_ntpb d_indexer_ntpb (hybrid_indexer_token_size src)
                   bounds out))))
               else Inr out)
             else Inr out) (\<lambda>out.
      let attn_group = (if p_indexer_ntpb > 0 \<and> d_indexer_ntpb > 0 then n_gdn + 1 else n_gdn) in
      c_assert (ndebug env) (attn_group < length sblocks) (
      c_assert (ndebug env) (attn_group < length dblocks) (
      vec_idx valid_ranks (worker_tp_rank src) (\<lambda>valid.
      if \<not> valid then Inr out
      else
      vec_at sblocks attn_group (\<lambda>src_attn_blks.
      vec_at dblocks attn_group (\<lambda>dst_attn_blks.
      rbind (parse_hybrid_flashinfer_HND_block env (ha_p_token_size A) (ha_d_token_size A) p_block_size d_block_size
               (ha_src_ntpb A) (ha_dst_ntpb A) src_attn_blks dst_attn_blks (seen_tokens task) (new_tokens task)
               attn_group_n (ha_group_off A) (ha_src_kbn A) (ha_dst_kbn A) src_heads_per_rank bounds False out) (\<lambda>out.
      if env_pad_last_attn_block env \<and> reach_last_token task
      then fill_last_hybrid_flashinfer_HND_block env (ha_p_token_size A) (ha_d_token_size A) p_block_size d_block_size
             (ha_dst_ntpb A) src_attn_blks dst_attn_blks (u32 (seen_tokens task + new_tokens task)) (ha_group_off A)
             src_heads_per_rank bounds out
      else Inr out))))))))))))"

definition vllm_parse_qwen3_next_flashinfer_block_send_p_gt_d :: parse_block_func where
  "vllm_parse_qwen3_next_flashinfer_block_send_p_gt_d env src dst valid_ranks kvt_tp_size kvt_tp_rank task send_blocks =
     c_assert (ndebug env) (engine_tp_size src > engine_tp_size dst) (
     c_assert_mod0 (ndebug env) (engine_tp_size src) (engine_tp_size dst) (
     ck_div (engine_tp_size src) (engine_tp_size dst) (\<lambda>gdn_group_n.
     ck_mod (worker_tp_rank src) gdn_group_n (\<lambda>gdn_group_off.
     c_assert (ndebug env) (worker_tp_rank src div gdn_group_n = worker_tp_rank dst) (
     ck_div (valid_count valid_ranks) (engine_tp_size dst) (\<lambda>attn_group_n.
     let attn_group_off = (if attn_group_n > 0 then kvt_tp_rank mod attn_group_n else 0) in
     c_assert (ndebug env) (length (token_sizes src) = 1) (
     c_assert (ndebug env) (length (token_sizes dst) = 1) (
     c_assert (ndebug env) (length (block_sizes src) = 1) (
     c_assert (ndebug env) (length (block_sizes dst) = 1) (
     vec_at (token_sizes src) 0 (\<lambda>p_token_size.
     vec_at (token_sizes dst) 0 (\<lambda>d_token_size.
     vec_at (block_sizes src) 0 (\<lambda>p_block_size.
     vec_at (block_sizes dst) 0 (\<lambda>d_block_size.
     per_tp_kv_heads src (\<lambda>src_heads_per_rank.
     ck_div p_block_size p_token_size (\<lambda>q.
     ck_div d_block_size d_token_size (\<lambda>q'.
     let src_ntpb = u32 q; dst_ntpb = u32 q' in
     c_assert (ndebug env) (u64 (src_ntpb * p_token_size) = p_block_size) (
     c_assert (ndebug env) (u64 (dst_ntpb * d_token_size) = d_block_size) (
     c_assert (ndebug env) (attn_kernel_blk_ntpb src = src_ntpb) (
     c_assert (ndebug env) (attn_kernel_blk_ntpb dst = dst_ntpb) (
     let send_blocks' = vec_resize (length (token_sizes src)) send_blocks;
         A = \<lparr> ha_src_ntpb = src_ntpb, ha_dst_ntpb = dst_ntpb, ha_p_token_size = p_token_size,
               ha_d_token_size = d_token_size, ha_p_block_size = p_block_size, ha_d_block_size = d_block_size,
               ha_group_off = attn_group_off, ha_src_kbn = attn_kernel_blk_ntpb src,
               ha_dst_kbn = attn_kernel_blk_ntpb dst, ha_pack_size = 1 \<rparr> in
     vec_at send_blocks' 0 (\<lambda>out.
     rbind (make_ipc_block_bounds env src dst 0) (\<lambda>bounds.
     rbind (hybrid_flashinfer_p_gt_d_body env src dst valid_ranks task src_heads_per_rank A attn_group_n gdn_group_n
              gdn_group_off bounds out) (\<lambda>out.
     Inr (send_blocks'[0 := out])))))))))))))))))))))))))"

text \<open>
  The zero fill of the tail: \<open>HF\<close> bundles the layout arguments of
  \<open>fill_tail_hybrid_flashinfer_HND_block_p_lt_d\<close>.
\<close>

record hnd_fill =
  hf_p_block :: nat
  hf_d_block :: nat
  hf_ntpb :: nat
  hf_head_dim :: nat
  hf_heads :: int

function fill_tail_HND_loop ::
  "kvt_env \<Rightarrow> hnd_fill \<Rightarrow> nat \<Rightarrow> nat list \<Rightarrow> ipc_block_bounds \<Rightarrow> nat \<Rightarrow> nat \<Rightarrow> ipc_block list \<Rightarrow> ipc_block list result" where
  "fill_tail_HND_loop env HF zero_src_off dblocks bounds end_toks dst_pos out =
     (if dst_pos < end_toks then
        ck_div dst_pos (hf_ntpb HF) (\<lambda>d_blk_idx.
        ck_mod dst_pos (hf_ntpb HF) (\<lambda>d_token_idx.
        let tokens = min (hf_ntpb HF - d_token_idx) (end_toks - dst_pos) in
        c_assert (ndebug env) (d_blk_idx < length dblocks) (
        vec_at dblocks d_blk_idx (\<lambda>d_blk.
        let d_blk_off = u64 (d_blk * hf_d_block HF);
            len = u64 (tokens * hf_head_dim HF) in
        rbind (rfold (\<lambda>head_idx out.
                 let dk_off = u64 (d_blk_off + head_idx * u64 (hf_ntpb HF * hf_head_dim HF) + d_token_idx * hf_head_dim HF);
                     dv_off = u64 (dk_off + hf_d_block HF div 2) in
                 rbind (emit_zero_fill_segments env zero_src_off dk_off len (hf_p_block HF) bounds out)
                   (emit_zero_fill_segments env zero_src_off dv_off len (hf_p_block HF) bounds))
               [0..<nat (hf_heads HF)] out) (\<lambda>out'.
        fill_tail_HND_loop env HF zero_src_off dblocks bounds end_toks (dst_pos + tokens) out')))))
      else Inr out)"
  by pat_completeness auto
termination
proof (relation "measure (\<lambda>(_, _, _, _, _, end_toks, dst_pos, _). end_toks - dst_pos)", goal_cases)
  case 2
  then show ?case
    by (simp only: in_measure case_prod_conv chunk_end_less)
qed simp

declare fill_tail_HND_loop.simps [simp del]

definition fill_tail_hybrid_flashinfer_HND_block_p_lt_d ::
  "kvt_env \<Rightarrow> hnd_fill \<Rightarrow> nat list \<Rightarrow> nat list \<Rightarrow> nat \<Rightarrow> ipc_block_bounds \<Rightarrow> ipc_block list \<Rightarrow> ipc_block list result" where
  "fill_tail_hybrid_flashinfer_HND_block_p_lt_d env HF sblocks dblocks total_tokens bounds out =
     (let end_toks = u32 (u32 (length dblocks) * hf_ntpb HF) in
      if total_tokens \<ge> end_toks then Inr out
      else
      vec_at sblocks 0 (\<lambda>p_blk0.
      fill_tail_HND_loop env HF (u64 (p_blk0 * hf_p_block HF)) dblocks bounds end_toks total_tokens out))"

definition hybrid_flashinfer_p_lt_d_replicated ::
  "kvt_env \<Rightarrow> worker_info \<Rightarrow> worker_info \<Rightarrow> req_send_task \<Rightarrow> nat \<Rightarrow> nat \<Rightarrow> nat \<Rightarrow> ipc_block_bounds \<Rightarrow> ipc_block list \<Rightarrow>
   ipc_block list result" where
  "hybrid_flashinfer_p_lt_d_replicated env src dst task src_ntpb p_block_size d_block_size bounds out =
     (let sblocks = src_blocks task; dblocks = dst_blocks task; n_gdn = num_gdn_layers src;
          p_indexer_ntpb = indexer_blk_ntpb src in
      c_assert (ndebug env) (p_block_size = d_block_size) (
      c_assert (ndebug env) (p_indexer_ntpb = indexer_blk_ntpb dst) (
      rbind (if p_indexer_ntpb > 0 then
               vec_at sblocks n_gdn (\<lambda>src_indexer_blks.
               vec_at dblocks n_gdn (\<lambda>dst_indexer_blks.
               do_parse_block_aligned_send env p_block_size task src_indexer_blks dst_indexer_blks p_indexer_ntpb
                 bounds out))
             else Inr out) (\<lambda>out.
      let attn_group = (if p_indexer_ntpb > 0 then n_gdn + 1 else n_gdn) in
      c_assert (ndebug env) (attn_group < length sblocks) (
      c_assert (ndebug env) (attn_group < length dblocks) (
      vec_at sblocks attn_group (\<lambda>src_attn_blks.
      vec_at dblocks attn_group (\<lambda>dst_attn_blks.
      do_parse_block_aligned_send env p_block_size task src_attn_blks dst_attn_blks src_ntpb bounds out))))))))"

definition hybrid_flashinfer_p_lt_d_sliced ::
  "kvt_env \<Rightarrow> worker_info \<Rightarrow> worker_info \<Rightarrow> req_send_task \<Rightarrow> nat \<Rightarrow> nat \<Rightarrow> nat \<Rightarrow> nat \<Rightarrow> nat \<Rightarrow> nat \<Rightarrow> ipc_block_bounds \<Rightarrow>
   ipc_block list \<Rightarrow> ipc_block list result" where
  "hybrid_flashinfer_p_lt_d_sliced env src dst task p_token_size d_token_size p_block_size d_block_size src_ntpb dst_ntpb
     bounds out =
     (let sblocks = src_blocks task; dblocks = dst_blocks task; n_gdn = num_gdn_layers src;
          d_engine_tp = engine_tp_size dst; n_heads = num_kv_heads src;
          p_indexer_ntpb = indexer_blk_ntpb src; d_indexer_ntpb = indexer_blk_ntpb dst in
      c_assert (ndebug env) (p_token_size > d_token_size) (
      c_assert_mod0 (ndebug env) p_token_size d_token_size (
      ck_div p_token_size d_token_size (\<lambda>q.
      let attn_group_n = u32 q; p_slices = u32 (engine_tp_size src * attn_group_n) in
      c_assert_mod0 (ndebug env) d_engine_tp p_slices (
      ck_div d_engine_tp p_slices (\<lambda>replicas.
      ck_div (worker_tp_rank dst) replicas (\<lambda>slice.
      ck_mod slice attn_group_n (\<lambda>attn_group_off.
      c_assert (ndebug env) (n_heads > 0) (
      let dst_heads_per_rank =
            (if nat (n_heads mod 2 ^ 32) \<ge> d_engine_tp then c_quot n_heads (to_int32 (int d_engine_tp)) else 1) in
      c_assert_mod0 (ndebug env) d_token_size (u64 (2 * to_size dst_heads_per_rank)) (
      ck_div (d_token_size div 2) (to_size dst_heads_per_rank) (\<lambda>head_dim_size.
      rbind (if p_indexer_ntpb > 0 then
               vec_at sblocks n_gdn (\<lambda>src_indexer_blks.
               vec_at dblocks n_gdn (\<lambda>dst_indexer_blks.
               parse_hybrid_indexer_block env p_block_size d_block_size (seen_tokens task) (new_tokens task)
                 src_indexer_blks dst_indexer_blks p_indexer_ntpb d_indexer_ntpb (hybrid_indexer_token_size src)
                 bounds out))
             else Inr out) (\<lambda>out.
      let attn_group = (if p_indexer_ntpb > 0 then n_gdn + 1 else n_gdn) in
      c_assert (ndebug env) (attn_group < length sblocks) (
      c_assert (ndebug env) (attn_group < length dblocks) (
      vec_at sblocks attn_group (\<lambda>src_attn_blks.
      vec_at dblocks attn_group (\<lambda>dst_attn_blks.
      rbind (parse_hybrid_flashinfer_HND_block env d_token_size p_token_size d_block_size p_block_size dst_ntpb src_ntpb
               dst_attn_blks src_attn_blks (seen_tokens task) (new_tokens task) attn_group_n attn_group_off
               (attn_kernel_blk_ntpb dst) (attn_kernel_blk_ntpb src) dst_heads_per_rank bounds True out) (\<lambda>out.
      if env_pad_last_attn_block env \<and> reach_last_token task
      then fill_tail_hybrid_flashinfer_HND_block_p_lt_d env
             \<lparr> hf_p_block = p_block_size, hf_d_block = d_block_size, hf_ntpb = dst_ntpb, hf_head_dim = head_dim_size,
               hf_heads = dst_heads_per_rank \<rparr>
             src_attn_blks dst_attn_blks (u32 (seen_tokens task + new_tokens task)) bounds out
      else Inr out)))))))))))))))))"

definition vllm_parse_qwen3_next_flashinfer_block_send_p_lt_d :: parse_block_func where
  "vllm_parse_qwen3_next_flashinfer_block_send_p_lt_d env src dst valid_ranks kvt_tp_size kvt_tp_rank task send_blocks =
     c_assert (ndebug env) (engine_tp_size src < engine_tp_size dst) (
     c_assert_mod0 (ndebug env) (engine_tp_size dst) (engine_tp_size src) (
     ck_div (engine_tp_size dst) (engine_tp_size src) (\<lambda>gdn_group_n.
     ck_mod (worker_tp_rank dst) gdn_group_n (\<lambda>gdn_group_off.
     c_assert (ndebug env) (worker_tp_rank dst div gdn_group_n = worker_tp_rank src) (
     c_assert (ndebug env) (length (token_sizes src) = 1) (
     c_assert (ndebug env) (length (block_sizes src) = 1) (
     c_assert (ndebug env) (length (token_sizes dst) = 1) (
     c_assert (ndebug env) (length (block_sizes dst) = 1) (
     vec_at (token_sizes src) 0 (\<lambda>p_token_size.
     vec_at (block_sizes src) 0 (\<lambda>p_block_size.
     vec_at (token_sizes dst) 0 (\<lambda>d_token_size.
     vec_at (block_sizes dst) 0 (\<lambda>d_block_size.
     ck_div p_block_size p_token_size (\<lambda>q.
     ck_div d_block_size d_token_size (\<lambda>q'.
     let src_ntpb = u32 q; dst_ntpb = u32 q' in
     c_assert (ndebug env) (u64 (src_ntpb * p_token_size) = p_block_size) (
     c_assert (ndebug env) (u64 (dst_ntpb * d_token_size) = d_block_size) (
     c_assert (ndebug env) (attn_kernel_blk_ntpb src = src_ntpb) (
     c_assert (ndebug env) (attn_kernel_blk_ntpb dst = dst_ntpb) (
     let send_blocks' = vec_resize (length (token_sizes src)) send_blocks;
         p_indexer_ntpb = indexer_blk_ntpb src; d_indexer_ntpb = indexer_blk_ntpb dst in
     vec_at send_blocks' 0 (\<lambda>out.
     rbind (make_ipc_block_bounds env src dst 0) (\<lambda>bounds.
     c_assert (ndebug env) (num_gdn_layers src < length (src_blocks task)) (
     c_assert (ndebug env) (num_gdn_layers src < length (dst_blocks task)) (
     c_assert (ndebug env) (p_indexer_ntpb = 0 \<and> d_indexer_ntpb = 0 \<or> p_indexer_ntpb > 0 \<and> d_indexer_ntpb > 0) (
     rbind (if p_token_size = d_token_size
            then hybrid_flashinfer_p_lt_d_replicated env src dst task src_ntpb p_block_size d_block_size bounds out
            else hybrid_flashinfer_p_lt_d_sliced env src dst task p_token_size d_token_size p_block_size d_block_size
                   src_ntpb dst_ntpb bounds out)
       (\<lambda>out.
     rbind (if reach_last_token task then
              rbind (parse_hybrid_gdn_block_send_p_lt_d env p_block_size d_block_size (num_gdn_layers src) gdn_group_n
                       gdn_group_off src (src_blocks task) (dst_blocks task) bounds out)
                (parse_hybrid_short_conv_block_send_p_lt_d env p_block_size d_block_size (num_ple_layers src)
                   (ple_block_group src) gdn_group_n gdn_group_off src (src_blocks task) (dst_blocks task) bounds)
            else Inr out) (\<lambda>out.
     Inr (send_blocks'[0 := out])))))))))))))))))))))))))))"

end
