(* ===== verification/ParseKda.thy ===== *)
theory ParseKda
  imports HybridState HybridAttn
begin

text \<open>
  Kimi K3: the recurrent states of the KDA layers (\<open>src/parse_block_kda.cpp\<close>) and the replicated MLA cache
  (\<open>src/parse_block_kimi_k3.cpp\<close>), with the three parsers of \<open>KIMI_K3_MLA_CACHE_SHAPE\<close>.
\<close>

section \<open>KDA state\<close>

record kda_state_layout =
  kl_state_len :: nat
  kl_qkv_channels :: nat
  kl_conv_size :: nat
  kl_recurrent_size :: nat

definition get_kda_page_stride :: "kvt_env \<Rightarrow> worker_info \<Rightarrow> nat result" where
  "get_kda_page_stride env w =
     c_assert (ndebug env) (length (block_sizes w) = 1) (
     if kda_page_stride w \<noteq> 0 then Inr (kda_page_stride w) else vec_at (block_sizes w) 0 Inr)"

definition get_kda_state_layout :: "kvt_env \<Rightarrow> worker_info \<Rightarrow> kda_state_layout result" where
  "get_kda_state_layout env w =
     (let conv_shape = conv_state_shape w; recurrent_shape = ssm_state_shape w;
          channel_dims = gdn_conv_channel_dims w in
      c_assert (ndebug env) (length conv_shape = 3) (
      c_assert (ndebug env) (length recurrent_shape = 4) (
      c_assert (ndebug env) (length channel_dims = 3) (
      c_assert (ndebug env) (gdn_conv_elem_size w > 0) (
      c_assert (ndebug env) (gdn_ssm_elem_size w > 0) (
      vec_at conv_shape (if kda_conv_dim_first w then 2 else 1) (\<lambda>state_len.
      vec_at conv_shape (if kda_conv_dim_first w then 1 else 2) (\<lambda>qkv_channels.
      c_assert (ndebug env) (state_len > 0) (
      c_assert (ndebug env) (qkv_channels > 0) (
      c_assert (ndebug env) (u64 (sum_list channel_dims) = qkv_channels) (
      vec_at recurrent_shape 1 (\<lambda>r1.
      vec_at recurrent_shape 2 (\<lambda>r2.
      vec_at recurrent_shape 3 (\<lambda>r3.
      Inr \<lparr> kl_state_len = state_len, kl_qkv_channels = qkv_channels,
            kl_conv_size = u64 (state_len * qkv_channels * gdn_conv_elem_size w),
            kl_recurrent_size = u64 (r1 * r2 * r3 * gdn_ssm_elem_size w) \<rparr>))))))))))))))"

definition check_kda_block_groups :: "bool \<Rightarrow> nat \<Rightarrow> block_ids \<Rightarrow> block_ids \<Rightarrow> unit result" where
  "check_kda_block_groups nd n sblocks dblocks =
     c_assert nd (n > 0) (
     c_assert nd (n \<le> length sblocks) (
     c_assert nd (n \<le> length dblocks) (
     c_assert nd (\<forall>g\<in>set [0..<n]. length (sblocks ! g) = length (dblocks ! g)) (Inr ()))))"

text \<open>
  The two placements of the convolution state. \<open>gdn_conv_channels_gt\<close> is the loop over the channel segments that
  the GDN states use as well; in the channel-major order (DS) a segment element is a whole row of \<open>state_len\<close>
  elements and there is one such row of segments.
\<close>

definition emit_kda_block_p_gt_d ::
  "kvt_env \<Rightarrow> nat \<Rightarrow> nat \<Rightarrow> nat \<Rightarrow> nat \<Rightarrow> worker_info \<Rightarrow> kda_state_layout \<Rightarrow> ipc_block_bounds \<Rightarrow> ipc_block list \<Rightarrow>
   ipc_block list result" where
  "emit_kda_block_p_gt_d env p_off d_off group_n group_off src lay bounds out =
     (let elem_size = gdn_conv_elem_size src; channel_dims = gdn_conv_channel_dims src;
          p_row_size = u64 (kl_qkv_channels lay * elem_size);
          d_row_size = u64 (group_n * p_row_size) in
      rbind (if kda_conv_dim_first src then
               gdn_conv_channels_gt (ndebug env) p_off d_off (kl_conv_size lay) group_n group_off
                 (kl_state_len lay * elem_size) bounds channel_dims 0 out
             else
               rfold (\<lambda>state_idx.
                 gdn_conv_channels_gt (ndebug env) (u64 (p_off + state_idx * p_row_size))
                   (u64 (d_off + state_idx * d_row_size)) p_row_size group_n group_off elem_size bounds channel_dims 0)
                 [0..<kl_state_len lay] out) (\<lambda>out.
      append_ipc_block_checked out bounds (u64 (p_off + kl_conv_size lay))
        (u64 (d_off + group_n * kl_conv_size lay + group_off * kl_recurrent_size lay)) (kl_recurrent_size lay)))"

text \<open>
  The loop over the channel segments, P less than D. The continuation gets the two inner offsets at
  the end; \<open>row\<close> is \<open>state_len\<close> in the channel-major order and 1 otherwise.
\<close>

primrec kda_channels_lt ::
  "bool \<Rightarrow> nat \<Rightarrow> nat \<Rightarrow> nat \<Rightarrow> nat \<Rightarrow> nat \<Rightarrow> ipc_block_bounds \<Rightarrow>
   (nat \<Rightarrow> nat \<Rightarrow> ipc_block list \<Rightarrow> ipc_block list result) \<Rightarrow> nat list \<Rightarrow> nat \<Rightarrow> nat \<Rightarrow> ipc_block list \<Rightarrow>
   ipc_block list result" where
  "kda_channels_lt nd p_row d_row group_n group_off elem bounds k [] p_inner d_inner out = k p_inner d_inner out"
| "kda_channels_lt nd p_row d_row group_n group_off elem bounds k (c # cs) p_inner d_inner out =
     c_assert_mod0 nd c group_n (
     ck_div c group_n (\<lambda>d_dim.
     let component_size = u64 (d_dim * elem) in
     rbind (append_ipc_block_checked out bounds (u64 (p_row + p_inner + group_off * component_size))
              (u64 (d_row + d_inner)) component_size)
       (kda_channels_lt nd p_row d_row group_n group_off elem bounds k cs
          (u64 (p_inner + group_n * component_size)) (u64 (d_inner + component_size)))))"

definition emit_kda_recurrent_lt ::
  "nat \<Rightarrow> nat \<Rightarrow> nat \<Rightarrow> nat \<Rightarrow> kda_state_layout \<Rightarrow> ipc_block_bounds \<Rightarrow> nat \<Rightarrow> ipc_block list \<Rightarrow> ipc_block list result" where
  "emit_kda_recurrent_lt p_off d_off group_off d_recurrent_size lay bounds d_conv_size out =
     append_ipc_block_checked out bounds (u64 (p_off + kl_conv_size lay + group_off * d_recurrent_size))
       (u64 (d_off + d_conv_size)) d_recurrent_size"

definition emit_kda_block_p_lt_d ::
  "kvt_env \<Rightarrow> nat \<Rightarrow> nat \<Rightarrow> nat \<Rightarrow> nat \<Rightarrow> worker_info \<Rightarrow> kda_state_layout \<Rightarrow> ipc_block_bounds \<Rightarrow> ipc_block list \<Rightarrow>
   ipc_block list result" where
  "emit_kda_block_p_lt_d env p_off d_off group_n group_off src lay bounds out =
     (let elem_size = gdn_conv_elem_size src; channel_dims = gdn_conv_channel_dims src in
      c_assert_mod0 (ndebug env) (kl_recurrent_size lay) group_n (
      ck_div (kl_recurrent_size lay) group_n (\<lambda>d_recurrent_size.
      if kda_conv_dim_first src then
        kda_channels_lt (ndebug env) p_off d_off group_n group_off (kl_state_len lay * elem_size) bounds
          (\<lambda>p_inner d_inner out.
             c_assert (ndebug env) (p_inner = kl_conv_size lay) (
             emit_kda_recurrent_lt p_off d_off group_off d_recurrent_size lay bounds d_inner out))
          channel_dims 0 0 out
      else
        let p_row_size = u64 (kl_qkv_channels lay * elem_size) in
        c_assert_mod0 (ndebug env) p_row_size group_n (
        ck_div p_row_size group_n (\<lambda>d_row_size.
        rbind (rfold (\<lambda>state_idx.
                 kda_channels_lt (ndebug env) (u64 (p_off + state_idx * p_row_size)) (u64 (d_off + state_idx * d_row_size))
                   group_n group_off elem_size bounds
                   (\<lambda>p_inner d_inner out.
                      c_assert (ndebug env) (p_inner = p_row_size) (c_assert (ndebug env) (d_inner = d_row_size) (Inr out)))
                   channel_dims 0 0)
                 [0..<kl_state_len lay] out)
          (emit_kda_recurrent_lt p_off d_off group_off d_recurrent_size lay bounds (kl_conv_size lay div group_n)))))))"

definition prepare_kda_parse ::
  "kvt_env \<Rightarrow> worker_info \<Rightarrow> worker_info \<Rightarrow> req_send_task \<Rightarrow> ipc_block list list \<Rightarrow> ipc_block list list result" where
  "prepare_kda_parse env src dst task send_blocks =
     c_assert (ndebug env) (length (block_sizes src) = 1) (
     c_assert (ndebug env) (length (block_sizes dst) = 1) (
     rbind (check_kda_block_groups (ndebug env) (num_gdn_layers src) (src_blocks task) (dst_blocks task)) (\<lambda>_.
     Inr (vec_resize 1 send_blocks))))"

text \<open>The loops over the groups and their blocks; \<open>emit\<close> gets the offsets of a block pair.\<close>

definition for_kda_blocks ::
  "nat \<Rightarrow> nat \<Rightarrow> nat \<Rightarrow> block_ids \<Rightarrow> block_ids \<Rightarrow> (nat \<Rightarrow> nat \<Rightarrow> ipc_block list \<Rightarrow> ipc_block list result) \<Rightarrow>
   ipc_block list \<Rightarrow> ipc_block list result" where
  "for_kda_blocks n p_block_size d_block_size sblocks dblocks emit out =
     rfold (\<lambda>group_idx out.
       vec_at sblocks group_idx (\<lambda>src_group.
       vec_at dblocks group_idx (\<lambda>dst_group.
       rfold (\<lambda>block_idx out.
         vec_at src_group block_idx (\<lambda>p_blk.
         vec_at dst_group block_idx (\<lambda>d_blk.
         emit (u64 (p_blk * p_block_size)) (u64 (d_blk * d_block_size)) out)))
         [0..<length src_group] out)))
       [0..<n] out"

definition parse_kda_block_send_p_eq_d :: parse_block_func where
  "parse_kda_block_send_p_eq_d env src dst valid_ranks kvt_tp_size kvt_tp_rank task send_blocks =
     rbind (prepare_kda_parse env src dst task send_blocks) (\<lambda>send_blocks'.
     c_assert (ndebug env) (engine_tp_size src = engine_tp_size dst) (
     c_assert (ndebug env) (worker_tp_rank src = worker_tp_rank dst) (
     rbind (get_kda_page_stride env src) (\<lambda>src_page_stride.
     rbind (get_kda_page_stride env dst) (\<lambda>dst_page_stride.
     c_assert (ndebug env) (src_page_stride = dst_page_stride) (
     if \<not> reach_last_token task then Inr send_blocks'
     else
     rbind (make_ipc_block_bounds env src dst 0) (\<lambda>bounds.
     on_cache 0 (for_kda_blocks (num_gdn_layers src) src_page_stride dst_page_stride (src_blocks task) (dst_blocks task)
       (\<lambda>p_off d_off out. append_ipc_block_checked out bounds p_off d_off src_page_stride)) send_blocks')))))))"

definition parse_kda_block_send_p_gt_d :: parse_block_func where
  "parse_kda_block_send_p_gt_d env src dst valid_ranks kvt_tp_size kvt_tp_rank task send_blocks =
     rbind (prepare_kda_parse env src dst task send_blocks) (\<lambda>send_blocks'.
     c_assert (ndebug env) (engine_tp_size src > engine_tp_size dst) (
     c_assert_mod0 (ndebug env) (engine_tp_size src) (engine_tp_size dst) (
     ck_div (engine_tp_size src) (engine_tp_size dst) (\<lambda>group_n.
     ck_mod (worker_tp_rank src) group_n (\<lambda>group_off.
     c_assert (ndebug env) (worker_tp_rank src div group_n = worker_tp_rank dst) (
     if \<not> reach_last_token task then Inr send_blocks'
     else
     rbind (get_kda_page_stride env src) (\<lambda>p_block_size.
     rbind (get_kda_page_stride env dst) (\<lambda>d_block_size.
     rbind (get_kda_state_layout env src) (\<lambda>lay.
     let p_size = u64 (kl_conv_size lay + kl_recurrent_size lay) in
     c_assert (ndebug env) (u64 (group_n * p_size) \<le> d_block_size) (
     c_assert (ndebug env) (p_size \<le> p_block_size) (
     rbind (make_ipc_block_bounds env src dst 0) (\<lambda>bounds.
     on_cache 0 (for_kda_blocks (num_gdn_layers src) p_block_size d_block_size (src_blocks task) (dst_blocks task)
       (\<lambda>p_off d_off. emit_kda_block_p_gt_d env p_off d_off group_n group_off src lay bounds)) send_blocks'))))))))))))"

definition parse_kda_block_send_p_lt_d :: parse_block_func where
  "parse_kda_block_send_p_lt_d env src dst valid_ranks kvt_tp_size kvt_tp_rank task send_blocks =
     rbind (prepare_kda_parse env src dst task send_blocks) (\<lambda>send_blocks'.
     c_assert (ndebug env) (engine_tp_size src < engine_tp_size dst) (
     c_assert_mod0 (ndebug env) (engine_tp_size dst) (engine_tp_size src) (
     ck_div (engine_tp_size dst) (engine_tp_size src) (\<lambda>group_n.
     ck_mod (worker_tp_rank dst) group_n (\<lambda>group_off.
     c_assert (ndebug env) (worker_tp_rank dst div group_n = worker_tp_rank src) (
     if \<not> reach_last_token task then Inr send_blocks'
     else
     rbind (get_kda_page_stride env src) (\<lambda>p_block_size.
     rbind (get_kda_page_stride env dst) (\<lambda>d_block_size.
     rbind (get_kda_state_layout env src) (\<lambda>lay.
     c_assert_mod0 (ndebug env) (kl_conv_size lay) group_n (
     c_assert_mod0 (ndebug env) (kl_recurrent_size lay) group_n (
     let p_size = u64 (kl_conv_size lay + kl_recurrent_size lay) in
     c_assert (ndebug env) (p_size \<le> p_block_size) (
     c_assert (ndebug env) (p_size div group_n \<le> d_block_size) (
     rbind (make_ipc_block_bounds env src dst 0) (\<lambda>bounds.
     on_cache 0 (for_kda_blocks (num_gdn_layers src) p_block_size d_block_size (src_blocks task) (dst_blocks task)
       (\<lambda>p_off d_off. emit_kda_block_p_lt_d env p_off d_off group_n group_off src lay bounds)) send_blocks'))))))))))))))"

section \<open>Replicated MLA blocks\<close>

text \<open>The locals of \<open>parse_replicated_mla_blocks\<close> that its loops read.\<close>

record mla_layout =
  ml_src_ntpb :: nat
  ml_dst_ntpb :: nat
  ml_kernel_ntpb :: nat
  ml_token_size :: nat
  ml_src_page :: nat
  ml_dst_page :: nat

abbreviation ml_kernel_page :: "mla_layout \<Rightarrow> nat" where
  "ml_kernel_page L \<equiv> u64 (ml_kernel_ntpb L * ml_token_size L)"

definition mla_manager_blocks ::
  "kvt_env \<Rightarrow> mla_layout \<Rightarrow> req_send_task \<Rightarrow> nat list \<Rightarrow> nat list \<Rightarrow> ipc_block_bounds \<Rightarrow> ipc_block list \<Rightarrow>
   ipc_block list result" where
  "mla_manager_blocks env L task sblocks dblocks bounds out =
     c_assert (ndebug env) (ml_src_ntpb L = ml_dst_ntpb L) (
     c_assert (ndebug env) (length sblocks = length dblocks) (
     ck_div (seen_tokens task) (ml_src_ntpb L) (\<lambda>first_block.
     let end_block = (if reach_last_token task then length sblocks else end_tokens task div ml_src_ntpb L) in
     c_assert (ndebug env) (first_block \<le> end_block) (
     c_assert (ndebug env) (end_block \<le> length sblocks) (
     rfold (\<lambda>block_idx out.
       vec_at sblocks block_idx (\<lambda>p_blk.
       vec_at dblocks block_idx (\<lambda>d_blk.
       append_ipc_block_checked out bounds (u64 (p_blk * ml_src_page L)) (u64 (d_blk * ml_dst_page L))
         (u64 (ml_src_ntpb L * ml_token_size L)))))
       [first_block..<end_block] out)))))"

definition mla_kernel_block ::
  "mla_layout \<Rightarrow> nat list \<Rightarrow> nat list \<Rightarrow> nat \<Rightarrow> nat \<Rightarrow> nat \<Rightarrow> nat \<Rightarrow> ipc_block_bounds \<Rightarrow> ipc_block list \<Rightarrow>
   ipc_block list result" where
  "mla_kernel_block L sblocks dblocks src_block_idx src_kernel_idx dst_block_idx dst_kernel_idx bounds out =
     vec_at sblocks src_block_idx (\<lambda>p_blk.
     vec_at dblocks dst_block_idx (\<lambda>d_blk.
     append_ipc_block_checked out bounds (u64 (p_blk * ml_src_page L + src_kernel_idx * ml_kernel_page L))
       (u64 (d_blk * ml_dst_page L + dst_kernel_idx * ml_kernel_page L)) (ml_kernel_page L)))"

function mla_kernel_loop ::
  "kvt_env \<Rightarrow> mla_layout \<Rightarrow> bool \<Rightarrow> nat list \<Rightarrow> nat list \<Rightarrow> ipc_block_bounds \<Rightarrow> nat \<Rightarrow> nat \<Rightarrow> ipc_block list \<Rightarrow>
   ipc_block list result" where
  "mla_kernel_loop env L reach_last sblocks dblocks bounds wrote left out =
     (if left > 0 then
        ck_div wrote (ml_src_ntpb L) (\<lambda>src_block_idx.
        ck_div wrote (ml_dst_ntpb L) (\<lambda>dst_block_idx.
        ck_div (wrote mod ml_src_ntpb L) (ml_kernel_ntpb L) (\<lambda>src_kernel_idx.
        ck_div (wrote mod ml_dst_ntpb L) (ml_kernel_ntpb L) (\<lambda>dst_kernel_idx.
        ck_mod wrote (ml_kernel_ntpb L) (\<lambda>token_idx.
        c_assert (ndebug env) (src_block_idx < length sblocks) (
        c_assert (ndebug env) (dst_block_idx < length dblocks) (
        let tokens = min (ml_kernel_ntpb L - token_idx) left;
            emit = (tokens = ml_kernel_ntpb L \<or> reach_last \<or> token_idx + tokens = ml_kernel_ntpb L) in
        rbind (if emit
               then mla_kernel_block L sblocks dblocks src_block_idx src_kernel_idx dst_block_idx dst_kernel_idx bounds out
               else Inr out) (\<lambda>out'.
        mla_kernel_loop env L reach_last sblocks dblocks bounds (u32 (wrote + tokens)) (left - tokens) out'))))))))
      else Inr out)"
  by pat_completeness auto
termination
  by (relation "measure (\<lambda>(_, _, _, _, _, _, _, left, _). left)") (auto simp: Let_def)

declare mla_kernel_loop.simps [simp del]

function mla_fill_loop ::
  "kvt_env \<Rightarrow> mla_layout \<Rightarrow> nat \<Rightarrow> nat list \<Rightarrow> ipc_block_bounds \<Rightarrow> nat \<Rightarrow> nat \<Rightarrow> ipc_block list \<Rightarrow> ipc_block list result" where
  "mla_fill_loop env L fill_src_off dblocks bounds end_toks dst_pos out =
     (if dst_pos < end_toks then
        ck_div dst_pos (ml_dst_ntpb L) (\<lambda>dst_block_idx.
        ck_mod dst_pos (ml_dst_ntpb L) (\<lambda>token_in_block.
        let tokens = min (ml_dst_ntpb L - token_in_block) (end_toks - dst_pos) in
        vec_at dblocks dst_block_idx (\<lambda>d_blk.
        rbind (emit_zero_fill_segments env fill_src_off
                 (u64 (d_blk * ml_dst_page L + token_in_block * ml_token_size L))
                 (u64 (tokens * ml_token_size L)) (ml_src_page L) bounds out) (\<lambda>out'.
        mla_fill_loop env L fill_src_off dblocks bounds end_toks (dst_pos + tokens) out'))))
      else Inr out)"
  by pat_completeness auto
termination
proof (relation "measure (\<lambda>(_, _, _, _, _, end_toks, dst_pos, _). end_toks - dst_pos)", goal_cases)
  case 2
  then show ?case
    by (simp only: in_measure case_prod_conv chunk_end_less)
qed simp

declare mla_fill_loop.simps [simp del]

definition mla_fill_tail ::
  "kvt_env \<Rightarrow> mla_layout \<Rightarrow> req_send_task \<Rightarrow> nat list \<Rightarrow> nat list \<Rightarrow> ipc_block_bounds \<Rightarrow> ipc_block list \<Rightarrow> ipc_block list result" where
  "mla_fill_tail env L task sblocks dblocks bounds out =
     (if \<not> env_pad_last_attn_block env \<or> \<not> reach_last_token task then Inr out
      else
      let total_tokens = u64 (seen_tokens task + new_tokens task);
          dst_capacity_tokens = u64 (length dblocks * ml_dst_ntpb L) in
      if total_tokens \<ge> dst_capacity_tokens then Inr out
      else
      c_assert (ndebug env) (sblocks \<noteq> []) (
      vec_at sblocks 0 (\<lambda>p_blk0.
      mla_fill_loop env L (u64 (p_blk0 * ml_src_page L)) dblocks bounds dst_capacity_tokens total_tokens out)))"

definition parse_replicated_mla_blocks ::
  "kvt_env \<Rightarrow> worker_info \<Rightarrow> worker_info \<Rightarrow> bool list \<Rightarrow> req_send_task \<Rightarrow> ipc_block list list \<Rightarrow>
   ipc_block list list result" where
  "parse_replicated_mla_blocks env src dst valid_ranks task send_blocks =
     vec_at valid_ranks (worker_tp_rank src) (\<lambda>valid.
     if \<not> valid then Inr send_blocks
     else
     c_assert (ndebug env) (length (block_sizes src) = 1) (
     c_assert (ndebug env) (length (block_sizes dst) = 1) (
     c_assert (ndebug env) (length (token_sizes src) = 1) (
     c_assert (ndebug env) (length (token_sizes dst) = 1) (
     c_assert (ndebug env) (hybrid_attn_token_size src > 0) (
     c_assert (ndebug env) (attn_kernel_blk_ntpb src > 0) (
     c_assert (ndebug env) (attn_kernel_blk_ntpb src = attn_kernel_blk_ntpb dst) (
     c_assert (ndebug env) (attn_pack_size src = 1) (
     c_assert (ndebug env) (attn_pack_size dst = 1) (
     c_assert (ndebug env) (hybrid_attn_token_size src = hybrid_attn_token_size dst) (
     let group_idx = num_gdn_layers src in
     c_assert (ndebug env) (length (src_blocks task) = group_idx + 1) (
     c_assert (ndebug env) (length (dst_blocks task) = group_idx + 1) (
     vec_at (src_blocks task) group_idx (\<lambda>sblocks.
     vec_at (dst_blocks task) group_idx (\<lambda>dblocks.
     vec_at (block_sizes src) 0 (\<lambda>src_logical.
     vec_at (block_sizes dst) 0 (\<lambda>dst_logical.
     vec_at (token_sizes src) 0 (\<lambda>src_registered.
     vec_at (token_sizes dst) 0 (\<lambda>dst_registered.
     c_assert (ndebug env) (src_registered > 0) (
     c_assert (ndebug env) (dst_registered > 0) (
     c_assert_mod0 (ndebug env) src_logical src_registered (
     c_assert_mod0 (ndebug env) dst_logical dst_registered (
     ck_div src_logical src_registered (\<lambda>sq.
     ck_div dst_logical dst_registered (\<lambda>dq.
     let L = \<lparr> ml_src_ntpb = u32 sq, ml_dst_ntpb = u32 dq, ml_kernel_ntpb = attn_kernel_blk_ntpb src,
               ml_token_size = hybrid_attn_token_size src,
               ml_src_page = (if kda_page_stride src \<noteq> 0 then kda_page_stride src else src_logical),
               ml_dst_page = (if kda_page_stride dst \<noteq> 0 then kda_page_stride dst else dst_logical) \<rparr> in
     c_assert (ndebug env) (ml_src_ntpb L > 0) (
     c_assert (ndebug env) (ml_dst_ntpb L > 0) (
     c_assert_mod0 (ndebug env) (ml_src_ntpb L) (ml_kernel_ntpb L) (
     c_assert_mod0 (ndebug env) (ml_dst_ntpb L) (ml_kernel_ntpb L) (
     c_assert (ndebug env) (u64 (ml_src_ntpb L * ml_token_size L) \<le> ml_src_page L) (
     c_assert (ndebug env) (u64 (ml_dst_ntpb L * ml_token_size L) \<le> ml_dst_page L) (
     let send_blocks' = vec_resize 1 send_blocks in
     rbind (make_ipc_block_bounds env src dst 0) (\<lambda>bounds.
     on_cache 0 (\<lambda>out.
       if engine_tp_size src = engine_tp_size dst then mla_manager_blocks env L task sblocks dblocks bounds out
       else rbind (mla_kernel_loop env L (reach_last_token task) sblocks dblocks bounds (seen_tokens task) (new_tokens task) out)
              (mla_fill_tail env L task sblocks dblocks bounds)) send_blocks'))))))))))))))))))))))))))))))))"

section \<open>The parsers\<close>

definition parse_kimi_k3_mla_block_send_p_eq_d :: parse_block_func where
  "parse_kimi_k3_mla_block_send_p_eq_d env src dst valid_ranks kvt_tp_size kvt_tp_rank task send_blocks =
     c_assert (ndebug env) (engine_tp_size src = engine_tp_size dst) (
     c_assert (ndebug env) (worker_tp_rank src = worker_tp_rank dst) (
     rbind (parse_replicated_mla_blocks env src dst valid_ranks task send_blocks)
       (parse_kda_block_send_p_eq_d env src dst valid_ranks kvt_tp_size kvt_tp_rank task)))"

definition parse_kimi_k3_mla_block_send_p_gt_d :: parse_block_func where
  "parse_kimi_k3_mla_block_send_p_gt_d env src dst valid_ranks kvt_tp_size kvt_tp_rank task send_blocks =
     c_assert (ndebug env) (engine_tp_size src > engine_tp_size dst) (
     rbind (parse_replicated_mla_blocks env src dst valid_ranks task send_blocks)
       (parse_kda_block_send_p_gt_d env src dst valid_ranks kvt_tp_size kvt_tp_rank task))"

definition parse_kimi_k3_mla_block_send_p_lt_d :: parse_block_func where
  "parse_kimi_k3_mla_block_send_p_lt_d env src dst valid_ranks kvt_tp_size kvt_tp_rank task send_blocks =
     c_assert (ndebug env) (engine_tp_size src < engine_tp_size dst) (
     rbind (parse_replicated_mla_blocks env src dst valid_ranks task send_blocks)
       (parse_kda_block_send_p_lt_d env src dst valid_ranks kvt_tp_size kvt_tp_rank task))"

end
