(* ===== verification/ParserSafety.thy ===== *)
theory ParserSafety
  imports ParseQwen3FlashInfer ParseKda
begin

text \<open>
  Memory safety of the parsers: whatever the workers, the request and the environment are, a parser that
  returns has only appended descriptors that stay inside the layer's memory of both workers. No hypothesis on the
  configuration is made; a parser that cannot satisfy this throws.
\<close>

section \<open>The judgement\<close>

text \<open>
  \<open>send_blocks\<close> is the vector before the call, \<open>r\<close> what the call returns. For every cache tensor the old
  descriptors are a prefix of the new ones, and an added descriptor is in the bounds of its tensor.
\<close>

definition safe_vec ::
  "kvt_env \<Rightarrow> worker_info \<Rightarrow> worker_info \<Rightarrow> ipc_block list list \<Rightarrow> ipc_block list list \<Rightarrow> bool" where
  "safe_vec env src dst send_blocks out \<longleftrightarrow>
     (\<forall>i<length out. \<exists>new. out ! i = (if i < length send_blocks then send_blocks ! i else []) @ new \<and>
        (new \<noteq> [] \<longrightarrow> (\<exists>bounds. make_ipc_block_bounds env src dst i = Inr bounds \<and> (\<forall>b\<in>set new. in_bounds bounds b))))"

definition holds :: "('a \<Rightarrow> bool) \<Rightarrow> 'a result \<Rightarrow> bool" where
  "holds Q r \<longleftrightarrow> (\<forall>out. r = Inr out \<longrightarrow> Q out)"

abbreviation safe_send ::
  "kvt_env \<Rightarrow> worker_info \<Rightarrow> worker_info \<Rightarrow> ipc_block list list \<Rightarrow> ipc_block list list result \<Rightarrow> bool" where
  "safe_send env src dst send_blocks \<equiv> holds (safe_vec env src dst send_blocks)"

named_theorems safe_intros \<open>compositional rules of the judgement\<close>

lemma holds_c_assert [safe_intros]: "holds Q k \<Longrightarrow> holds Q (c_assert nd b k)"
  by (simp add: c_assert_def holds_def)

lemma holds_c_assert_mod0 [safe_intros]: "holds Q k \<Longrightarrow> holds Q (c_assert_mod0 nd a b k)"
  by (simp add: c_assert_mod0_def c_assert_def holds_def)

lemma holds_ck_div [safe_intros]: "(b \<noteq> 0 \<Longrightarrow> holds Q (k (a div b))) \<Longrightarrow> holds Q (ck_div a b k)"
  by (simp add: ck_div_def holds_def)

lemma holds_ck_mod [safe_intros]: "(b \<noteq> 0 \<Longrightarrow> holds Q (k (a mod b))) \<Longrightarrow> holds Q (ck_mod a b k)"
  by (simp add: ck_mod_def holds_def)

lemma holds_vec_at [safe_intros]: "(i < length xs \<Longrightarrow> holds Q (k (xs ! i))) \<Longrightarrow> holds Q (vec_at xs i k)"
  by (simp add: vec_at_def holds_def)

lemma holds_vec_idx [safe_intros]: "(i < length xs \<Longrightarrow> holds Q (k (xs ! i))) \<Longrightarrow> holds Q (vec_idx xs i k)"
  by (simp add: vec_idx_def holds_def)

lemma holds_if [safe_intros]: "(c \<Longrightarrow> holds Q r) \<Longrightarrow> (\<not> c \<Longrightarrow> holds Q r') \<Longrightarrow> holds Q (if c then r else r')"
  by simp

lemma holds_Let [safe_intros]: "holds Q (f x) \<Longrightarrow> holds Q (Let x f)"
  by simp

lemma holds_rbind: "(\<And>x. m = Inr x \<Longrightarrow> holds Q (f x)) \<Longrightarrow> holds Q (rbind m f)"
  by (cases m) (simp_all add: holds_def)

lemma holds_on_cache: "(\<And>xs. length xs = length sb \<Longrightarrow> Q xs) \<Longrightarrow> holds Q (on_cache i f sb)"
  by (auto simp: holds_def on_cache_def vec_at_def rbind_eq_Inr_iff split: if_splits)

lemma holds_per_tp_kv_heads [safe_intros]:
  "(\<And>h. holds Q (k h)) \<Longrightarrow> holds Q (flashinfer_per_tp_kv_heads w k)"
  "(\<And>h. holds Q (k h)) \<Longrightarrow> holds Q (per_tp_kv_heads w k)"
  by (simp_all add: flashinfer_per_tp_kv_heads_def per_tp_kv_heads_def ck_div_def holds_def safe_vec_def Let_def)

lemma safe_Inr [safe_intros]: "safe_send env s d sb (Inr sb)"
  by (simp add: holds_def safe_vec_def)

lemma safe_resize [safe_intros]: "safe_send env s d sb (Inr (vec_resize n sb))"
  by (auto simp: holds_def safe_vec_def vec_resize_def nth_append)

lemma safe_rbind:
  "safe_send env s d sb m \<Longrightarrow> (\<And>sb'. safe_send env s d sb (Inr sb') \<Longrightarrow> safe_send env s d sb (f sb')) \<Longrightarrow>
   safe_send env s d sb (rbind m f)"
  by (cases m) (simp_all add: holds_def safe_vec_def)

lemma checked_layer_capacity_less: "checked_layer_capacity w i = Inr c \<Longrightarrow> c < 2 ^ 64"
  by (auto simp: checked_layer_capacity_def u64_def Let_def split: if_splits)

lemma safe_bounds [safe_intros]:
  assumes "\<And>bounds. make_ipc_block_bounds env s d i = Inr bounds \<Longrightarrow> src_capacity bounds < 2 ^ 64 \<Longrightarrow>
    safe_send env s d sb (f bounds)"
  shows "safe_send env s d sb (rbind (make_ipc_block_bounds env s d i) f)"
proof (rule holds_rbind)
  fix bounds
  assume b: "make_ipc_block_bounds env s d i = Inr bounds"
  then have "src_capacity bounds < 2 ^ 64"
    by (auto simp: make_ipc_block_bounds_def rbind_eq_Inr_iff dest!: checked_layer_capacity_less)
  with b show "safe_send env s d sb (f bounds)"
    by (rule assms)
qed

text \<open>Updating the descriptors of one tensor; \<open>sb'\<close> is a vector already known to be safe.\<close>

lemma safe_update:
  assumes "safe_send env s d sb (Inr sb')" and "make_ipc_block_bounds env s d i = Inr bounds"
    and "emits (in_bounds bounds) (sb' ! i) r" and "i < length sb'"
  shows "safe_send env s d sb (rbind r (\<lambda>out. Inr (sb'[i := out])))"
  unfolding holds_def safe_vec_def
proof (intro allI impI)
  fix res j
  assume r: "rbind r (\<lambda>out. Inr (sb'[i := out])) = Inr res" and j: "j < length res"
  then obtain out where out: "r = Inr out" "res = sb'[i := out]"
    by (auto simp: rbind_eq_Inr_iff)
  obtain new where new: "out = sb' ! i @ new" "\<forall>b\<in>set new. in_bounds bounds b"
    using emitsD [OF assms(3) out(1)] by auto
  have j': "j < length sb'"
    using j out by simp
  obtain old where old: "sb' ! j = (if j < length sb then sb ! j else []) @ old"
    "old \<noteq> [] \<longrightarrow> (\<exists>bounds. make_ipc_block_bounds env s d j = Inr bounds \<and> (\<forall>b\<in>set old. in_bounds bounds b))"
    using assms(1) j' unfolding holds_def safe_vec_def by blast
  show "\<exists>new. res ! j = (if j < length sb then sb ! j else []) @ new \<and>
    (new \<noteq> [] \<longrightarrow> (\<exists>bounds. make_ipc_block_bounds env s d j = Inr bounds \<and> (\<forall>b\<in>set new. in_bounds bounds b)))"
  proof (cases "j = i")
    case True
    have "\<forall>b\<in>set (old @ new). in_bounds bounds b"
      using old(2) new(2) assms(2) True by (cases "old = []") auto
    then show ?thesis
      using True out new old(1) j' assms(2) by (intro exI [of _ "old @ new"]) auto
  next
    case False
    then show ?thesis
      using out old by (intro exI [of _ old]) auto
  qed
qed

lemma safe_on_cache:
  assumes "safe_send env s d sb (Inr sb')" and "make_ipc_block_bounds env s d i = Inr bounds"
    and "\<And>c. emits (in_bounds bounds) c (f c)"
  shows "safe_send env s d sb (on_cache i f sb')"
  unfolding on_cache_def by (rule holds_vec_at, rule safe_update [OF assms(1,2,3)])

text \<open>The rest of a parser that holds the descriptors \<open>c\<close> of tensor \<open>i\<close> and stores them at its end.\<close>

definition stores ::
  "(ipc_block \<Rightarrow> bool) \<Rightarrow> nat \<Rightarrow> ipc_block list list \<Rightarrow> ipc_block list \<Rightarrow> ipc_block list list result \<Rightarrow> bool" where
  "stores P i sb c r \<longleftrightarrow> (\<forall>res. r = Inr res \<longrightarrow> (\<exists>new. res = sb[i := c @ new] \<and> (\<forall>b\<in>set new. P b)))"

lemma stores_final: "stores P i sb c (Inr (sb[i := c]))"
  by (auto simp: stores_def intro!: exI [of _ "[]"])

lemma stores_c_assert: "stores P i sb c k \<Longrightarrow> stores P i sb c (c_assert nd b k)"
  by (simp add: c_assert_def stores_def)

lemma stores_Let: "stores P i sb c (f x) \<Longrightarrow> stores P i sb c (Let x f)"
  by simp

lemma stores_vec_at: "(j < length xs \<Longrightarrow> stores P i sb c (k (xs ! j))) \<Longrightarrow> stores P i sb c (vec_at xs j k)"
  by (simp add: vec_at_def stores_def)

lemma stores_vec_idx: "(j < length xs \<Longrightarrow> stores P i sb c (k (xs ! j))) \<Longrightarrow> stores P i sb c (vec_idx xs j k)"
  by (simp add: vec_idx_def stores_def)

lemma stores_rbind:
  assumes "emits P c m" and "\<And>c'. stores P i sb c' (f c')"
  shows "stores P i sb c (rbind m f)"
  unfolding stores_def
proof (intro allI impI)
  fix res
  assume "rbind m f = Inr res"
  then obtain c' where c': "m = Inr c'" "f c' = Inr res"
    by (auto simp: rbind_eq_Inr_iff)
  obtain new where "c' = c @ new" "\<forall>b\<in>set new. P b"
    using emitsD [OF assms(1) c'(1)] by auto
  moreover obtain new' where "res = sb[i := c' @ new']" "\<forall>b\<in>set new'. P b"
    using assms(2) [of c'] c'(2) unfolding stores_def by blast
  ultimately show "\<exists>new. res = sb[i := c @ new] \<and> (\<forall>b\<in>set new. P b)"
    by (intro exI [of _ "new @ new'"]) auto
qed

lemmas stores_intros = stores_final stores_c_assert stores_Let stores_vec_at stores_vec_idx stores_rbind

lemma safe_stores:
  assumes "safe_send env s d sb (Inr sb')" and "make_ipc_block_bounds env s d i = Inr bounds" and "i < length sb'"
    and "stores (in_bounds bounds) i sb' (sb' ! i) r"
  shows "safe_send env s d sb r"
proof -
  have "rbind (case r of Inl e \<Rightarrow> Inl e | Inr res \<Rightarrow> Inr (res ! i)) (\<lambda>out. Inr (sb'[i := out])) = r"
    using assms(3,4) by (cases r) (auto simp: stores_def)
  moreover have "emits (in_bounds bounds) (sb' ! i) (case r of Inl e \<Rightarrow> Inl e | Inr res \<Rightarrow> Inr (res ! i))"
    using assms(3,4) by (cases r) (auto simp: stores_def emits_def)
  ultimately show ?thesis
    using safe_update [OF assms(1,2) _ assms(3)] by metis
qed

lemmas safe_resized = safe_stores [OF safe_resize]

lemma safe_rfold:
  assumes "\<And>x sb'. x \<in> set xs \<Longrightarrow> safe_send env s d sb (Inr sb') \<Longrightarrow> safe_send env s d sb (f x sb')"
    and "safe_send env s d sb (Inr sb')"
  shows "safe_send env s d sb (rfold f xs sb')"
  using assms by (induction xs arbitrary: sb') (auto intro!: safe_rbind)

section \<open>The routines of the layouts\<close>

lemma emits_send_v_of_k:
  "src_capacity bounds < 2 ^ 64 \<Longrightarrow> emits (in_bounds bounds) out (send_v_of_k env pk dk bounds swap a b out)"
  unfolding send_v_of_k_def by (intro emits_intros)

lemma emits_send_v_layer:
  "src_capacity bounds < 2 ^ 64 \<Longrightarrow> emits (in_bounds bounds) out (send_v_layer x y bounds a b out)"
  unfolding send_v_layer_def by (intro emits_intros)

lemma emits_send_kv_internal:
  "src_capacity bounds < 2 ^ 64 \<Longrightarrow>
   emits (in_bounds bounds) out (send_kv_internal env pb db pt dt ptp dtp pr dr ps ds w l bounds swap out)"
  unfolding send_kv_internal_def by (intro emits_intros emits_send_v_of_k emits_parse_block_send_gt)

lemmas emits_parts =
  emits_parse_p_eq_d emits_parse_block_send_gt emits_emit_zero_fill emits_send_v_layer emits_send_kv_internal
  emits_parse_flashinfer_HND_block emits_parse_hybrid_flashinfer_HND_block
  emits_fill_last_hybrid_flashinfer_HND_block emits_hybrid

lemma emits_hybrid_p_gt_d:
  "src_capacity bounds < 2 ^ 64 \<Longrightarrow>
   emits (in_bounds bounds) out (do_parse_hybrid_block_send_p_gt_d env pt dt sn dn gn goff hn hoff vr src dst task bounds out)"
  unfolding do_parse_hybrid_block_send_p_gt_d_def by (intro emits_intros emits_parts)

lemma emits_hybrid_p_lt_d:
  "src_capacity bounds < 2 ^ 64 \<Longrightarrow>
   emits (in_bounds bounds) out (hybrid_p_lt_d_replicated env src dst task pt pb db bounds out)"
  "src_capacity bounds < 2 ^ 64 \<Longrightarrow>
   emits (in_bounds bounds) out (hybrid_p_lt_d_sliced env src dst task pt dt pb db bounds out)"
  unfolding hybrid_p_lt_d_replicated_def hybrid_p_lt_d_sliced_def by ((intro emits_intros emits_parts; assumption)+)

lemma emits_fill_tail_HND:
  assumes "src_capacity bounds < 2 ^ 64"
  shows "emits (in_bounds bounds) out (fill_tail_hybrid_flashinfer_HND_block_p_lt_d env HF sb db t bounds out)"
proof -
  have "emits (in_bounds bounds) out (fill_tail_HND_loop env HF z db bounds e d out)" for z e d out
  proof (induction "e - d" arbitrary: d out rule: less_induct)
    case less
    show ?case
      by (subst fill_tail_HND_loop.simps)
        (intro emits_intros emits_emit_zero_fill assms less; auto intro!: chunk_end_less)
  qed
  then show ?thesis
    unfolding fill_tail_hybrid_flashinfer_HND_block_p_lt_d_def by (intro emits_intros)
qed

lemma emits_hybrid_flashinfer:
  "src_capacity bounds < 2 ^ 64 \<Longrightarrow>
   emits (in_bounds bounds) out (hybrid_flashinfer_p_gt_d_body env src dst vr task hr A gn hn hoff bounds out)"
  "src_capacity bounds < 2 ^ 64 \<Longrightarrow>
   emits (in_bounds bounds) out (hybrid_flashinfer_p_lt_d_replicated env src dst task sn pb db bounds out)"
  "src_capacity bounds < 2 ^ 64 \<Longrightarrow>
   emits (in_bounds bounds) out (hybrid_flashinfer_p_lt_d_sliced env src dst task pt dt pb db sn dn bounds out)"
  unfolding hybrid_flashinfer_p_gt_d_body_def hybrid_flashinfer_p_lt_d_replicated_def hybrid_flashinfer_p_lt_d_sliced_def
  by ((intro emits_intros emits_parts emits_fill_tail_HND; assumption)+)

lemma emits_kda_channels_lt [emits_intros]:
  assumes "src_capacity bounds < 2 ^ 64" and "\<And>p d out. emits (in_bounds bounds) out (k p d out)"
  shows "emits (in_bounds bounds) out (kda_channels_lt nd p d gn goff el bounds k cs pi di out)"
  by (induction cs arbitrary: pi di out) (auto intro!: emits_intros assms)

lemma emits_for_kda_blocks:
  "(\<And>p d out. emits P out (emit p d out)) \<Longrightarrow> emits P out (for_kda_blocks n pb db sb dbl emit out)"
  unfolding for_kda_blocks_def by (intro emits_intros)

lemma emits_emit_kda_block:
  "src_capacity bounds < 2 ^ 64 \<Longrightarrow>
   emits (in_bounds bounds) out (emit_kda_block_p_gt_d env p d gn goff src lay bounds out)"
  "src_capacity bounds < 2 ^ 64 \<Longrightarrow>
   emits (in_bounds bounds) out (emit_kda_block_p_lt_d env p d gn goff src lay bounds out)"
  unfolding emit_kda_block_p_gt_d_def emit_kda_block_p_lt_d_def emit_kda_recurrent_lt_def
  by ((intro emits_intros; assumption)+)

lemma emits_mla_manager_blocks:
  "src_capacity bounds < 2 ^ 64 \<Longrightarrow> emits (in_bounds bounds) out (mla_manager_blocks env L task sb db bounds out)"
  unfolding mla_manager_blocks_def by (intro emits_intros)

lemma emits_mla_kernel_loop:
  assumes "src_capacity bounds < 2 ^ 64"
  shows "emits (in_bounds bounds) out (mla_kernel_loop env L last_tok sb db bounds w l out)"
proof (induction l arbitrary: w out rule: less_induct)
  case (less l)
  show ?case
    by (subst mla_kernel_loop.simps, unfold mla_kernel_block_def) (intro emits_intros assms less.IH; simp)
qed

lemma emits_mla_fill_tail:
  assumes "src_capacity bounds < 2 ^ 64"
  shows "emits (in_bounds bounds) out (mla_fill_tail env L task sb db bounds out)"
proof -
  have "emits (in_bounds bounds) out (mla_fill_loop env L z db bounds e d out)" for z e d out
  proof (induction "e - d" arbitrary: d out rule: less_induct)
    case less
    show ?case
      by (subst mla_fill_loop.simps)
        (intro emits_intros emits_emit_zero_fill assms less; auto intro!: chunk_end_less)
  qed
  then show ?thesis
    unfolding mla_fill_tail_def by (intro emits_intros)
qed

lemmas emits_parsers =
  emits_parts emits_hybrid_p_gt_d emits_hybrid_p_lt_d emits_hybrid_flashinfer

section \<open>The parsers\<close>

lemma safe_ragged_p_eq_d: "safe_send env src dst sb (parse_block_send_p_eq_d env src dst vr ts tr task sb)"
  unfolding parse_block_send_p_eq_d_def
  by (intro safe_intros, rule safe_resized, assumption, assumption, intro stores_intros emits_intros emits_parsers)

lemma safe_ragged_dpsk: "safe_send env src dst sb (parse_block_send_p_gt_d_dpsk env src dst vr ts tr task sb)"
  unfolding parse_block_send_p_gt_d_dpsk_def
  by (intro safe_intros, rule safe_resized, assumption, assumption, intro stores_intros emits_intros emits_parsers)

lemma safe_flash_p_eq_d: "safe_send env src dst sb (vllm_parse_block_send_p_eq_d env src dst vr ts tr task sb)"
  unfolding vllm_parse_block_send_p_eq_d_def
  by (intro safe_intros, rule safe_resized, assumption, assumption, intro stores_intros emits_intros emits_parsers)

lemma safe_flash_p_gt_d: "safe_send env src dst sb (vllm_parse_block_send_p_gt_d env src dst vr ts tr task sb)"
  unfolding vllm_parse_block_send_p_gt_d_def
  by (intro safe_intros, rule safe_resized, assumption, assumption, intro stores_intros emits_intros emits_parsers)

lemma safe_flashinfer_p_eq_d: "safe_send env src dst sb (vllm_parse_flashinfer_block_send_p_eq_d env src dst vr ts tr task sb)"
  unfolding vllm_parse_flashinfer_block_send_p_eq_d_def
  by (intro safe_intros, rule safe_resized, assumption, assumption, intro stores_intros emits_intros emits_parsers)

lemma safe_flashinfer_p_gt_d: "safe_send env src dst sb (vllm_parse_flashinfer_block_send_p_gt_d env src dst vr ts tr task sb)"
  unfolding vllm_parse_flashinfer_block_send_p_gt_d_def
  by (intro safe_intros, rule safe_resized, assumption, assumption, intro stores_intros emits_intros emits_parsers)

lemma safe_hybrid_p_eq_d: "safe_send env src dst sb (vllm_parse_hybrid_block_send_p_eq_d_block_aligned env src dst vr ts tr task sb)"
  unfolding vllm_parse_hybrid_block_send_p_eq_d_block_aligned_def
  by (intro safe_intros, rule safe_resized, assumption, assumption, intro stores_intros emits_intros emits_parsers)

lemma safe_hybrid_p_gt_d: "safe_send env src dst sb (vllm_parse_hybrid_block_send_p_gt_d env src dst vr ts tr task sb)"
  unfolding vllm_parse_hybrid_block_send_p_gt_d_def
  by (intro safe_intros, rule safe_resized, assumption, assumption, intro stores_intros emits_intros emits_parsers)

lemma safe_hybrid_p_lt_d: "safe_send env src dst sb (vllm_parse_hybrid_block_send_p_lt_d env src dst vr ts tr task sb)"
  unfolding vllm_parse_hybrid_block_send_p_lt_d_def
  by (intro safe_intros, rule safe_resized, assumption, assumption, intro stores_intros emits_intros emits_parsers)

lemma safe_hybrid_flashinfer_p_eq_d: "safe_send env src dst sb (vllm_parse_qwen3_next_flashinfer_block_send_p_eq_d env src dst vr ts tr task sb)"
  unfolding vllm_parse_qwen3_next_flashinfer_block_send_p_eq_d_def
  by (intro safe_intros, rule safe_resized, assumption, assumption, intro stores_intros emits_intros emits_parsers)

lemma safe_hybrid_flashinfer_p_gt_d: "safe_send env src dst sb (vllm_parse_qwen3_next_flashinfer_block_send_p_gt_d env src dst vr ts tr task sb)"
  unfolding vllm_parse_qwen3_next_flashinfer_block_send_p_gt_d_def
  by (intro safe_intros, rule safe_resized, assumption, assumption, intro stores_intros emits_intros emits_parsers)

lemma safe_hybrid_flashinfer_p_lt_d: "safe_send env src dst sb (vllm_parse_qwen3_next_flashinfer_block_send_p_lt_d env src dst vr ts tr task sb)"
  unfolding vllm_parse_qwen3_next_flashinfer_block_send_p_lt_d_def
  by (intro safe_intros, rule safe_resized, assumption, assumption, intro stores_intros emits_intros emits_parsers)

lemma safe_internal:
  assumes "make_ipc_block_bounds env src dst 0 = Inr bounds" and "src_capacity bounds < 2 ^ 64"
  shows "safe_send env src dst sb
    (do_parse_block_send_internal env p pt pb d dt db w l bounds swap sb)"
  unfolding do_parse_block_send_internal_def
  by (intro safe_intros safe_on_cache [OF safe_resize assms(1)] emits_send_kv_internal assms(2))

lemma safe_ragged_p_gt_d: "safe_send env src dst sb (parse_block_send_p_gt_d env src dst vr ts tr task sb)"
  unfolding parse_block_send_p_gt_d_def by (intro safe_intros safe_internal)

lemma safe_ragged_p_lt_d: "safe_send env src dst sb (parse_block_send_p_lt_d env src dst vr ts tr task sb)"
  unfolding parse_block_send_p_lt_d_def by (intro safe_intros safe_internal)

lemma safe_send_cache_whole:
  assumes "safe_send env src dst sb (Inr sb')"
  shows "safe_send env src dst sb (send_cache_whole env src dst task i sb')"
  unfolding send_cache_whole_def by (intro safe_intros, rule safe_update [OF assms]) (intro emits_parsers | assumption)+

lemma safe_multi_tensor_p_eq_d:
  "safe_send env src dst sb (vllm_parse_block_send_multi_tensor_p_eq_d env src dst vr ts tr task sb)"
  unfolding vllm_parse_block_send_multi_tensor_p_eq_d_def
  by (intro safe_intros safe_rfold safe_send_cache_whole)

lemma safe_multi_tensor:
  "safe_send env src dst sb (do_multi_tensor_parse_block_send env p pt pb d dt db w l src dst swap sb)"
  unfolding do_multi_tensor_parse_block_send_def
proof (intro safe_intros safe_rfold, goal_cases)
  case (1 i sb' bounds)
  show ?case
    by (rule safe_update [OF 1(2) 1(8) emits_send_kv_internal [OF 1(9)] 1(7)])
qed

lemma safe_multi_tensor_p_gt_d:
  "safe_send env src dst sb (vllm_parse_block_send_multi_tensor_p_gt_d env src dst vr ts tr task sb)"
  unfolding vllm_parse_block_send_multi_tensor_p_gt_d_def
  by (intro safe_intros safe_rfold safe_send_cache_whole safe_multi_tensor)

lemma safe_multi_tensor_p_lt_d:
  "safe_send env src dst sb (vllm_parse_block_send_multi_tensor_p_lt_d env src dst vr ts tr task sb)"
  unfolding vllm_parse_block_send_multi_tensor_p_lt_d_def by (intro safe_intros safe_multi_tensor)

lemma safe_turboquant:
  "safe_send env src dst sb (turboquant_parse_block_send_p_eq_d env src dst vr ts tr task sb)"
  "safe_send env src dst sb (turboquant_parse_block_send_p_gt_d env src dst vr ts tr task sb)"
  by (simp_all add: turboquant_parse_block_send_p_eq_d_def turboquant_parse_block_send_p_gt_d_def
      safe_hybrid_p_eq_d safe_hybrid_p_gt_d)

text \<open>Kimi K3 calls two parsers in sequence; the second one starts from the vector the first one left.\<close>

lemma safe_resize_one:
  assumes "safe_send env s d sb (Inr sb')" and "sb \<noteq> [] \<Longrightarrow> sb' \<noteq> []"
  shows "safe_send env s d sb (Inr (vec_resize 1 sb'))"
proof (cases sb')
  case Nil
  then have "sb = []"
    using assms(2) by blast
  with Nil show ?thesis
    by (simp add: holds_def safe_vec_def vec_resize_def)
next
  case (Cons c cs)
  then show ?thesis
    using assms(1) by (auto simp: holds_def safe_vec_def vec_resize_def dest!: spec [of _ 0])
qed

lemma safe_prepare_kda:
  assumes "safe_send env s d sb (Inr sb')" and "sb \<noteq> [] \<Longrightarrow> sb' \<noteq> []"
  shows "safe_send env s d sb (prepare_kda_parse env src dst task sb')"
  unfolding prepare_kda_parse_def by (intro safe_intros holds_rbind safe_resize_one assms)

lemma safe_mla: "safe_send env src dst sb (parse_replicated_mla_blocks env src dst vr task sb)"
  unfolding parse_replicated_mla_blocks_def
proof (intro safe_intros, goal_cases)
  case (1 bounds)
  show ?case
    by (rule safe_on_cache [OF safe_resize], rule 1)
      (intro emits_intros emits_mla_manager_blocks emits_mla_kernel_loop emits_mla_fill_tail 1)
qed

lemma mla_nonempty:
  assumes "parse_replicated_mla_blocks env src dst vr task sb = Inr sb'" and "sb \<noteq> []"
  shows "sb' \<noteq> []"
proof -
  have "holds (\<lambda>out. out \<noteq> []) (parse_replicated_mla_blocks env src dst vr task sb)"
    unfolding parse_replicated_mla_blocks_def
    by (intro safe_intros holds_rbind holds_on_cache) (auto simp: holds_def assms(2) vec_resize_def)
  with assms(1) show ?thesis
    by (simp add: holds_def)
qed

lemma safe_kda_p_eq_d:
  assumes "safe_send env src dst sb (Inr sb')" and "sb \<noteq> [] \<Longrightarrow> sb' \<noteq> []"
  shows "safe_send env src dst sb (parse_kda_block_send_p_eq_d env src dst vr ts tr task sb')"
  unfolding parse_kda_block_send_p_eq_d_def
  by (rule safe_rbind [OF safe_prepare_kda [OF assms]], assumption, intro safe_intros holds_rbind, assumption,
      rule safe_on_cache, assumption, assumption, intro emits_for_kda_blocks emits_intros)

lemma safe_kda_p_gt_d:
  assumes "safe_send env src dst sb (Inr sb')" and "sb \<noteq> [] \<Longrightarrow> sb' \<noteq> []"
  shows "safe_send env src dst sb (parse_kda_block_send_p_gt_d env src dst vr ts tr task sb')"
  unfolding parse_kda_block_send_p_gt_d_def
  by (rule safe_rbind [OF safe_prepare_kda [OF assms]], assumption, intro safe_intros holds_rbind, assumption,
      rule safe_on_cache, assumption, assumption, intro emits_for_kda_blocks emits_emit_kda_block)

lemma safe_kda_p_lt_d:
  assumes "safe_send env src dst sb (Inr sb')" and "sb \<noteq> [] \<Longrightarrow> sb' \<noteq> []"
  shows "safe_send env src dst sb (parse_kda_block_send_p_lt_d env src dst vr ts tr task sb')"
  unfolding parse_kda_block_send_p_lt_d_def
  by (rule safe_rbind [OF safe_prepare_kda [OF assms]], assumption, intro safe_intros holds_rbind, assumption,
      rule safe_on_cache, assumption, assumption, intro emits_for_kda_blocks emits_emit_kda_block)

lemma safe_mla_then:
  assumes "\<And>sb'. safe_send env src dst sb (Inr sb') \<Longrightarrow> (sb \<noteq> [] \<Longrightarrow> sb' \<noteq> []) \<Longrightarrow> safe_send env src dst sb (f sb')"
  shows "safe_send env src dst sb (rbind (parse_replicated_mla_blocks env src dst vr task sb) f)"
proof (rule holds_rbind)
  fix sb'
  assume r: "parse_replicated_mla_blocks env src dst vr task sb = Inr sb'"
  show "safe_send env src dst sb (f sb')"
    using safe_mla [of env src dst sb vr task] mla_nonempty [OF r] assms by (simp add: r)
qed

lemma safe_kimi:
  "safe_send env src dst sb (parse_kimi_k3_mla_block_send_p_eq_d env src dst vr ts tr task sb)"
  "safe_send env src dst sb (parse_kimi_k3_mla_block_send_p_gt_d env src dst vr ts tr task sb)"
  "safe_send env src dst sb (parse_kimi_k3_mla_block_send_p_lt_d env src dst vr ts tr task sb)"
  unfolding parse_kimi_k3_mla_block_send_p_eq_d_def parse_kimi_k3_mla_block_send_p_gt_d_def
    parse_kimi_k3_mla_block_send_p_lt_d_def
  by (intro holds_c_assert safe_mla_then safe_kda_p_eq_d safe_kda_p_gt_d safe_kda_p_lt_d; blast)+

lemmas safe_parsers =
  safe_ragged_p_eq_d safe_ragged_dpsk safe_ragged_p_gt_d safe_ragged_p_lt_d safe_flash_p_eq_d safe_flash_p_gt_d
  safe_multi_tensor_p_eq_d safe_multi_tensor_p_gt_d safe_multi_tensor_p_lt_d
  safe_flashinfer_p_eq_d safe_flashinfer_p_gt_d safe_hybrid_p_eq_d safe_hybrid_p_gt_d safe_hybrid_p_lt_d
  safe_hybrid_flashinfer_p_eq_d safe_hybrid_flashinfer_p_gt_d safe_hybrid_flashinfer_p_lt_d
  safe_turboquant safe_kimi

end
