(* ===== verification/TxSelect.thy ===== *)
theory TxSelect
  imports ParserSafety
begin

text \<open>
  The choice of the senders and of the parser (\<open>src/tx_stub.cpp\<close>, \<open>include/tx_stub.h\<close>): which prefill ranks take
  part in the transfer to a decode worker, the effective TP size and rank of a sender, and the parser the cache
  shape and the TP sizes select.
\<close>

section \<open>Valid ranks\<close>

text \<open>\<open>std::bitset<MAX_TP_SIZE>\<close>: \<open>set\<close> throws \<open>out_of_range\<close>, a left shift drops the bits that leave the set.\<close>

definition bitset_set :: "nat \<Rightarrow> bool list \<Rightarrow> bool list result" where
  "bitset_set i bits = (if i < length bits then Inr (bits[i := True]) else Inl OutOfRange)"

definition bitset_shl :: "bool list \<Rightarrow> nat \<Rightarrow> bool list" where
  "bitset_shl bits n =
     (if n \<ge> length bits then replicate (length bits) False
      else replicate n False @ take (length bits - n) bits)"

definition no_ranks :: "bool list" where
  "no_ranks = replicate MAX_TP_SIZE False"

definition compute_valid_ranks_pd :: "kvt_env \<Rightarrow> nat \<Rightarrow> nat \<Rightarrow> int \<Rightarrow> bool list result" where
  "compute_valid_ranks_pd env p_tp d_tp n_heads =
     (if p_tp < d_tp then
        c_assert_mod0 (ndebug env) d_tp p_tp (
        rbind (if n_heads > 0 \<and> nat n_heads > p_tp \<and> nat n_heads < d_tp then
                 c_assert_mod0 (ndebug env) (nat n_heads) p_tp (
                 c_assert_mod0 (ndebug env) d_tp (nat n_heads) (Inr ()))
               else Inr ()) (\<lambda>_.
        rfold bitset_set [0..<p_tp] no_ranks))
      else if n_heads \<le> 0 \<or> nat n_heads \<ge> p_tp then
        rfold bitset_set [0..<p_tp] no_ranks
      else if d_tp \<le> nat n_heads then
        c_assert_mod0 (ndebug env) p_tp (nat n_heads) (
        let stride = p_tp div nat n_heads in
        rfold (\<lambda>i. bitset_set (u32 (i * stride))) [0..<nat n_heads] no_ranks)
      else
        c_assert_mod0 (ndebug env) d_tp (nat n_heads) (
        c_assert_mod0 (ndebug env) p_tp d_tp (
        let p_ranks_per_d_rank = p_tp div d_tp in
        rfold (\<lambda>d_rank. bitset_set (u32 (d_rank * p_ranks_per_d_rank))) [0..<d_tp] no_ranks)))"

text \<open>The effective TP size and rank, computed in \<open>refresh_dst_info\<close>.\<close>

definition effective_tp_size :: "bool list \<Rightarrow> nat" where
  "effective_tp_size valid_ranks = u32 (valid_count valid_ranks)"

definition effective_tp_rank :: "bool list \<Rightarrow> nat \<Rightarrow> nat" where
  "effective_tp_rank valid_ranks rank =
     u32 (valid_count (bitset_shl valid_ranks (u64 (length valid_ranks + 2 ^ 64 - rank))))"

section \<open>Selection of the parser\<close>

definition same_dst :: "worker_info \<Rightarrow> worker_info \<Rightarrow> bool" where
  "same_dst l r \<longleftrightarrow> inst_id l = inst_id r \<and> worker_id l = worker_id r \<and> engine_tp_size l = engine_tp_size r \<and>
     worker_tp_rank l = worker_tp_rank r \<and> block_sizes l = block_sizes r \<and> token_sizes l = token_sizes r \<and>
     layer_num_blocks l = layer_num_blocks r \<and> num_layers l = num_layers r \<and>
     transfer_protocols l = transfer_protocols r"

definition selection_p_tp :: "int \<Rightarrow> worker_info \<Rightarrow> nat \<Rightarrow> nat" where
  "selection_p_tp cache_shape src effective_kvt_tp_size =
     (if cache_shape = QWEN3_NEXT_FLASH_CACHE_SHAPE \<or> cache_shape = QWEN3_NEXT_FLASHINFER_CACHE_SHAPE \<or>
         cache_shape = KIMI_K3_MLA_CACHE_SHAPE
      then engine_tp_size src else effective_kvt_tp_size)"

text \<open>The function pointers a stub can hold, and the function behind each of them.\<close>

datatype parse_block_ptr =
    Ragged_p_eq_d | Ragged_p_gt_d_dpsk | Ragged_p_gt_d | Ragged_p_lt_d
  | Flash_p_eq_d | Flash_p_gt_d
  | Hybrid_p_eq_d | Hybrid_p_gt_d | Hybrid_p_lt_d
  | Multi_tensor_p_eq_d | Multi_tensor_p_gt_d | Multi_tensor_p_lt_d
  | Flashinfer_p_eq_d | Flashinfer_p_gt_d
  | Hybrid_flashinfer_p_eq_d | Hybrid_flashinfer_p_gt_d | Hybrid_flashinfer_p_lt_d
  | Kimi_p_eq_d | Kimi_p_gt_d | Kimi_p_lt_d
  | Turboquant_p_eq_d | Turboquant_p_gt_d

fun parse_block_fn :: "parse_block_ptr \<Rightarrow> parse_block_func" where
  "parse_block_fn Ragged_p_eq_d = parse_block_send_p_eq_d"
| "parse_block_fn Ragged_p_gt_d_dpsk = parse_block_send_p_gt_d_dpsk"
| "parse_block_fn Ragged_p_gt_d = parse_block_send_p_gt_d"
| "parse_block_fn Ragged_p_lt_d = parse_block_send_p_lt_d"
| "parse_block_fn Flash_p_eq_d = vllm_parse_block_send_p_eq_d"
| "parse_block_fn Flash_p_gt_d = vllm_parse_block_send_p_gt_d"
| "parse_block_fn Hybrid_p_eq_d = vllm_parse_hybrid_block_send_p_eq_d_block_aligned"
| "parse_block_fn Hybrid_p_gt_d = vllm_parse_hybrid_block_send_p_gt_d"
| "parse_block_fn Hybrid_p_lt_d = vllm_parse_hybrid_block_send_p_lt_d"
| "parse_block_fn Multi_tensor_p_eq_d = vllm_parse_block_send_multi_tensor_p_eq_d"
| "parse_block_fn Multi_tensor_p_gt_d = vllm_parse_block_send_multi_tensor_p_gt_d"
| "parse_block_fn Multi_tensor_p_lt_d = vllm_parse_block_send_multi_tensor_p_lt_d"
| "parse_block_fn Flashinfer_p_eq_d = vllm_parse_flashinfer_block_send_p_eq_d"
| "parse_block_fn Flashinfer_p_gt_d = vllm_parse_flashinfer_block_send_p_gt_d"
| "parse_block_fn Hybrid_flashinfer_p_eq_d = vllm_parse_qwen3_next_flashinfer_block_send_p_eq_d"
| "parse_block_fn Hybrid_flashinfer_p_gt_d = vllm_parse_qwen3_next_flashinfer_block_send_p_gt_d"
| "parse_block_fn Hybrid_flashinfer_p_lt_d = vllm_parse_qwen3_next_flashinfer_block_send_p_lt_d"
| "parse_block_fn Kimi_p_eq_d = parse_kimi_k3_mla_block_send_p_eq_d"
| "parse_block_fn Kimi_p_gt_d = parse_kimi_k3_mla_block_send_p_gt_d"
| "parse_block_fn Kimi_p_lt_d = parse_kimi_k3_mla_block_send_p_lt_d"
| "parse_block_fn Turboquant_p_eq_d = turboquant_parse_block_send_p_eq_d"
| "parse_block_fn Turboquant_p_gt_d = turboquant_parse_block_send_p_gt_d"

definition select_parse_block ::
  "int \<Rightarrow> worker_info \<Rightarrow> worker_info \<Rightarrow> nat \<Rightarrow> nat \<Rightarrow> (parse_block_ptr \<times> tp_kind) result" where
  "select_parse_block cache_shape src dst sel_p_tp dst_tp =
     (if cache_shape = RAGGED_FLASH_CACHE_SHAPE then
        (if sel_p_tp = dst_tp then Inr (Ragged_p_eq_d, PEQD)
         else if sel_p_tp > dst_tp then
           (if token_sizes src = token_sizes dst then Inr (Ragged_p_gt_d_dpsk, PEQD) else Inr (Ragged_p_gt_d, PGTD))
         else Inr (Ragged_p_lt_d, PLTD))
      else if cache_shape = FLASH_CACHE_SHAPE \<and> sel_p_tp = dst_tp then Inr (Flash_p_eq_d, PEQD)
      else if cache_shape = FLASH_CACHE_SHAPE \<and> sel_p_tp > dst_tp then Inr (Flash_p_gt_d, PGTD)
      else if cache_shape = QWEN3_NEXT_FLASH_CACHE_SHAPE then
        (if sel_p_tp = dst_tp then Inr (Hybrid_p_eq_d, PEQD)
         else if sel_p_tp > dst_tp then Inr (Hybrid_p_gt_d, PGTD)
         else Inr (Hybrid_p_lt_d, PLTD))
      else if cache_shape = DPSK_V32_SPARSE_MLA_SHAPE then
        (if sel_p_tp = dst_tp then Inr (Multi_tensor_p_eq_d, PEQD)
         else if sel_p_tp > dst_tp then Inr (Multi_tensor_p_gt_d, PEQD)
         else Inr (Multi_tensor_p_lt_d, PEQD))
      else if cache_shape = FLASHINFER_CACHE_SHAPE \<and> sel_p_tp = dst_tp then Inr (Flashinfer_p_eq_d, PEQD)
      else if cache_shape = FLASHINFER_CACHE_SHAPE \<and> sel_p_tp > dst_tp then Inr (Flashinfer_p_gt_d, PGTD)
      else if cache_shape = QWEN3_NEXT_FLASHINFER_CACHE_SHAPE then
        (if sel_p_tp = dst_tp then Inr (Hybrid_flashinfer_p_eq_d, PEQD)
         else if sel_p_tp > dst_tp then Inr (Hybrid_flashinfer_p_gt_d, PGTD)
         else Inr (Hybrid_flashinfer_p_lt_d, PLTD))
      else if cache_shape = KIMI_K3_MLA_CACHE_SHAPE then
        (if sel_p_tp = dst_tp then Inr (Kimi_p_eq_d, PEQD)
         else if sel_p_tp > dst_tp then Inr (Kimi_p_gt_d, PGTD)
         else Inr (Kimi_p_lt_d, PLTD))
      else if cache_shape = TURBOQUANT_CACHE_SHAPE \<and> sel_p_tp = dst_tp then Inr (Turboquant_p_eq_d, PEQD)
      else if cache_shape = TURBOQUANT_CACHE_SHAPE \<and> sel_p_tp > dst_tp then Inr (Turboquant_p_gt_d, PGTD)
      else Inl RuntimeError)"

section \<open>Every parser is safe\<close>

lemma safe_parse_block_fn: "safe_send env src dst sb (parse_block_fn f env src dst vr ts tr task sb)"
  by (cases f) (simp_all add: safe_parsers)

section \<open>Senders\<close>

lemma rfold_bitset_set:
  "\<forall>x\<in>set xs. f x < length bits \<Longrightarrow>
   rfold (\<lambda>x. bitset_set (f x)) xs bits = Inr (map (\<lambda>r. bits ! r \<or> r \<in> f ` set xs) [0..<length bits])"
proof (induction xs arbitrary: bits)
  case Nil
  show ?case
    by (simp add: map_nth)
next
  case (Cons x xs)
  have "map (\<lambda>r. bits[f x := True] ! r \<or> r \<in> f ` set xs) [0..<length bits] =
      map (\<lambda>r. bits ! r \<or> r \<in> f ` set (x # xs)) [0..<length bits]"
    using Cons.prems by (auto simp: nth_list_update)
  then show ?case
    using Cons.IH [of "bits[f x := True]"] Cons.prems by (simp add: bitset_set_def)
qed

text \<open>All valid ranks: every \<open>s\<close>-th rank below \<open>p\<close>.\<close>

definition every_rank :: "nat \<Rightarrow> nat \<Rightarrow> bool list" where
  "every_rank p s = map (\<lambda>r. r < p \<and> s dvd r) [0..<MAX_TP_SIZE]"

lemma rfold_every_rank:
  assumes "0 < s" and "m * s \<le> MAX_TP_SIZE" and "\<And>i. i < m \<Longrightarrow> f i = i * s"
  shows "rfold (\<lambda>i. bitset_set (f i)) [0..<m] no_ranks = Inr (every_rank (m * s) s)"
proof -
  have less: "i * s < m * s" if "i < m" for i
    using that assms(1) by simp
  have "r \<in> f ` set [0..<m] \<longleftrightarrow> r < m * s \<and> s dvd r" for r
  proof
    assume "r < m * s \<and> s dvd r"
    then obtain i where "r = s * i" "s * i < m * s"
      by auto
    then show "r \<in> f ` set [0..<m]"
      using assms(1,3) by (intro image_eqI [of _ _ i]) (auto simp: mult.commute)
  qed (use assms(3) less in auto)
  moreover have "f i < length no_ranks" if "i < m" for i
    using assms(3) [OF that] less_le_trans [OF less [OF that] assms(2)]
    by (simp add: no_ranks_def)
  ultimately show ?thesis
    by (subst rfold_bitset_set) (auto simp: every_rank_def no_ranks_def)
qed

lemma card_multiples:
  assumes "0 < s"
  shows "card {r. r < i * s \<and> s dvd r} = i"
proof -
  have "{r. r < i * s \<and> s dvd r} = (\<lambda>j. j * s) ` {..<i}"
    using assms by (auto simp: dvd_def mult.commute)
  then show ?thesis
    using assms by (simp add: card_image inj_on_def)
qed

lemma valid_count_map: "valid_count (map P [0..<n]) = card {r. r < n \<and> P r}"
proof -
  have "length (filter P [0..<n]) = card (set (filter P [0..<n]))"
    by (intro distinct_card [symmetric]) simp
  then show ?thesis
    by (simp add: valid_count_def filter_map comp_def)
qed

lemma valid_count_every_rank:
  assumes "0 < s" and "m * s \<le> MAX_TP_SIZE"
  shows "valid_count (every_rank (m * s) s) = m"
proof -
  have "{r. r < MAX_TP_SIZE \<and> r < m * s \<and> s dvd r} = {r. r < m * s \<and> s dvd r}"
    using assms(2) by auto
  then show ?thesis
    by (simp add: every_rank_def valid_count_map card_multiples assms(1))
qed

lemma effective_tp_rank_take:
  assumes "rank \<le> length bits" and "length bits < 2 ^ 32"
  shows "effective_tp_rank bits rank = valid_count (take rank bits)"
proof -
  have "length bits + 2 ^ 64 - rank = (length bits - rank) + 2 ^ 64"
    using assms(1) by simp
  moreover have "length bits - rank < 2 ^ 64"
    using assms(2) by simp
  ultimately have "u64 (length bits + 2 ^ 64 - rank) = length bits - rank"
    unfolding u64_def by (simp only: mod_add_self2 mod_less)
  moreover have "valid_count (bitset_shl bits (length bits - rank)) = valid_count (take rank bits)"
    using assms(1) by (cases "rank = 0 \<or> bits = []") (auto simp: bitset_shl_def valid_count_def)
  moreover have "valid_count (take rank bits) < 2 ^ 32"
    using assms(2) le_less_trans [OF length_filter_le, of "take rank bits"] by (simp add: valid_count_def min_def split: if_splits)
  ultimately show ?thesis
    by (simp add: effective_tp_rank_def u32_id)
qed

lemma every_rank_of:
  assumes p: "0 < p" "p \<le> MAX_TP_SIZE" and d: "0 < d" "d dvd p"
    and h: "0 < h \<Longrightarrow> nat h < p \<Longrightarrow> (if d \<le> nat h then nat h dvd p \<and> d dvd nat h else nat h dvd d)"
  shows "\<exists>m s. compute_valid_ranks_pd env p d h = Inr (every_rank p s) \<and> p = m * s \<and> d dvd m"
proof -
  have dp: "\<not> p < d"
    using dvd_imp_le [OF d(2) p(1)] by simp
  have less: "i * (p div m) < 2 ^ 32" if "i < m" "m dvd p" for i m
  proof -
    have "i * (p div m) \<le> m * (p div m)"
      using that(1) by simp
    also have "\<dots> \<le> 16"
      using p(2) dvd_mult_div_cancel [OF that(2)] by (simp add: MAX_TP_SIZE_def)
    finally show ?thesis
      by simp
  qed
  have every: "rfold (\<lambda>i. bitset_set (u32 (i * (p div m)))) [0..<m] no_ranks = Inr (every_rank p (p div m))"
    if "m dvd p" for m
  proof -
    have pm: "m * (p div m) = p"
      using that by simp
    then have "0 < p div m"
      using p(1) by (cases "p div m = 0") auto
    from rfold_every_rank [OF this, of m "\<lambda>i. u32 (i * (p div m))"] show ?thesis
      using p(2) less [OF _ that] by (simp add: pm u32_id)
  qed
  consider (all) "h \<le> 0 \<or> nat h \<ge> p" | (heads) "0 < h" "nat h < p" "d \<le> nat h" | (dst) "0 < h" "nat h < p" "\<not> d \<le> nat h"
    by linarith
  then show ?thesis
  proof cases
    case all
    then show ?thesis
      using dp d(2) p rfold_every_rank [of 1 p "\<lambda>i. i"]
      by (intro exI [of _ p] exI [of _ 1]) (simp add: compute_valid_ranks_pd_def)
  next
    case heads
    then show ?thesis
      using dp h every [of "nat h"]
      by (intro exI [of _ "nat h"] exI [of _ "p div nat h"]) (simp add: compute_valid_ranks_pd_def c_assert_mod0_pass)
  next
    case dst
    then show ?thesis
      using dp h d every [of d]
      by (intro exI [of _ d] exI [of _ "p div d"]) (simp add: compute_valid_ranks_pd_def c_assert_mod0_pass)
  qed
qed

lemma every_rank_below:
  assumes "0 < s" and "r < p" and "s dvd r" and "p \<le> MAX_TP_SIZE"
  shows "effective_tp_rank (every_rank p s) r = r div s"
proof -
  have "take r (every_rank p s) = map (\<lambda>j. j < p \<and> s dvd j) [0..<r]"
    using assms(2,4) by (simp add: every_rank_def take_map)
  moreover have "{j. j < r \<and> j < p \<and> s dvd j} = {j. j < r div s * s \<and> s dvd j}"
    using assms(2,3) by auto
  ultimately show ?thesis
    using assms(2,4) card_multiples [OF assms(1), of "r div s"]
    by (simp add: effective_tp_rank_take valid_count_map every_rank_def MAX_TP_SIZE_def)
qed

lemma card_group:
  assumes "0 < s" and "0 < n" and "d < e"
  shows "card {r. r < e * n * s \<and> s dvd r \<and> r div (n * s) = d} = n"
proof -
  have "{r. r < e * n * s \<and> s dvd r \<and> r div (n * s) = d} = (\<lambda>i. i * s) ` {d * n..<d * n + n}"
  proof (intro set_eqI iffI)
    fix r
    assume r: "r \<in> {r. r < e * n * s \<and> s dvd r \<and> r div (n * s) = d}"
    then obtain i where i: "r = i * s"
      by (auto simp: dvd_def mult.commute)
    then have "i div n = d"
      using r assms(1) by simp
    then show "r \<in> (\<lambda>i. i * s) ` {d * n..<d * n + n}"
      using i dividend_less_div_times [OF assms(2), of i] by (intro image_eqI [of _ _ i]) (auto simp: mult.commute)
  next
    fix r
    assume "r \<in> (\<lambda>i. i * s) ` {d * n..<d * n + n}"
    then obtain i where i: "r = i * s" "i \<in> {d * n..<d * n + n}"
      by (rule imageE)
    then have "d * n \<le> i" "i < d * n + n"
      by simp_all
    then obtain j where "i = d * n + j"
      using le_Suc_ex by blast
    with i have r: "r = (d * n + j) * s" and j: "j < n"
      by auto
    have "d * n + j < e * n"
      using mult_le_mono1 [OF Suc_leI [OF assms(3)], of n] j by simp
    then show "r \<in> {r. r < e * n * s \<and> s dvd r \<and> r div (n * s) = d}"
      using r j assms(1) by simp
  qed
  then show ?thesis
    using assms(1) by (simp add: card_image inj_on_def)
qed



section \<open>Memory safety of the selected parser\<close>

lemma in_bounds_capacity:
  assumes "make_ipc_block_bounds env src dst i = Inr bounds" and "in_bounds bounds b"
  shows "0 < blk_len b \<and>
    src_offset b + blk_len b * (if env_bf162fp8_conversion env then 2 else 1) \<le> block_sizes src ! i * layer_num_blocks src \<and>
    dst_offset b + blk_len b \<le> block_sizes dst ! i * layer_num_blocks dst"
proof -
  have le: "c \<le> block_sizes w ! i * layer_num_blocks w" if "checked_layer_capacity w i = Inr c" for w c
    using that by (auto simp: checked_layer_capacity_def u64_def Let_def split: if_splits)
  from assms(1) obtain sc dc where "checked_layer_capacity src i = Inr sc" "checked_layer_capacity dst i = Inr dc"
    "bounds = \<lparr> src_capacity = sc, dst_capacity = dc,
       src_length_scale = (if env_bf162fp8_conversion env then 2 else 1), bounds_cache_idx = i \<rparr>"
    by (auto simp: make_ipc_block_bounds_def rbind_eq_Inr_iff)
  then show ?thesis
    using le [of src sc] le [of dst dc] assms(2) by (auto simp: in_bounds_def split: if_splits)
qed

text \<open>
  C10. Whatever the cache shape, the workers, the ranks and the request: if the parser that is selected for a
  destination returns, then for every cache tensor the descriptors it had before are kept, and every descriptor it has added reads
  at least one byte, all of them inside the memory of the tensor of the sender (twice the length with the
  bf16-to-fp8 conversion), and writes inside the memory of the tensor of the receiver.
\<close>

theorem selected_parser_in_bounds:
  assumes "select_parse_block cache_shape src dst sel_p_tp dst_tp = Inr (parse_block, kind)"
    and "parse_block_fn parse_block env src dst valid_ranks kvt_tp_size kvt_tp_rank task send_blocks = Inr out"
    and "i < length out"
  shows "\<exists>new. out ! i = (if i < length send_blocks then send_blocks ! i else []) @ new \<and>
    (\<forall>b\<in>set new. 0 < blk_len b \<and>
      src_offset b + blk_len b * (if env_bf162fp8_conversion env then 2 else 1) \<le> block_sizes src ! i * layer_num_blocks src \<and>
      dst_offset b + blk_len b \<le> block_sizes dst ! i * layer_num_blocks dst)"
proof -
  have "safe_vec env src dst send_blocks out"
    using safe_parse_block_fn [of env src dst send_blocks parse_block valid_ranks kvt_tp_size kvt_tp_rank task] assms(2)
    by (simp add: holds_def)
  then obtain new where new: "out ! i = (if i < length send_blocks then send_blocks ! i else []) @ new"
    "new \<noteq> [] \<longrightarrow> (\<exists>bounds. make_ipc_block_bounds env src dst i = Inr bounds \<and> (\<forall>b\<in>set new. in_bounds bounds b))"
    using assms(3) unfolding safe_vec_def by blast
  show ?thesis
  proof (cases "new = []")
    case False
    then obtain bounds where "make_ipc_block_bounds env src dst i = Inr bounds" "\<forall>b\<in>set new. in_bounds bounds b"
      using new(2) by blast
    then show ?thesis
      using new(1) in_bounds_capacity by blast
  qed (use new(1) in simp)
qed

theorem selected_parser_in_bounds_witness:
  "\<exists>out. parse_block_fn Ragged_p_eq_d demo_env (demo_worker [4] [8] 5 1 0) (demo_worker [4] [8] 6 1 0)
      [True] 1 0 (demo_task [[4, 0]] [[1, 3]] 1 2 True) [] = Inr [out] \<and> total_len out = 8 \<and>
    (\<forall>b\<in>set out. 0 < blk_len b \<and> src_offset b + blk_len b \<le> 40 \<and> dst_offset b + blk_len b \<le> 48)"
proof -
  let ?src = "demo_worker [4] [8] 5 1 0" and ?dst = "demo_worker [4] [8] 6 1 0"
    and ?task = "demo_task [[4, 0]] [[1, 3]] 1 2 True"
  have "select_parse_block RAGGED_FLASH_CACHE_SHAPE ?src ?dst 1 1 = Inr (Ragged_p_eq_d, PEQD)"
    by (simp add: select_parse_block_def)
  moreover obtain out where
    out: "parse_block_fn Ragged_p_eq_d demo_env ?src ?dst [True] 1 0 ?task [] = Inr [out]" "total_len out = 8"
    using ragged_eq_copies [of ?src ?dst 4 8 ?task demo_env 1 "[]" "[True]" 0]
    by (auto simp: cache_ok_def task_ok_def table_ok_code)
  ultimately show ?thesis
    using selected_parser_in_bounds [of RAGGED_FLASH_CACHE_SHAPE ?src ?dst 1 1 Ragged_p_eq_d PEQD demo_env "[True]" 1 0 ?task "[]" "[out]" 0]
    by (intro exI [of _ out]) simp
qed

end
