(* ===== verification/TxStub.thy ===== *)
theory TxStub
  imports KvtEffects PyBase ParserSafety TxSelect
begin

text \<open>
  The sending stub of one destination (\<open>src/tx_stub.cpp\<close>): it resolves the destination, selects the parser,
  turns the tasks of a batch into descriptors, hands them to the channel layer by layer, and reports the finished
  requests. Timing values and log lines are not modelled.

  What the stub talks to is a parameter, the record \<open>stub_ops\<close> of operations on a world: the naming service
  (\<open>INamingWorkerClient\<close>), the channel (\<open>IChannel\<close> and its factory), the events of the step, the socket
  calls of the operating system and the fault injection of debug builds.
\<close>

section \<open>State\<close>

record 'w stub_ops =
  op_get_worker_info :: "string \<Rightarrow> nat \<Rightarrow> ('w, worker_info option) eff"
  op_create_channel :: "worker_info \<Rightarrow> ('w, unit) eff"
  op_is_active :: "'w \<Rightarrow> bool"
  op_register_data :: "ipc_block list list \<Rightarrow> tp_kind \<Rightarrow> ('w, unit) eff"
  op_wait_layer_ready :: "nat \<Rightarrow> ('w, unit) eff"
  op_send_data :: "nat \<Rightarrow> ('w, unit) eff"
  op_flush :: "('w, unit) eff"
  op_fault_inject_throw :: "('w, unit) eff"
  op_socket :: "('w, bool) eff"
  op_connect :: "('w, bool) eff"
  op_write_sock :: "nat list \<Rightarrow> ('w, bool) eff"
  op_read_sock :: "nat \<Rightarrow> ('w, int) eff"

record kv_send_stub =
  stub_dstid :: string
  stub_dstworkerid :: nat
  stub_src_info :: worker_info
  stub_start_layer :: nat
  stub_num_layers :: nat

record 'w task_context =
  tc_send_done_buf :: "nat list"
  tc_send_done_sock :: bool
  tc_send_blocks :: "ipc_block list list"
  tc_send_req :: "req_send_task list"
  tc_finished_req :: "req_send_task list"
  tc_tpkind :: tp_kind
  tc_parse_block :: "parse_block_ptr option"
  tc_dstinfo :: "worker_info option"
  tc_ch :: bool
  tc_valid_ranks :: "bool list"
  tc_kvt_tp_size :: nat
  tc_kvt_tp_rank :: nat
  tc_states :: req_states
  tc_world :: 'w

type_synonym ('w, 'a) stub_eff = "('w task_context, 'a) eff"

text \<open>A call of an operation of the world, and of the state word of a request.\<close>

definition on_world :: "('w, 'a) eff \<Rightarrow> ('w, 'a) stub_eff" where
  "on_world m s = (case m (tc_world s) of (r, w) \<Rightarrow> (r, s\<lparr>tc_world := w\<rparr>))"

definition set_task_state :: "kvt_env \<Rightarrow> req_send_task \<Rightarrow> req_state \<Rightarrow> ('w, unit) stub_eff" where
  "set_task_state env task st =
     eread tc_states (\<lambda>sts.
     ebind (elift (req_set_state env task st sts)) (\<lambda>sts'.
     emodify (tc_states_update (\<lambda>_. sts'))))"

definition initial_context :: "req_states \<Rightarrow> 'w \<Rightarrow> 'w task_context" where
  "initial_context sts w =
     \<lparr> tc_send_done_buf = [], tc_send_done_sock = False, tc_send_blocks = [], tc_send_req = [], tc_finished_req = [],
       tc_tpkind = TP_UNKNOWN, tc_parse_block = None, tc_dstinfo = None, tc_ch = False, tc_valid_ranks = no_ranks,
       tc_kvt_tp_size = 0, tc_kvt_tp_rank = 0, tc_states = sts, tc_world = w \<rparr>"

section \<open>The destination\<close>

definition bind_dst :: "kvt_env \<Rightarrow> kv_send_stub \<Rightarrow> worker_info \<Rightarrow> ('w, unit) stub_eff" where
  "bind_dst env stub dst =
     (let src = stub_src_info stub; cache_shape = env_cache_shape env in
      eseq (emodify (tc_dstinfo_update (\<lambda>_. Some dst))) (
      ebind (elift (compute_valid_ranks_pd env (engine_tp_size src) (engine_tp_size dst) (num_kv_heads src))) (\<lambda>vr.
      eseq (emodify (\<lambda>s. s\<lparr>tc_valid_ranks := vr, tc_kvt_tp_size := effective_tp_size vr,
              tc_kvt_tp_rank := effective_tp_rank vr (worker_tp_rank src)\<rparr>)) (
      eread tc_kvt_tp_size (\<lambda>kvt_tp_size.
      eread tc_parse_block (\<lambda>old.
      eread tc_tpkind (\<lambda>old_kind.
      eseq (eassert (ndebug env) (old = None)) (
      eseq (eassert (ndebug env) (old_kind = TP_UNKNOWN)) (
      ebind (elift (select_parse_block cache_shape src dst (selection_p_tp cache_shape src kvt_tp_size)
                      (engine_tp_size dst))) (\<lambda>(parse_block, kind).
      emodify (\<lambda>s. s\<lparr>tc_parse_block := Some parse_block, tc_tpkind := kind\<rparr>)))))))))))"

definition refresh_dst_info :: "kvt_env \<Rightarrow> 'w stub_ops \<Rightarrow> kv_send_stub \<Rightarrow> ('w, unit) stub_eff" where
  "refresh_dst_info env ops stub =
     ebind (on_world (op_get_worker_info ops (stub_dstid stub) (stub_dstworkerid stub))) (\<lambda>dstinfoopt.
     eread tc_dstinfo (\<lambda>orig.
     case dstinfoopt of
       None \<Rightarrow> (if orig \<noteq> None then eret () else ethrow RuntimeError)
     | Some dst \<Rightarrow>
         (case orig of
            Some old \<Rightarrow>
              (if \<not> same_dst old dst then eret ()
               else emodify (tc_dstinfo_update (\<lambda>_. Some (old\<lparr>addr := addr dst\<rparr>))))
          | None \<Rightarrow> bind_dst env stub dst)))"

definition try_create_channel :: "kvt_env \<Rightarrow> 'w stub_ops \<Rightarrow> kv_send_stub \<Rightarrow> ('w, unit) stub_eff" where
  "try_create_channel env ops stub =
     eread tc_ch (\<lambda>ch.
     eread (\<lambda>s. op_is_active ops (tc_world s)) (\<lambda>active.
     if ch \<and> active then eread tc_dstinfo (\<lambda>d. eassert (ndebug env) (d \<noteq> None))
     else
     eseq (refresh_dst_info env ops stub) (
     eread tc_dstinfo (\<lambda>d.
     case d of
       None \<Rightarrow> eseq (eassert (ndebug env) False) (ethrow Undefined)
     | Some dst \<Rightarrow>
         eseq (on_world (op_create_channel ops dst)) (emodify (tc_ch_update (\<lambda>_. True)))))))"

section \<open>Sending\<close>

definition do_send :: "kvt_env \<Rightarrow> 'w stub_ops \<Rightarrow> kv_send_stub \<Rightarrow> ('w, unit) stub_eff" where
  "do_send env ops stub =
     eread tc_send_blocks (\<lambda>blocks.
     eread tc_tpkind (\<lambda>kind.
     eseq (on_world (op_register_data ops blocks kind)) (
     eseq (efor (\<lambda>i. eseq (on_world (op_wait_layer_ready ops i)) (on_world (op_send_data ops i)))
             [stub_start_layer stub..<stub_num_layers stub]) (
     eseq (ewhen (\<not> ndebug env) (on_world (op_fault_inject_throw ops))) (
     on_world (op_flush ops))))))"

text \<open>
  The call through \<open>parse_block\<close>; a null pointer fails the assertion before the loop, or is called. The destination
  is set whenever the channel has been created.
\<close>

definition parse_one :: "kvt_env \<Rightarrow> kv_send_stub \<Rightarrow> req_send_task \<Rightarrow> ('w, unit) stub_eff" where
  "parse_one env stub task s =
     (case (tc_parse_block s, tc_dstinfo s) of
        (Some f, Some dst) \<Rightarrow>
          (case parse_block_fn f env (stub_src_info stub) dst (tc_valid_ranks s) (tc_kvt_tp_size s) (tc_kvt_tp_rank s) task
                  (tc_send_blocks s) of
             Inl e \<Rightarrow> (Inl e, s)
           | Inr out \<Rightarrow> (Inr (), s\<lparr>tc_send_blocks := out\<rparr>))
      | _ \<Rightarrow> (Inl Undefined, s))"

definition parse_requests :: "kvt_env \<Rightarrow> kv_send_stub \<Rightarrow> ('w, unit) stub_eff" where
  "parse_requests env stub =
     eread tc_parse_block (\<lambda>parse_block.
     eread tc_tpkind (\<lambda>kind.
     eread tc_send_req (\<lambda>reqs.
     eseq (eassert (ndebug env) (parse_block \<noteq> None)) (
     eseq (eassert (ndebug env) (kind \<noteq> TP_UNKNOWN)) (
     efor (parse_one env stub) reqs)))))"

definition send_requests :: "kvt_env \<Rightarrow> 'w stub_ops \<Rightarrow> kv_send_stub \<Rightarrow> ('w, unit) stub_eff" where
  "send_requests env ops stub =
     eseq (try_create_channel env ops stub) (
     eseq (parse_requests env stub) (
     eread tc_send_blocks (\<lambda>blocks.
     ewhen (blocks \<noteq> [] \<and> blocks ! 0 \<noteq> []) (
       eseq (eassert (ndebug env) (\<forall>sb\<in>set blocks. sb \<noteq> [])) (
       do_send env ops stub)))))"

text \<open>The handler of the exceptions of \<open>send_requests\<close>.\<close>

definition fail_task :: "kvt_env \<Rightarrow> req_send_task \<Rightarrow> ('w, unit) stub_eff" where
  "fail_task env task =
     eread tc_states (\<lambda>sts.
     eseq (eassert (ndebug env) (req_get_state task sts \<in> {INPROCESS, FAILED})) (
     set_task_state env task FAILED))"

definition fail_batch :: "kvt_env \<Rightarrow> req_send_task list \<Rightarrow> ('w, unit) stub_eff" where
  "fail_batch env tasks = eseq (emodify (tc_ch_update (\<lambda>_. False))) (efor (fail_task env) tasks)"

section \<open>The report of finished requests\<close>

definition SEND_DONE_REQ :: nat where "SEND_DONE_REQ = 0x20181219"
definition SAVE_DONE2_REQ :: nat where "SAVE_DONE2_REQ = 0x20181223"
definition SEND_DONE_HAS_VER2 :: nat where "SEND_DONE_HAS_VER2 = 0x40000000"
definition CODE_INTERNALERROR :: nat where "CODE_INTERNALERROR = 500"

text \<open>The bytes of a string.\<close>

definition str_bytes :: "string \<Rightarrow> nat list" where
  "str_bytes s = map of_char s"

definition send_done_entry :: "req_states \<Rightarrow> req_send_task \<Rightarrow> nat list" where
  "send_done_entry sts req =
     (let code = (if req_get_state req sts = OK then 0 else CODE_INTERNALERROR)
      in le32 (end_tokens req) @ le32 code @ le32 (u32 (length (task_req_id req))) @
         take (u32 (length (task_req_id req))) (str_bytes (task_req_id req)))"

definition send_done_body :: "nat \<Rightarrow> nat \<Rightarrow> req_states \<Rightarrow> req_send_task list \<Rightarrow> nat list" where
  "send_done_body header rank sts reqs =
     le32 header @ le32 (or rank SEND_DONE_HAS_VER2) @ le32 (u32 (length reqs)) @ concat (map (send_done_entry sts) reqs)"

definition send_done_message :: "kvt_env \<Rightarrow> nat \<Rightarrow> req_states \<Rightarrow> req_send_task list \<Rightarrow> nat list \<times> nat" where
  "send_done_message env rank sts reqs =
     (if env_send_done_head_kind env = SEND_SAVE_DONE_HEAD_KIND
      then (send_done_body SEND_DONE_REQ rank sts reqs @ send_done_body SAVE_DONE2_REQ rank sts reqs, 8)
      else (send_done_body SEND_DONE_REQ rank sts reqs, 4))"

definition do_rpc_send_done :: "'w stub_ops \<Rightarrow> nat \<Rightarrow> ('w, unit) stub_eff" where
  "do_rpc_send_done ops respsize =
     eseq (eread tc_send_done_sock (\<lambda>has_sock.
       ewhen (\<not> has_sock) (
         ebind (on_world (op_socket ops)) (\<lambda>ok.
         if \<not> ok then ethrow RuntimeError
         else
         eseq (emodify (tc_send_done_sock_update (\<lambda>_. True))) (
         ebind (on_world (op_connect ops)) (\<lambda>ok.
         if \<not> ok then ethrow RuntimeError else eret ())))))) (
     eread tc_send_done_buf (\<lambda>buf.
     ebind (on_world (op_write_sock ops buf)) (\<lambda>ok.
     if \<not> ok then ethrow RuntimeError
     else
     ebind (on_world (op_read_sock ops respsize)) (\<lambda>n.
     if n = - 1 then ethrow RuntimeError
     else if n \<noteq> int respsize then ethrow RuntimeError
     else eret ()))))"

definition reset_sock :: "('w, unit) stub_eff" where
  "reset_sock = emodify (tc_send_done_sock_update (\<lambda>_. False))"

definition rpc_send_done :: "kvt_env \<Rightarrow> 'w stub_ops \<Rightarrow> kv_send_stub \<Rightarrow> req_send_task list \<Rightarrow> ('w, unit) stub_eff" where
  "rpc_send_done env ops stub reqs =
     (let rank = worker_tp_rank (stub_src_info stub) in
      eseq (eassert (ndebug env) (rank < 0xffff)) (
      eread tc_states (\<lambda>sts.
      eseq (eassert (ndebug env) (\<forall>req\<in>set reqs. reach_last_token req)) (
      let (buf, respsize) = send_done_message env rank sts reqs in
      eseq (emodify (tc_send_done_buf_update (\<lambda>_. buf))) (
      ecatch (do_rpc_send_done ops respsize) (
        eseq reset_sock (
        ecatch (do_rpc_send_done ops respsize) reset_sock)))))))"

section \<open>A batch\<close>

definition collect_task :: "kvt_env \<Rightarrow> kv_send_stub \<Rightarrow> req_send_task \<Rightarrow> ('w, unit) stub_eff" where
  "collect_task env stub task =
     eseq (eassert (ndebug env) (task_dst_inst_id task = stub_dstid stub)) (
     eseq (eassert (ndebug env) (task_dst_worker_id task = stub_dstworkerid stub)) (
     eseq (ewhen (reach_last_token task) (emodify (tc_finished_req_update (\<lambda>xs. xs @ [task])))) (
     eread tc_states (\<lambda>sts.
     if new_tokens task \<le> 0 then eret ()
     else if req_get_state task sts = FAILED then eret ()
     else
     eseq (eassert (ndebug env) (req_get_state task sts = INPROCESS)) (
     emodify (tc_send_req_update (\<lambda>xs. xs @ [task])))))))"

definition finish_task :: "kvt_env \<Rightarrow> req_send_task \<Rightarrow> ('w, unit) stub_eff" where
  "finish_task env task =
     eseq (eassert (ndebug env) (reach_last_token task)) (
     eread tc_states (\<lambda>sts.
     ewhen (req_get_state task sts = INPROCESS) (
       set_task_state env task (if new_tokens task \<le> 0 then FAILED else OK))))"

definition do_task :: "kvt_env \<Rightarrow> 'w stub_ops \<Rightarrow> kv_send_stub \<Rightarrow> req_send_task list \<Rightarrow> ('w, unit) stub_eff" where
  "do_task env ops stub tasks =
     eread (\<lambda>s. (tc_send_req s, tc_finished_req s, tc_send_blocks s)) (\<lambda>(reqs, fin, blocks).
     eseq (eassert (ndebug env) (reqs = [])) (
     eseq (eassert (ndebug env) (fin = [])) (
     eseq (eassert (ndebug env) (blocks = [])) (
     eseq (eassert (ndebug env) (tasks \<noteq> [])) (
     eseq (efor (collect_task env stub) tasks) (
     eseq (eread tc_send_req (\<lambda>reqs. ewhen (reqs \<noteq> []) (ecatch (send_requests env ops stub) (fail_batch env tasks)))) (
     eread tc_finished_req (\<lambda>fin.
     eseq (efor (finish_task env) fin) (
     ewhen (fin \<noteq> []) (rpc_send_done env ops stub fin))))))))))"

definition clear_context :: "('w, unit) stub_eff" where
  "clear_context = emodify (\<lambda>s. s\<lparr>tc_send_blocks := [], tc_send_req := [], tc_finished_req := []\<rparr>)"

definition send_batch :: "kvt_env \<Rightarrow> 'w stub_ops \<Rightarrow> kv_send_stub \<Rightarrow> req_send_task list \<Rightarrow> ('w, unit) stub_eff" where
  "send_batch env ops stub tasks =
     eseq (eassert (ndebug env) (tasks \<noteq> [])) (
     eseq (do_task env ops stub tasks) clear_context)"

section \<open>What a batch leaves alone\<close>

lemma keeps_on_world [keeps_rules]: "(\<And>s w. g (s\<lparr>tc_world := w\<rparr>) = g s) \<Longrightarrow> keeps g (on_world m)"
  by (simp add: keeps_def on_world_def split: prod.splits)

abbreviation tc_batch :: "'w task_context \<Rightarrow> req_states \<times> req_send_task list \<times> req_send_task list" where
  "tc_batch s \<equiv> (tc_states s, tc_send_req s, tc_finished_req s)"

lemma keeps_parse_one: "(\<And>s out. g (s\<lparr>tc_send_blocks := out\<rparr>) = g s) \<Longrightarrow> keeps g (parse_one env stub task)"
  by (auto simp: keeps_def parse_one_def split: option.splits sum.splits)

lemma keeps_send_requests: "keeps tc_batch (send_requests env ops stub)"
  unfolding send_requests_def try_create_channel_def refresh_dst_info_def bind_dst_def parse_requests_def do_send_def
  by (intro keeps_rules keeps_parse_one; simp)

lemma keeps_rpc_send_done: "keeps tc_batch (rpc_send_done env ops stub reqs)"
  unfolding rpc_send_done_def do_rpc_send_done_def reset_sock_def by (intro keeps_rules; simp)

section \<open>The states of the requests\<close>

abbreviation task_ref :: "req_send_task \<Rightarrow> nat" where
  "task_ref t \<equiv> ri_ref (task_req t)"

definition sendable :: "req_states \<Rightarrow> req_send_task \<Rightarrow> bool" where
  "sendable sts t \<longleftrightarrow> 0 < new_tokens t \<and> req_get_state t sts \<noteq> FAILED"

lemma set_task_state_returns:
  "set_task_state env t st s = (Inr u, s') \<longleftrightarrow>
   (ndebug env \<or> st \<noteq> INPROCESS) \<and> s' = s\<lparr>tc_states := (tc_states s)(task_ref t := st)\<rparr>"
  by (auto simp: set_task_state_def eff_returns req_set_state_def c_assert_def)

lemma collect_task_returns:
  "collect_task env stub t s = (Inr u, s') \<Longrightarrow>
   s' = s\<lparr>tc_send_req := tc_send_req s @ filter (sendable (tc_states s)) [t],
          tc_finished_req := tc_finished_req s @ filter reach_last_token [t]\<rparr>"
  by (cases "reach_last_token t"; cases "new_tokens t = 0"; cases "req_get_state t (tc_states s) = FAILED")
    (simp_all add: collect_task_def eff_returns sendable_def req_get_state_def)

lemma collect_returns:
  "efor (collect_task env stub) tasks s = (Inr u, s') \<Longrightarrow>
   s' = s\<lparr>tc_send_req := tc_send_req s @ filter (sendable (tc_states s)) tasks,
          tc_finished_req := tc_finished_req s @ filter reach_last_token tasks\<rparr>"
proof (induction tasks arbitrary: s)
  case (Cons t ts)
  from Cons.prems obtain v s1 where t: "collect_task env stub t s = (Inr v, s1)"
    and ts: "efor (collect_task env stub) ts s1 = (Inr u, s')"
    by (auto simp: eff_returns)
  show ?case
    using Cons.IH [OF ts] collect_task_returns [OF t] by simp
qed (simp add: eff_returns)

lemma fail_task_returns:
  "fail_task env t s = (Inr u, s') \<Longrightarrow> s' = s\<lparr>tc_states := (tc_states s)(task_ref t := FAILED)\<rparr>"
  by (simp add: fail_task_def eff_returns set_task_state_returns)

lemma fail_loop_returns:
  "efor (fail_task env) tasks s = (Inr u, s') \<Longrightarrow>
   s' = s\<lparr>tc_states := (\<lambda>r. if r \<in> task_ref ` set tasks then FAILED else tc_states s r)\<rparr>"
proof (induction tasks arbitrary: s)
  case (Cons t ts)
  from Cons.prems obtain v s1 where t: "fail_task env t s = (Inr v, s1)" and ts: "efor (fail_task env) ts s1 = (Inr u, s')"
    by (auto simp: eseq_returns)
  note s1 = fail_task_returns [OF t]
  have "(\<lambda>r. if r \<in> task_ref ` set ts then FAILED else tc_states s1 r) =
      (\<lambda>r. if r \<in> task_ref ` set (t # ts) then FAILED else tc_states s r)"
    by (auto simp: s1)
  with Cons.IH [OF ts] s1 show ?case
    by simp
qed (simp add: eff_returns)

lemma fail_batch_returns:
  assumes "fail_batch env tasks s = (Inr u, s')"
  shows "tc_states s' = (\<lambda>r. if r \<in> task_ref ` set tasks then FAILED else tc_states s r)"
    and "tc_finished_req s' = tc_finished_req s" and "tc_ch s' = False"
proof -
  have "efor (fail_task env) tasks (s\<lparr>tc_ch := False\<rparr>) = (Inr u, s')"
    using assms by (simp add: fail_batch_def eseq_returns emodify_returns)
  from fail_loop_returns [OF this]
  show "tc_states s' = (\<lambda>r. if r \<in> task_ref ` set tasks then FAILED else tc_states s r)"
    and "tc_finished_req s' = tc_finished_req s" and "tc_ch s' = False"
    by (simp_all cong: if_cong)
qed

definition finished_states :: "req_send_task list \<Rightarrow> req_states \<Rightarrow> req_states" where
  "finished_states fin sts =
     fold (\<lambda>t sts. if req_get_state t sts = INPROCESS
       then sts(task_ref t := (if new_tokens t = 0 then FAILED else OK)) else sts) fin sts"

lemma finish_task_returns:
  "finish_task env t s = (Inr u, s') \<Longrightarrow> s' = s\<lparr>tc_states := finished_states [t] (tc_states s)\<rparr>"
  by (auto simp: eff_returns finish_task_def set_task_state_returns finished_states_def split: if_splits)

lemma finished_states_Cons: "finished_states (t # ts) sts = finished_states ts (finished_states [t] sts)"
  by (simp add: finished_states_def)

lemma finish_returns:
  "efor (finish_task env) fin s = (Inr u, s') \<Longrightarrow> s' = s\<lparr>tc_states := finished_states fin (tc_states s)\<rparr>"
proof (induction fin arbitrary: s)
  case (Cons t ts)
  from Cons.prems obtain v s1 where t: "finish_task env t s = (Inr v, s1)" and ts: "efor (finish_task env) ts s1 = (Inr u, s')"
    by (auto simp: eseq_returns)
  show ?case
    using Cons.IH [OF ts] finish_task_returns [OF t] by (simp add: finished_states_Cons [of t ts])
qed (simp add: eff_returns finished_states_def)

lemma finished_states_one:
  "finished_states [t] sts r =
   (if r = task_ref t \<and> sts r = INPROCESS then (if new_tokens t = 0 then FAILED else OK) else sts r)"
  by (auto simp: finished_states_def req_get_state_def)

lemma finished_states_other: "r \<notin> task_ref ` set fin \<Longrightarrow> finished_states fin sts r = sts r"
proof (induction fin arbitrary: sts)
  case (Cons t ts)
  then show ?case
    by (simp add: finished_states_Cons [of t ts] finished_states_one)
qed (simp add: finished_states_def)

lemma finished_states_distinct:
  "distinct (map task_ref fin) \<Longrightarrow> t \<in> set fin \<Longrightarrow>
   finished_states fin sts (task_ref t) =
    (if sts (task_ref t) = INPROCESS then (if new_tokens t = 0 then FAILED else OK) else sts (task_ref t))"
proof (induction fin arbitrary: sts)
  case (Cons u ts)
  show ?case
  proof (cases "t = u")
    case True
    then show ?thesis
      using Cons.prems(1) by (simp add: finished_states_Cons [of u ts] finished_states_other finished_states_one)
  next
    case False
    then have t: "t \<in> set ts"
      using Cons.prems(2) by simp
    then have "task_ref t \<in> task_ref ` set ts"
      by (rule imageI)
    moreover have "task_ref u \<notin> task_ref ` set ts"
      using Cons.prems(1) by simp
    ultimately have "task_ref t \<noteq> task_ref u"
      by (cases "task_ref t = task_ref u") simp_all
    with t have "t \<in> set ts" "task_ref t \<noteq> task_ref u"
      by simp_all
    then show ?thesis
      using Cons.IH Cons.prems(1) by (simp add: finished_states_Cons [of u ts] finished_states_one)
  qed
qed simp

lemma finished_states_final: "t \<in> set fin \<Longrightarrow> finished_states fin sts (task_ref t) \<noteq> INPROCESS"
proof (induction fin arbitrary: sts)
  case (Cons u ts)
  have stay: "finished_states xs sts r \<noteq> INPROCESS" if "sts r \<noteq> INPROCESS" for xs sts r
    using that
  proof (induction xs arbitrary: sts)
    case (Cons x xs)
    then show ?case
      by (simp add: finished_states_Cons [of x xs] finished_states_one)
  qed (simp add: finished_states_def)
  show ?case
  proof (cases "t = u")
    case True
    have "finished_states [u] sts (task_ref u) \<noteq> INPROCESS"
      by (simp add: finished_states_one)
    then show ?thesis
      using True stay by (simp add: finished_states_Cons [of u ts])
  qed (use Cons in \<open>simp add: finished_states_Cons [of u ts]\<close>)
qed simp

text \<open>The context a batch is sent from: the working vectors are empty.\<close>

definition clean :: "'w task_context \<Rightarrow> bool" where
  "clean s \<longleftrightarrow> tc_send_blocks s = [] \<and> tc_send_req s = [] \<and> tc_finished_req s = []"

definition collected :: "req_send_task list \<Rightarrow> 'w task_context \<Rightarrow> 'w task_context" where
  "collected tasks s =
     s\<lparr>tc_send_req := filter (sendable (tc_states s)) tasks, tc_finished_req := filter reach_last_token tasks\<rparr>"

text \<open>Whether the batch was sent: there is nothing to send, or the whole of \<open>send_requests\<close> returned.\<close>

definition batch_sent :: "kvt_env \<Rightarrow> 'w stub_ops \<Rightarrow> kv_send_stub \<Rightarrow> req_send_task list \<Rightarrow> 'w task_context \<Rightarrow> bool" where
  "batch_sent env ops stub tasks s \<longleftrightarrow>
     filter (sendable (tc_states s)) tasks = [] \<or> fst (send_requests env ops stub (collected tasks s)) = Inr ()"

lemma do_task_states:
  assumes "do_task env ops stub tasks s = (Inr u, s')" and "clean s"
  shows "tc_states s' = finished_states (filter reach_last_token tasks)
    (if batch_sent env ops stub tasks s then tc_states s
     else (\<lambda>r. if r \<in> task_ref ` set tasks then FAILED else tc_states s r))"
proof -
  from assms obtain v1 s1 v2 s2 v3 s3 where
    1: "efor (collect_task env stub) tasks s = (Inr v1, s1)" and
    2: "ewhen (tc_send_req s1 \<noteq> []) (ecatch (send_requests env ops stub) (fail_batch env tasks)) s1 = (Inr v2, s2)" and
    3: "efor (finish_task env) (tc_finished_req s2) s2 = (Inr v3, s3)" and
    4: "ewhen (tc_finished_req s2 \<noteq> []) (rpc_send_done env ops stub (tc_finished_req s2)) s3 = (Inr u, s')"
    unfolding do_task_def by (auto simp: eseq_returns eread_returns eassert_returns)
  have s1: "s1 = collected tasks s"
    using collect_returns [OF 1] assms(2) by (simp add: clean_def collected_def)
  have s2: "tc_finished_req s2 = filter reach_last_token tasks \<and>
    tc_states s2 = (if batch_sent env ops stub tasks s then tc_states s
      else (\<lambda>r. if r \<in> task_ref ` set tasks then FAILED else tc_states s r))"
  proof (cases "tc_send_req s1 = []")
    case True
    then have "batch_sent env ops stub tasks s"
      by (simp add: s1 collected_def batch_sent_def)
    then show ?thesis
      using True 2 by (simp add: ewhen_returns s1 collected_def)
  next
    case False
    then consider (sent) "send_requests env ops stub s1 = (Inr v2, s2)"
      | (failed) e sf where "send_requests env ops stub s1 = (Inl e, sf)" "fail_batch env tasks sf = (Inr v2, s2)"
      using 2 by (auto simp: ewhen_returns ecatch_returns)
    then show ?thesis
    proof cases
      case sent
      then have "batch_sent env ops stub tasks s"
        by (simp add: batch_sent_def s1)
      then show ?thesis
        using keeps_snd [OF keeps_send_requests sent] by (simp add: s1 collected_def)
    next
      case failed
      then have "\<not> batch_sent env ops stub tasks s"
        using False by (simp add: batch_sent_def s1 collected_def)
      then show ?thesis
        using keeps_snd [OF keeps_send_requests failed(1)] fail_batch_returns [OF failed(2)]
        by (simp add: s1 collected_def cong: if_cong)
    qed
  qed
  have "tc_states s3 = finished_states (tc_finished_req s2) (tc_states s2)"
    using finish_returns [OF 3] by simp
  moreover have "tc_states s' = tc_states s3"
    using 4 keeps_snd [OF keeps_rpc_send_done, of env ops stub "tc_finished_req s2" s3 "Inr u" s']
    by (auto simp: ewhen_returns split: if_splits)
  ultimately show ?thesis
    using s2 by simp
qed

text \<open>
  C11. The final state of every request of a batch. If the batch is sent, a task that carries the last token of a
  request still in progress ends it: with \<open>OK\<close> if it has tokens, with \<open>FAILED\<close> if it has none; the state of
  every other task's request is left as it is. If anything goes wrong on the way (the destination is not
  found, a parser, the connection or the channel throws), every request of the batch ends \<open>FAILED\<close>. A request that is not in the batch
  keeps its state.
\<close>

theorem do_task_request_states:
  assumes "do_task env ops stub tasks s = (Inr (), s')" and "clean s" and "distinct (map task_ref tasks)"
  shows "(\<forall>t\<in>set tasks. req_get_state t (tc_states s') =
      (if \<not> batch_sent env ops stub tasks s then FAILED
       else if reach_last_token t \<and> req_get_state t (tc_states s) = INPROCESS
       then (if new_tokens t = 0 then FAILED else OK)
       else req_get_state t (tc_states s))) \<and>
    (\<forall>r. r \<notin> task_ref ` set tasks \<longrightarrow> tc_states s' r = tc_states s r)"
proof (intro conjI ballI allI impI)
  let ?fin = "filter reach_last_token tasks"
  let ?sts = "if batch_sent env ops stub tasks s then tc_states s
     else (\<lambda>r. if r \<in> task_ref ` set tasks then FAILED else tc_states s r)"
  note states = do_task_states [OF assms(1,2)]
  have dist: "distinct (map task_ref ?fin)"
    using assms(3) by (simp add: distinct_map_filter)
  show "tc_states s' r = tc_states s r" if "r \<notin> task_ref ` set tasks" for r
  proof -
    have "r \<notin> task_ref ` set ?fin"
      using that by auto
    then show ?thesis
      using that by (simp add: states finished_states_other)
  qed
  fix t
  assume t: "t \<in> set tasks"
  then have sts: "?sts (task_ref t) = (if batch_sent env ops stub tasks s then tc_states s (task_ref t) else FAILED)"
    by simp
  show "req_get_state t (tc_states s') =
      (if \<not> batch_sent env ops stub tasks s then FAILED
       else if reach_last_token t \<and> req_get_state t (tc_states s) = INPROCESS
       then (if new_tokens t = 0 then FAILED else OK)
       else req_get_state t (tc_states s))"
  proof (cases "reach_last_token t")
    case True
    then have "t \<in> set ?fin"
      using t by simp
    from finished_states_distinct [OF dist this, of ?sts] show ?thesis
      unfolding req_get_state_def states sts using True by simp
  next
    case False
    have "task_ref t \<notin> task_ref ` set ?fin"
      using assms(3) t False by (auto simp: distinct_map inj_on_def)
    from finished_states_other [OF this, of ?sts] show ?thesis
      unfolding req_get_state_def states sts using False by simp
  qed
qed

section \<open>No exception escapes\<close>

lemma handled_set_task_state [handled_rules]: "handled (set_task_state env t st)"
  unfolding set_task_state_def
proof (intro handled_rules handled_bind)
  fix sts
  show "handled (elift (req_set_state env t st sts))"
    by (auto simp: handled_def elift_def req_set_state_def c_assert_def split: if_splits)
qed

text \<open>
  C34. \<open>send_batch\<close> keeps its promise \<open>noexcept\<close>: whatever the naming service, the parsers, the channel, the fault
  injection and the sockets throw, no exception leaves it. Only a failed assertion of a debug build or undefined
  behaviour can end it early.
\<close>

theorem send_batch_noexcept:
  "case fst (send_batch env ops stub tasks s) of Inl e \<Rightarrow> \<not> std_exception e | Inr _ \<Rightarrow> True"
proof -
  have "handled (send_batch env ops stub tasks)"
    unfolding send_batch_def do_task_def collect_task_def finish_task_def fail_batch_def fail_task_def
      rpc_send_done_def reset_sock_def clear_context_def
    by (intro handled_rules)
  then show ?thesis
    unfolding handled_def by (cases "send_batch env ops stub tasks s") (auto split: sum.splits)
qed

section \<open>The destination is bound once\<close>

definition bound :: "kvt_env \<Rightarrow> kv_send_stub \<Rightarrow> 'w task_context \<Rightarrow> bool" where
  "bound env stub s \<longleftrightarrow>
     (\<forall>f. tc_parse_block s = Some f \<longrightarrow>
        (\<exists>dst. tc_dstinfo s = Some dst \<and>
          compute_valid_ranks_pd env (engine_tp_size (stub_src_info stub)) (engine_tp_size dst)
            (num_kv_heads (stub_src_info stub)) = Inr (tc_valid_ranks s) \<and>
          tc_kvt_tp_size s = effective_tp_size (tc_valid_ranks s) \<and>
          tc_kvt_tp_rank s = effective_tp_rank (tc_valid_ranks s) (worker_tp_rank (stub_src_info stub)) \<and>
          select_parse_block (env_cache_shape env) (stub_src_info stub) dst
            (selection_p_tp (env_cache_shape env) (stub_src_info stub) (tc_kvt_tp_size s)) (engine_tp_size dst) =
          Inr (f, tc_tpkind s)))"

definition einv :: "('s \<Rightarrow> bool) \<Rightarrow> ('s, 'a) eff \<Rightarrow> bool" where
  "einv I m \<longleftrightarrow> etriple I m (\<lambda>_. I) (\<lambda>_. I)"

abbreviation tc_binding where
  "tc_binding s \<equiv> (tc_parse_block s, tc_dstinfo s, tc_valid_ranks s, tc_kvt_tp_size s, tc_kvt_tp_rank s, tc_tpkind s)"

lemma bound_cong: "tc_binding s' = tc_binding s \<Longrightarrow> bound env stub s \<Longrightarrow> bound env stub s'"
  by (simp add: bound_def)

lemma einvI: "(\<And>s r s'. I s \<Longrightarrow> m s = (r, s') \<Longrightarrow> I s') \<Longrightarrow> einv I m"
  by (fastforce simp: einv_def etriple_def split: prod.splits sum.splits)

lemma einvD: "einv I m \<Longrightarrow> I s \<Longrightarrow> I (snd (m s))"
  by (cases "m s"; cases "fst (m s)") (auto simp: einv_def etriple_def dest!: spec [of _ s])

lemma einv_keeps: "keeps tc_binding m \<Longrightarrow> einv (bound env stub) m"
  using keeps_snd [of tc_binding m] bound_cong by (intro einvI) blast

lemma einv_seq: "einv I m \<Longrightarrow> einv I n \<Longrightarrow> einv I (eseq m n)"
  unfolding einv_def by (rule etriple_seq)

lemma einv_when: "einv I m \<Longrightarrow> einv I (ewhen b m)"
  by (simp add: einv_def ewhen_def etriple_ret)

lemma einv_read: "(\<And>a. einv I (f a)) \<Longrightarrow> einv I (eread g f)"
  by (simp add: einv_def etriple_def eread_def)

lemma einv_if: "(b \<Longrightarrow> einv I m) \<Longrightarrow> (\<not> b \<Longrightarrow> einv I n) \<Longrightarrow> einv I (if b then m else n)"
  by simp

lemma einv_option: "einv I m \<Longrightarrow> (\<And>x. einv I (f x)) \<Longrightarrow> einv I (case v of None \<Rightarrow> m | Some x \<Rightarrow> f x)"
  by (cases v) simp_all

lemma einv_prod: "(\<And>a b. einv I (f a b)) \<Longrightarrow> einv I (case p of (a, b) \<Rightarrow> f a b)"
  by (cases p) simp

lemma einv_catch: "einv I m \<Longrightarrow> einv I h \<Longrightarrow> einv I (ecatch m h)"
  unfolding einv_def by (rule etriple_catch [where R = I]) (auto elim: etriple_post)

lemma select_parse_block_addr:
  "select_parse_block shape src (old\<lparr>addr := a\<rparr>) p d = select_parse_block shape src old p d"
  by (simp add: select_parse_block_def)

lemma bind_dst_bound:
  assumes "tc_parse_block s = None" and "bind_dst env stub dst s = (r, s')"
  shows "bound env stub s'"
  using assms
  by (auto simp: bind_dst_def bound_def eff_defs Let_def split: sum.splits prod.splits if_splits)

lemma einv_refresh: "einv (bound env stub) (refresh_dst_info env ops stub)"
proof (rule einvI)
  fix s r s'
  assume b: "bound env stub s" and r: "refresh_dst_info env ops stub s = (r, s')"
  obtain q w where w: "op_get_worker_info ops (stub_dstid stub) (stub_dstworkerid stub) (tc_world s) = (q, w)"
    by (cases "op_get_worker_info ops (stub_dstid stub) (stub_dstworkerid stub) (tc_world s)")
  let ?s = "s\<lparr>tc_world := w\<rparr>"
  have b': "bound env stub ?s"
    using b by (simp add: bound_def)
  show "bound env stub s'"
  proof (cases "\<exists>dst. q = Inr (Some dst) \<and> tc_dstinfo s = None")
    case True
    then obtain dst where "bind_dst env stub dst ?s = (r, s')"
      using r w by (auto simp: refresh_dst_info_def on_world_def ebind_def eread_def)
    moreover have "tc_parse_block ?s = None"
      using b True by (auto simp: bound_def split: option.splits)
    ultimately show ?thesis
      by (intro bind_dst_bound)
  next
    case False
    then have "s' = ?s \<or> (\<exists>old a. tc_dstinfo s = Some old \<and> s' = ?s\<lparr>tc_dstinfo := Some (old\<lparr>addr := a\<rparr>)\<rparr>)"
      using r w by (auto simp: refresh_dst_info_def on_world_def eff_defs split: sum.splits option.splits if_splits)
    then show ?thesis
      using b' by (auto simp: bound_def select_parse_block_addr)
  qed
qed

lemmas batch_defs =
  do_task_def collect_task_def finish_task_def fail_batch_def fail_task_def set_task_state_def rpc_send_done_def
  do_rpc_send_done_def reset_sock_def clear_context_def do_send_def parse_requests_def

lemma einv_send_requests: "einv (bound env stub) (send_requests env ops stub)"
  unfolding send_requests_def try_create_channel_def batch_defs
  by (intro einv_seq einv_read einv_when einv_if einv_refresh einv_option;
      intro einv_keeps keeps_rules keeps_parse_one; simp)

lemma einv_send_batch: "einv (bound env stub) (send_batch env ops stub tasks)"
  unfolding send_batch_def batch_defs
  by (intro einv_seq einv_read einv_when einv_catch einv_send_requests einv_prod;
      intro einv_keeps keeps_rules; simp)

text \<open>
  The contexts a stub can get into: batch after batch, with any answers of the world; between two batches the world
  and the states of the requests may change.
\<close>

inductive stub_reach :: "kvt_env \<Rightarrow> kv_send_stub \<Rightarrow> 'w task_context \<Rightarrow> bool" for env stub where
  init: "stub_reach env stub (initial_context sts w)"
| batch: "stub_reach env stub s \<Longrightarrow> send_batch env ops stub tasks s = (Inr (), s') \<Longrightarrow> stub_reach env stub s'"
| outside: "stub_reach env stub s \<Longrightarrow> stub_reach env stub (s\<lparr>tc_world := w, tc_states := sts\<rparr>)"

inductive_cases stub_reachE: "stub_reach env stub s"

text \<open>
  C35. In every context that any sequence of batches can lead to, the working vectors are empty, and a
  parser that has been chosen belongs to the destination the stub now has: the senders, the effective TP size
  and rank and the parser are those that \<open>compute_valid_ranks_pd\<close> and the selection give for it, however often the naming
  service has answered since, and whatever it has answered.
\<close>

theorem stub_reach_bound:
  assumes "stub_reach env stub s"
  shows "clean s \<and>
    (\<forall>parse_block. tc_parse_block s = Some parse_block \<longrightarrow>
      (\<exists>dst. tc_dstinfo s = Some dst \<and>
        compute_valid_ranks_pd env (engine_tp_size (stub_src_info stub)) (engine_tp_size dst)
          (num_kv_heads (stub_src_info stub)) = Inr (tc_valid_ranks s) \<and>
        tc_kvt_tp_size s = effective_tp_size (tc_valid_ranks s) \<and>
        tc_kvt_tp_rank s = effective_tp_rank (tc_valid_ranks s) (worker_tp_rank (stub_src_info stub)) \<and>
        select_parse_block (env_cache_shape env) (stub_src_info stub) dst
          (selection_p_tp (env_cache_shape env) (stub_src_info stub) (tc_kvt_tp_size s)) (engine_tp_size dst) =
        Inr (parse_block, tc_tpkind s)))"
proof -
  have "clean s \<and> bound env stub s"
    using assms
  proof (induction rule: stub_reach.induct)
    case (init sts w)
    show ?case
      by (simp add: clean_def bound_def initial_context_def)
  next
    case (batch s ops tasks s')
    then have "bound env stub s'"
      using einvD [OF einv_send_batch, of env stub s ops tasks] by simp
    moreover have "clean s'"
      using batch.hyps(2) by (auto simp: send_batch_def clear_context_def eff_returns clean_def)
    ultimately show ?case
      by simp
  next
    case (outside s w sts)
    then show ?case
      by (simp add: clean_def bound_def)
  qed
  then show ?thesis
    by (simp add: bound_def)
qed

section \<open>The descriptors of a batch\<close>

lemma safe_vec_step:
  assumes "safe_vec env src dst [] sb" and "safe_vec env src dst sb sb'"
  shows "safe_vec env src dst [] sb'"
  unfolding safe_vec_def
proof (intro allI impI)
  fix i
  assume i: "i < length sb'"
  let ?B = "\<lambda>new. new \<noteq> [] \<longrightarrow> (\<exists>bounds. make_ipc_block_bounds env src dst i = Inr bounds \<and> (\<forall>b\<in>set new. in_bounds bounds b))"
  obtain new where new: "sb' ! i = (if i < length sb then sb ! i else []) @ new" "?B new"
    using assms(2) i unfolding safe_vec_def by blast
  have "?B (if i < length sb then sb ! i else [])"
    using assms(1) by (auto simp: safe_vec_def)
  with new(2) have "?B (sb' ! i)"
    unfolding new(1) by (cases "new = []") auto
  then show "\<exists>new. sb' ! i = (if i < length [] then [] ! i else []) @ new \<and> ?B new"
    by simp
qed

lemma parse_loop_safe:
  assumes "efor (parse_one env stub) reqs s = (Inr u, s')" and "tc_dstinfo s = Some dst"
    and "safe_vec env (stub_src_info stub) dst [] (tc_send_blocks s)"
  shows "safe_vec env (stub_src_info stub) dst [] (tc_send_blocks s')"
  using assms
proof (induction reqs arbitrary: s)
  case (Cons t ts)
  from Cons.prems(1) obtain v s1 where t: "parse_one env stub t s = (Inr v, s1)"
    and ts: "efor (parse_one env stub) ts s1 = (Inr u, s')"
    by (auto simp: eseq_returns)
  from t Cons.prems(2) obtain f out where
    f: "parse_block_fn f env (stub_src_info stub) dst (tc_valid_ranks s) (tc_kvt_tp_size s) (tc_kvt_tp_rank s) t
      (tc_send_blocks s) = Inr out" and s1: "s1 = s\<lparr>tc_send_blocks := out\<rparr>"
    by (auto simp: parse_one_def split: option.splits sum.splits)
  have "safe_vec env (stub_src_info stub) dst (tc_send_blocks s) out"
    using safe_parse_block_fn [of env "stub_src_info stub" dst "tc_send_blocks s" f "tc_valid_ranks s" "tc_kvt_tp_size s"
        "tc_kvt_tp_rank s" t] by (simp add: f holds_def)
  from safe_vec_step [OF Cons.prems(3) this] show ?case
    using Cons.IH [OF ts] Cons.prems(2) by (simp add: s1)
qed (simp add: eff_returns)


end
