(* ===== verification/DoneWire.thy ===== *)
theory DoneWire
  imports TxStub
begin

text \<open>
  The receiver of the report of finished requests: the RPC server of the scheduler process
  (\<open>blade_kvt/hybrid_connector/utils.py\<close>), which the sending stubs (\<open>rpc_send_done\<close>) and the workers' error
  path (\<open>send_error_done_req\<close>) write to. A handler returns its outcome, the number of bytes it has
  read, the bytes it has written and the new state.
\<close>

section \<open>The server\<close>

datatype py_exn = CodeError nat string

record io_ret =
  io_reqid :: "py_str option"
  io_ex :: "py_exn option"
  io_n :: "int option"
  io_source :: "string option"

type_synonym 's rpc_method = "bytes \<Rightarrow> 's \<Rightarrow> unit py \<times> nat \<times> bytes \<times> 's"
type_synonym 's done_callback = "nat \<Rightarrow> io_ret \<Rightarrow> 's \<Rightarrow> unit py \<times> 's"

function client_main :: "(nat \<Rightarrow> 's rpc_method option) \<Rightarrow> bytes \<Rightarrow> bytes \<Rightarrow> 's \<Rightarrow> bytes \<times> 's" where
  "client_main methods reader writer st =
     (case readexactly 4 reader of
        Inl _ \<Rightarrow> (writer, st)
      | Inr (headbuf, rest) \<Rightarrow>
          (case methods (hd (unpack_I headbuf)) of
             None \<Rightarrow> (writer, st)
           | Some cb \<Rightarrow>
               (case cb rest st of
                  (Inl _, n, resp, st') \<Rightarrow> (writer @ resp, st')
                | (Inr _, n, resp, st') \<Rightarrow> client_main methods (drop n rest) (writer @ resp) st')))"
  by pat_completeness auto
termination
  by (relation "measure (\<lambda>(_, reader, _, _). length reader)") (auto dest: readexactly_length)

declare client_main.simps [simp del]

text \<open>Flags of the rank word of a report.\<close>

definition DONE_HAS_VER2 :: nat where "DONE_HAS_VER2 = 0x40000000"
definition DONE_HAS_PLEN :: nat where "DONE_HAS_PLEN = 0x80000000"

primrec read_ver2 :: "nat \<Rightarrow> bytes \<Rightarrow> (io_ret list \<times> bytes) py" where
  "read_ver2 0 reader = Inr ([], reader)"
| "read_ver2 (Suc k) reader =
     pbind (readexactly (4 + 4 + 4) reader) (\<lambda>(lenbuf, reader).
     case unpack_I lenbuf of
       [plen, code, rlen] \<Rightarrow>
         pbind (readexactly rlen reader) (\<lambda>(reqidbuf, reader).
         pbind (decode_utf8 reqidbuf) (\<lambda>reqid.
         let ex = (if code \<noteq> 0 then Some (CodeError code ''done req'') else None) in
         pbind (read_ver2 k reader) (\<lambda>(iorets, reader).
         Inr (\<lparr> io_reqid = Some reqid, io_ex = ex, io_n = Some (int plen), io_source = None \<rparr> # iorets, reader))))
     | _ \<Rightarrow> Inl StructError)"

primrec read_ver1 :: "nat \<Rightarrow> bytes \<Rightarrow> (io_ret list \<times> bytes) py" where
  "read_ver1 0 reader = Inr ([], reader)"
| "read_ver1 (Suc k) reader =
     pbind (readexactly 4 reader) (\<lambda>(lenbuf, reader).
     pbind (readexactly (hd (unpack_I lenbuf)) reader) (\<lambda>(reqidbuf, reader).
     pbind (decode_utf8 reqidbuf) (\<lambda>reqid.
     pbind (read_ver1 k reader) (\<lambda>(iorets, reader).
     Inr (\<lparr> io_reqid = Some reqid, io_ex = None, io_n = None, io_source = None \<rparr> # iorets, reader)))))"

primrec read_plens :: "io_ret list \<Rightarrow> bytes \<Rightarrow> (io_ret list \<times> bytes) py" where
  "read_plens [] reader = Inr ([], reader)"
| "read_plens (r # rs) reader =
     pbind (readexactly 4 reader) (\<lambda>(lenbuf, reader).
     pbind (read_plens rs reader) (\<lambda>(iorets, reader).
     Inr (r\<lparr>io_n := Some (int (hd (unpack_I lenbuf)))\<rparr> # iorets, reader)))"

definition read_done_req :: "bytes \<Rightarrow> (nat \<times> io_ret list \<times> bytes) py" where
  "read_done_req reader =
     pbind (readexactly (4 + 4) reader) (\<lambda>(bodybuf, reader).
     case unpack_I bodybuf of
       [worker_tprank, num_req] \<Rightarrow>
         (let has_plen = and worker_tprank DONE_HAS_PLEN \<noteq> 0;
              has_ver2 = and worker_tprank DONE_HAS_VER2 \<noteq> 0;
              rank = and worker_tprank 0xFFFF in
          pbind (if has_ver2 then read_ver2 num_req reader
                 else
                   pbind (read_ver1 num_req reader) (\<lambda>(iorets, reader).
                   if has_plen then read_plens iorets reader else Inr (iorets, reader))) (\<lambda>(iorets, reader).
          Inr (rank, iorets, reader)))
     | _ \<Rightarrow> Inl StructError)"

primrec call_each :: "'s done_callback \<Rightarrow> nat \<Rightarrow> io_ret list \<Rightarrow> 's \<Rightarrow> unit py \<times> 's" where
  "call_each cb rank [] st = (Inr (), st)"
| "call_each cb rank (r # rs) st =
     (case cb rank r st of
        (Inl e, st') \<Rightarrow> (Inl e, st')
      | (Inr _, st') \<Rightarrow> call_each cb rank rs st')"

definition handle_done_req :: "'s done_callback \<Rightarrow> nat \<Rightarrow> 's rpc_method" where
  "handle_done_req cb respcode reader st =
     (case read_done_req reader of
        Inl e \<Rightarrow> (Inl e, length reader, [], st)
      | Inr (rank, iorets, rest) \<Rightarrow>
          (let (r, st') = call_each cb rank iorets st
           in (r, length reader - length rest, le32 respcode, st')))"

section \<open>The error report of the Python workers\<close>

definition error_done_entry :: "nat \<Rightarrow> py_str \<Rightarrow> bytes" where
  "error_done_entry plen reqid =
     (let reqid_bytes = utf8_encode reqid
      in le32 plen @ le32 CODE_INTERNALERROR @ le32 (length reqid_bytes) @ reqid_bytes)"

definition error_done_body :: "nat \<Rightarrow> nat \<Rightarrow> py_str list \<Rightarrow> bytes" where
  "error_done_body rank plen reqids =
     le32 SEND_DONE_REQ @ le32 (or rank 0x40000000) @ le32 (length reqids) @
     concat (map (error_done_entry plen) reqids)"

definition error_done_message :: "int \<Rightarrow> nat \<Rightarrow> nat \<Rightarrow> py_str list \<Rightarrow> bytes \<times> nat" where
  "error_done_message head_kind rank plen reqids =
     (let body = error_done_body rank plen reqids
      in if head_kind = SEND_SAVE_DONE_HEAD_KIND
         then (body @ le32 SAVE_DONE2_REQ @ drop 4 body, 8)
         else (body, 4))"

section \<open>Reading what the stub writes\<close>

text \<open>The request ids of the tasks are the UTF-8 forms of Python strings: pybind11 encodes them on the way in.\<close>

definition ids_of :: "(req_send_task \<Rightarrow> py_str) \<Rightarrow> req_send_task list \<Rightarrow> bool" where
  "ids_of rid reqs \<longleftrightarrow>
     (\<forall>t\<in>set reqs. str_bytes (task_req_id t) = utf8_encode (rid t) \<and> (\<forall>c\<in>set (rid t). code_point c) \<and>
        length (task_req_id t) < 2 ^ 32)"

definition done_io_ret :: "req_states \<Rightarrow> (req_send_task \<Rightarrow> py_str) \<Rightarrow> req_send_task \<Rightarrow> io_ret" where
  "done_io_ret sts rid t =
     \<lparr> io_reqid = Some (rid t),
       io_ex = (if req_get_state t sts = OK then None else Some (CodeError CODE_INTERNALERROR ''done req'')),
       io_n = Some (int (end_tokens t)), io_source = None \<rparr>"

lemma decode_utf8_encode: "\<forall>c\<in>set s. code_point c \<Longrightarrow> decode_utf8 (utf8_encode s) = Inr s"
  by (simp add: decode_utf8_def utf8_decode_encode)

lemma read_ver2_entry:
  assumes "ids_of rid [t]"
  shows "read_ver2 (Suc k) (send_done_entry sts t @ rest) =
    pbind (read_ver2 k rest) (\<lambda>(iorets, reader). Inr (done_io_ret sts rid t # iorets, reader))"
proof -
  let ?code = "if req_get_state t sts = OK then 0 else CODE_INTERNALERROR"
  let ?hd = "le32 (end_tokens t) @ le32 ?code @ le32 (length (task_req_id t))"
  have t: "str_bytes (task_req_id t) = utf8_encode (rid t)" "\<forall>c\<in>set (rid t). code_point c"
    "u32 (length (task_req_id t)) = length (task_req_id t)"
    using assms by (auto simp: ids_of_def u32_id)
  from arg_cong [OF t(1), of length] have len: "length (utf8_encode (rid t)) = length (task_req_id t)"
    by (simp add: str_bytes_def)
  have entry: "send_done_entry sts t @ rest = ?hd @ utf8_encode (rid t) @ rest"
    using t len by (simp add: send_done_entry_def Let_def)
  have head: "readexactly (4 + 4 + 4) (send_done_entry sts t @ rest) = Inr (?hd, utf8_encode (rid t) @ rest)"
    unfolding entry by (rule readexactly_append) simp
  have "end_tokens t < 2 ^ 32" "length (task_req_id t) < 2 ^ 32"
    using assms by (simp_all add: end_tokens_def u32_def ids_of_def)
  then have "unpack_I ?hd = [end_tokens t, ?code, length (task_req_id t)]"
    by (simp add: CODE_INTERNALERROR_def)
  then show ?thesis
    using t len unfolding read_ver2.simps head
    by (simp add: decode_utf8_encode done_io_ret_def CODE_INTERNALERROR_def Let_def)
qed

lemma read_ver2_entries:
  "ids_of rid reqs \<Longrightarrow>
   read_ver2 (length reqs) (concat (map (send_done_entry sts) reqs) @ rest) = Inr (map (done_io_ret sts rid) reqs, rest)"
proof (induction reqs)
  case (Cons t reqs)
  then show ?case
    using read_ver2_entry [of rid t "length reqs" sts "concat (map (send_done_entry sts) reqs) @ rest"]
    by (simp add: ids_of_def)
qed simp

lemma rank_word:
  assumes "rank < 2 ^ 16"
  shows "and (or rank 0x40000000) 0x80000000 = (0 :: nat)" and "and (or rank 0x40000000) 0x40000000 \<noteq> (0 :: nat)"
    and "and (or rank 0x40000000) 0xFFFF = rank" and "or rank 0x40000000 < (2 ^ 32 :: nat)"
proof -
  have hi: "\<not> bit rank n" if "16 \<le> n" for n
    using assms that
    by (metis bit_take_bit_iff leD take_bit_nat_eq_self)
  have b30: "bit (0x40000000 :: nat) n \<longleftrightarrow> n = 30" and b31: "bit (0x80000000 :: nat) n \<longleftrightarrow> n = 31" for n
    using bit_exp_iff [where 'a = nat, of 30 n] bit_exp_iff [where 'a = nat, of 31 n] by simp_all
  have b16: "bit (0xFFFF :: nat) n \<longleftrightarrow> n < 16" for n
    using bit_mask_iff [where 'a = nat, of 16 n] by (simp add: mask_eq_exp_minus_1)
  note bits = bit_and_iff bit_or_iff b30 b31 b16
  show "and (or rank 0x40000000) 0x80000000 = (0 :: nat)"
    using hi by (intro bit_eqI) (auto simp: bits)
  have "bit (and (or rank 0x40000000) 0x40000000) 30"
    by (simp only: bits) simp
  then show "and (or rank 0x40000000) 0x40000000 \<noteq> (0 :: nat)"
    by (intro notI) (simp only: bit_0_eq bot_apply bot_bool_def)
  show "and (or rank 0x40000000) 0xFFFF = rank"
    using hi by (intro bit_eqI) (auto simp: bits not_le [symmetric])
  have "take_bit 32 (or rank 0x40000000) = or rank 0x40000000"
    using hi by (intro bit_eqI) (auto simp: bits bit_take_bit_iff not_le [symmetric])
  then show "or rank 0x40000000 < (2 ^ 32 :: nat)"
    using take_bit_nat_less_exp [of 32 "or rank 0x40000000"] by metis
qed

lemma read_done_body:
  assumes "ids_of rid reqs" and "rank < 2 ^ 16" and "length reqs < 2 ^ 32"
  shows "read_done_req (drop 4 (send_done_body header rank sts reqs) @ rest) = Inr (rank, map (done_io_ret sts rid) reqs, rest)"
proof -
  let ?hd = "le32 (or rank 0x40000000) @ le32 (length reqs)"
  let ?rest = "concat (map (send_done_entry sts) reqs) @ rest"
  have "readexactly (4 + 4) (drop 4 (send_done_body header rank sts reqs) @ rest) = Inr (?hd, ?rest)"
    using assms(3) readexactly_append [of ?hd 8 ?rest] by (simp add: send_done_body_def u32_id SEND_DONE_HAS_VER2_def)
  moreover have "unpack_I ?hd = [or rank 0x40000000, length reqs]"
    using rank_word(4) [OF assms(2)] assms(3) by simp
  ultimately show ?thesis
    using rank_word [OF assms(2)] read_ver2_entries [OF assms(1), of sts rest]
    by (simp add: read_done_req_def DONE_HAS_VER2_def DONE_HAS_PLEN_def Let_def)
qed

lemma client_main_body:
  assumes "ids_of rid reqs" and "rank < 2 ^ 16" and "length reqs < 2 ^ 32" and "header < 2 ^ 32"
    and "methods header = Some (handle_done_req cb resp)"
    and "call_each cb rank (map (done_io_ret sts rid) reqs) st = (Inr (), st')"
  shows "client_main methods (send_done_body header rank sts reqs @ rest) out st = client_main methods rest (out @ le32 resp) st'"
proof -
  let ?body = "drop 4 (send_done_body header rank sts reqs)"
  have body: "send_done_body header rank sts reqs @ rest = le32 header @ ?body @ rest"
    by (simp add: send_done_body_def)
  have "handle_done_req cb resp (?body @ rest) st = (Inr (), length ?body, le32 resp, st')"
    using read_done_body [OF assms(1-3), of header sts rest] assms(6) by (simp add: handle_done_req_def)
  then show ?thesis
    unfolding body using assms(4,5) by (subst client_main.simps) simp
qed

lemma client_main_Nil [simp]: "client_main methods [] out st = (out, st)"
  by (simp add: client_main.simps readexactly_def)

text \<open>
  C18. The report reaches the scheduler as it was meant. Whatever the stub writes for a batch of finished requests, the
  RPC server takes apart again: the handlers registered for the two kinds of message see the rank of the worker and for
  every request, in order, its id, its token count and whether it failed; and the server answers with exactly as many bytes as the
  stub waits for.
\<close>

theorem send_done_roundtrip:
  assumes "ids_of rid reqs" and "rank < 2 ^ 16" and "length reqs < 2 ^ 32"
    and "methods SEND_DONE_REQ = Some (handle_done_req send_cb send_resp)"
    and "methods SAVE_DONE2_REQ = Some (handle_done_req save_cb save_resp)"
    and "call_each send_cb rank (map (done_io_ret sts rid) reqs) st = (Inr (), st1)"
    and "call_each save_cb rank (map (done_io_ret sts rid) reqs) st1 = (Inr (), st2)"
  shows "client_main methods (fst (send_done_message env rank sts reqs)) [] st =
      (if env_send_done_head_kind env = SEND_SAVE_DONE_HEAD_KIND then (le32 send_resp @ le32 save_resp, st2)
       else (le32 send_resp, st1)) \<and>
    length (fst (client_main methods (fst (send_done_message env rank sts reqs)) [] st)) = snd (send_done_message env rank sts reqs)"
proof -
  have send: "client_main methods (send_done_body SEND_DONE_REQ rank sts reqs @ rest) out st = client_main methods rest (out @ le32 send_resp) st1"
    for rest out
    by (rule client_main_body [where methods = methods and header = SEND_DONE_REQ, OF assms(1-3) _ assms(4,6)])
      (simp add: SEND_DONE_REQ_def)
  have save: "client_main methods (send_done_body SAVE_DONE2_REQ rank sts reqs @ rest) out st1 = client_main methods rest (out @ le32 save_resp) st2"
    for rest out
    by (rule client_main_body [where methods = methods and header = SAVE_DONE2_REQ, OF assms(1-3) _ assms(5,7)])
      (simp add: SAVE_DONE2_REQ_def)
  show ?thesis
    using send [of "[]"] save [of "[]"] by (simp add: send_done_message_def send)
qed

text \<open>
  The error report that the Python worker writes itself when it cannot find a destination is, byte for byte, the
  report the stub would write for the same requests, all failed.
\<close>

theorem error_done_equiv:
  assumes "ids_of rid reqs" and "length reqs < 2 ^ 32"
    and "\<forall>t\<in>set reqs. req_get_state t sts \<noteq> OK \<and> end_tokens t = plen"
  shows "error_done_message (env_send_done_head_kind env) rank plen (map rid reqs) = send_done_message env rank sts reqs"
proof -
  have "error_done_entry plen (rid t) = send_done_entry sts t" if "t \<in> set reqs" for t
  proof -
    have "str_bytes (task_req_id t) = utf8_encode (rid t)" "u32 (length (task_req_id t)) = length (task_req_id t)"
      using assms(1) that by (auto simp: ids_of_def u32_id)
    moreover from arg_cong [OF this(1), of length] have "length (utf8_encode (rid t)) = length (task_req_id t)"
      by (simp add: str_bytes_def)
    ultimately show ?thesis
      using assms(3) that by (simp add: error_done_entry_def send_done_entry_def Let_def)
  qed
  then have entries: "map (error_done_entry plen \<circ> rid) reqs = map (send_done_entry sts) reqs"
    by simp
  show ?thesis
    using assms(2)
    by (simp add: entries error_done_message_def send_done_message_def error_done_body_def send_done_body_def u32_id
        SEND_DONE_HAS_VER2_def Let_def)
qed

section \<open>Concrete reports\<close>

abbreviation demo_log :: "(nat \<times> io_ret) list done_callback" where
  "demo_log rank io st \<equiv> (Inr (), st @ [(rank, io)])"

definition demo_methods :: "nat \<Rightarrow> (nat \<times> io_ret) list rpc_method option" where
  "demo_methods head =
     (if head = SEND_DONE_REQ then Some (handle_done_req demo_log 7)
      else if head = SAVE_DONE2_REQ then Some (handle_done_req demo_log 8) else None)"

lemma demo_ids: "ids_of (\<lambda>_. [114]) [demo_task sb db seen new fin]"
  by (simp add: ids_of_def str_bytes_def utf8_encode_def utf8_encode_char_def code_point_def task_req_id_def demo_task_def)

theorem send_done_roundtrip_witness:
  "client_main demo_methods (fst (send_done_message demo_env 3 (\<lambda>_. OK) [demo_task [] [] 1 2 True])) [] [] =
     (le32 7 @ le32 8,
      [(3, \<lparr> io_reqid = Some [114], io_ex = None, io_n = Some 3, io_source = None \<rparr>),
       (3, \<lparr> io_reqid = Some [114], io_ex = None, io_n = Some 3, io_source = None \<rparr>)])"
proof -
  let ?io = "\<lparr> io_reqid = Some [114], io_ex = None, io_n = Some 3, io_source = None \<rparr>"
  have io: "map (done_io_ret (\<lambda>_. OK) (\<lambda>_. [114])) [demo_task [] [] 1 2 True] = [?io]"
    by (simp add: done_io_ret_def req_get_state_def end_tokens_def u32_def demo_task_def)
  have "demo_methods SEND_DONE_REQ = Some (handle_done_req demo_log 7)"
      "demo_methods SAVE_DONE2_REQ = Some (handle_done_req demo_log 8)"
    by (simp_all add: demo_methods_def SEND_DONE_REQ_def SAVE_DONE2_REQ_def)
  from send_done_roundtrip [OF demo_ids [of "[]" "[]" 1 2 True] _ _ this, of 3 "\<lambda>_. OK" "[]" "[(3, ?io)]" "[(3, ?io), (3, ?io)]" demo_env]
  show ?thesis
    unfolding io by (simp add: env_send_done_head_kind_def)
qed

theorem error_done_equiv_witness:
  "error_done_message 2 3 3 [[114]] = send_done_message demo_env 3 (\<lambda>_. FAILED) [demo_task [] [] 1 2 True]"
proof -
  have "\<forall>t\<in>set [demo_task [] [] 1 2 True]. req_get_state t (\<lambda>_. FAILED) \<noteq> OK \<and> end_tokens t = 3"
    by (simp add: req_get_state_def end_tokens_def u32_def demo_task_def)
  from error_done_equiv [OF demo_ids _ this, of demo_env 3] show ?thesis
    by (simp add: env_send_done_head_kind_def SEND_SAVE_DONE_HEAD_KIND_def)
qed

end
