(* ===== verification/DoneState.thy ===== *)
theory DoneState
  imports DoneWire "HOL-Library.AList"
begin

text \<open>
  What the scheduler of the prefill instance does with the reports: it collects the signals of the workers per request
  (\<open>IoState\<close>, \<open>try_advance\<close> in \<open>hybrid_connector/utils.py\<close>) and completes the future of the request when
  every worker has reported often enough (\<open>_SendingReq\<close>, \<open>PBackend._do_send_done\<close> in \<open>kvtbackend.py\<close>). A Python
  dict is an association list where its order matters, a map where it does not.
\<close>

section \<open>Collecting signals\<close>

record io_state =
  signals_per_worker :: nat
  worker_signals :: "(nat \<times> io_ret list) list"
  expected_sources :: "string list"

definition ready_workers_count :: "'a io_state_scheme \<Rightarrow> nat" where
  "ready_workers_count st = length (filter (\<lambda>(_, signals). length signals \<ge> signals_per_worker st) (worker_signals st))"

definition ready_sources_count :: "'a io_state_scheme \<Rightarrow> nat" where
  "ready_sources_count st =
     length (filter (\<lambda>(_, signals). \<forall>source\<in>set (expected_sources st). \<exists>sig\<in>set signals. io_source sig = Some source)
       (worker_signals st))"

definition append_signal :: "nat \<Rightarrow> io_ret \<Rightarrow> 'a io_state_scheme \<Rightarrow> 'a io_state_scheme" where
  "append_signal worker_tprank ioret st =
     st\<lparr>worker_signals := AList.update worker_tprank (the (map_of (worker_signals st) worker_tprank) @ [ioret]) (worker_signals st)\<rparr>"

text \<open>The part of \<open>try_advance\<close> under the lock; the flag says whether it returns the state.\<close>

definition advance_state ::
  "('a io_state_scheme \<Rightarrow> io_ret \<Rightarrow> 'a io_state_scheme) \<Rightarrow> io_ret \<Rightarrow> nat \<Rightarrow> nat \<Rightarrow> 'a io_state_scheme \<Rightarrow> 'a io_state_scheme \<times> bool" where
  "advance_state on_signal_advanced ioret worker_tprank tpsize state =
     (let state = (if map_of (worker_signals state) worker_tprank = None
                   then state\<lparr>worker_signals := worker_signals state @ [(worker_tprank, [])]\<rparr> else state);
          signals = the (map_of (worker_signals state) worker_tprank)
      in if expected_sources state \<noteq> [] then
           (case io_source ioret of
              None \<Rightarrow> (state, False)
            | Some source \<Rightarrow>
                if source \<notin> set (expected_sources state) then (state, False)
                else if \<exists>sig\<in>set signals. io_source sig = Some source then (state, False)
                else
                  let state = on_signal_advanced (append_signal worker_tprank ioret state) ioret
                  in (state, \<not> ready_sources_count state < tpsize))
         else if length signals \<ge> signals_per_worker state then (state, False)
         else
           let state = on_signal_advanced (append_signal worker_tprank ioret state) ioret
           in (state, \<not> ready_workers_count state < tpsize))"

definition try_advance ::
  "(py_str \<rightharpoonup> 'a io_state_scheme) \<Rightarrow> io_ret \<Rightarrow> nat \<Rightarrow> nat \<Rightarrow> ('a io_state_scheme \<Rightarrow> io_ret \<Rightarrow> 'a io_state_scheme) \<Rightarrow>
   ((py_str \<rightharpoonup> 'a io_state_scheme) \<times> (py_str \<times> 'a io_state_scheme) option) py" where
  "try_advance state_dict ioret worker_tprank tpsize on_signal_advanced =
     (case io_reqid ioret of
        None \<Rightarrow> Inl AssertionError
      | Some reqid \<Rightarrow>
          (case state_dict reqid of
             None \<Rightarrow> Inr (state_dict, None)
           | Some state \<Rightarrow>
               (let (state, returned) = advance_state on_signal_advanced ioret worker_tprank tpsize state
                in Inr (state_dict(reqid \<mapsto> state), if returned then Some (reqid, state) else None))))"

text \<open>
  \<open>IoState.merge\<close>: the loop body stops at the first failure it finds. The result is the first signal itself, changed
  in place.
\<close>

fun io_merge_loop :: "io_ret \<Rightarrow> io_ret list \<Rightarrow> io_ret" where
  "io_merge_loop ret [] = ret"
| "io_merge_loop ret (wio # iorets) =
     (if io_ex wio \<noteq> None \<and> io_ex ret = None then ret\<lparr>io_ex := io_ex wio\<rparr>
      else
        (case io_n ret of
           None \<Rightarrow> io_merge_loop ret iorets
         | Some n \<Rightarrow>
             (case io_n wio of
                None \<Rightarrow> io_merge_loop (ret\<lparr>io_n := None\<rparr>) iorets
              | Some m \<Rightarrow> io_merge_loop (if n > m then ret\<lparr>io_n := Some m\<rparr> else ret) iorets)))"

fun set_first_signal :: "nat \<Rightarrow> io_ret \<Rightarrow> (nat \<times> io_ret list) list \<Rightarrow> (nat \<times> io_ret list) list" where
  "set_first_signal k ret [] = []"
| "set_first_signal k ret ((w, []) # ws) = (w, []) # set_first_signal k ret ws"
| "set_first_signal k ret ((w, s # ss) # ws) =
     (if k \<le> length (s # ss) then (w, ret # ss) # ws else (w, s # ss) # set_first_signal k ret ws)"

definition merge_signals :: "'a io_state_scheme \<Rightarrow> (io_ret \<times> 'a io_state_scheme) py" where
  "merge_signals st =
     (case concat (map snd (filter (\<lambda>(_, signals). length signals \<ge> signals_per_worker st) (worker_signals st))) of
        [] \<Rightarrow> Inl AssertionError
      | ret # iorets \<Rightarrow>
          (let ret = io_merge_loop ret iorets
           in Inr (ret, st\<lparr>worker_signals := set_first_signal (signals_per_worker st) ret (worker_signals st)\<rparr>)))"

section \<open>The requests being sent\<close>

record sending_req = io_state +
  fut :: "io_ret option"

type_synonym sending = "py_str \<rightharpoonup> sending_req"

definition sending_req_new :: "nat \<Rightarrow> sending_req" where
  "sending_req_new k = \<lparr> signals_per_worker = k, worker_signals = [], expected_sources = [], fut = None \<rparr>"

definition try_mark_done :: "io_ret \<Rightarrow> sending_req \<Rightarrow> sending_req" where
  "try_mark_done ioret st = (if fut st \<noteq> None then st else st\<lparr>fut := Some ioret\<rparr>)"

text \<open>The number of signals of one worker, from the TP sizes; the decode size is \<open>None\<close> when the instance id does not carry it.\<close>

definition kvt_signals_per_worker :: "nat \<Rightarrow> nat option \<Rightarrow> nat" where
  "kvt_signals_per_worker p_tp d_tp =
     (case d_tp of
        None \<Rightarrow> 1
      | Some d \<Rightarrow> if d > p_tp \<and> d mod p_tp = 0 then d div p_tp else 1)"

definition submit_transfer_kv :: "nat \<Rightarrow> py_str \<Rightarrow> nat option \<Rightarrow> sending \<Rightarrow> unit py \<times> sending" where
  "submit_transfer_kv p_tp reqid d_tp sending =
     (if sending reqid \<noteq> None then (Inl AssertionError, sending)
      else (Inr (), sending(reqid \<mapsto> sending_req_new (kvt_signals_per_worker p_tp d_tp))))"

definition with_source :: "io_ret \<Rightarrow> io_ret" where
  "with_source ioret = (if io_source ioret = None then ioret\<lparr>io_source := Some ''kvt''\<rparr> else ioret)"

definition do_send_done :: "nat \<Rightarrow> sending done_callback" where
  "do_send_done tpsize worker_tprank ioret sending =
     (case try_advance sending (with_source ioret) worker_tprank tpsize (\<lambda>st _. st) of
        Inl e \<Rightarrow> (Inl e, sending)
      | Inr (sending, None) \<Rightarrow> (Inr (), sending)
      | Inr (sending, Some (reqid, state)) \<Rightarrow>
          (case merge_signals state of
             Inl e \<Rightarrow> (Inl e, sending)
           | Inr (ret, state) \<Rightarrow> (Inr (), sending(reqid \<mapsto> try_mark_done ret state))))"

text \<open>The answer that \<open>_wait_kvt_state\<close> sends to the decode instance: the code and the number of tokens.\<close>

definition CODE_OK :: nat where "CODE_OK = 0"

definition kvt_resp :: "io_ret \<Rightarrow> nat \<times> int" where
  "kvt_resp ioret =
     (case io_ex ioret of None \<Rightarrow> CODE_OK | Some (CodeError code _) \<Rightarrow> code,
      case io_n ioret of None \<Rightarrow> 0 | Some n \<Rightarrow> n)"

section \<open>Merging\<close>

lemma io_merge_loop_ex: "io_ex (io_merge_loop ret iorets) \<noteq> None \<longleftrightarrow> (\<exists>io\<in>set (ret # iorets). io_ex io \<noteq> None)"
  by (induction ret iorets rule: io_merge_loop.induct) (auto split: option.splits)

lemma io_merge_loop_from: "io_ex (io_merge_loop ret iorets) \<in> io_ex ` set (ret # iorets)"
proof (induction iorets arbitrary: ret)
  case (Cons wio iorets)
  show ?case
    using Cons.IH [of ret] Cons.IH [of "ret\<lparr>io_n := None\<rparr>"] Cons.IH [of "ret\<lparr>io_n := io_n wio\<rparr>"]
    by (cases "io_n ret"; cases "io_n wio") auto
qed simp

lemma io_merge_loop_n:
  assumes "\<forall>io\<in>set (ret # iorets). io_ex io = None \<and> io_n io \<noteq> None"
  shows "io_n (io_merge_loop ret iorets) = Some (Min ((\<lambda>io. the (io_n io)) ` set (ret # iorets)))"
  using assms
proof (induction iorets arbitrary: ret)
  case (Cons wio iorets)
  let ?n = "\<lambda>io. the (io_n io)"
  obtain n m where nm: "io_n ret = Some n" "io_n wio = Some m"
    using Cons.prems by auto
  define r where "r = (if n > m then ret\<lparr>io_n := Some m\<rparr> else ret)"
  have r: "io_n r = Some (min n m)" "io_ex r = None"
    using nm Cons.prems by (auto simp: r_def)
  have "io_n (io_merge_loop ret (wio # iorets)) = io_n (io_merge_loop r iorets)"
    using nm Cons.prems by (simp add: r_def)
  also have "\<dots> = Some (Min (?n ` set (r # iorets)))"
    using r Cons.prems by (intro Cons.IH) simp
  also have "Min (?n ` set (r # iorets)) = Min (insert (min n m) (?n ` set iorets))"
    using r by simp
  also have "\<dots> = Min (insert n (insert m (?n ` set iorets)))"
    by (cases "iorets = []") (simp_all add: min.assoc)
  finally show ?case
    using nm by simp
qed simp

section \<open>What has been collected\<close>

definition signals_of :: "nat \<Rightarrow> (nat \<times> io_ret) list \<Rightarrow> io_ret list" where
  "signals_of r l = map snd (filter (\<lambda>(w, _). w = r) l)"

lemma signals_of_simps [simp]:
  "signals_of r [] = []" "signals_of r (l @ l') = signals_of r l @ signals_of r l'"
  "signals_of r ((w, io) # l) = (if w = r then io # signals_of r l else signals_of r l)"
  by (simp_all add: signals_of_def)

lemma signals_of_Nil_iff: "signals_of r l = [] \<longleftrightarrow> r \<notin> fst ` set l"
  by (force simp: signals_of_def filter_empty_conv)

definition collects :: "nat \<Rightarrow> (nat \<times> io_ret) list \<Rightarrow> sending_req \<Rightarrow> bool" where
  "collects k l st \<longleftrightarrow> signals_per_worker st = k \<and> expected_sources st = [] \<and> fut st = None \<and>
     distinct (map fst (worker_signals st)) \<and>
     map_of (worker_signals st) = (\<lambda>r. if signals_of r l = [] then None else Some (signals_of r l))"

lemma collects_new: "collects k [] (sending_req_new k)"
  by (simp add: collects_def sending_req_new_def)

lemma collects_advance:
  assumes "collects k l st" and "length (signals_of r l) < k"
  shows "\<exists>st'. advance_state (\<lambda>st _. st) io r tp st = (st', \<not> ready_workers_count st' < tp) \<and> collects k (l @ [(r, io)]) st'"
proof -
  let ?ws = "worker_signals st"
  let ?ws1 = "if map_of ?ws r = None then ?ws @ [(r, [])] else ?ws"
  let ?ws2 = "AList.update r (signals_of r l @ [io]) ?ws1"
  have st: "signals_per_worker st = k" "expected_sources st = []" "fut st = None" "distinct (map fst ?ws)"
    "map_of ?ws = (\<lambda>r. if signals_of r l = [] then None else Some (signals_of r l))"
    using assms(1) by (auto simp: collects_def)
  have "r \<notin> fst ` set ?ws" if "map_of ?ws r = None"
    using that by (simp add: map_of_eq_None_iff)
  then have dist: "distinct (map fst ?ws1)"
    using st(4) by auto
  have the: "the (map_of ?ws1 r) = signals_of r l"
    using st(5) by (auto simp: map_add_def)
  have ws2: "map_of ?ws2 = (map_of ?ws)(r \<mapsto> signals_of r l @ [io])"
    by (rule ext) (auto simp: update_conv map_add_def split: option.splits)
  let ?st' = "st\<lparr>worker_signals := ?ws2\<rparr>"
  have "collects k (l @ [(r, io)]) ?st'"
    unfolding collects_def using st dist ws2 distinct_update [OF dist] by (auto simp: fun_eq_iff)
  moreover have "advance_state (\<lambda>st _. st) io r tp st = (?st', \<not> ready_workers_count ?st' < tp)"
    using st(1,2) the assms(2) by (auto simp: advance_state_def append_signal_def Let_def)
  ultimately show ?thesis
    by blast
qed

lemma collects_ready:
  assumes "collects k l st" and "0 < k"
  shows "ready_workers_count st = card {r. k \<le> length (signals_of r l)}"
proof -
  let ?ws = "worker_signals st"
  let ?R = "filter (\<lambda>(_, signals). k \<le> length signals) ?ws"
  have st: "signals_per_worker st = k" "distinct (map fst ?ws)"
    "map_of ?ws = (\<lambda>r. if signals_of r l = [] then None else Some (signals_of r l))"
    using assms(1) by (auto simp: collects_def)
  have "length ?R = card (fst ` set ?R)"
    using distinct_map_filter [OF st(2), of "\<lambda>(_, signals). k \<le> length signals"] distinct_card [of "map fst ?R"] by simp
  also have "fst ` set ?R = {r. k \<le> length (signals_of r l)}"
  proof (intro equalityI subsetI)
    fix r
    assume "r \<in> fst ` set ?R"
    then obtain s where "(r, s) \<in> set ?ws" "k \<le> length s"
      by auto
    then show "r \<in> {r. k \<le> length (signals_of r l)}"
      using map_of_eq_Some_iff [OF st(2), of r s] st(3) by (simp split: if_splits)
  next
    fix r
    assume "r \<in> {r. k \<le> length (signals_of r l)}"
    then have "map_of ?ws r = Some (signals_of r l)" "k \<le> length (signals_of r l)"
      using st(3) assms(2) by auto
    then show "r \<in> fst ` set ?R"
      using map_of_eq_Some_iff [OF st(2)] by force
  qed
  finally show ?thesis
    by (simp add: ready_workers_count_def st(1))
qed

lemma collects_signals:
  assumes "collects k l st" and "\<forall>r. signals_of r l \<noteq> [] \<longrightarrow> k \<le> length (signals_of r l)"
  shows "set (concat (map snd (filter (\<lambda>(_, signals). length signals \<ge> signals_per_worker st) (worker_signals st)))) = snd ` set l"
proof -
  let ?ws = "worker_signals st"
  have st: "signals_per_worker st = k" "distinct (map fst ?ws)"
    "map_of ?ws = (\<lambda>r. if signals_of r l = [] then None else Some (signals_of r l))"
    using assms(1) by (auto simp: collects_def)
  have in_ws: "(r, s) \<in> set ?ws \<longleftrightarrow> s = signals_of r l \<and> s \<noteq> []" for r s
    using map_of_eq_Some_iff [OF st(2), of r s] st(3) by (auto split: if_splits)
  have sig: "io \<in> set (signals_of r l) \<longleftrightarrow> (r, io) \<in> set l" for r io
    by (auto simp: signals_of_def image_iff)
  show ?thesis
  proof (intro equalityI subsetI)
    fix io
    assume "io \<in> set (concat (map snd (filter (\<lambda>(_, signals). length signals \<ge> signals_per_worker st) ?ws)))"
    then obtain r s where "(r, s) \<in> set ?ws" "io \<in> set s"
      by auto
    then show "io \<in> snd ` set l"
      using in_ws sig by force
  next
    fix io
    assume "io \<in> snd ` set l"
    then obtain r where r: "io \<in> set (signals_of r l)"
      using sig by auto
    then have "signals_of r l \<noteq> []"
      by auto
    then have "(r, signals_of r l) \<in> set ?ws" "k \<le> length (signals_of r l)"
      using in_ws assms(2) by auto
    then show "io \<in> set (concat (map snd (filter (\<lambda>(_, signals). length signals \<ge> signals_per_worker st) ?ws)))"
      using r st(1) by force
  qed
qed

section \<open>Delivery\<close>

definition deliver :: "nat \<Rightarrow> (nat \<times> io_ret) list \<Rightarrow> sending \<Rightarrow> sending" where
  "deliver tp l d = fold (\<lambda>(r, io) d. snd (do_send_done tp r io d)) l d"

lemma deliver_simps [simp]:
  "deliver tp [] d = d" "deliver tp (l @ l') d = deliver tp l' (deliver tp l d)"
  "deliver tp ((r, io) # l) d = deliver tp l (snd (do_send_done tp r io d))"
  by (simp_all add: deliver_def)

text \<open>The reports on one request, as they are kept.\<close>

definition reports :: "py_str \<Rightarrow> (nat \<times> io_ret) list \<Rightarrow> (nat \<times> io_ret) list" where
  "reports reqid l = map (\<lambda>(r, io). (r, with_source io)) (filter (\<lambda>(_, io). io_reqid io = Some reqid) l)"

lemma reports_simps [simp]:
  "reports R [] = []" "reports R (l @ l') = reports R l @ reports R l'"
  "reports R ((r, io) # l) = (if io_reqid io = Some R then (r, with_source io) # reports R l else reports R l)"
  by (simp_all add: reports_def)

lemma with_source_simps [simp]:
  "io_reqid (with_source io) = io_reqid io" "io_ex (with_source io) = io_ex io" "io_n (with_source io) = io_n io"
  by (simp_all add: with_source_def)

lemma do_send_done_other: "io_reqid io \<noteq> Some R \<Longrightarrow> snd (do_send_done tp r io d) R = d R"
  by (auto simp: do_send_done_def try_advance_def split: option.splits sum.splits prod.splits if_splits)

lemma deliver_other: "reports R l = [] \<Longrightarrow> deliver tp l d R = d R"
  by (induction l arbitrary: d) (auto simp: do_send_done_other split: if_splits)

lemma do_send_done_collects:
  assumes "d R = Some st" and "collects k l st" and "io_reqid io = Some R" and "length (signals_of r l) < k"
  shows "\<exists>st'. collects k (l @ [(r, with_source io)]) st' \<and>
    do_send_done tp r io d =
      (if ready_workers_count st' < tp then (Inr (), d(R \<mapsto> st'))
       else (case merge_signals st' of
               Inl e \<Rightarrow> (Inl e, d(R \<mapsto> st'))
             | Inr (ret, st'') \<Rightarrow> (Inr (), d(R \<mapsto> try_mark_done ret st''))))"
proof -
  obtain st' where "advance_state (\<lambda>st _. st) (with_source io) r tp st = (st', \<not> ready_workers_count st' < tp)"
      "collects k (l @ [(r, with_source io)]) st'"
    using collects_advance [OF assms(2,4)] by blast
  then show ?thesis
    using assms(1,3) by (intro exI [of _ st']) (auto simp: do_send_done_def try_advance_def split: sum.splits)
qed

lemma complete_workers_card:
  assumes "\<forall>(r, _)\<in>set l. r < tp" and "0 < k"
  shows "card {r. k \<le> length (signals_of r l)} < tp \<longleftrightarrow> (\<exists>r<tp. length (signals_of r l) < k)"
proof -
  have sub: "{r. k \<le> length (signals_of r l)} \<subseteq> {..<tp}"
  proof
    fix r
    assume "r \<in> {r. k \<le> length (signals_of r l)}"
    then have "signals_of r l \<noteq> []"
      using assms(2) by auto
    then show "r \<in> {..<tp}"
      using assms(1) by (auto simp: signals_of_Nil_iff)
  qed
  show ?thesis
  proof (cases "\<exists>r<tp. length (signals_of r l) < k")
    case True
    then have "{r. k \<le> length (signals_of r l)} \<subset> {..<tp}"
      using sub by (auto simp: not_le [symmetric])
    from psubset_card_mono [OF _ this] True show ?thesis
      by simp
  next
    case False
    then have "{r. k \<le> length (signals_of r l)} = {..<tp}"
      using sub by (fastforce simp: not_less [symmetric])
    with False show ?thesis
      by simp
  qed
qed

lemma deliver_collects:
  assumes "d R = Some (sending_req_new k)" and "0 < k"
    and "\<forall>(r, _)\<in>set (reports R l). r < tp" and "\<forall>r. length (signals_of r (reports R l)) \<le> k"
    and "\<exists>r<tp. length (signals_of r (reports R l)) < k"
  shows "\<exists>st. deliver tp l d R = Some st \<and> collects k (reports R l) st"
  using assms(3-5)
proof (induction l rule: rev_induct)
  case Nil
  show ?case
    using assms(1) by (simp add: collects_new)
next
  case (snoc x l)
  obtain r io where x: "x = (r, io)"
    by (cases x)
  have le: "length (signals_of w (reports R l)) \<le> length (signals_of w (reports R (l @ [x])))" for w
    by simp
  then have "\<exists>r<tp. length (signals_of r (reports R l)) < k" "\<forall>r. length (signals_of r (reports R l)) \<le> k"
    using snoc.prems(2,3) by (meson le_less_trans, meson order_trans)
  then obtain st where st: "deliver tp l d R = Some st" "collects k (reports R l) st"
    using snoc.IH snoc.prems(1) by (auto simp: x split: if_splits)
  show ?case
  proof (cases "io_reqid io = Some R")
    case False
    then show ?thesis
      using st by (simp add: x do_send_done_other)
  next
    case True
    have "length (signals_of r (reports R l)) < k"
      using snoc.prems(2) [rule_format, of r] True by (simp add: x)
    from do_send_done_collects [where d = "deliver tp l d", OF st True this, of tp] obtain st' where
      st': "collects k (reports R (l @ [x])) st'" "do_send_done tp r io (deliver tp l d) =
        (if ready_workers_count st' < tp then (Inr (), (deliver tp l d)(R \<mapsto> st'))
         else (case merge_signals st' of
                 Inl e \<Rightarrow> (Inl e, (deliver tp l d)(R \<mapsto> st'))
               | Inr (ret, st'') \<Rightarrow> (Inr (), (deliver tp l d)(R \<mapsto> try_mark_done ret st''))))"
      using True by (auto simp: x)
    have "ready_workers_count st' < tp"
      using collects_ready [OF st'(1) assms(2)] complete_workers_card [OF snoc.prems(1) assms(2)] snoc.prems(3) by simp
    then show ?thesis
      using st' by (simp add: x)
  qed
qed

abbreviation all_fine :: "(nat \<times> io_ret) list \<Rightarrow> bool" where
  "all_fine l \<equiv> \<forall>(_, io)\<in>set l. io_ex io = None"

definition outcome :: "(nat \<times> io_ret) list \<Rightarrow> io_ret \<Rightarrow> bool" where
  "outcome l ret \<longleftrightarrow> (io_ex ret = None \<longleftrightarrow> all_fine l) \<and> io_ex ret \<in> (\<lambda>(_, io). io_ex io) ` set l \<and>
     (all_fine l \<and> (\<forall>(_, io)\<in>set l. io_n io \<noteq> None) \<longrightarrow> io_n ret = Some (Min ((\<lambda>(_, io). the (io_n io)) ` set l)))"

lemma merge_complete:
  assumes "collects k l st" and "\<forall>r. signals_of r l \<noteq> [] \<longrightarrow> k \<le> length (signals_of r l)" and "l \<noteq> []"
  shows "\<exists>ret st'. merge_signals st = Inr (ret, st') \<and> fut st' = None \<and> outcome l ret"
proof -
  let ?sigs = "concat (map snd (filter (\<lambda>(_, signals). length signals \<ge> signals_per_worker st) (worker_signals st)))"
  have sigs: "set ?sigs = snd ` set l"
    by (rule collects_signals [OF assms(1,2)])
  then obtain ret rest where rr: "?sigs = ret # rest"
    using assms(3) by (cases ?sigs) auto
  have img: "set (ret # rest) = snd ` set l"
    using sigs rr by simp
  have "io_ex (io_merge_loop ret rest) = None \<longleftrightarrow> all_fine l"
    using io_merge_loop_ex [of ret rest] unfolding img by force
  moreover have "io_ex (io_merge_loop ret rest) \<in> (\<lambda>(_, io). io_ex io) ` set l"
    using io_merge_loop_from [of ret rest] unfolding img by (simp add: image_image case_prod_unfold)
  moreover have "io_n (io_merge_loop ret rest) = Some (Min ((\<lambda>(_, io). the (io_n io)) ` set l))"
    if "all_fine l" "\<forall>(_, io)\<in>set l. io_n io \<noteq> None"
  proof -
    have "\<forall>io\<in>set (ret # rest). io_ex io = None \<and> io_n io \<noteq> None"
      unfolding img using that by auto
    from io_merge_loop_n [OF this] show ?thesis
      unfolding img by (simp add: image_image case_prod_unfold)
  qed
  ultimately show ?thesis
    using rr assms(1) by (simp add: merge_signals_def outcome_def collects_def Let_def)
qed

lemma last_report:
  assumes "reports R l \<noteq> []"
  obtains l1 r io l2 where "l = l1 @ (r, io) # l2" "io_reqid io = Some R" "reports R l2 = []"
proof -
  have "\<exists>x\<in>set l. io_reqid (snd x) = Some R"
    using assms by (force simp: reports_def filter_empty_conv)
  then obtain l1 x l2 where "l = l1 @ x # l2" "io_reqid (snd x) = Some R" "\<forall>y\<in>set l2. io_reqid (snd y) \<noteq> Some R"
    using split_list_last_prop [of l "\<lambda>x. io_reqid (snd x) = Some R"] by blast
  then show thesis
    using that [of l1 "fst x" "snd x" l2] by (auto simp: reports_def filter_empty_conv case_prod_unfold)
qed

text \<open>Each worker below \<open>tp\<close> reports \<open>k\<close> times on the request, and nobody else does.\<close>

definition reports_complete :: "nat \<Rightarrow> nat \<Rightarrow> (nat \<times> io_ret) list \<Rightarrow> bool" where
  "reports_complete tp k l \<longleftrightarrow> (\<forall>(r, _)\<in>set l. r < tp) \<and> (\<forall>r<tp. length (signals_of r l) = k)"

lemma reports_completeD:
  assumes "reports_complete tp k l"
  shows "(r, io) \<in> set l \<Longrightarrow> r < tp" and "length (signals_of r l) = (if r < tp then k else 0)"
proof -
  show "(r, io) \<in> set l \<Longrightarrow> r < tp"
    using assms by (auto simp: reports_complete_def)
  show "length (signals_of r l) = (if r < tp then k else 0)"
  proof (cases "r < tp")
    case False
    then have "signals_of r l = []"
      using assms by (auto simp: reports_complete_def signals_of_Nil_iff)
    with False show ?thesis
      by simp
  qed (use assms in \<open>simp add: reports_complete_def\<close>)
qed

lemma sending_open:
  assumes "d R = Some (sending_req_new k)" and "0 < k" and "reports_complete tp k (reports R (l1 @ l2))" and "reports R l2 \<noteq> []"
  shows "\<exists>st. deliver tp l1 d R = Some st \<and> collects k (reports R l1) st"
proof -
  note complete = reports_completeD [OF assms(3)]
  obtain r io where r: "(r, io) \<in> set (reports R l2)"
    using assms(4) by (cases "reports R l2") auto
  then have "r < tp"
    using complete(1) [of r io] by simp
  moreover have "signals_of r (reports R l2) \<noteq> []"
    using r by (force simp: signals_of_Nil_iff)
  ultimately have "\<exists>r<tp. length (signals_of r (reports R l1)) < k"
    using complete(2) [of r] by (intro exI [of _ r]) (cases "signals_of r (reports R l2)", simp_all)
  moreover have "\<forall>w. length (signals_of w (reports R l1)) \<le> k"
  proof
    fix w
    show "length (signals_of w (reports R l1)) \<le> k"
      using complete(2) [of w] by (simp split: if_splits)
  qed
  moreover have "\<forall>(r, _)\<in>set (reports R l1). r < tp"
    using complete(1) by auto
  ultimately show ?thesis
    using deliver_collects [where d = d and R = R and k = k and tp = tp and l = l1] assms(1,2) by blast
qed

lemma sending_last:
  assumes "d R = Some st" and "collects k l st" and "io_reqid io = Some R" and "0 < k"
    and "reports_complete tp k (l @ [(r, with_source io)])"
  shows "\<exists>st ret. snd (do_send_done tp r io d) R = Some st \<and> fut st = Some ret \<and> outcome (l @ [(r, with_source io)]) ret"
proof -
  note complete = reports_completeD [OF assms(5)]
  have "length (signals_of r l) < k"
    using complete(2) [of r] complete(1) [of r "with_source io"] by simp
  from do_send_done_collects [where d = d, OF assms(1-3) this, of tp] obtain st' where
    st': "collects k (l @ [(r, with_source io)]) st'" "do_send_done tp r io d =
        (if ready_workers_count st' < tp then (Inr (), d(R \<mapsto> st'))
         else (case merge_signals st' of
                 Inl e \<Rightarrow> (Inl e, d(R \<mapsto> st'))
               | Inr (ret, st'') \<Rightarrow> (Inr (), d(R \<mapsto> try_mark_done ret st''))))"
    by blast
  have ranks: "\<forall>(r, _)\<in>set (l @ [(r, with_source io)]). r < tp"
    using assms(5) unfolding reports_complete_def by blast
  have "\<not> (\<exists>w<tp. length (signals_of w (l @ [(r, with_source io)])) < k)"
    using complete(2) by simp
  then have ready: "\<not> ready_workers_count st' < tp"
    unfolding collects_ready [OF st'(1) assms(4)] complete_workers_card [OF ranks assms(4)] .
  have "\<forall>w. signals_of w (l @ [(r, with_source io)]) \<noteq> [] \<longrightarrow> k \<le> length (signals_of w (l @ [(r, with_source io)]))"
  proof (intro allI impI)
    fix w
    assume "signals_of w (l @ [(r, with_source io)]) \<noteq> []"
    then show "k \<le> length (signals_of w (l @ [(r, with_source io)]))"
      using complete(2) [of w] by (cases "w < tp") simp_all
  qed
  from merge_complete [OF st'(1) this] obtain ret st'' where
    "merge_signals st' = Inr (ret, st'')" "fut st'' = None" "outcome (l @ [(r, with_source io)]) ret"
    by auto
  then show ?thesis
    using st'(2) ready by (simp add: try_mark_done_def)
qed

lemma sending_completed:
  assumes "d R = Some (sending_req_new k)" and "0 < k" and "0 < tp" and "reports_complete tp k (reports R l)"
  shows "\<exists>st ret. deliver tp l d R = Some st \<and> fut st = Some ret \<and> outcome (reports R l) ret"
proof -
  have "signals_of 0 (reports R l) \<noteq> []"
    using reports_completeD(2) [OF assms(4), of 0] assms(2,3) by auto
  then have "reports R l \<noteq> []"
    by auto
  then obtain l1 r io l2 where l: "l = l1 @ (r, io) # l2" "io_reqid io = Some R" "reports R l2 = []"
    by (rule last_report)
  then have reps: "reports R l = reports R l1 @ [(r, with_source io)]"
    by simp
  obtain st where st: "deliver tp l1 d R = Some st" "collects k (reports R l1) st"
    using sending_open [of d R k tp l1 "(r, io) # l2"] assms l by auto
  have "deliver tp l d R = snd (do_send_done tp r io (deliver tp l1 d)) R"
    unfolding l(1) by (simp add: deliver_other [OF l(3)])
  then show ?thesis
    using sending_last [where d = "deliver tp l1 d", OF st l(2) assms(2)] assms(4) unfolding reps by metis
qed

text \<open>
  A request completes exactly when it should. Let the reports on a request come in any order and mixed
  with those on other requests, each of the workers reporting as often as it has destinations. As long as one is missing the
  future of the request is open; with the last one it is set: without an error if and only if no report carries one, and then with
  the smallest of the token counts.
\<close>

theorem sending_completes:
  assumes "d R = Some (sending_req_new k)" and "0 < k" and "0 < tp" and "reports_complete tp k (reports R l)"
  shows "(\<forall>l1 l2. l = l1 @ l2 \<and> reports R l2 \<noteq> [] \<longrightarrow> (\<exists>st. deliver tp l1 d R = Some st \<and> fut st = None)) \<and>
    (\<exists>st ret. deliver tp l d R = Some st \<and> fut st = Some ret \<and> outcome (reports R l) ret)"
proof (intro conjI allI impI)
  fix l1 l2
  assume "l = l1 @ l2 \<and> reports R l2 \<noteq> []"
  then show "\<exists>st. deliver tp l1 d R = Some st \<and> fut st = None"
    using sending_open [of d R k tp l1 l2] assms by (auto simp: collects_def)
qed (rule sending_completed [where d = d, OF assms])

theorem sending_completes_witness:
  "\<exists>st ret. deliver 2 [(1, \<lparr> io_reqid = Some [114], io_ex = None, io_n = Some 5, io_source = None \<rparr>),
        (0, \<lparr> io_reqid = Some [114], io_ex = None, io_n = Some 3, io_source = None \<rparr>)]
      [[114] \<mapsto> sending_req_new 1] [114] = Some st \<and> fut st = Some ret \<and> io_n ret = Some 3"
proof -
  let ?io = "\<lambda>n. \<lparr> io_reqid = Some [114], io_ex = None, io_n = Some n, io_source = None \<rparr>"
  let ?l = "[(1, ?io 5), (0, ?io 3)]" and ?d = "[[114] \<mapsto> sending_req_new 1]"
  have reps: "reports [114] ?l = [(1, with_source (?io 5)), (0, with_source (?io 3))]"
    by simp
  have complete: "reports_complete 2 1 (reports [114] ?l)"
    unfolding reps reports_complete_def by (simp add: less_2_cases_iff)
  have "?d [114] = Some (sending_req_new 1)" "(0 :: nat) < 1" "(0 :: nat) < 2"
    by simp_all
  from sending_completes [where d = ?d, OF this complete] show ?thesis
    unfolding reps by (auto simp: outcome_def)
qed

end
