(* ===== verification/TxRuns.thy ===== *)
theory TxRuns
  imports TxStub
begin

text \<open>
  Whole runs of the sending stub: a world in which everything works, a request that is sent through it, and a
  destination that the stub cannot serve.
\<close>

section \<open>A concrete stub\<close>

text \<open>
  A world that answers every lookup with one destination, on which every operation succeeds; it logs the registered
  descriptors and the layers that are sent.
\<close>

definition demo_ops :: "worker_info \<Rightarrow> (ipc_block list list \<times> nat list) stub_ops" where
  "demo_ops dst =
     \<lparr> op_get_worker_info = (\<lambda>_ _. eret (Some dst)), op_create_channel = (\<lambda>_. eret ()), op_is_active = (\<lambda>_. True),
       op_register_data = (\<lambda>blocks _. emodify (\<lambda>(_, l). (blocks, l))), op_wait_layer_ready = (\<lambda>_. eret ()),
       op_send_data = (\<lambda>i. emodify (\<lambda>(b, l). (b, l @ [i]))), op_flush = eret (), op_fault_inject_throw = eret (),
       op_socket = eret True, op_connect = eret True, op_write_sock = (\<lambda>_. eret True),
       op_read_sock = (\<lambda>n. eret (int n)) \<rparr>"

definition demo_stub :: "worker_info \<Rightarrow> kv_send_stub" where
  "demo_stub src = \<lparr> stub_dstid = ''d'', stub_dstworkerid = 0, stub_src_info = src, stub_start_layer = 0, stub_num_layers = 2 \<rparr>"

abbreviation demo_src :: worker_info where
  "demo_src \<equiv> demo_worker [4] [8] 5 1 0"

abbreviation demo_dst :: worker_info where
  "demo_dst \<equiv> demo_worker [4] [8] 6 1 0"

abbreviation demo_request :: req_send_task where
  "demo_request \<equiv> demo_task [[4, 0]] [[1, 3]] 1 2 True"

lemma demo_parse:
  "\<exists>out. parse_block_send_p_eq_d demo_env demo_src demo_dst vr 1 r demo_request [] = Inr [out] \<and> total_len out = 8"
  using ragged_eq_copies [of demo_src demo_dst 4 8 demo_request demo_env 1 "[]" vr r]
  by (auto simp: cache_ok_def task_ok_def table_ok_code)

lemma demo_ranks: "compute_valid_ranks_pd demo_env 1 1 (- 1) = Inr (every_rank 1 1)"
  using rfold_every_rank [of 1 1 "\<lambda>i. i"] by (simp add: compute_valid_ranks_pd_def MAX_TP_SIZE_def)

lemma demo_effective: "effective_tp_size (every_rank 1 1) = 1"
  using valid_count_every_rank [of 1 1] by (simp add: effective_tp_size_def MAX_TP_SIZE_def u32_def)

lemma demo_bind_dst:
  assumes "tc_parse_block s = None" and "tc_tpkind s = TP_UNKNOWN"
  shows "bind_dst demo_env (demo_stub demo_src) demo_dst s =
    (Inr (), s\<lparr>tc_dstinfo := Some demo_dst, tc_valid_ranks := every_rank 1 1, tc_kvt_tp_size := 1,
       tc_kvt_tp_rank := effective_tp_rank (every_rank 1 1) 0, tc_parse_block := Some Ragged_p_eq_d, tc_tpkind := PEQD\<rparr>)"
proof -
  have "num_kv_heads demo_src = - 1"
    by (simp add: demo_worker_def worker_info_default_def)
  moreover have "select_parse_block (env_cache_shape demo_env) demo_src demo_dst
      (selection_p_tp (env_cache_shape demo_env) demo_src 1) 1 = Inr (Ragged_p_eq_d, PEQD)"
    by (simp add: select_parse_block_def selection_p_tp_def env_cache_shape_def cache_shape_defs)
  ultimately show ?thesis
    using assms demo_ranks demo_effective
    by (simp add: bind_dst_def eff_defs Let_def demo_stub_def)
qed

lemma demo_send_requests:
  assumes "parse_block_send_p_eq_d demo_env demo_src demo_dst (every_rank 1 1) 1
      (effective_tp_rank (every_rank 1 1) 0) demo_request [] = Inr [out]" and "out \<noteq> []"
    and "s = initial_context sts (b, l)\<lparr>tc_send_req := [demo_request], tc_finished_req := [demo_request]\<rparr>"
  shows "\<exists>s'. send_requests demo_env (demo_ops demo_dst) (demo_stub demo_src) s = (Inr (), s') \<and>
    tc_world s' = ([out], l @ [0, 1]) \<and> tc_parse_block s' = Some Ragged_p_eq_d"
proof -
  let ?s1 = "s\<lparr>tc_dstinfo := Some demo_dst, tc_valid_ranks := every_rank 1 1, tc_kvt_tp_size := 1,
       tc_kvt_tp_rank := effective_tp_rank (every_rank 1 1) 0, tc_parse_block := Some Ragged_p_eq_d, tc_tpkind := PEQD, tc_ch := True\<rparr>"
  have create: "try_create_channel demo_env (demo_ops demo_dst) (demo_stub demo_src) s = (Inr (), ?s1)"
    using demo_bind_dst [of s] assms(3)
    by (simp add: try_create_channel_def refresh_dst_info_def eff_defs on_world_def demo_ops_def initial_context_def)
  have parse: "parse_requests demo_env (demo_stub demo_src) ?s1 = (Inr (), ?s1\<lparr>tc_send_blocks := [out]\<rparr>)"
    using assms by (simp add: parse_requests_def parse_one_def eff_defs initial_context_def demo_stub_def)
  show ?thesis
    using create parse assms(2,3)
    by (simp add: send_requests_def eseq_def ebind_def eread_def ewhen_def eassert_def eret_def do_send_def on_world_def
        demo_ops_def demo_stub_def emodify_def initial_context_def upt_rec)
qed

lemma demo_rpc:
  assumes "worker_tp_rank (stub_src_info stub) < 0xffff" and "\<forall>req\<in>set reqs. reach_last_token req"
  shows "\<exists>s'. rpc_send_done env (demo_ops d) stub reqs s = (Inr (), s')"
proof -
  have "\<exists>s'. do_rpc_send_done (demo_ops d) n s = (Inr (), s')" for n and s :: "(ipc_block list list \<times> nat list) task_context"
    by (simp add: do_rpc_send_done_def eff_defs on_world_def demo_ops_def)
  then show ?thesis
    using assms
    by (simp add: rpc_send_done_def eseq_returns eread_returns eassert_returns emodify_returns ecatch_returns Let_def
        split: prod.splits) blast
qed

lemma demo_do_task:
  "\<exists>s'. do_task demo_env (demo_ops demo_dst) (demo_stub demo_src) [demo_request]
      (initial_context (\<lambda>_. INPROCESS) ([], [])) = (Inr (), s') \<and> tc_parse_block s' = Some Ragged_p_eq_d \<and>
    batch_sent demo_env (demo_ops demo_dst) (demo_stub demo_src) [demo_request] (initial_context (\<lambda>_. INPROCESS) ([], []))"
proof -
  let ?s0 = "initial_context (\<lambda>_. INPROCESS) ([], [])"
  let ?s1 = "?s0\<lparr>tc_send_req := [demo_request], tc_finished_req := [demo_request]\<rparr>"
  obtain out where out: "parse_block_send_p_eq_d demo_env demo_src demo_dst (every_rank 1 1) 1
    (effective_tp_rank (every_rank 1 1) 0) demo_request [] = Inr [out]" "total_len out = 8"
    using demo_parse by blast
  then have "out \<noteq> []"
    by (auto simp: total_len_def)
  from demo_send_requests [OF out(1) this refl] obtain s2 where
    send: "send_requests demo_env (demo_ops demo_dst) (demo_stub demo_src) ?s1 = (Inr (), s2)" and pb: "tc_parse_block s2 = Some Ragged_p_eq_d"
    by blast
  have s2: "tc_states s2 = (\<lambda>_. INPROCESS)" "tc_finished_req s2 = [demo_request]"
    using keeps_snd [OF keeps_send_requests send] by (simp_all add: initial_context_def)
  have collect: "efor (collect_task demo_env (demo_stub demo_src)) [demo_request] ?s0 = (Inr (), ?s1)"
    by (simp add: collect_task_def eff_defs initial_context_def req_get_state_def task_dst_inst_id_def task_dst_worker_id_def
        demo_stub_def demo_task_def)
  let ?s3 = "s2\<lparr>tc_states := (\<lambda>_. INPROCESS)(0 := OK)\<rparr>"
  have finish: "efor (finish_task demo_env) [demo_request] s2 = (Inr (), ?s3)"
    using s2 by (simp add: finish_task_def set_task_state_def req_set_state_def req_get_state_def eff_defs c_assert_def demo_task_def)
  obtain s4 where rpc: "rpc_send_done demo_env (demo_ops demo_dst) (demo_stub demo_src) [demo_request] ?s3 = (Inr (), s4)"
    using demo_rpc [of "demo_stub demo_src" "[demo_request]" demo_env demo_dst ?s3] by (auto simp: demo_stub_def)
  have "do_task demo_env (demo_ops demo_dst) (demo_stub demo_src) [demo_request] ?s0 = (Inr (), s4)"
    unfolding do_task_def
    apply (rule eread_step, simp only: prod.case)
    apply (rule eseq_step, rule eassert_step, simp add: initial_context_def)+
    apply (rule eseq_step, rule collect)
    apply (rule eseq_step, rule eread_step, rule ewhen_step, simp, rule ecatch_step, rule send)
    apply (rule eread_step, simp only: s2)
    apply (rule eseq_step, rule finish, rule ewhen_step, simp, rule rpc)
    done
  moreover have "batch_sent demo_env (demo_ops demo_dst) (demo_stub demo_src) [demo_request] ?s0"
    using send by (simp add: batch_sent_def collected_def initial_context_def sendable_def req_get_state_def)
  moreover have "keeps tc_parse_block (rpc_send_done demo_env (demo_ops demo_dst) (demo_stub demo_src) [demo_request])"
    unfolding batch_defs by (intro keeps_rules; simp)
  from keeps_snd [OF this rpc] have "tc_parse_block s4 = Some Ragged_p_eq_d"
    using pb by simp
  ultimately show ?thesis
    by blast
qed

theorem do_task_request_states_witness:
  "\<exists>s'. do_task demo_env (demo_ops demo_dst) (demo_stub demo_src) [demo_request]
      (initial_context (\<lambda>_. INPROCESS) ([], [])) = (Inr (), s') \<and>
    req_get_state demo_request (tc_states s') = OK \<and> tc_states s' 7 = INPROCESS"
proof -
  let ?s0 = "initial_context (\<lambda>_. INPROCESS) ([], [])"
  obtain s' where s': "do_task demo_env (demo_ops demo_dst) (demo_stub demo_src) [demo_request] ?s0 = (Inr (), s')"
    "batch_sent demo_env (demo_ops demo_dst) (demo_stub demo_src) [demo_request] ?s0"
    using demo_do_task by blast
  have pre: "clean ?s0" "distinct (map task_ref [demo_request])"
    by (simp_all add: clean_def initial_context_def)
  have ref: "task_ref demo_request = 0" "reach_last_token demo_request" "new_tokens demo_request = 2"
    and init: "tc_states ?s0 = (\<lambda>_. INPROCESS)"
    by (simp_all add: demo_task_def initial_context_def)
  show ?thesis
    using do_task_request_states [OF s'(1) pre] s'
    by (intro exI [of _ s']) (simp add: req_get_state_def ref init del: One_nat_def)
qed

theorem stub_reach_bound_witness:
  "\<exists>(s :: (ipc_block list list \<times> nat list) task_context) f. stub_reach demo_env (demo_stub demo_src) s \<and> tc_parse_block s = Some f \<and> clean s \<and>
    (\<exists>dst. tc_dstinfo s = Some dst \<and>
      compute_valid_ranks_pd demo_env 1 (engine_tp_size dst) (- 1) = Inr (tc_valid_ranks s))"
proof -
  let ?s0 = "initial_context (\<lambda>_. INPROCESS) ([], [])"
  obtain s' where s': "do_task demo_env (demo_ops demo_dst) (demo_stub demo_src) [demo_request] ?s0 = (Inr (), s')"
    "tc_parse_block s' = Some Ragged_p_eq_d"
    using demo_do_task by blast
  let ?s1 = "s'\<lparr>tc_send_blocks := [], tc_send_req := [], tc_finished_req := []\<rparr>"
  have batch: "send_batch demo_env (demo_ops demo_dst) (demo_stub demo_src) [demo_request] ?s0 = (Inr (), ?s1)"
    unfolding send_batch_def
    by (rule eseq_step, rule eassert_step, simp, rule eseq_step, rule s'(1)) (simp add: clear_context_def emodify_def)
  have reach: "stub_reach demo_env (demo_stub demo_src) ?s1"
    by (rule stub_reach.batch [OF stub_reach.init batch])
  show ?thesis
    using stub_reach_bound [OF reach] reach s'(2)
    by (intro exI [of _ ?s1] exI [of _ Ragged_p_eq_d]) (auto simp: demo_stub_def demo_worker_def worker_info_default_def)
qed


section \<open>A destination that cannot be served\<close>

text \<open>A sender with flash attention, of one worker, and a destination of two.\<close>

definition flash_env :: "bool \<Rightarrow> kvt_env" where
  "flash_env nd = \<lparr> ndebug = nd, getenv = (\<lambda>n. if n = ''BLLM_KVTRANS_CACHE_SHAPE'' then Some ''2'' else None) \<rparr>"

abbreviation wide_dst :: worker_info where
  "wide_dst \<equiv> demo_worker [4] [8] 6 2 0"

lemma flash_shape: "env_cache_shape (flash_env nd) = FLASH_CACHE_SHAPE"
  unfolding env_cache_shape_def flash_env_def by code_simp

lemma flash_ranks: "compute_valid_ranks_pd (flash_env nd) 1 2 (- 1) = Inr (every_rank 1 1)"
  using rfold_every_rank [of 1 1 "\<lambda>i. i"]
  by (simp add: compute_valid_ranks_pd_def MAX_TP_SIZE_def kvt_ctrl)

lemma flash_bind_dst:
  assumes "tc_parse_block s = None" and "tc_tpkind s = TP_UNKNOWN"
  shows "bind_dst (flash_env nd) (demo_stub demo_src) wide_dst s =
    (Inl RuntimeError, s\<lparr>tc_dstinfo := Some wide_dst, tc_valid_ranks := every_rank 1 1, tc_kvt_tp_size := 1,
       tc_kvt_tp_rank := effective_tp_rank (every_rank 1 1) 0\<rparr>)"
proof -
  have "num_kv_heads demo_src = - 1"
    by (simp add: demo_worker_def worker_info_default_def)
  moreover have "select_parse_block FLASH_CACHE_SHAPE demo_src wide_dst (selection_p_tp FLASH_CACHE_SHAPE demo_src 1) 2 = Inl RuntimeError"
    by (simp add: select_parse_block_def selection_p_tp_def cache_shape_defs)
  ultimately show ?thesis
    using assms flash_ranks demo_effective flash_shape
    by (simp add: bind_dst_def eff_defs Let_def demo_stub_def)
qed

abbreviation next_request :: req_send_task where
  "next_request \<equiv> demo_request\<lparr>task_req := (task_req demo_request)\<lparr>ri_ref := 1\<rparr>\<rparr>"

lemma flash_first_batch:
  "\<exists>s'. send_batch (flash_env nd) (demo_ops wide_dst) (demo_stub demo_src) [demo_request]
      (initial_context (\<lambda>_. INPROCESS) ([], [])) = (Inr (), s') \<and>
    clean s' \<and> tc_states s' = (\<lambda>_. INPROCESS)(0 := FAILED) \<and> tc_parse_block s' = None \<and>
    tc_dstinfo s' = Some wide_dst \<and> \<not> tc_ch s'"
proof -
  let ?s0 = "initial_context (\<lambda>_. INPROCESS) ([], []) :: (ipc_block list list \<times> nat list) task_context"
  let ?s1 = "?s0\<lparr>tc_send_req := [demo_request], tc_finished_req := [demo_request]\<rparr>"
  let ?s2 = "?s1\<lparr>tc_dstinfo := Some wide_dst, tc_valid_ranks := every_rank 1 1, tc_kvt_tp_size := 1,
     tc_kvt_tp_rank := effective_tp_rank (every_rank 1 1) 0\<rparr>"
  let ?s3 = "?s2\<lparr>tc_states := (\<lambda>_. INPROCESS)(0 := FAILED)\<rparr>"
  have collect: "efor (collect_task (flash_env nd) (demo_stub demo_src)) [demo_request] ?s0 = (Inr (), ?s1)"
    by (simp add: collect_task_def eff_defs initial_context_def req_get_state_def task_dst_inst_id_def task_dst_worker_id_def
        demo_stub_def demo_task_def)
  have send: "send_requests (flash_env nd) (demo_ops wide_dst) (demo_stub demo_src) ?s1 = (Inl RuntimeError, ?s2)"
    using flash_bind_dst [of ?s1 nd]
    by (simp add: send_requests_def try_create_channel_def refresh_dst_info_def eff_defs on_world_def demo_ops_def
        initial_context_def)
  have fail: "fail_batch (flash_env nd) [demo_request] ?s2 = (Inr (), ?s3)"
    by (simp add: fail_batch_def fail_task_def set_task_state_def req_set_state_def req_get_state_def eff_defs c_assert_def
        initial_context_def demo_task_def)
  have finish: "efor (finish_task (flash_env nd)) [demo_request] ?s3 = (Inr (), ?s3)"
    by (simp add: finish_task_def req_get_state_def eff_defs demo_task_def)
  obtain s4 where rpc: "rpc_send_done (flash_env nd) (demo_ops wide_dst) (demo_stub demo_src) [demo_request] ?s3 = (Inr (), s4)"
    using demo_rpc [of "demo_stub demo_src" "[demo_request]" "flash_env nd" wide_dst ?s3] by (auto simp: demo_stub_def)
  have fin: "tc_finished_req ?s3 = [demo_request]"
    by simp
  let ?s5 = "s4\<lparr>tc_send_blocks := [], tc_send_req := [], tc_finished_req := []\<rparr>"
  have "send_batch (flash_env nd) (demo_ops wide_dst) (demo_stub demo_src) [demo_request] ?s0 = (Inr (), ?s5)"
    unfolding send_batch_def do_task_def
    apply (rule eseq_step, rule eassert_step, simp, rule eseq_step, rule eread_step, simp only: prod.case)
     apply (rule eseq_step, rule eassert_step, simp add: initial_context_def)+
     apply (rule eseq_step, rule collect)
     apply (rule eseq_step, rule eread_step, rule ewhen_step, simp, rule ecatch_handler, rule send, simp, rule fail)
     apply (rule eread_step, simp only: fin)
     apply (rule eseq_step, rule finish, rule ewhen_step, simp, rule rpc)
    apply (simp add: clear_context_def emodify_def)
    done
  moreover have "keeps (\<lambda>s. (tc_states s, tc_parse_block s, tc_dstinfo s, tc_ch s))
      (rpc_send_done (flash_env nd) (demo_ops wide_dst) (demo_stub demo_src) [demo_request])"
    unfolding batch_defs by (intro keeps_rules; simp)
  from keeps_snd [OF this rpc] have "tc_states s4 = (\<lambda>_. INPROCESS)(0 := FAILED)" "tc_parse_block s4 = None"
      "tc_dstinfo s4 = Some wide_dst" "\<not> tc_ch s4"
    by (simp_all add: initial_context_def)
  ultimately show ?thesis
    by (intro exI [of _ ?s5]) (simp add: clean_def)
qed

lemma flash_next_batch:
  assumes "clean s" and "tc_states s 1 = INPROCESS" and "tc_parse_block s = None"
    and "tc_dstinfo s = Some wide_dst" and "\<not> tc_ch s"
  shows "fst (send_batch (flash_env nd) (demo_ops wide_dst) (demo_stub demo_src) [next_request] s) =
    Inl (if nd then Undefined else AssertFailed)"
proof -
  let ?s1 = "s\<lparr>tc_send_req := [next_request], tc_finished_req := [next_request]\<rparr>"
  let ?e = "if nd then Undefined else AssertFailed"
  have collect: "efor (collect_task (flash_env nd) (demo_stub demo_src)) [next_request] s = (Inr (), ?s1)"
    using assms
    by (simp add: collect_task_def eff_defs clean_def req_get_state_def task_dst_inst_id_def task_dst_worker_id_def
        demo_stub_def demo_task_def)
  have same: "same_dst wide_dst wide_dst"
    by (simp add: same_dst_def)
  obtain s2 where send: "send_requests (flash_env nd) (demo_ops wide_dst) (demo_stub demo_src) ?s1 = (Inl ?e, s2)"
    using assms same
    by (simp add: send_requests_def try_create_channel_def refresh_dst_info_def eff_defs on_world_def demo_ops_def
        parse_requests_def parse_one_def flash_env_def)
  have "do_task (flash_env nd) (demo_ops wide_dst) (demo_stub demo_src) [next_request] s = (Inl ?e, s2)"
    unfolding do_task_def
    apply (rule eread_step, simp only: prod.case)
    apply (rule eseq_step, rule eassert_step, use assms(1) in \<open>simp add: clean_def\<close>)+
    apply (rule eseq_step, rule collect)
    apply (rule eseq_throw, rule eread_step, rule ewhen_step, simp, rule ecatch_uncaught, rule send, simp)
    done
  then show ?thesis
    by (simp add: send_batch_def eseq_def ebind_def eassert_def eret_def)
qed


end
