(* ===== verification/DoneReport.thy ===== *)
theory DoneReport
  imports DoneState TxRuns
begin

text \<open>
  The report of finished requests from end to end: the stubs of the prefill workers write it, the RPC server of the
  scheduler reads it, and the answer to the decode instance is made from it.
\<close>

section \<open>The handlers of the scheduler\<close>

definition SEND_DONE_RESP :: nat where "SEND_DONE_RESP = 0x91218102"

text \<open>
  Two handlers take reports: \<open>PBackend._on_send_done\<close>, and \<open>_on_save_done2\<close>, whose callback works on another part
  of the state.
\<close>

definition done_methods :: "nat \<Rightarrow> 'x done_callback \<Rightarrow> nat \<Rightarrow> (sending \<times> 'x) rpc_method option" where
  "done_methods tpsize save_done2 head =
     (if head = SEND_DONE_REQ then
        Some (handle_done_req (\<lambda>r io (d, x). let (res, d') = do_send_done tpsize r io d in (res, d', x)) SEND_DONE_RESP)
      else if head = SAVE_DONE2_REQ then
        Some (handle_done_req (\<lambda>r io (d, x). let (res, x') = save_done2 r io x in (res, d, x')) SEND_DONE_RESP)
      else None)"

text \<open>A report of one stub: the rank of its worker, the states of the requests and the finished tasks.\<close>

type_synonym report = "nat \<times> req_states \<times> req_send_task list"

definition receive_report :: "kvt_env \<Rightarrow> nat \<Rightarrow> 'x done_callback \<Rightarrow> report \<Rightarrow> sending \<times> 'x \<Rightarrow> sending \<times> 'x" where
  "receive_report env tpsize save_done2 = (\<lambda>(rank, sts, reqs) st.
     snd (client_main (done_methods tpsize save_done2) (fst (send_done_message env rank sts reqs)) [] st))"

definition report_signals :: "(req_send_task \<Rightarrow> py_str) \<Rightarrow> report list \<Rightarrow> (nat \<times> io_ret) list" where
  "report_signals rid msgs = concat (map (\<lambda>(rank, sts, reqs). map (\<lambda>t. (rank, done_io_ret sts rid t)) reqs) msgs)"

section \<open>No handler fails\<close>

definition sending_ok :: "sending \<Rightarrow> bool" where
  "sending_ok d \<longleftrightarrow> (\<forall>R st. d R = Some st \<longrightarrow> expected_sources st = [])"

lemma advance_state_ok:
  assumes "expected_sources st = []" and "advance_state (\<lambda>st _. st) io r tp st = (st', b)"
  shows "expected_sources st' = []" and "b \<Longrightarrow> 0 < signals_per_worker st' \<and> tp \<le> ready_workers_count st'"
  using assms by (auto simp: advance_state_def append_signal_def Let_def split: if_splits)

lemma merge_signals_ok:
  assumes "0 < signals_per_worker st" and "0 < ready_workers_count st"
  shows "\<exists>ret st'. merge_signals st = Inr (ret, st') \<and> expected_sources st' = expected_sources st"
proof -
  let ?R = "filter (\<lambda>(_, signals). length signals \<ge> signals_per_worker st) (worker_signals st)"
  obtain w s where ws: "(w, s) \<in> set ?R"
    using assms(2) unfolding ready_workers_count_def length_greater_0_conv
    by (metis (no_types, lifting) list.set_intros(1) neq_Nil_conv surj_pair)
  then have "s \<noteq> []"
    using assms(1) by auto
  then have "concat (map snd ?R) \<noteq> []"
    using ws by force
  then show ?thesis
    by (auto simp: merge_signals_def Let_def split: list.splits)
qed

lemma do_send_done_ok:
  assumes "sending_ok d" and "io_reqid io \<noteq> None" and "0 < tp"
  shows "\<exists>d'. do_send_done tp r io d = (Inr (), d') \<and> sending_ok d'"
proof -
  obtain R where R: "io_reqid io = Some R"
    using assms(2) by blast
  show ?thesis
  proof (cases "d R")
    case None
    then show ?thesis
      using R assms(1) by (simp add: do_send_done_def try_advance_def)
  next
    case (Some st)
    obtain st' b where adv: "advance_state (\<lambda>st _. st) (with_source io) r tp st = (st', b)"
      by (cases "advance_state (\<lambda>st _. st) (with_source io) r tp st")
    have "expected_sources st = []"
      using assms(1) Some by (simp add: sending_ok_def)
    note ok = advance_state_ok [OF this adv]
    show ?thesis
    proof (cases b)
      case False
      then show ?thesis
        using R Some adv ok(1) assms(1) by (simp add: do_send_done_def try_advance_def sending_ok_def)
    next
      case True
      then obtain ret st'' where "merge_signals st' = Inr (ret, st'')" "expected_sources st'' = []"
        using merge_signals_ok [of st'] ok assms(3) by auto
      then show ?thesis
        using R Some adv True assms(1) by (simp add: do_send_done_def try_advance_def sending_ok_def try_mark_done_def)
    qed
  qed
qed

lemma call_each_send:
  assumes "sending_ok d" and "\<forall>io\<in>set ios. io_reqid io \<noteq> None" and "0 < tp"
  shows "call_each (\<lambda>r io (d, x). let (res, d') = do_send_done tp r io d in (res, d', x)) r ios (d, x) =
      (Inr (), deliver tp (map (Pair r) ios) d, x) \<and> sending_ok (deliver tp (map (Pair r) ios) d)"
  using assms(1,2)
proof (induction ios arbitrary: d)
  case (Cons io ios)
  then obtain d' where "do_send_done tp r io d = (Inr (), d')" "sending_ok d'"
    using do_send_done_ok [OF Cons.prems(1) _ assms(3), of io r] by auto
  then show ?case
    using Cons by simp
qed simp

lemma call_each_save:
  assumes "\<forall>r io x. \<exists>x'. save r io x = (Inr (), x')"
  shows "\<exists>x'. call_each (\<lambda>r io (d, x). let (res, x') = save r io x in (res, d, x')) r ios (d, x) = (Inr (), d, x')"
proof (induction ios arbitrary: x)
  case (Cons io ios)
  obtain x' where "save r io x = (Inr (), x')"
    using assms by blast
  then show ?case
    using Cons [of x'] by simp
qed simp

lemma receive_report_deliver:
  assumes "ids_of rid reqs" and "rank < 2 ^ 16" and "length reqs < 2 ^ 32" and "0 < tp" and "sending_ok d"
    and "\<forall>r io x. \<exists>x'. save r io x = (Inr (), x')"
  shows "\<exists>x'. receive_report env tp save (rank, sts, reqs) (d, x) = (deliver tp (report_signals rid [(rank, sts, reqs)]) d, x') \<and>
    sending_ok (deliver tp (report_signals rid [(rank, sts, reqs)]) d)"
proof -
  let ?ios = "map (done_io_ret sts rid) reqs"
  let ?m = "done_methods tp save"
  let ?d = "deliver tp (map (Pair rank) ?ios) d"
  have sig: "report_signals rid [(rank, sts, reqs)] = map (Pair rank) ?ios"
    by (simp add: report_signals_def)
  have heads: "SEND_DONE_REQ < 2 ^ 32" "SAVE_DONE2_REQ < 2 ^ 32" "SAVE_DONE2_REQ \<noteq> SEND_DONE_REQ"
    by (simp_all add: SEND_DONE_REQ_def SAVE_DONE2_REQ_def)
  have sent: "call_each (\<lambda>r io (d, x). let (res, d') = do_send_done tp r io d in (res, d', x)) rank ?ios (d, x) = (Inr (), ?d, x)"
      "sending_ok ?d"
    using call_each_send [OF assms(5) _ assms(4), of ?ios rank x] by (simp_all add: done_io_ret_def)
  have send: "client_main ?m (send_done_body SEND_DONE_REQ rank sts reqs @ rest) out (d, x) =
      client_main ?m rest (out @ le32 SEND_DONE_RESP) (?d, x)" for rest out
    by (rule client_main_body [where methods = ?m and header = SEND_DONE_REQ, OF assms(1-3) heads(1) _ sent(1)])
      (simp add: done_methods_def)
  obtain x' where x': "call_each (\<lambda>r io (d, x). let (res, x') = save r io x in (res, d, x')) rank ?ios (?d, x) = (Inr (), ?d, x')"
    using call_each_save [OF assms(6), where d = ?d and ios = ?ios and r = rank and x = x] by blast
  have save: "client_main ?m (send_done_body SAVE_DONE2_REQ rank sts reqs @ rest) out (?d, x) =
      client_main ?m rest (out @ le32 SEND_DONE_RESP) (?d, x')" for rest out
    by (rule client_main_body [where methods = ?m and header = SAVE_DONE2_REQ, OF assms(1-3) heads(2) _ x'])
      (use heads(3) in \<open>simp add: done_methods_def\<close>)
  show ?thesis
    using send [of "[]"] save [of "[]"] sent(2)
    by (auto simp: receive_report_def sig send_done_message_def send)
qed

section \<open>From the stubs to the answer\<close>

definition report_ok :: "(req_send_task \<Rightarrow> py_str) \<Rightarrow> report \<Rightarrow> bool" where
  "report_ok rid = (\<lambda>(rank, sts, reqs). ids_of rid reqs \<and> rank < 2 ^ 16 \<and> length reqs < 2 ^ 32)"

lemma receive_reports_deliver:
  assumes "\<forall>m\<in>set msgs. report_ok rid m" and "0 < tp" and "sending_ok d" and "\<forall>r io x. \<exists>x'. save r io x = (Inr (), x')"
  shows "fst (fold (receive_report env tp save) msgs (d, x)) = deliver tp (report_signals rid msgs) d"
  using assms(1,3)
proof (induction msgs arbitrary: d x)
  case (Cons m msgs)
  obtain rank sts reqs where m: "m = (rank, sts, reqs)"
    by (cases m)
  have "report_signals rid (m # msgs) = report_signals rid [m] @ report_signals rid msgs"
    by (simp add: report_signals_def)
  moreover have "ids_of rid reqs" "rank < 2 ^ 16" "length reqs < 2 ^ 32"
    using Cons.prems(1) by (simp_all add: m report_ok_def)
  from receive_report_deliver [OF this assms(2) Cons.prems(2) assms(4), of env sts x] obtain x' where
    "receive_report env tp save m (d, x) = (deliver tp (report_signals rid [m]) d, x')"
    "sending_ok (deliver tp (report_signals rid [m]) d)"
    by (auto simp: m)
  ultimately show ?case
    using Cons.IH Cons.prems(1) by simp
qed (simp add: report_signals_def)

lemma done_io_ret_simps [simp]:
  "io_reqid (done_io_ret sts rid t) = Some (rid t)" "io_n (done_io_ret sts rid t) = Some (int (end_tokens t))"
  "io_ex (done_io_ret sts rid t) =
     (if req_get_state t sts = OK then None else Some (CodeError CODE_INTERNALERROR ''done req''))"
  by (simp_all add: done_io_ret_def)

lemma set_reports: "set (reports R l) = {(r, with_source io) |r io. (r, io) \<in> set l \<and> io_reqid io = Some R}"
  by (force simp: reports_def)

lemma set_report_signals:
  "set (report_signals rid msgs) = {(rank, done_io_ret sts rid t) |rank sts reqs t. (rank, sts, reqs) \<in> set msgs \<and> t \<in> set reqs}"
  by (force simp: report_signals_def)

lemma reports_report_signals:
  "set (reports R (report_signals rid msgs)) =
     {(rank, with_source (done_io_ret sts rid t)) |rank sts reqs t. (rank, sts, reqs) \<in> set msgs \<and> t \<in> set reqs \<and> rid t = R}"
  unfolding set_reports set_report_signals using done_io_ret_simps(1) by fastforce

text \<open>
  C12. From the stubs to the answer that the decode instance gets. Let every prefill worker report on a
  request as often as it has destinations, in messages that also carry other requests and arrive in any order. When
  all have been received the request is answered: with the code for success if and only if the transfer was \<open>OK\<close> at every stub, and then with the
  smallest number of tokens any stub has sent.
\<close>

theorem transfer_answer:
  assumes "\<forall>m\<in>set msgs. report_ok rid m" and "\<forall>r io x. \<exists>x'. save r io x = (Inr (), x')"
    and "sending_ok d" and "d R = Some (sending_req_new k)" and "0 < k" and "0 < tp"
    and "reports_complete tp k (reports R (report_signals rid msgs))"
  shows "\<exists>st ret. fst (fold (receive_report env tp save) msgs (d, x)) R = Some st \<and> fut st = Some ret \<and>
    (fst (kvt_resp ret) = CODE_OK \<longleftrightarrow>
      (\<forall>(rank, sts, reqs)\<in>set msgs. \<forall>t\<in>set reqs. rid t = R \<longrightarrow> req_get_state t sts = OK)) \<and>
    (fst (kvt_resp ret) = CODE_OK \<longrightarrow>
      snd (kvt_resp ret) = Min {int (end_tokens t) |rank sts reqs t. (rank, sts, reqs) \<in> set msgs \<and> t \<in> set reqs \<and> rid t = R})"
proof -
  let ?l = "reports R (report_signals rid msgs)"
  let ?N = "{int (end_tokens t) |rank sts reqs t. (rank, sts, reqs) \<in> set msgs \<and> t \<in> set reqs \<and> rid t = R}"
  obtain st ret where ret: "fst (fold (receive_report env tp save) msgs (d, x)) R = Some st" "fut st = Some ret" "outcome ?l ret"
    using sending_completed [where d = d, OF assms(4-7)] receive_reports_deliver [OF assms(1,6,3,2)] by auto
  have fine: "all_fine ?l \<longleftrightarrow> (\<forall>(rank, sts, reqs)\<in>set msgs. \<forall>t\<in>set reqs. rid t = R \<longrightarrow> req_get_state t sts = OK)"
    unfolding reports_report_signals by (fastforce split: if_splits)
  have "io_ex ret \<in> (\<lambda>(_, io). io_ex io) ` set ?l"
    using ret(3) unfolding outcome_def by blast
  then have "io_ex ret = None \<or> io_ex ret = Some (CodeError CODE_INTERNALERROR ''done req'')"
    unfolding reports_report_signals by (auto split: if_splits)
  then have code: "fst (kvt_resp ret) = CODE_OK \<longleftrightarrow> io_ex ret = None"
    by (auto simp: kvt_resp_def CODE_OK_def CODE_INTERNALERROR_def)
  have "(\<lambda>(_, io). the (io_n io)) ` set ?l = ?N"
    unfolding reports_report_signals by (force simp: image_iff)
  moreover have "\<forall>(_, io)\<in>set ?l. io_n io \<noteq> None"
    unfolding reports_report_signals by auto
  ultimately have "io_ex ret = None \<longrightarrow> snd (kvt_resp ret) = Min ?N"
    using ret(3) by (auto simp: outcome_def kvt_resp_def)
  then show ?thesis
    using ret(1,2,3) code fine by (auto simp: outcome_def)
qed

section \<open>Concrete reports\<close>

abbreviation demo_done :: "nat \<Rightarrow> req_send_task" where
  "demo_done n \<equiv> demo_task [] [] 0 n True"

lemma demo_report_ok: "rank < 2 ^ 16 \<Longrightarrow> report_ok (\<lambda>_. [114]) (rank, sts, [demo_done n])"
  using demo_ids by (simp add: report_ok_def)

lemma sending_ok_new: "sending_ok [R \<mapsto> sending_req_new k]"
  by (simp add: sending_ok_def sending_req_new_def)

lemma demo_end_tokens: "n < 8 \<Longrightarrow> end_tokens (demo_done n) = n"
  by (simp add: end_tokens_def u32_def)

theorem transfer_answer_witness:
  "\<exists>st ret. fst (fold (receive_report demo_env 2 (\<lambda>_ _ x. (Inr (), x)))
        [(1, \<lambda>_. OK, [demo_done 5]), (0, \<lambda>_. OK, [demo_done 3])] ([[114] \<mapsto> sending_req_new 1], ())) [114] = Some st \<and>
      fut st = Some ret \<and> kvt_resp ret = (CODE_OK, 3)"
proof -
  let ?msgs = "[(1, \<lambda>_. OK, [demo_done 5]), (0, \<lambda>_. OK, [demo_done 3])] :: report list"
  let ?rid = "\<lambda>_ :: req_send_task. [114 :: nat]" and ?d = "[[114] \<mapsto> sending_req_new 1]" and ?save = "\<lambda>_ _ x. (Inr (), x)"
  have complete: "reports_complete 2 1 (reports [114] (report_signals ?rid ?msgs))"
    by (simp add: report_signals_def reports_complete_def less_2_cases_iff)
  have ok: "\<forall>m\<in>set ?msgs. report_ok ?rid m"
    by (simp add: demo_report_ok)
  have toks: "{int (end_tokens t) |rank sts reqs t. (rank, sts, reqs) \<in> set ?msgs \<and> t \<in> set reqs \<and> ?rid t = [114]} = {5, 3}"
    by (rule set_eqI) (simp add: conj_disj_distribL conj_disj_distribR ex_disj_distrib demo_end_tokens)
  from transfer_answer [where d = ?d and save = ?save and x = "()" and tp = 2 and env = demo_env,
      OF ok _ sending_ok_new _ _ _ complete] show ?thesis
    unfolding toks by (auto simp: req_get_state_def prod_eq_iff)
qed

section \<open>A report that is sent twice\<close>

text \<open>
  A world in which the server receives everything but its first answer is lost on the way back.
\<close>

definition lossy_ops :: "(bool \<times> sending \<times> unit) stub_ops" where
  "lossy_ops =
     \<lparr> op_get_worker_info = (\<lambda>_ _. eret None), op_create_channel = (\<lambda>_. eret ()), op_is_active = (\<lambda>_. True),
       op_register_data = (\<lambda>_ _. eret ()), op_wait_layer_ready = (\<lambda>_. eret ()), op_send_data = (\<lambda>_. eret ()),
       op_flush = eret (), op_fault_inject_throw = eret (), op_socket = eret True, op_connect = eret True,
       op_write_sock = (\<lambda>buf (lost, st). (Inr True, lost, snd (client_main (done_methods 1 (\<lambda>_ _ x. (Inr (), x))) buf [] st))),
       op_read_sock = (\<lambda>n (lost, st). if lost then (Inr (int n), lost, st) else (Inr (- 1), True, st)) \<rparr>"

text \<open>
  C38. A prefill instance of one worker sends to a decode instance of two, so two stubs report on a request and the scheduler
  waits for two signals. The stub repeats its report when the answer is lost, and the scheduler counts the repetition as the report of the
  other stub: the request is answered with success although only one of the two destinations has received its
  part.
\<close>

theorem repeated_report_counts_twice:
  "\<exists>s' st ret. rpc_send_done demo_env lossy_ops (demo_stub demo_src) [demo_done 3]
      (initial_context (\<lambda>_. OK) (False, [[114] \<mapsto> sending_req_new (kvt_signals_per_worker 1 (Some 2))], ())) = (Inr (), s') \<and>
    fst (snd (tc_world s')) [114] = Some st \<and> fut st = Some ret \<and> kvt_resp ret = (CODE_OK, 3)"
proof -
  let ?d = "[[114] \<mapsto> sending_req_new 2]" and ?rid = "\<lambda>_ :: req_send_task. [114 :: nat]"
  let ?m = "(0, \<lambda>_. OK, [demo_done 3]) :: report"
  let ?save = "\<lambda>_ _ x. (Inr (), x) :: unit py \<times> unit"
  define rcv where "rcv = receive_report demo_env 1 ?save ?m"
  have "fst (rcv (rcv (?d, ()))) = deliver 1 (report_signals ?rid [?m, ?m]) ?d"
    using receive_reports_deliver [of "[?m, ?m]" ?rid 1 ?d ?save demo_env "()"]
    by (simp add: rcv_def demo_report_ok sending_ok_new)
  moreover have "reports_complete 1 2 (reports [114] (report_signals ?rid [?m, ?m]))"
    by (simp add: report_signals_def reports_complete_def)
  then obtain st ret where "deliver 1 (report_signals ?rid [?m, ?m]) ?d [114] = Some st" "fut st = Some ret"
    and out: "outcome (reports [114] (report_signals ?rid [?m, ?m])) ret"
    using sending_completed [of ?d "[114]" 2 1 "report_signals ?rid [?m, ?m]"] by auto
  moreover have "kvt_resp ret = (CODE_OK, 3)"
    using out by (simp add: outcome_def report_signals_def kvt_resp_def req_get_state_def demo_end_tokens)
  moreover have "\<exists>s'. rpc_send_done demo_env lossy_ops (demo_stub demo_src) [demo_done 3]
      (initial_context (\<lambda>_. OK) (False, ?d, ())) = (Inr (), s') \<and> snd (tc_world s') = rcv (rcv (?d, ()))"
    by (simp add: rpc_send_done_def do_rpc_send_done_def reset_sock_def lossy_ops_def initial_context_def demo_stub_def
        eff_defs on_world_def rcv_def receive_report_def split: prod.splits)
  ultimately show ?thesis
    by (auto simp: kvt_signals_per_worker_def)
qed

end
