(* ===== verification/DistPlan.thy ===== *)
theory DistPlan
  imports DoneState
begin

text \<open>
  The plan of a transfer: to which workers of the decode instance a prefill worker sends (\<open>_get_dist\<close> in
  \<open>kvtbackend.py\<close>). A target is the id of the decode worker and its TP rank.
\<close>

definition get_dist :: "nat \<Rightarrow> nat \<Rightarrow> nat \<Rightarrow> nat \<Rightarrow> (nat \<times> nat) list" where
  "get_dist src_tprank src_tpsize idst_dprank idst_tpsize =
     (let base = idst_dprank * idst_tpsize in
      if idst_tpsize = src_tpsize then [(base + src_tprank, src_tprank)]
      else if src_tpsize > idst_tpsize then
        (let group_n = src_tpsize div idst_tpsize in
         if idst_tpsize * group_n \<noteq> src_tpsize then []
         else
           let dst_tprank = src_tprank div group_n in
           [(base + dst_tprank, dst_tprank)])
      else
        (let group_n = idst_tpsize div src_tpsize in
         if src_tpsize * group_n \<noteq> idst_tpsize then []
         else
           let dst_base = src_tprank * group_n in
           map (\<lambda>j. (base + dst_base + j, dst_base + j)) [0..<group_n]))"

lemma get_dist_ids: "(w, r) \<in> set (get_dist s p dp d) \<Longrightarrow> w = dp * d + r"
  by (auto simp: get_dist_def Let_def split: if_splits)

lemma get_dist_gt:
  assumes "p = g * d" and "0 < d" and "0 < g"
  shows "snd ` set (get_dist s p dp d) = {s div g}"
  using assms by (auto simp: get_dist_def Let_def)

lemma get_dist_lt:
  assumes "d = g * p" and "1 < g" and "0 < p"
  shows "snd ` set (get_dist s p dp d) = {s * g..<s * g + g}"
proof -
  have "snd ` set (get_dist s p dp d) = (\<lambda>j. s * g + j) ` {0..<g}"
    using assms by (auto simp: get_dist_def Let_def image_image mult.commute)
  then show ?thesis
    by (simp add: add.commute)
qed

lemma div_eq_iff_interval: "0 < g \<Longrightarrow> s div g = j \<longleftrightarrow> s \<in> {j * g..<j * g + g}" for s g j :: nat
  using dividend_less_div_times [of g s] by (auto simp: div_nat_eqI mult.commute add.commute)

definition senders_to :: "nat \<Rightarrow> nat \<Rightarrow> nat \<Rightarrow> nat \<Rightarrow> nat set" where
  "senders_to p dp d r = {s. s < p \<and> (dp * d + r, r) \<in> set (get_dist s p dp d)}"

lemma senders_to_iff: "s \<in> senders_to p dp d r \<longleftrightarrow> s < p \<and> r \<in> snd ` set (get_dist s p dp d)"
  using get_dist_ids by (force simp: senders_to_def image_iff)

lemma targets_inside:
  assumes "snd ` set (get_dist s p dp d) \<subseteq> {..<d}"
  shows "\<forall>(w, r)\<in>set (get_dist s p dp d). w = dp * d + r \<and> r < d"
  using assms get_dist_ids by fastforce

lemma get_dist_covers_gt:
  assumes "p = g * d" and "0 < d" and "0 < g"
  shows "length (get_dist s p dp d) = 1" and "kvt_signals_per_worker p (Some d) = 1"
    and "r < d \<Longrightarrow> senders_to p dp d r = {r * g..<r * g + max 1 (p div d)}"
    and "s < p \<Longrightarrow> snd ` set (get_dist s p dp d) \<subseteq> {..<d}"
proof -
  show "length (get_dist s p dp d) = 1" "kvt_signals_per_worker p (Some d) = 1"
    using assms by (simp_all add: get_dist_def Let_def kvt_signals_per_worker_def)
  show "senders_to p dp d r = {r * g..<r * g + max 1 (p div d)}" if "r < d"
  proof -
    have "r * g + g \<le> p"
      using that assms(1) mult_le_mono1 [of "Suc r" d g] by (simp add: mult.commute)
    moreover have "s \<in> senders_to p dp d r \<longleftrightarrow> s < p \<and> s \<in> {r * g..<r * g + g}" for s
      unfolding senders_to_iff get_dist_gt [OF assms] using div_eq_iff_interval [OF assms(3), of s r] by auto
    moreover have "max 1 (p div d) = g"
      using assms by simp
    ultimately show ?thesis
      by fastforce
  qed
  show "snd ` set (get_dist s p dp d) \<subseteq> {..<d}" if "s < p"
    using that assms unfolding get_dist_gt [OF assms] by (simp add: less_mult_imp_div_less mult.commute)
qed

lemma get_dist_covers_lt:
  assumes "d = g * p" and "1 < g" and "0 < p"
  shows "length (get_dist s p dp d) = g" and "kvt_signals_per_worker p (Some d) = g"
    and "r < d \<Longrightarrow> senders_to p dp d r = {r div g..<r div g + max 1 (p div d)}"
    and "s < p \<Longrightarrow> snd ` set (get_dist s p dp d) \<subseteq> {..<d}"
proof -
  show "length (get_dist s p dp d) = g" "kvt_signals_per_worker p (Some d) = g"
    using assms by (simp_all add: get_dist_def Let_def kvt_signals_per_worker_def)
  show "senders_to p dp d r = {r div g..<r div g + max 1 (p div d)}" if "r < d"
  proof -
    have "r div g < p"
      using that assms by (simp add: less_mult_imp_div_less mult.commute)
    moreover have "p div d = 0"
      using assms by simp
    moreover have "s \<in> senders_to p dp d r \<longleftrightarrow> s < p \<and> s = r div g" for s
      unfolding senders_to_iff get_dist_lt [OF assms] using div_eq_iff_interval [of g r s] assms(2) by auto
    ultimately show ?thesis
      by auto
  qed
  show "snd ` set (get_dist s p dp d) \<subseteq> {..<d}" if "s < p"
  proof
    fix r
    assume "r \<in> snd ` set (get_dist s p dp d)"
    then have "r < Suc s * g"
      unfolding get_dist_lt [OF assms] by simp
    also have "\<dots> \<le> p * g"
      using that by (intro mult_le_mono1) simp
    finally show "r \<in> {..<d}"
      using assms by (simp add: mult.commute)
  qed
qed

text \<open>
  C20. The plan is consistent. A prefill worker has as many targets as the scheduler expects reports from it; if the TP
  sizes do not divide there are none, and the scheduler expects the one report of the error. Otherwise the plan covers the
  decode instance evenly: each of its ranks is the target of one prefill rank, or of a group of consecutive ones if there are more
  prefill ranks, and no target lies outside of it.
\<close>

theorem get_dist_covers:
  assumes "0 < p" and "0 < d"
  shows "(\<forall>s<p. max 1 (length (get_dist s p dp d)) = kvt_signals_per_worker p (Some d)) \<and>
    (if p dvd d \<or> d dvd p
     then (\<forall>r<d. \<exists>r0. senders_to p dp d r = {r0..<r0 + max 1 (p div d)}) \<and>
       (\<forall>s<p. \<forall>(w, r)\<in>set (get_dist s p dp d). w = dp * d + r \<and> r < d)
     else (\<forall>s. get_dist s p dp d = []))"
proof -
  consider (gt) g where "p = g * d" "0 < g" | (lt) g where "d = g * p" "1 < g" | (none) "\<not> p dvd d" "\<not> d dvd p"
    using assms by (metis One_nat_def Suc_lessI dvd_def gr0I mult.commute mult_1 mult_zero_left)
  then show ?thesis
  proof cases
    case gt
    note facts = get_dist_covers_gt [OF gt(1) assms(2) gt(2)]
    have "d dvd p"
      using gt by simp
    then show ?thesis
      using facts(1,2) facts(3) targets_inside [OF facts(4)] by auto
  next
    case lt
    note facts = get_dist_covers_lt [OF lt assms(1)]
    have "p dvd d"
      using lt by simp
    then show ?thesis
      using facts(1,2) facts(3) targets_inside [OF facts(4)] lt(2) by auto
  next
    case none
    then have "d * (p div d) \<noteq> p" "p * (d div p) \<noteq> d"
      by (metis dvd_triv_left)+
    then have "get_dist s p dp d = []" for s
      using none by (auto simp: get_dist_def Let_def)
    moreover have "kvt_signals_per_worker p (Some d) = 1"
      using none by (auto simp: kvt_signals_per_worker_def dvd_eq_mod_eq_0)
    ultimately show ?thesis
      using none by simp
  qed
qed

theorem get_dist_covers_witness:
  "senders_to 4 1 2 1 = {2, 3} \<and> kvt_signals_per_worker 4 (Some 2) = 1 \<and>
    (\<exists>r0. senders_to 4 1 2 1 = {r0..<r0 + 2}) \<and> max 1 (length (get_dist 3 4 1 2)) = 1"
proof -
  have set: "senders_to 4 1 2 1 = {2, 3}"
    by (auto simp: senders_to_def get_dist_def Let_def div_eq_iff_interval)
  from get_dist_covers [of 4 2 1] have "\<exists>r0. senders_to 4 1 2 1 = {r0..<r0 + 2}"
      "max 1 (length (get_dist 3 4 1 2)) = kvt_signals_per_worker 4 (Some 2)"
    by simp_all
  then show ?thesis
    using set by (simp add: kvt_signals_per_worker_def)
qed

end
