(* ===== verification/TargetMgr.thy ===== *)
theory TargetMgr
  imports KvtCommon
begin

text \<open>
  \<open>KvTransferClient::TargetMgr\<close> (\<open>client.cpp\<close>): the stubs of the destinations in the order of their last use, an
  index from destinations to stubs, the jobs that the thread pool has not finished, and the bound on the number of
  idle stubs. The list keeps its elements at their addresses, so an iterator is the identity of a target. All of it
  runs on one thread, except the end of a job, which only decrements the counter of its target.
\<close>

section \<open>State\<close>

type_synonym target_key = "string \<times> nat"

record target =
  tgt_id :: nat
  inflycnt :: int
  thread_hint :: int
  tgt_key :: target_key
  tgt_info :: "worker_info option"

record pool_job =
  job_target :: nat
  job_hint :: int
  job_tasks :: "req_send_task list"

type_synonym target_map = "string \<rightharpoonup> nat option list"

record target_mgr =
  targets :: "target list"
  target_map :: target_map
  next_id :: nat
  mgr_thread_hint :: int
  pool_jobs :: "pool_job list"

definition target_mgr_init :: target_mgr where
  "target_mgr_init = \<lparr> targets = [], target_map = Map.empty, next_id = 0, mgr_thread_hint = 0, pool_jobs = [] \<rparr>"

section \<open>Operations\<close>

definition peek :: "target_map \<Rightarrow> target_key \<Rightarrow> nat option" where
  "peek m = (\<lambda>(inst_id, worker_id).
     (case m inst_id of
        None \<Rightarrow> None
      | Some v \<Rightarrow> if worker_id \<ge> length v then None else v ! worker_id))"

definition splice_front :: "nat \<Rightarrow> target list \<Rightarrow> target list" where
  "splice_front i ts = filter (\<lambda>t. tgt_id t = i) ts @ filter (\<lambda>t. tgt_id t \<noteq> i) ts"

definition get :: "target_key \<Rightarrow> target_mgr \<Rightarrow> nat option \<times> target_mgr" where
  "get k mgr =
     (case peek (target_map mgr) k of
        None \<Rightarrow> (None, mgr)
      | Some i \<Rightarrow> (Some i, mgr\<lparr>targets := splice_front i (targets mgr)\<rparr>))"

definition create :: "kvt_env \<Rightarrow> target_key \<Rightarrow> worker_info option \<Rightarrow> target_mgr \<Rightarrow> (nat \<times> target_mgr) result" where
  "create env = (\<lambda>(inst_id, worker_id) worker_info mgr.
     (let i = next_id mgr;
          stub = \<lparr> tgt_id = i, inflycnt = 0, thread_hint = 0, tgt_key = (inst_id, worker_id), tgt_info = worker_info \<rparr>;
          old = (case target_map mgr inst_id of None \<Rightarrow> [] | Some v \<Rightarrow> v);
          v = (if worker_id \<ge> length old
               then take (u32 (worker_id + 1)) old @ replicate (u32 (worker_id + 1) - length old) None else old)
      in if worker_id \<ge> length v then Inl (if ndebug env then Undefined else OutOfRange)
         else
           c_assert (ndebug env) (v ! worker_id = None) (
           Inr (i, mgr\<lparr>targets := stub # targets mgr, next_id := Suc i,
                        target_map := (target_map mgr)(inst_id \<mapsto> v[worker_id := Some i])\<rparr>))))"

definition create_or_get :: "kvt_env \<Rightarrow> request_info \<Rightarrow> target_mgr \<Rightarrow> (nat \<times> target_mgr) result" where
  "create_or_get env req mgr =
     (let k = (ri_dst_inst_id req, ri_dst_worker_id req)
      in case get k mgr of
           (Some i, mgr) \<Rightarrow> Inr (i, mgr)
         | (None, mgr) \<Rightarrow> create env k (ri_dst_worker_info req) mgr)"

definition try_pop_map :: "kvt_env \<Rightarrow> target_key \<Rightarrow> target_map \<Rightarrow> (int \<times> target_map) result" where
  "try_pop_map env = (\<lambda>(dstid, dwid) m.
     (case m dstid of
        None \<Rightarrow> Inr (0, m)
      | Some v \<Rightarrow>
          if dwid \<ge> length v then Inr (0, m)
          else
            c_assert (ndebug env) (v ! dwid \<noteq> None) (
            let v = v[dwid := None]
            in if list_ex (\<lambda>x. x \<noteq> None) v then Inr (1, m(dstid \<mapsto> v)) else Inr (2, m(dstid := None)))))"

function shrink :: "kvt_env \<Rightarrow> nat \<Rightarrow> target_mgr \<Rightarrow> target_mgr result" where
  "shrink env cap mgr =
     (if length (targets mgr) > cap then
        (let target = last (targets mgr)
         in c_assert (ndebug env) (inflycnt target \<ge> 0) (
            if inflycnt target > 0 then Inr mgr
            else
              rbind (try_pop_map env (tgt_key target) (target_map mgr)) (\<lambda>(_, m).
              shrink env cap (mgr\<lparr>target_map := m, targets := butlast (targets mgr)\<rparr>))))
      else Inr mgr)"
  by pat_completeness auto
termination
  by (relation "measure (\<lambda>(_, _, mgr). length (targets mgr))") auto

declare shrink.simps [simp del]

definition try_shrink :: "kvt_env \<Rightarrow> nat \<Rightarrow> target_mgr \<Rightarrow> target_mgr result" where
  "try_shrink env cap mgr = (if length (targets mgr) \<le> cap then Inr mgr else shrink env cap mgr)"

text \<open>Submission of the tasks for one worker: count the job, pick a thread if the target was idle.\<close>

definition submit_worker :: "kvt_env \<Rightarrow> req_send_task list \<Rightarrow> target_mgr \<Rightarrow> target_mgr result" where
  "submit_worker env tasks mgr =
     c_assert (ndebug env) (tasks \<noteq> []) (
     if tasks = [] then Inl Undefined
     else
       rbind (create_or_get env (task_req (hd tasks)) mgr) (\<lambda>(i, mgr).
       case find (\<lambda>t. tgt_id t = i) (targets mgr) of
         None \<Rightarrow> Inl Undefined
       | Some target \<Rightarrow>
           (let hint = (if inflycnt target = 0 then mgr_thread_hint mgr + 1 else thread_hint target)
            in Inr (mgr\<lparr>mgr_thread_hint := (if inflycnt target = 0 then hint else mgr_thread_hint mgr),
                         targets := map (\<lambda>t. if tgt_id t = i then t\<lparr>inflycnt := inflycnt t + 1, thread_hint := hint\<rparr> else t) (targets mgr),
                         pool_jobs := pool_jobs mgr @ [\<lparr> job_target = i, job_hint = hint, job_tasks = tasks \<rparr>]\<rparr>))))"

type_synonym step_tasks = "(string \<times> (nat \<times> req_send_task list) list) list"

definition do_submit :: "kvt_env \<Rightarrow> step_tasks \<Rightarrow> target_mgr \<Rightarrow> target_mgr result" where
  "do_submit env steptasks mgr =
     rbind (rfold (\<lambda>(inst_id, workers_task) mgr.
              c_assert (ndebug env) (workers_task \<noteq> []) (
              rfold (\<lambda>(worker_id, tasks). submit_worker env tasks) workers_task mgr)) steptasks mgr) (\<lambda>mgr.
     try_shrink env (nat (env_txstub_cap env)) mgr)"

text \<open>The end of a job: \<open>send_batch\<close> has returned and the counter goes down.\<close>

definition finish_job :: "kvt_env \<Rightarrow> pool_job \<Rightarrow> target_mgr \<Rightarrow> target_mgr result" where
  "finish_job env job mgr =
     (case find (\<lambda>t. tgt_id t = job_target job) (targets mgr) of
        None \<Rightarrow> Inl Undefined
      | Some target \<Rightarrow>
          c_assert (ndebug env) (inflycnt target > 0) (
          Inr (mgr\<lparr>targets := map (\<lambda>t. if tgt_id t = job_target job then t\<lparr>inflycnt := inflycnt t - 1\<rparr> else t) (targets mgr),
                    pool_jobs := remove1 job (pool_jobs mgr)\<rparr>)))"

section \<open>The index\<close>

abbreviation keys :: "target_mgr \<Rightarrow> target_key list" where
  "keys mgr \<equiv> map tgt_key (targets mgr)"

abbreviation ids :: "target_mgr \<Rightarrow> nat list" where
  "ids mgr \<equiv> map tgt_id (targets mgr)"

definition index_ok :: "target list \<Rightarrow> target_map \<Rightarrow> bool" where
  "index_ok ts m \<longleftrightarrow> distinct (map tgt_key ts) \<and> distinct (map tgt_id ts) \<and>
     peek m = map_of (map (\<lambda>t. (tgt_key t, tgt_id t)) ts) \<and> (\<forall>inst v. m inst = Some v \<longrightarrow> (\<exists>x\<in>set v. x \<noteq> None))"

lemma map_of_index: "distinct (map tgt_key ts) \<Longrightarrow> t \<in> set ts \<Longrightarrow> map_of (map (\<lambda>t. (tgt_key t, tgt_id t)) ts) (tgt_key t) = Some (tgt_id t)"
  by (subst map_of_eq_Some_iff) (auto simp: comp_def)

lemma index_ok_peek:
  assumes "index_ok ts m"
  shows "peek m k = Some i \<longleftrightarrow> (\<exists>t\<in>set ts. tgt_key t = k \<and> tgt_id t = i)"
proof -
  have "distinct (map fst (map (\<lambda>t. (tgt_key t, tgt_id t)) ts))"
    using assms by (simp add: index_ok_def comp_def)
  from map_of_eq_Some_iff [OF this] show ?thesis
    using assms by (auto simp: index_ok_def)
qed

lemma index_ok_None: "index_ok ts m \<Longrightarrow> peek m k = None \<longleftrightarrow> k \<notin> tgt_key ` set ts"
  by (simp add: index_ok_def map_of_eq_None_iff image_image)

lemma peek_update:
  assumes "w < length v"
  shows "peek (m(inst \<mapsto> v[w := x])) = (\<lambda>k. if k = (inst, w) then x else peek (m(inst \<mapsto> v)) k)"
  using assms by (auto simp: peek_def fun_eq_iff nth_list_update)

lemma peek_pad:
  assumes "m inst = None \<and> v = replicate n None \<or> m inst = Some old \<and> v = old @ replicate n None"
  shows "peek (m(inst \<mapsto> v)) = peek m"
  using assms by (auto simp: peek_def fun_eq_iff nth_append)

lemma splice_front_eq:
  assumes "distinct (map tgt_id ts)" and "t \<in> set ts"
  shows "splice_front (tgt_id t) ts = t # remove1 t ts"
proof -
  have dist: "distinct ts"
    using assms(1) by (simp add: distinct_map)
  have same: "tgt_id x = tgt_id t \<longleftrightarrow> x = t" if "x \<in> set ts" for x
    using assms that by (auto simp: distinct_map inj_on_def)
  have "filter (\<lambda>x. tgt_id x = tgt_id t) ts = filter (\<lambda>x. x = t) ts"
    using same by (intro filter_cong) auto
  also have "\<dots> = [t]"
    using dist assms(2) by (induction ts) (auto simp: filter_empty_conv)
  finally have "filter (\<lambda>x. tgt_id x = tgt_id t) ts = [t]" .
  moreover have "filter (\<lambda>x. tgt_id x \<noteq> tgt_id t) ts = filter (\<lambda>x. x \<noteq> t) ts"
    using same by (intro filter_cong) auto
  ultimately show ?thesis
    using dist by (simp add: splice_front_def distinct_remove1_removeAll removeAll_filter_not_eq) (metis (no_types, lifting) filter_cong)
qed

lemma index_ok_permute:
  assumes "index_ok ts m" and "set ts' = set ts" and "distinct (map tgt_key ts')" and "distinct (map tgt_id ts')"
  shows "index_ok ts' m"
proof -
  have "map_of (map (\<lambda>t. (tgt_key t, tgt_id t)) ts') = map_of (map (\<lambda>t. (tgt_key t, tgt_id t)) ts)"
    using assms by (intro map_of_inject_set [THEN iffD2]) (auto simp: index_ok_def comp_def)
  then show ?thesis
    using assms by (simp add: index_ok_def)
qed

lemma distinct_map_remove1: "distinct (map f ts) \<Longrightarrow> distinct (map f (remove1 t ts))"
  by (induction ts) (auto dest: set_remove1_subset [THEN subsetD])

lemma index_ok_touch:
  assumes "index_ok ts m" and "t \<in> set ts"
  shows "index_ok (t # remove1 t ts) m"
proof -
  have d: "distinct (map tgt_key ts)" "distinct (map tgt_id ts)" "distinct ts"
    using assms(1) by (auto simp: index_ok_def distinct_map)
  have "tgt_key t \<notin> tgt_key ` set (remove1 t ts)" "tgt_id t \<notin> tgt_id ` set (remove1 t ts)"
    using d assms(2) by (auto simp: distinct_map inj_on_def)
  then show ?thesis
    using d assms by (intro index_ok_permute [OF assms(1)]) (auto simp: distinct_map_remove1)
qed

lemma index_ok_create:
  assumes "index_ok (targets mgr) (target_map mgr)" and "k \<notin> tgt_key ` set (targets mgr)" and "snd k < 2 ^ 32 - 1"
    and "\<forall>t\<in>set (targets mgr). tgt_id t < next_id mgr"
  shows "\<exists>t mgr'. create env k info mgr = Inr (next_id mgr, mgr') \<and> index_ok (targets mgr') (target_map mgr') \<and>
    mgr' = mgr\<lparr>targets := t # targets mgr, next_id := Suc (next_id mgr), target_map := target_map mgr'\<rparr> \<and>
    tgt_id t = next_id mgr \<and> tgt_key t = k \<and> inflycnt t = 0"
proof -
  obtain inst w where k: "k = (inst, w)"
    by (cases k)
  let ?m = "target_map mgr" and ?i = "next_id mgr"
  let ?old = "case ?m inst of None \<Rightarrow> [] | Some v \<Rightarrow> v"
  define v where "v = (if w \<ge> length ?old then ?old @ replicate (w + 1 - length ?old) None else ?old)"
  have u: "u32 (w + 1) = w + 1"
    using assms(3) by (simp add: k u32_id)
  have v: "(if w \<ge> length ?old then take (u32 (w + 1)) ?old @ replicate (u32 (w + 1) - length ?old) None else ?old) = v"
    unfolding u v_def by simp
  have len: "w < length v"
    by (auto simp: v_def)
  have pk: "peek (?m(inst \<mapsto> v)) = peek ?m"
    by (rule peek_pad [where n = "w + 1 - length ?old" and old = ?old]) (auto simp: v_def split: option.splits)
  have "peek ?m k = None"
    using index_ok_None [OF assms(1)] assms(2) by simp
  then have none: "v ! w = None"
    using pk len by (auto simp: k peek_def fun_eq_iff split: if_splits dest!: spec [of _ inst] spec [of _ w])
  let ?t = "\<lparr> tgt_id = ?i, inflycnt = 0, thread_hint = 0, tgt_key = k, tgt_info = info \<rparr>"
  let ?mgr = "mgr\<lparr>targets := ?t # targets mgr, next_id := Suc ?i, target_map := ?m(inst \<mapsto> v[w := Some ?i])\<rparr>"
  have "create env k info mgr = Inr (?i, ?mgr)"
    using len none unfolding create_def k prod.case Let_def v by simp
  moreover have "\<exists>x\<in>set (v[w := Some ?i]). x \<noteq> None"
    using set_update_memI [OF len, of "Some ?i"] by blast
  then have "index_ok (targets ?mgr) (target_map ?mgr)"
    using assms(1,2,4) unfolding index_ok_def
    by (auto simp: peek_update [OF len] pk k fun_eq_iff split: if_splits)
  ultimately show ?thesis
    by (intro exI [of _ ?t] exI [of _ ?mgr]) simp
qed

lemma index_ok_pop:
  assumes "index_ok (ts @ [t]) m"
  shows "\<exists>c m'. try_pop_map env (tgt_key t) m = Inr (c, m') \<and> index_ok ts m'"
proof -
  obtain inst w where k: "tgt_key t = (inst, w)"
    by (cases "tgt_key t")
  have "peek m (tgt_key t) = Some (tgt_id t)"
    using index_ok_peek [OF assms] by auto
  then obtain v where v: "m inst = Some v" "w < length v" "v ! w = Some (tgt_id t)"
    by (auto simp: k peek_def not_le split: option.splits if_splits)
  have d: "distinct (map tgt_key ts)" "distinct (map tgt_id ts)" "tgt_key t \<notin> tgt_key ` set ts"
    and pm: "peek m = map_of (map (\<lambda>t. (tgt_key t, tgt_id t)) (ts @ [t]))"
    and ne: "\<forall>inst v. m inst = Some v \<longrightarrow> (\<exists>x\<in>set v. x \<noteq> None)"
    using assms by (auto simp: index_ok_def)
  have less: "map_of (map (\<lambda>t. (tgt_key t, tgt_id t)) ts) = (peek m)(tgt_key t := None)"
    unfolding pm using d(3) by (auto simp: fun_eq_iff map_add_def map_of_eq_None_iff image_image split: option.splits)
  let ?v = "v[w := None]"
  have upd: "peek (m(inst \<mapsto> ?v)) = (peek m)(tgt_key t := None)"
    using v peek_update [of w v m inst None] by (auto simp: k fun_upd_idem)
  show ?thesis
  proof (cases "list_ex (\<lambda>x. x \<noteq> None) ?v")
    case True
    then have "try_pop_map env (tgt_key t) m = Inr (1, m(inst \<mapsto> ?v))"
      using v by (simp add: try_pop_map_def k Let_def)
    moreover have "index_ok ts (m(inst \<mapsto> ?v))"
      using True d ne unfolding index_ok_def by (auto simp: upd less list_ex_iff)
    ultimately show ?thesis
      by blast
  next
    case False
    then have "try_pop_map env (tgt_key t) m = Inr (2, m(inst := None))"
      using v by (simp add: try_pop_map_def k Let_def)
    moreover have "peek (m(inst := None)) = peek (m(inst \<mapsto> ?v))"
      using False by (auto simp: peek_def fun_eq_iff list_ex_length)
    then have "index_ok ts (m(inst := None))"
      using d ne unfolding index_ok_def by (auto simp: upd less)
    ultimately show ?thesis
      by blast
  qed
qed

section \<open>The contract of a cache of recently used entries\<close>

text \<open>
  The abstract cache is the list of its keys, the most recently used first. A use moves its key to the front; an
  eviction drops keys from the end while there are more than \<open>cap\<close> of them and the last one is not busy.
\<close>

definition lru_use :: "'k \<Rightarrow> 'k list \<Rightarrow> 'k list" where
  "lru_use k ks = k # remove1 k ks"

function lru_evict :: "nat \<Rightarrow> ('k \<Rightarrow> bool) \<Rightarrow> 'k list \<Rightarrow> 'k list" where
  "lru_evict cap busy ks = (if length ks > cap \<and> \<not> busy (last ks) then lru_evict cap busy (butlast ks) else ks)"
  by pat_completeness auto
termination
  by (relation "measure (\<lambda>(_, _, ks). length ks)") auto

declare lru_evict.simps [simp del]

lemma set_lru_use [simp]: "set (lru_use k ks) = insert k (set ks)"
  by (auto simp: lru_use_def dest: set_remove1_subset [THEN subsetD]) (metis in_set_remove1)

lemma set_lru_uses: "set (fold lru_use us ks) = set us \<union> set ks"
  by (induction us arbitrary: ks) auto

lemma lru_evict_busy: "k \<in> set ks \<Longrightarrow> busy k \<Longrightarrow> k \<in> set (lru_evict cap busy ks)"
proof (induction cap busy ks rule: lru_evict.induct)
  case (1 cap busy ks)
  show ?case
  proof (cases "length ks > cap \<and> \<not> busy (last ks)")
    case True
    then have "ks = butlast ks @ [last ks]"
      by (metis append_butlast_last_id gr_implies_not0 list.size(3))
    then have "k \<in> set (butlast ks)"
      using 1(2,3) True by (metis Un_iff empty_iff empty_set set_ConsD set_append)
    then show ?thesis
      using 1 True by (subst lru_evict.simps) simp
  qed (use 1 in \<open>subst lru_evict.simps, auto\<close>)
qed

lemma lru_evict_prefix: "\<exists>n. lru_evict cap busy ks = take n ks \<and> min cap (length ks) \<le> n"
proof (induction cap busy ks rule: lru_evict.induct)
  case (1 cap busy ks)
  show ?case
  proof (cases "length ks > cap \<and> \<not> busy (last ks)")
    case True
    then obtain n where n: "lru_evict cap busy (butlast ks) = take n (butlast ks)" "min cap (length (butlast ks)) \<le> n"
      using 1 by blast
    then show ?thesis
      using True by (subst lru_evict.simps) (auto simp: butlast_conv_take intro!: exI [of _ "min n (length ks - 1)"])
  qed (subst lru_evict.simps, auto intro!: exI [of _ "length ks"])
qed

lemma lru_evict_bound: "length (lru_evict cap busy ks) \<le> cap \<or> busy (last (lru_evict cap busy ks))"
  by (induction cap busy ks rule: lru_evict.induct) (subst (1 2) lru_evict.simps, auto)

section \<open>The invariant\<close>

abbreviation task_key :: "req_send_task \<Rightarrow> target_key" where
  "task_key t \<equiv> (ri_dst_inst_id (task_req t), ri_dst_worker_id (task_req t))"

definition jobs_of :: "nat \<Rightarrow> target_mgr \<Rightarrow> nat" where
  "jobs_of i mgr = length (filter (\<lambda>j. job_target j = i) (pool_jobs mgr))"

definition mgr_inv :: "target_mgr \<Rightarrow> bool" where
  "mgr_inv mgr \<longleftrightarrow> index_ok (targets mgr) (target_map mgr) \<and> (\<forall>t\<in>set (targets mgr). tgt_id t < next_id mgr) \<and>
     (\<forall>t\<in>set (targets mgr). inflycnt t = int (jobs_of (tgt_id t) mgr)) \<and>
     (\<forall>j\<in>set (pool_jobs mgr). job_tasks j \<noteq> [] \<and>
        (\<exists>t\<in>set (targets mgr). tgt_id t = job_target j \<and> thread_hint t = job_hint j \<and> (\<forall>x\<in>set (job_tasks j). task_key x = tgt_key t)))"

lemma mgr_invD:
  assumes "mgr_inv mgr"
  shows "index_ok (targets mgr) (target_map mgr)" and "t \<in> set (targets mgr) \<Longrightarrow> tgt_id t < next_id mgr"
    and "t \<in> set (targets mgr) \<Longrightarrow> inflycnt t = int (jobs_of (tgt_id t) mgr)"
    and "distinct (keys mgr)" and "distinct (ids mgr)"
  using assms by (auto simp: mgr_inv_def index_ok_def)

lemma tgt_id_inj:
  assumes "mgr_inv mgr" and "t \<in> set (targets mgr)" and "t' \<in> set (targets mgr)" and "tgt_id t = tgt_id t'"
  shows "t = t'"
  using mgr_invD(5) [OF assms(1)] assms(2-) unfolding distinct_map by (blast dest: inj_onD)

lemma mgr_inv_init: "mgr_inv target_mgr_init"
  by (simp add: mgr_inv_def target_mgr_init_def index_ok_def peek_def fun_eq_iff)

lemma jobs_of_0:
  assumes "mgr_inv mgr" and "t \<in> set (targets mgr)" and "inflycnt t = 0" and "j \<in> set (pool_jobs mgr)"
  shows "job_target j \<noteq> tgt_id t"
  using mgr_invD(3) [OF assms(1,2)] assms(3,4) by (auto simp: jobs_of_def filter_empty_conv)

definition busy :: "target_mgr \<Rightarrow> target_key \<Rightarrow> bool" where
  "busy mgr k \<longleftrightarrow> (\<exists>j\<in>set (pool_jobs mgr). task_key (hd (job_tasks j)) = k)"

lemma tgt_key_inj:
  assumes "mgr_inv mgr" and "t \<in> set (targets mgr)" and "t' \<in> set (targets mgr)" and "tgt_key t = tgt_key t'"
  shows "t = t'"
  using mgr_invD(4) [OF assms(1)] assms(2-) unfolding distinct_map by (blast dest: inj_onD)

lemma job_target_key:
  assumes "mgr_inv mgr" and "j \<in> set (pool_jobs mgr)"
  shows "\<exists>t\<in>set (targets mgr). tgt_id t = job_target j \<and> thread_hint t = job_hint j \<and> tgt_key t = task_key (hd (job_tasks j))"
proof -
  obtain t where t: "t \<in> set (targets mgr)" "tgt_id t = job_target j" "thread_hint t = job_hint j"
      "\<forall>x\<in>set (job_tasks j). task_key x = tgt_key t" "job_tasks j \<noteq> []"
    using assms by (auto simp: mgr_inv_def)
  then have "tgt_key t = task_key (hd (job_tasks j))"
    by (metis list.set_sel(1))
  with t show ?thesis
    by blast
qed

lemma busy_iff:
  assumes "mgr_inv mgr" and "t \<in> set (targets mgr)"
  shows "busy mgr (tgt_key t) \<longleftrightarrow> inflycnt t > 0"
proof
  assume "busy mgr (tgt_key t)"
  then obtain j where j: "j \<in> set (pool_jobs mgr)" "task_key (hd (job_tasks j)) = tgt_key t"
    by (auto simp: busy_def)
  with job_target_key [OF assms(1) j(1)] have "tgt_id t = job_target j"
    using tgt_key_inj [OF assms(1) _ assms(2)] by metis
  then show "inflycnt t > 0"
    using mgr_invD(3) [OF assms] j(1) by (auto simp: jobs_of_def filter_empty_conv)
next
  assume "inflycnt t > 0"
  then obtain j where j: "j \<in> set (pool_jobs mgr)" "job_target j = tgt_id t"
    using mgr_invD(3) [OF assms] by (auto simp: jobs_of_def filter_empty_conv)
  with job_target_key [OF assms(1) j(1)] show "busy mgr (tgt_key t)"
    using tgt_id_inj [OF assms(1) _ assms(2)] unfolding busy_def by metis
qed

text \<open>An idle target can be dropped from the end.\<close>

lemma mgr_inv_pop:
  assumes "mgr_inv mgr" and "targets mgr = ts @ [t]" and "inflycnt t = 0" and "index_ok ts m"
  shows "mgr_inv (mgr\<lparr>target_map := m, targets := ts\<rparr>)"
  unfolding mgr_inv_def
proof (intro conjI ballI)
  let ?mgr = "mgr\<lparr>target_map := m, targets := ts\<rparr>"
  fix j
  assume "j \<in> set (pool_jobs ?mgr)"
  then have j: "j \<in> set (pool_jobs mgr)"
    by simp
  then obtain t' where t': "t' \<in> set (targets mgr)" "tgt_id t' = job_target j" "thread_hint t' = job_hint j"
      "\<forall>x\<in>set (job_tasks j). task_key x = tgt_key t'" "job_tasks j \<noteq> []"
    using assms(1) by (auto simp: mgr_inv_def)
  moreover have "t' \<noteq> t"
    using jobs_of_0 [OF assms(1) _ assms(3) j] t'(2) assms(2) by auto
  then have "t' \<in> set ts"
    using t'(1) assms(2) by auto
  ultimately show "job_tasks j \<noteq> []"
      "\<exists>t\<in>set (targets ?mgr). tgt_id t = job_target j \<and> thread_hint t = job_hint j \<and> (\<forall>x\<in>set (job_tasks j). task_key x = tgt_key t)"
    by auto
qed (use assms in \<open>auto simp: mgr_inv_def jobs_of_def\<close>)

lemma shrink_inv:
  "mgr_inv mgr \<Longrightarrow> \<exists>mgr'. shrink env cap mgr = Inr mgr' \<and> mgr_inv mgr' \<and>
     keys mgr' = lru_evict cap (busy mgr) (keys mgr) \<and> pool_jobs mgr' = pool_jobs mgr"
proof (induction env cap mgr rule: shrink.induct)
  case (1 env cap mgr)
  show ?case
  proof (cases "length (targets mgr) > cap")
    case False
    then show ?thesis
      using 1(2) by (subst shrink.simps, subst lru_evict.simps) simp
  next
    case long: True
    let ?t = "last (targets mgr)" and ?ts = "butlast (targets mgr)"
    have ts: "targets mgr = ?ts @ [?t]"
      using long by (metis append_butlast_last_id gr_implies_not0 list.size(3))
    then have t: "?t \<in> set (targets mgr)"
      by (metis in_set_conv_decomp)
    have ks: "last (keys mgr) = tgt_key ?t" "butlast (keys mgr) = map tgt_key ?ts"
      using ts by (simp_all add: map_butlast last_map) (metis last_map snoc_eq_iff_butlast)
    have pos: "inflycnt ?t \<ge> 0"
      using mgr_invD(3) [OF 1(2) t] by simp
    show ?thesis
    proof (cases "inflycnt ?t > 0")
      case True
      then have "shrink env cap mgr = Inr mgr"
        using long by (subst shrink.simps) (simp add: Let_def)
      then show ?thesis
        using 1(2) busy_iff [OF 1(2) t] True ks by (subst lru_evict.simps) simp
    next
      case False
      obtain c m where pop: "try_pop_map env (tgt_key ?t) (target_map mgr) = Inr (c, m)" "index_ok ?ts m"
        using index_ok_pop [of ?ts ?t "target_map mgr"] mgr_invD(1) [OF 1(2)] ts by metis
      let ?mgr = "mgr\<lparr>target_map := m, targets := ?ts\<rparr>"
      have "mgr_inv ?mgr"
        using False pos by (intro mgr_inv_pop [OF 1(2) ts _ pop(2)]) simp
      with 1(1) [of ?t "(c, m)" c m] pop(1) long False pos obtain mgr' where IH: "shrink env cap ?mgr = Inr mgr'" "mgr_inv mgr'"
        "keys mgr' = lru_evict cap (busy ?mgr) (keys ?mgr)" "pool_jobs mgr' = pool_jobs ?mgr"
        by auto
      moreover have "shrink env cap mgr = shrink env cap ?mgr"
        using pop(1) long False pos by (subst shrink.simps) (simp add: Let_def)
      moreover have "busy ?mgr = busy mgr"
        by (simp add: busy_def fun_eq_iff)
      moreover have "lru_evict cap (busy mgr) (keys mgr) = lru_evict cap (busy mgr) (keys ?mgr)"
        using busy_iff [OF 1(2) t] False long ks by (subst lru_evict.simps) simp
      ultimately show ?thesis
        by simp
    qed
  qed
qed

lemma try_shrink_inv:
  assumes "mgr_inv mgr"
  shows "\<exists>mgr'. try_shrink env cap mgr = Inr mgr' \<and> mgr_inv mgr' \<and>
     keys mgr' = lru_evict cap (busy mgr) (keys mgr) \<and> pool_jobs mgr' = pool_jobs mgr"
proof -
  have "try_shrink env cap mgr = shrink env cap mgr"
    by (simp add: try_shrink_def shrink.simps [of env cap mgr])
  then show ?thesis
    using shrink_inv [OF assms, of env cap] by simp
qed

lemma map_remove1_key:
  "distinct (map f xs) \<Longrightarrow> x \<in> set xs \<Longrightarrow> map f (remove1 x xs) = remove1 (f x) (map f xs)"
  by (induction xs) (auto simp: image_iff)

lemma create_or_get_inv:
  assumes "mgr_inv mgr" and "k = (ri_dst_inst_id req, ri_dst_worker_id req)" and "snd k < 2 ^ 32 - 1"
  shows "\<exists>t rest mgr'. create_or_get env req mgr = Inr (tgt_id t, mgr') \<and> mgr_inv mgr' \<and> targets mgr' = t # rest \<and>
    tgt_key t = k \<and> keys mgr' = k # remove1 k (keys mgr) \<and> pool_jobs mgr' = pool_jobs mgr"
proof (cases "peek (target_map mgr) k")
  case None
  note inv = mgr_invD [OF assms(1)]
  have new: "k \<notin> tgt_key ` set (targets mgr)"
    using index_ok_None [OF inv(1)] None by simp
  obtain t mgr' where c: "create env k (ri_dst_worker_info req) mgr = Inr (next_id mgr, mgr')"
      "index_ok (targets mgr') (target_map mgr')"
      "mgr' = mgr\<lparr>targets := t # targets mgr, next_id := Suc (next_id mgr), target_map := target_map mgr'\<rparr>"
      "tgt_id t = next_id mgr" "tgt_key t = k" "inflycnt t = 0"
    using index_ok_create [OF inv(1) new assms(3)] inv(2) by blast
  have c': "targets mgr' = t # targets mgr" "next_id mgr' = Suc (next_id mgr)" "pool_jobs mgr' = pool_jobs mgr"
    by (subst c(3), simp)+
  have "job_target j \<noteq> next_id mgr" if "j \<in> set (pool_jobs mgr)" for j
    using assms(1) that by (force simp: mgr_inv_def)
  then have "jobs_of (next_id mgr) mgr' = 0"
    by (auto simp: jobs_of_def c'(3) filter_empty_conv)
  then have "mgr_inv mgr'"
    using assms(1) c(2,4,6) unfolding mgr_inv_def c' by (auto simp: jobs_of_def c'(3) less_Suc_eq)
  moreover have "create_or_get env req mgr = Inr (tgt_id t, mgr')"
    using None c(1,4) assms(2) by (simp add: create_or_get_def get_def)
  ultimately show ?thesis
    using c(5) c' new by (intro exI [of _ t] exI [of _ "targets mgr"] exI [of _ mgr']) (simp add: remove1_idem)
next
  case (Some i)
  note inv = mgr_invD [OF assms(1)]
  obtain t where t: "t \<in> set (targets mgr)" "tgt_key t = k" "tgt_id t = i"
    using index_ok_peek [OF inv(1)] Some by blast
  let ?mgr = "mgr\<lparr>targets := t # remove1 t (targets mgr)\<rparr>"
  have "distinct (targets mgr)"
    using inv(4) by (simp add: distinct_map)
  then have set: "set (targets ?mgr) = set (targets mgr)"
    using t(1) by auto
  have "mgr_inv ?mgr"
    using assms(1) index_ok_touch [OF inv(1) t(1)] unfolding mgr_inv_def set by (simp add: jobs_of_def)
  moreover have "create_or_get env req mgr = Inr (tgt_id t, ?mgr)"
    using Some t assms(2) splice_front_eq [OF inv(5) t(1)] by (simp add: create_or_get_def get_def)
  ultimately show ?thesis
    using t(2) map_remove1_key [OF inv(4) t(1)]
    by (intro exI [of _ t] exI [of _ "remove1 t (targets mgr)"] exI [of _ ?mgr]) simp
qed

lemma index_ok_map:
  assumes "\<And>t. tgt_key (f t) = tgt_key t" and "\<And>t. tgt_id (f t) = tgt_id t"
  shows "index_ok (map f ts) m = index_ok ts m"
  using assms by (simp add: index_ok_def comp_def)

definition batch_ok :: "req_send_task list \<Rightarrow> bool" where
  "batch_ok tasks \<longleftrightarrow> tasks \<noteq> [] \<and> snd (task_key (hd tasks)) < 2 ^ 32 - 1 \<and> (\<forall>x\<in>set tasks. task_key x = task_key (hd tasks))"

text \<open>A further job of a target: it runs on the thread of the jobs that the target already has.\<close>

definition next_hint :: "target \<Rightarrow> target_mgr \<Rightarrow> int" where
  "next_hint t mgr = (if inflycnt t = 0 then mgr_thread_hint mgr + 1 else thread_hint t)"

definition count_job :: "int \<Rightarrow> nat \<Rightarrow> target \<Rightarrow> target" where
  "count_job hint i = (\<lambda>x. if tgt_id x = i then x\<lparr>inflycnt := inflycnt x + 1, thread_hint := hint\<rparr> else x)"

lemma count_job_simps [simp]:
  "tgt_id (count_job h i x) = tgt_id x" "tgt_key (count_job h i x) = tgt_key x"
  "inflycnt (count_job h i x) = inflycnt x + (if tgt_id x = i then 1 else 0)"
  "thread_hint (count_job h i x) = (if tgt_id x = i then h else thread_hint x)"
  by (simp_all add: count_job_def)

lemma count_job_keeps:
  assumes "mgr_inv mgr" and "t \<in> set (targets mgr)" and "x \<in> set (targets mgr)" and "j \<in> set (pool_jobs mgr)" and "tgt_id x = job_target j"
  shows "thread_hint (count_job (next_hint t mgr) (tgt_id t) x) = thread_hint x"
proof (cases "tgt_id x = tgt_id t")
  case True
  then have "x = t"
    by (rule tgt_id_inj [OF assms(1,3,2)])
  moreover have "inflycnt x \<noteq> 0"
    using jobs_of_0 [OF assms(1,3) _ assms(4)] assms(5) by auto
  ultimately show ?thesis
    by (simp add: next_hint_def)
qed simp

lemma mgr_inv_add_job:
  assumes "mgr_inv mgr" and "t \<in> set (targets mgr)" and "tasks \<noteq> []" and "\<forall>x\<in>set tasks. task_key x = tgt_key t"
  defines "f \<equiv> count_job (next_hint t mgr) (tgt_id t)" and "job \<equiv> \<lparr> job_target = tgt_id t, job_hint = next_hint t mgr, job_tasks = tasks \<rparr>"
  shows "mgr_inv (mgr\<lparr>mgr_thread_hint := h, targets := map f (targets mgr), pool_jobs := pool_jobs mgr @ [job]\<rparr>)" (is "mgr_inv ?mgr")
  unfolding mgr_inv_def
proof (intro conjI ballI)
  have "index_ok (map f (targets mgr)) (target_map mgr) = index_ok (targets mgr) (target_map mgr)"
    by (rule index_ok_map) (simp_all add: f_def)
  then show "index_ok (targets ?mgr) (target_map ?mgr)"
    using mgr_invD(1) [OF assms(1)] by simp
next
  fix x
  assume "x \<in> set (targets ?mgr)"
  then obtain y where y: "y \<in> set (targets mgr)" "x = f y"
    by auto
  show "tgt_id x < next_id ?mgr" "inflycnt x = int (jobs_of (tgt_id x) ?mgr)"
    using mgr_invD(2,3) [OF assms(1) y(1)] y(2) by (auto simp: jobs_of_def f_def job_def)
next
  fix j
  assume "j \<in> set (pool_jobs ?mgr)"
  then consider "j = job" | "j \<in> set (pool_jobs mgr)"
    by auto
  then have "job_tasks j \<noteq> [] \<and> (\<exists>x\<in>set (targets mgr). tgt_id x = job_target j \<and> thread_hint (f x) = job_hint j \<and>
      (\<forall>y\<in>set (job_tasks j). task_key y = tgt_key x))"
  proof cases
    case 1
    then show ?thesis
      using assms(2-4) by (intro conjI bexI [of _ t]) (simp_all add: f_def job_def)
  next
    case 2
    then obtain x where x: "x \<in> set (targets mgr)" "tgt_id x = job_target j" "thread_hint x = job_hint j"
        "\<forall>y\<in>set (job_tasks j). task_key y = tgt_key x" "job_tasks j \<noteq> []"
      using assms(1) by (auto simp: mgr_inv_def)
    then show ?thesis
      using count_job_keeps [OF assms(1,2) x(1) 2 x(2)] by (intro conjI bexI [of _ x]) (simp_all add: f_def)
  qed
  then show "job_tasks j \<noteq> []"
      "\<exists>x\<in>set (targets ?mgr). tgt_id x = job_target j \<and> thread_hint x = job_hint j \<and> (\<forall>y\<in>set (job_tasks j). task_key y = tgt_key x)"
    by (auto simp: f_def)
qed

lemma submit_worker_inv:
  assumes "mgr_inv mgr" and "batch_ok tasks"
  shows "\<exists>mgr' job. submit_worker env tasks mgr = Inr mgr' \<and> mgr_inv mgr' \<and>
    keys mgr' = task_key (hd tasks) # remove1 (task_key (hd tasks)) (keys mgr) \<and>
    pool_jobs mgr' = pool_jobs mgr @ [job] \<and> job_tasks job = tasks"
proof -
  let ?k = "task_key (hd tasks)"
  have tasks: "tasks \<noteq> []" "snd ?k < 2 ^ 32 - 1" "\<forall>x\<in>set tasks. task_key x = ?k"
    using assms(2) unfolding batch_ok_def by blast+
  obtain t rest mgr1 where m1: "create_or_get env (task_req (hd tasks)) mgr = Inr (tgt_id t, mgr1)" "mgr_inv mgr1"
      "targets mgr1 = t # rest" "tgt_key t = ?k" "keys mgr1 = ?k # remove1 ?k (keys mgr)" "pool_jobs mgr1 = pool_jobs mgr"
    using create_or_get_inv [OF assms(1) refl tasks(2), of env] by (elim exE conjE) (rule that)
  have dest: "\<forall>x\<in>set tasks. task_key x = tgt_key t"
    using tasks(3) m1(4) by metis
  let ?f = "count_job (next_hint t mgr1) (tgt_id t)"
  let ?h = "if inflycnt t = 0 then next_hint t mgr1 else mgr_thread_hint mgr1"
  let ?job = "\<lparr> job_target = tgt_id t, job_hint = next_hint t mgr1, job_tasks = tasks \<rparr>"
  let ?mgr = "mgr1\<lparr>mgr_thread_hint := ?h, targets := map ?f (targets mgr1), pool_jobs := pool_jobs mgr1 @ [?job]\<rparr>"
  have "submit_worker env tasks mgr = Inr ?mgr"
    using m1(1,3) tasks(1) by (simp add: submit_worker_def Let_def next_hint_def count_job_def)
  moreover have "mgr_inv ?mgr"
    using m1(3) by (intro mgr_inv_add_job [OF m1(2) _ tasks(1) dest]) simp
  moreover have "keys ?mgr = ?k # remove1 ?k (keys mgr)"
    using m1(5) by (simp add: comp_def)
  ultimately show ?thesis
    using m1(6) by (intro exI [of _ ?mgr] exI [of _ ?job]) simp
qed

lemma length_filter_remove1:
  "x \<in> set xs \<Longrightarrow> length (filter P (remove1 x xs)) + (if P x then 1 else 0) = length (filter P xs)"
  by (induction xs) auto

lemma finish_job_inv:
  assumes "mgr_inv mgr" and "j \<in> set (pool_jobs mgr)"
  shows "\<exists>mgr'. finish_job env j mgr = Inr mgr' \<and> mgr_inv mgr' \<and> keys mgr' = keys mgr \<and> pool_jobs mgr' = remove1 j (pool_jobs mgr)"
proof -
  obtain t where t: "t \<in> set (targets mgr)" "tgt_id t = job_target j"
    using assms by (auto simp: mgr_inv_def)
  define f :: "target \<Rightarrow> target" where "f = (\<lambda>x. if tgt_id x = job_target j then x\<lparr>inflycnt := inflycnt x - 1\<rparr> else x)"
  have f: "tgt_id (f x) = tgt_id x" "tgt_key (f x) = tgt_key x" "thread_hint (f x) = thread_hint x"
      "inflycnt (f x) = inflycnt x - (if tgt_id x = job_target j then 1 else 0)" for x
    by (simp_all add: f_def)
  let ?mgr = "mgr\<lparr>targets := map f (targets mgr), pool_jobs := remove1 j (pool_jobs mgr)\<rparr>"
  have pos: "0 < jobs_of (job_target j) mgr"
    using assms(2) by (auto simp: jobs_of_def filter_empty_conv)
  obtain t' where t': "find (\<lambda>t. tgt_id t = job_target j) (targets mgr) = Some t'"
    using t by (cases "find (\<lambda>t. tgt_id t = job_target j) (targets mgr)") (auto simp: find_None_iff)
  then have "t' \<in> set (targets mgr)" "tgt_id t' = job_target j"
    by (auto simp: find_Some_iff)
  then have "inflycnt t' > 0"
    using mgr_invD(3) [OF assms(1)] pos by simp
  then have fin: "finish_job env j mgr = Inr ?mgr"
    using t' by (simp add: finish_job_def f_def)
  have "index_ok (map f (targets mgr)) (target_map mgr) = index_ok (targets mgr) (target_map mgr)"
    by (rule index_ok_map) (simp_all add: f)
  moreover have "int (jobs_of i ?mgr) = int (jobs_of i mgr) - (if job_target j = i then 1 else 0)" for i
    using length_filter_remove1 [OF assms(2), of "\<lambda>j. job_target j = i"] by (auto simp: jobs_of_def split: if_splits)
  ultimately have "mgr_inv ?mgr"
    using assms(1) set_remove1_subset [of j "pool_jobs mgr"] unfolding mgr_inv_def by (auto simp: f)
  with fin show ?thesis
    by (intro exI [of _ ?mgr]) (simp add: comp_def f)
qed

section \<open>Submissions\<close>

text \<open>
  What a client of such a cache relies on: a use and an eviction succeed and act on the keys as on the abstract
  cache, a use makes its key busy, and an eviction leaves the busy keys as they are.
\<close>

locale lru_cache =
  fixes inv :: "'s \<Rightarrow> bool" and entries :: "'s \<Rightarrow> 'k list" and in_use :: "'s \<Rightarrow> 'k \<Rightarrow> bool"
    and valid :: "'x \<Rightarrow> bool" and key :: "'x \<Rightarrow> 'k" and touch :: "'x \<Rightarrow> 's \<Rightarrow> 's result" and evict :: "nat \<Rightarrow> 's \<Rightarrow> 's result"
  assumes touch_law: "inv s \<Longrightarrow> valid x \<Longrightarrow> \<exists>s'. touch x s = Inr s' \<and> inv s' \<and> entries s' = lru_use (key x) (entries s) \<and>
      in_use s' = (\<lambda>k. in_use s k \<or> k = key x)"
    and evict_law: "inv s \<Longrightarrow> \<exists>s'. evict cap s = Inr s' \<and> inv s' \<and> entries s' = lru_evict cap (in_use s) (entries s) \<and>
      in_use s' = in_use s"
begin

lemma touches_law:
  "inv s \<Longrightarrow> \<forall>x\<in>set xs. valid x \<Longrightarrow> \<exists>s'. rfold touch xs s = Inr s' \<and> inv s' \<and>
     entries s' = fold lru_use (map key xs) (entries s) \<and> in_use s' = (\<lambda>k. in_use s k \<or> k \<in> key ` set xs)"
proof (induction xs arbitrary: s)
  case Nil
  then show ?case
    by simp
next
  case (Cons x xs)
  obtain s1 where s1: "touch x s = Inr s1" "inv s1" "entries s1 = lru_use (key x) (entries s)"
      "in_use s1 = (\<lambda>k. in_use s k \<or> k = key x)"
    using touch_law [of s x] Cons.prems by auto
  then show ?case
    using Cons.IH [OF s1(2)] Cons.prems(2) by (auto simp: fun_eq_iff)
qed

lemma round_law:
  assumes "inv s" and "\<forall>x\<in>set xs. valid x"
  shows "\<exists>s'. rbind (rfold touch xs s) (evict cap) = Inr s' \<and> inv s' \<and>
     entries s' = lru_evict cap (\<lambda>k. in_use s k \<or> k \<in> key ` set xs) (fold lru_use (map key xs) (entries s)) \<and>
     in_use s' = (\<lambda>k. in_use s k \<or> k \<in> key ` set xs)"
proof -
  obtain s1 where s1: "rfold touch xs s = Inr s1" "inv s1" "entries s1 = fold lru_use (map key xs) (entries s)"
      "in_use s1 = (\<lambda>k. in_use s k \<or> k \<in> key ` set xs)"
    using touches_law [OF assms] by blast
  then show ?thesis
    using evict_law [OF s1(2), of cap] by simp
qed

end

lemma rfold_submit_jobs:
  "mgr_inv mgr \<Longrightarrow> \<forall>b\<in>set bs. batch_ok b \<Longrightarrow> rfold (submit_worker env) bs mgr = Inr mgr' \<Longrightarrow>
   map job_tasks (pool_jobs mgr') = map job_tasks (pool_jobs mgr) @ bs"
proof (induction bs arbitrary: mgr)
  case (Cons b bs)
  then obtain mgr1 job where "submit_worker env b mgr = Inr mgr1" "mgr_inv mgr1" "pool_jobs mgr1 = pool_jobs mgr @ [job]" "job_tasks job = b"
    using submit_worker_inv [of mgr b env] by auto
  then show ?case
    using Cons by simp
qed simp

abbreviation batch_key :: "req_send_task list \<Rightarrow> target_key" where
  "batch_key b \<equiv> task_key (hd b)"

interpretation stubs: lru_cache mgr_inv keys busy batch_ok batch_key "submit_worker env" "try_shrink env" for env
proof unfold_locales
  fix s x
  assume "mgr_inv s" "batch_ok x"
  from submit_worker_inv [OF this, of env]
  show "\<exists>s'. submit_worker env x s = Inr s' \<and> mgr_inv s' \<and> keys s' = lru_use (batch_key x) (keys s) \<and>
      busy s' = (\<lambda>k. busy s k \<or> k = batch_key x)"
    by (elim exE conjE, intro exI conjI) (auto simp: lru_use_def busy_def fun_eq_iff)
next
  fix s cap
  assume "mgr_inv s"
  from try_shrink_inv [OF this, of env cap]
  show "\<exists>s'. try_shrink env cap s = Inr s' \<and> mgr_inv s' \<and> keys s' = lru_evict cap (busy s) (keys s) \<and> busy s' = busy s"
    by (elim exE conjE, intro exI conjI) (auto simp: busy_def fun_eq_iff)
qed

definition batches :: "step_tasks \<Rightarrow> req_send_task list list" where
  "batches st = concat (map (\<lambda>(_, ws). map snd ws) st)"

definition steps_ok :: "step_tasks \<Rightarrow> bool" where
  "steps_ok st \<longleftrightarrow> (\<forall>(inst, ws)\<in>set st. ws \<noteq> []) \<and> (\<forall>b\<in>set (batches st). batch_ok b)"

lemma rfold_map: "rfold f (map g xs) s = rfold (\<lambda>x. f (g x)) xs s"
  by (induction xs arbitrary: s) (auto simp: rbind_def split: sum.splits)

lemma do_submit_batches:
  assumes "\<forall>(inst, ws)\<in>set st. ws \<noteq> []"
  shows "do_submit env st mgr = rbind (rfold (submit_worker env) (batches st) mgr) (try_shrink env (nat (env_txstub_cap env)))"
proof -
  have "rfold (\<lambda>(inst_id, workers_task) mgr.
          c_assert (ndebug env) (workers_task \<noteq> []) (
          rfold (\<lambda>(worker_id, tasks). submit_worker env tasks) workers_task mgr)) st mgr
        = rfold (submit_worker env) (batches st) mgr"
    using assms
  proof (induction st arbitrary: mgr)
    case (Cons x st)
    then show ?case
      by (cases x) (auto simp: batches_def rfold_append rfold_map case_prod_unfold intro!: rbind_cong)
  qed (simp add: batches_def)
  then show ?thesis
    by (simp add: do_submit_def)
qed

lemma do_submit_law:
  assumes "mgr_inv mgr" and "steps_ok st"
  shows "\<exists>mgr'. do_submit env st mgr = Inr mgr' \<and> mgr_inv mgr' \<and>
    keys mgr' = lru_evict (nat (env_txstub_cap env)) (\<lambda>k. busy mgr k \<or> k \<in> batch_key ` set (batches st))
      (fold lru_use (map batch_key (batches st)) (keys mgr)) \<and>
    map job_tasks (pool_jobs mgr') = map job_tasks (pool_jobs mgr) @ batches st"
proof -
  have ok: "\<forall>b\<in>set (batches st). batch_ok b" and ne: "\<forall>(inst, ws)\<in>set st. ws \<noteq> []"
    using assms(2) by (auto simp: steps_ok_def)
  let ?cap = "nat (env_txstub_cap env)"
  obtain mgr1 where m1: "rfold (submit_worker env) (batches st) mgr = Inr mgr1" "mgr_inv mgr1"
    using stubs.touches_law [OF assms(1) ok, of env] by blast
  obtain mgr' where m': "try_shrink env ?cap mgr1 = Inr mgr'" "pool_jobs mgr' = pool_jobs mgr1"
    using try_shrink_inv [OF m1(2), of env ?cap] by blast
  have sub: "do_submit env st mgr = Inr mgr'"
    using m1(1) m'(1) by (simp add: do_submit_batches [OF ne])
  then show ?thesis
    using stubs.round_law [OF assms(1) ok, of env ?cap] rfold_submit_jobs [OF assms(1) ok m1(1)] m'(2)
    unfolding do_submit_batches [OF ne] by auto
qed

section \<open>Interleaving with the thread pool\<close>

text \<open>
  The manager thread submits the batches of a step one by one and then evicts, while the threads of the pool finish
  jobs at any moment in between.
\<close>

datatype mgr_phase = Idle | Submitting "req_send_task list list"

inductive mgr_step :: "kvt_env \<Rightarrow> mgr_phase \<times> target_mgr \<Rightarrow> mgr_phase \<times> target_mgr \<Rightarrow> bool" for env where
  begin_submit: "steps_ok st \<Longrightarrow> mgr_step env (Idle, mgr) (Submitting (batches st), mgr)"
| next_worker: "submit_worker env b mgr = Inr mgr' \<Longrightarrow> mgr_step env (Submitting (b # bs), mgr) (Submitting bs, mgr')"
| end_submit: "try_shrink env (nat (env_txstub_cap env)) mgr = Inr mgr' \<Longrightarrow> mgr_step env (Submitting [], mgr) (Idle, mgr')"
| job_done: "j \<in> set (pool_jobs mgr) \<Longrightarrow> finish_job env j mgr = Inr mgr' \<Longrightarrow> mgr_step env (p, mgr) (p, mgr')"

fun phase_ok :: "mgr_phase \<Rightarrow> bool" where
  "phase_ok Idle = True"
| "phase_ok (Submitting bs) = (\<forall>b\<in>set bs. batch_ok b)"

lemma mgr_step_inv:
  assumes "mgr_step env s s'" and "phase_ok (fst s)" and "mgr_inv (snd s)"
  shows "phase_ok (fst s') \<and> mgr_inv (snd s')"
  using assms
proof cases
  case (begin_submit st mgr)
  then show ?thesis
    using assms by (simp add: steps_ok_def)
next
  case (next_worker b mgr mgr' bs)
  then show ?thesis
    using assms submit_worker_inv [of mgr b env] by auto
next
  case (end_submit mgr mgr')
  then show ?thesis
    using assms try_shrink_inv [of mgr env "nat (env_txstub_cap env)"] by auto
next
  case (job_done j mgr mgr' p)
  then show ?thesis
    using assms finish_job_inv [of mgr j env] by auto
qed

lemma mgr_reach_inv:
  assumes "(mgr_step env)\<^sup>*\<^sup>* (Idle, target_mgr_init) (p, mgr)"
  shows "phase_ok p \<and> mgr_inv mgr"
proof -
  have "phase_ok (fst (p, mgr)) \<and> mgr_inv (snd (p, mgr))"
    using assms by (induction rule: rtranclp_induct) (auto simp: mgr_inv_init dest: mgr_step_inv)
  then show ?thesis
    by simp
qed

section \<open>Properties\<close>

text \<open>
  C4. In every state that the manager thread and the threads of the pool can reach, whatever the interleaving, the stub of
  an unfinished job is still alive, it is the stub of the destination of each task of the job and it is counted as
  busy; all unfinished jobs for a destination carry the same thread hint, so one thread runs them in their order;
  the end of the job finds a positive counter; and the manager can go on, whatever well formed step comes next.
\<close>

theorem unfinished_jobs_safe:
  assumes "(mgr_step env)\<^sup>*\<^sup>* (Idle, target_mgr_init) (p, mgr)" and "j \<in> set (pool_jobs mgr)"
  shows "(\<exists>!t. t \<in> set (targets mgr) \<and> tgt_id t = job_target j) \<and>
    (\<exists>t\<in>set (targets mgr). tgt_id t = job_target j \<and> inflycnt t > 0 \<and> (\<forall>x\<in>set (job_tasks j). task_key x = tgt_key t)) \<and>
    (\<forall>j'\<in>set (pool_jobs mgr). batch_key (job_tasks j') = batch_key (job_tasks j) \<longrightarrow> job_hint j' = job_hint j) \<and>
    (\<exists>mgr'. finish_job env j mgr = Inr mgr') \<and> (\<forall>st. steps_ok st \<longrightarrow> (\<exists>mgr'. do_submit env st mgr = Inr mgr'))"
proof (intro conjI ballI allI impI)
  have inv: "mgr_inv mgr"
    using mgr_reach_inv [OF assms(1)] by simp
  obtain t where t: "t \<in> set (targets mgr)" "tgt_id t = job_target j" "thread_hint t = job_hint j"
      "\<forall>x\<in>set (job_tasks j). task_key x = tgt_key t" "job_tasks j \<noteq> []"
    using inv assms(2) by (auto simp: mgr_inv_def)
  then have k: "tgt_key t = batch_key (job_tasks j)"
    by (metis list.set_sel(1))
  show "\<exists>!t. t \<in> set (targets mgr) \<and> tgt_id t = job_target j"
    using t(1,2) tgt_id_inj [OF inv] by metis
  have "busy mgr (tgt_key t)"
    unfolding k busy_def using assms(2) by blast
  then show "\<exists>t\<in>set (targets mgr). tgt_id t = job_target j \<and> inflycnt t > 0 \<and> (\<forall>x\<in>set (job_tasks j). task_key x = tgt_key t)"
    using t busy_iff [OF inv t(1)] by blast
  show "job_hint j' = job_hint j" if "j' \<in> set (pool_jobs mgr)" "batch_key (job_tasks j') = batch_key (job_tasks j)" for j'
    using job_target_key [OF inv that(1)] tgt_key_inj [OF inv _ t(1)] t(3) k that(2) by metis
  show "\<exists>mgr'. finish_job env j mgr = Inr mgr'"
    using finish_job_inv [OF inv assms(2)] by blast
  show "\<exists>mgr'. do_submit env st mgr = Inr mgr'" if "steps_ok st" for st
    using do_submit_law [OF inv that] by blast
qed

text \<open>
  C16. A submission acts on the stubs exactly as on an abstract cache of recently used destinations: each batch moves its
  destination to the front, in the order of the step, and at the end idle destinations are dropped from the back until
  at most \<open>BLLM_KVTRANS_TXSTUB_CAP\<close> are left or the last one is busy. Each batch becomes one job, and no
  destination of the step or of an unfinished job is dropped.\<close>

theorem do_submit_refines_lru:
  assumes "(mgr_step env)\<^sup>*\<^sup>* (Idle, target_mgr_init) (Idle, mgr)" and "steps_ok st"
  shows "\<exists>mgr'. do_submit env st mgr = Inr mgr' \<and>
    keys mgr' = lru_evict (nat (env_txstub_cap env)) (\<lambda>k. busy mgr k \<or> k \<in> batch_key ` set (batches st))
      (fold lru_use (map batch_key (batches st)) (keys mgr)) \<and>
    map job_tasks (pool_jobs mgr') = map job_tasks (pool_jobs mgr) @ batches st \<and>
    {k \<in> set (keys mgr). busy mgr k} \<union> batch_key ` set (batches st) \<subseteq> set (keys mgr')"
proof -
  have "mgr_inv mgr"
    using mgr_reach_inv [OF assms(1)] by simp
  then obtain mgr' where m: "do_submit env st mgr = Inr mgr'"
      "keys mgr' = lru_evict (nat (env_txstub_cap env)) (\<lambda>k. busy mgr k \<or> k \<in> batch_key ` set (batches st))
        (fold lru_use (map batch_key (batches st)) (keys mgr))"
      "map job_tasks (pool_jobs mgr') = map job_tasks (pool_jobs mgr) @ batches st"
    using do_submit_law [OF _ assms(2), of mgr env] by (elim exE conjE meta_impE) (assumption, blast)
  have "{k \<in> set (keys mgr). busy mgr k} \<union> batch_key ` set (batches st) \<subseteq> set (keys mgr')"
    unfolding m(2) by (intro subsetI lru_evict_busy) (auto simp: set_lru_uses)
  with m show ?thesis
    by blast
qed

abbreviation demo_steps :: step_tasks where
  "demo_steps \<equiv> [(''d'', [(0, [demo_task [] [] 0 2 True])])]"

lemma demo_steps_ok: "steps_ok demo_steps" "batches demo_steps = [[demo_task [] [] 0 2 True]]"
  by (simp_all add: steps_ok_def batches_def batch_ok_def demo_task_def)

lemma demo_submit:
  "submit_worker demo_env [demo_task [] [] 0 2 True] target_mgr_init =
   Inr \<lparr> targets = [\<lparr> tgt_id = 0, inflycnt = 1, thread_hint = 1, tgt_key = (''d'', 0), tgt_info = None \<rparr>],
         target_map = [''d'' \<mapsto> [Some 0]], next_id = 1, mgr_thread_hint = 1,
         pool_jobs = [\<lparr> job_target = 0, job_hint = 1, job_tasks = [demo_task [] [] 0 2 True] \<rparr>] \<rparr>"
  by (simp add: submit_worker_def create_or_get_def get_def peek_def create_def target_mgr_init_def demo_task_def u32_def)

theorem unfinished_jobs_safe_witness:
  "\<exists>p mgr j. (mgr_step demo_env)\<^sup>*\<^sup>* (Idle, target_mgr_init) (p, mgr) \<and> pool_jobs mgr = [j] \<and>
     (\<exists>mgr'. finish_job demo_env j mgr = Inr mgr') \<and> (\<exists>mgr'. do_submit demo_env demo_steps mgr = Inr mgr')"
proof -
  let ?j = "\<lparr> job_target = 0, job_hint = 1, job_tasks = [demo_task [] [] 0 2 True] \<rparr>"
  obtain mgr where m: "submit_worker demo_env [demo_task [] [] 0 2 True] target_mgr_init = Inr mgr" "pool_jobs mgr = [?j]"
    using demo_submit by simp
  have "mgr_step demo_env (Idle, target_mgr_init) (Submitting [[demo_task [] [] 0 2 True]], target_mgr_init)"
    using begin_submit [OF demo_steps_ok(1)] unfolding demo_steps_ok(2) .
  moreover have "mgr_step demo_env (Submitting [[demo_task [] [] 0 2 True]], target_mgr_init) (Submitting [], mgr)"
    by (rule next_worker [OF m(1)])
  ultimately have reach: "(mgr_step demo_env)\<^sup>*\<^sup>* (Idle, target_mgr_init) (Submitting [], mgr)"
    by (meson converse_rtranclp_into_rtranclp r_into_rtranclp)
  from unfinished_jobs_safe [OF reach, of ?j] have "\<exists>mgr'. finish_job demo_env ?j mgr = Inr mgr'" "\<exists>mgr'. do_submit demo_env demo_steps mgr = Inr mgr'"
    using m(2) demo_steps_ok(1) by simp_all
  with reach m(2) show ?thesis
    by blast
qed

theorem do_submit_refines_lru_witness:
  "\<exists>mgr'. do_submit demo_env demo_steps target_mgr_init = Inr mgr' \<and> (''d'', 0) \<in> set (keys mgr')"
  using do_submit_refines_lru [OF rtranclp.rtrancl_refl demo_steps_ok(1), of demo_env] unfolding demo_steps_ok(2)
  by (auto simp: demo_task_def)

end
