(* ===== verification/StepSync.thy ===== *)
theory StepSync
  imports KvtPrelude
begin

text \<open>
  The layer signals of a step: \<open>SyncSemaphore\<close> (\<open>semaphore.cpp\<close>), \<open>Step\<close> and \<open>StepGuard\<close>
  (\<open>step.cpp\<close>). The Python thread announces recorded events and the end of the step, the waiter thread runs
  \<open>wait_layers\<close>, and the sending threads wait for the layers. Every operation on a semaphore is atomic because
  it holds the mutex; the threads interleave between the operations.
\<close>

section \<open>The semaphore\<close>

type_synonym sync_semaphore = nat

definition sem_wait_passes :: "nat \<Rightarrow> sync_semaphore \<Rightarrow> bool" where
  "sem_wait_passes cnd ready \<longleftrightarrow> ready > cnd"

definition sem_release :: "sync_semaphore \<Rightarrow> sync_semaphore" where
  "sem_release ready = u32 (ready + 1)"

definition sem_release_to :: "nat \<Rightarrow> sync_semaphore \<Rightarrow> sync_semaphore" where
  "sem_release_to cnd ready = (if ready < cnd then cnd else ready)"

section \<open>The step\<close>

text \<open>Where the waiter is in \<open>StepGuard::wait_layers\<close>.\<close>

datatype waiter_pc = WStart | WRecord nat | WBarrier nat | WNotify nat | WDone

text \<open>
  The two semaphores of a step, the position of the waiter, and three ghost components: the number of announced
  events, the layers whose CUDA event has been awaited, and the layers that a sender has gone on to send.
\<close>

record step_state =
  record_signal :: sync_semaphore
  data_signal :: sync_semaphore
  waiter :: waiter_pc
  announced :: nat
  flushed :: bool
  awaited :: "nat set"
  sending :: "nat set"

definition step_init :: step_state where
  "step_init = \<lparr> record_signal = 0, data_signal = 0, waiter = WStart, announced = 0, flushed = False, awaited = {}, sending = {} \<rparr>"

definition after_record_one :: "step_state \<Rightarrow> step_state" where
  "after_record_one s = s\<lparr>record_signal := sem_release (record_signal s), announced := announced s + 1\<rparr>"

definition layer_ready_all :: "nat \<Rightarrow> step_state \<Rightarrow> step_state" where
  "layer_ready_all num_layers s = s\<lparr>record_signal := sem_release_to num_layers (record_signal s), flushed := True\<rparr>"

definition notify_layer_ready :: "nat \<Rightarrow> step_state \<Rightarrow> nat \<times> step_state" where
  "notify_layer_ready layer_i s =
     (let ready = sem_release_to layer_i (data_signal s) in (ready, s\<lparr>data_signal := ready\<rparr>))"

definition wait_layer_ready :: "nat \<Rightarrow> step_state \<Rightarrow> step_state option" where
  "wait_layer_ready layer_i s =
     (if sem_wait_passes layer_i (data_signal s) then Some (s\<lparr>sending := insert layer_i (sending s)\<rparr>) else None)"

text \<open>One step of \<open>wait_layers\<close>; \<^term>\<open>None\<close> if it is blocked or has returned.\<close>

definition loop_head :: "nat \<Rightarrow> nat \<Rightarrow> waiter_pc" where
  "loop_head num_layers layer_i = (if layer_i < num_layers then WRecord layer_i else WDone)"

definition wait_layers_step :: "bool \<Rightarrow> nat \<Rightarrow> step_state \<Rightarrow> step_state result option" where
  "wait_layers_step nd num_layers s =
     (case waiter s of
        WStart \<Rightarrow>
          (let (val, s) = notify_layer_ready 0 s
           in Some (if val > 0 then c_assert nd (val = num_layers) (Inr (s\<lparr>waiter := WDone\<rparr>))
                    else Inr (s\<lparr>waiter := loop_head num_layers 0\<rparr>)))
      | WRecord layer_i \<Rightarrow>
          if sem_wait_passes layer_i (record_signal s) then Some (Inr (s\<lparr>waiter := WBarrier layer_i\<rparr>)) else None
      | WBarrier layer_i \<Rightarrow> Some (Inr (s\<lparr>waiter := WNotify layer_i, awaited := insert layer_i (awaited s)\<rparr>))
      | WNotify layer_i \<Rightarrow>
          (let next_layer = layer_i + 1;
               (val, s) = notify_layer_ready next_layer s
           in Some (if val > next_layer then c_assert nd (val = num_layers) (Inr (s\<lparr>waiter := WDone\<rparr>))
                    else Inr (s\<lparr>waiter := loop_head num_layers next_layer\<rparr>)))
      | WDone \<Rightarrow> None)"

section \<open>Interleavings\<close>

inductive sync_step :: "bool \<Rightarrow> nat \<Rightarrow> step_state \<Rightarrow> step_state \<Rightarrow> bool" for nd n where
  notify_event: "\<not> flushed s \<Longrightarrow> sync_step nd n s (after_record_one s)"
| flush: "\<not> flushed s \<Longrightarrow> sync_step nd n s (layer_ready_all n s)"
| wait: "wait_layers_step nd n s = Some (Inr s') \<Longrightarrow> sync_step nd n s s'"
| send: "wait_layer_ready i s = Some s' \<Longrightarrow> sync_step nd n s s'"

fun passed :: "nat \<Rightarrow> waiter_pc \<Rightarrow> nat" where
  "passed n WStart = 0"
| "passed n (WRecord i) = i"
| "passed n (WBarrier i) = i"
| "passed n (WNotify i) = i"
| "passed n WDone = n"

fun pc_ok :: "nat \<Rightarrow> step_state \<Rightarrow> waiter_pc \<Rightarrow> bool" where
  "pc_ok n s (WRecord i) = (i < n)"
| "pc_ok n s (WBarrier i) = (i < n \<and> (i < announced s \<or> flushed s))"
| "pc_ok n s (WNotify i) = (i < n \<and> i \<in> awaited s)"
| "pc_ok n s _ = True"

definition sync_inv :: "nat \<Rightarrow> step_state \<Rightarrow> bool" where
  "sync_inv n s \<longleftrightarrow> data_signal s = passed n (waiter s) \<and> pc_ok n s (waiter s) \<and>
     {..<data_signal s} \<subseteq> awaited s \<and> sending s \<subseteq> {..<data_signal s} \<and>
     (\<forall>i\<in>awaited s. i < n \<and> (i < announced s \<or> flushed s)) \<and>
     (if flushed s then n \<le> record_signal s else record_signal s \<le> announced s)"

lemmas sync_defs = sem_wait_passes_def sem_release_def sem_release_to_def after_record_one_def layer_ready_all_def
  notify_layer_ready_def wait_layer_ready_def loop_head_def wait_layers_step_def

lemma sync_inv_init: "sync_inv n step_init"
  by (simp add: sync_inv_def step_init_def)

lemma u32_Suc_le: "u32 (Suc k) \<le> Suc k"
  by (simp add: u32_def)

lemma sync_inv_record: "sync_inv n s \<Longrightarrow> \<not> flushed s \<Longrightarrow> sync_inv n (after_record_one s)"
  using u32_Suc_le [of "record_signal s"]
  by (cases "waiter s") (auto simp: sync_inv_def after_record_one_def sem_release_def)

lemma sync_inv_flush: "sync_inv n s \<Longrightarrow> sync_inv n (layer_ready_all n s)"
  by (cases "waiter s") (auto simp: sync_inv_def layer_ready_all_def sem_release_to_def)

lemma sync_inv_send: "sync_inv n s \<Longrightarrow> wait_layer_ready i s = Some s' \<Longrightarrow> sync_inv n s'"
  by (cases "waiter s") (auto simp: sync_inv_def wait_layer_ready_def sem_wait_passes_def split: if_splits)

lemma wait_layers_ok: "sync_inv n s \<Longrightarrow> wait_layers_step nd n s = Some r \<Longrightarrow> \<exists>s'. r = Inr s'"
  by (cases "waiter s") (auto simp: sync_inv_def sync_defs split: if_splits)

lemma sync_inv_wait:
  assumes "sync_inv n s" and "wait_layers_step nd n s = Some (Inr s')"
  shows "sync_inv n s' \<and> flushed s' = flushed s"
proof (cases "waiter s")
  case (WNotify i)
  have "s' = s\<lparr>data_signal := Suc i, waiter := loop_head n (Suc i)\<rparr>"
    using assms WNotify by (auto simp: sync_inv_def sync_defs)
  moreover have "{..<Suc i} \<subseteq> awaited s" "i < n"
    using assms(1) WNotify by (auto simp: sync_inv_def lessThan_Suc)
  ultimately show ?thesis
    using assms(1) WNotify by (auto simp: sync_inv_def loop_head_def)
qed (use assms in \<open>auto simp: sync_inv_def sync_defs split: if_splits\<close>)

lemma sync_reach_inv: "(sync_step nd n)\<^sup>*\<^sup>* step_init s \<Longrightarrow> sync_inv n s"
proof (induction rule: rtranclp_induct)
  case (step s s')
  from step(2) show ?case
    by cases (use step(3) in \<open>auto intro: sync_inv_record sync_inv_flush sync_inv_send dest: sync_inv_wait\<close>)
qed (rule sync_inv_init)

section \<open>Progress\<close>

text \<open>The steps that the waiter still has to take.\<close>

fun remaining :: "nat \<Rightarrow> waiter_pc \<Rightarrow> nat" where
  "remaining n WStart = Suc (3 * n)"
| "remaining n (WRecord i) = 3 * (n - i)"
| "remaining n (WBarrier i) = 3 * (n - i) - 1"
| "remaining n (WNotify i) = 3 * (n - i) - 2"
| "remaining n WDone = 0"

lemma wait_layers_progress:
  assumes "sync_inv n s" and "flushed s" and "waiter s \<noteq> WDone"
  shows "\<exists>s'. wait_layers_step nd n s = Some (Inr s') \<and> Suc (remaining n (waiter s')) = remaining n (waiter s)"
  using assms by (cases "waiter s") (auto simp: sync_inv_def sync_defs)

text \<open>The waiter runs alone for \<open>k\<close> steps.\<close>

fun wait_layers_run :: "bool \<Rightarrow> nat \<Rightarrow> nat \<Rightarrow> step_state \<Rightarrow> step_state result option" where
  "wait_layers_run nd n 0 s = Some (Inr s)"
| "wait_layers_run nd n (Suc k) s =
     (case wait_layers_step nd n s of
        Some (Inr s') \<Rightarrow> wait_layers_run nd n k s'
      | r \<Rightarrow> r)"

lemma wait_layers_run_done:
  "sync_inv n s \<Longrightarrow> flushed s \<Longrightarrow> remaining n (waiter s) = k \<Longrightarrow>
   \<exists>s'. wait_layers_run nd n k s = Some (Inr s') \<and> waiter s' = WDone \<and> data_signal s' = n"
proof (induction k arbitrary: s)
  case 0
  then have "waiter s = WDone"
    by (cases "waiter s") (auto simp: sync_inv_def)
  then show ?case
    using 0 by (simp add: sync_inv_def)
next
  case (Suc k)
  then obtain s' where s': "wait_layers_step nd n s = Some (Inr s')" "remaining n (waiter s') = k"
    using wait_layers_progress [of n s nd] by fastforce
  then show ?case
    using Suc.IH [of s'] sync_inv_wait [OF Suc.prems(1) s'(1)] Suc.prems(2) by simp
qed

section \<open>Properties\<close>

text \<open>
  C3. A layer is sent only when its data is there: in every interleaving of the Python thread, the waiter and the senders, a
  sender goes past \<open>wait_layer_ready(i)\<close> only for a layer of the model, only after the waiter has returned from the
  CUDA barrier of that layer, and the waiter has called that barrier only after the event of the layer was announced or
  the step was flushed. No assertion of \<open>wait_layers\<close> fails.
\<close>

theorem layer_sent_after_event:
  assumes "(sync_step nd n)\<^sup>*\<^sup>* step_init s"
  shows "(\<forall>i\<in>sending s. i < n \<and> i \<in> awaited s \<and> (i < announced s \<or> flushed s)) \<and>
    (\<forall>i. waiter s = WBarrier i \<longrightarrow> i < announced s \<or> flushed s) \<and>
    (\<forall>e. wait_layers_step nd n s \<noteq> Some (Inl e))"
proof -
  have inv: "sync_inv n s"
    by (rule sync_reach_inv [OF assms])
  then have "sending s \<subseteq> awaited s" "\<forall>i\<in>awaited s. i < n \<and> (i < announced s \<or> flushed s)"
    by (auto simp: sync_inv_def)
  moreover have "\<forall>i. waiter s = WBarrier i \<longrightarrow> i < announced s \<or> flushed s"
    using inv by (auto simp: sync_inv_def)
  ultimately show ?thesis
    using wait_layers_ok [OF inv] by blast
qed


theorem layer_sent_after_event_witness:
  "\<exists>s. (sync_step False 1)\<^sup>*\<^sup>* step_init s \<and> sending s = {0} \<and> 0 \<in> awaited s"
proof -
  let ?s1 = "layer_ready_all 1 step_init"
  obtain s2 where s2: "wait_layers_run False 1 4 ?s1 = Some (Inr s2)" "sending s2 = {}" "data_signal s2 = 1"
    by (simp add: sync_defs step_init_def numeral_eq_Suc)
  have "(sync_step nd n)\<^sup>*\<^sup>* s t" if "wait_layers_run nd n k s = Some (Inr t)" for nd n k s t
    using that
    by (induction k arbitrary: s) (auto split: option.splits sum.splits intro: converse_rtranclp_into_rtranclp sync_step.wait)
  from this [OF s2(1)] have "(sync_step False 1)\<^sup>*\<^sup>* ?s1 s2" .
  moreover have "sync_step False 1 step_init ?s1"
    by (rule flush) (simp add: step_init_def)
  moreover have "sync_step False 1 s2 (s2\<lparr>sending := {0}\<rparr>)"
    using s2 by (intro send [of 0]) (simp add: wait_layer_ready_def sem_wait_passes_def)
  ultimately have reach: "(sync_step False 1)\<^sup>*\<^sup>* step_init (s2\<lparr>sending := {0}\<rparr>)"
    by (meson converse_rtranclp_into_rtranclp rtranclp.rtrancl_into_rtrancl)
  with layer_sent_after_event [OF this] show ?thesis
    by (intro exI [of _ "s2\<lparr>sending := {0}\<rparr>"]) simp
qed


end
