(* ===== verification/WorkerCodec.thy ===== *)
theory WorkerCodec
  imports KvtCommon
begin

text \<open>
  The text form of a worker (\<open>common.cpp\<close>): \<open>WorkerInfo::to_string\<close>, which a worker advertises, and
  \<open>WorkerInfo::from_string\<close>, which also reads the shorter forms of older versions. Numbers are cut to the width
  of the field they are stored in, as the assignments of the code do.
\<close>

section \<open>Definitions\<close>

definition join_sizes :: "nat list \<Rightarrow> string" where
  "join_sizes v = join_with CHR ''|'' (map show_nat v)"

fun parse_size_tokens :: "string list \<Rightarrow> nat list \<Rightarrow> nat list result" where
  "parse_size_tokens [] out = Inr out"
| "parse_size_tokens (token # rest) out =
     (if token \<noteq> [] then rbind (stoul token) (\<lambda>n. parse_size_tokens rest (out @ [n]))
      else parse_size_tokens rest out)"

definition parse_sizes :: "string \<Rightarrow> nat list result" where
  "parse_sizes s = parse_size_tokens (split_on CHR ''|'' s) []"

definition is_numeric_token :: "string \<Rightarrow> bool" where
  "is_numeric_token s \<longleftrightarrow> s \<noteq> [] \<and> list_all is_digit s"

definition worker_fields :: "worker_info \<Rightarrow> string list" where
  "worker_fields w =
     [inst_id w, show_nat (worker_id w), show_nat (engine_tp_size w), show_nat (worker_tp_rank w), join_sizes (block_sizes w),
      join_sizes (token_sizes w), show_nat (layer_num_blocks w), show_nat (num_layers w), show_nat (transfer_protocols w),
      show_nat (attn_kernel_blk_ntpb w), show_nat (indexer_blk_ntpb w), show_nat (attn_pack_size w), show_nat (kda_page_stride w)]"

definition worker_to_string :: "worker_info \<Rightarrow> string result" where
  "worker_to_string w =
     (if length (inst_id w) > MAX_INSTANCE_NAME_LEN then Inl RuntimeError
      else if addr w \<noteq> [] then
        if length (addr w) > MAX_ADDRESS_LEN then Inl RuntimeError
        else Inr (join_with CHR '','' (worker_fields w @ [addr w]))
      else Inr (join_with CHR '','' (worker_fields w)))"

abbreviation u8 :: "nat \<Rightarrow> nat" where
  "u8 n \<equiv> n mod 256"

text \<open>The eleven fields that every version writes.\<close>

definition read_common_fields :: "string list \<Rightarrow> worker_info result" where
  "read_common_fields tmp =
     rbind (stoul (tmp ! 1)) (\<lambda>wid.
     rbind (stoul (tmp ! 2)) (\<lambda>tp.
     rbind (stoul (tmp ! 3)) (\<lambda>rank.
     rbind (parse_sizes (tmp ! 4)) (\<lambda>bsizes.
     rbind (parse_sizes (tmp ! 5)) (\<lambda>tsizes.
     rbind (stoul (tmp ! 6)) (\<lambda>nblocks.
     rbind (stoul (tmp ! 7)) (\<lambda>nlayers.
     rbind (stoul (tmp ! 8)) (\<lambda>protos.
     rbind (stoul (tmp ! 9)) (\<lambda>attn.
     rbind (stoul (tmp ! 10)) (\<lambda>idx.
     Inr (worker_info_default\<lparr>inst_id := tmp ! 0, worker_id := u32 wid, engine_tp_size := u32 tp, worker_tp_rank := u32 rank,
       block_sizes := bsizes, token_sizes := tsizes, layer_num_blocks := u32 nblocks, num_layers := u32 nlayers,
       transfer_protocols := u8 protos, attn_kernel_blk_ntpb := u32 attn, indexer_blk_ntpb := u32 idx,
       attn_pack_size := 1, kda_page_stride := 0\<rparr>)))))))))))"

definition read_tail_fields :: "string list \<Rightarrow> worker_info \<Rightarrow> worker_info result" where
  "read_tail_fields tmp w =
     (if length tmp = 11 then Inr w
      else if length tmp = 12 then
        if is_numeric_token (tmp ! 11) then rbind (stoul (tmp ! 11)) (\<lambda>p. Inr (w\<lparr>attn_pack_size := u32 p\<rparr>))
        else Inr (w\<lparr>addr := tmp ! 11\<rparr>)
      else if length tmp = 13 then
        rbind (stoul (tmp ! 11)) (\<lambda>p.
        if is_numeric_token (tmp ! 12) then rbind (stoul (tmp ! 12)) (\<lambda>k. Inr (w\<lparr>attn_pack_size := u32 p, kda_page_stride := k\<rparr>))
        else Inr (w\<lparr>attn_pack_size := u32 p, addr := tmp ! 12\<rparr>))
      else
        rbind (stoul (tmp ! 11)) (\<lambda>p.
        rbind (stoul (tmp ! 12)) (\<lambda>k.
        Inr (w\<lparr>attn_pack_size := u32 p, kda_page_stride := k, addr := tmp ! 13\<rparr>))))"

definition worker_from_string :: "string \<Rightarrow> worker_info result" where
  "worker_from_string src =
     (let tmp = split_on CHR '','' src
      in if length tmp < 11 \<or> length tmp > 14 then Inl RuntimeError
         else
           rbind (read_common_fields tmp) (\<lambda>w.
           rbind (read_tail_fields tmp w) (\<lambda>w.
           Inr (if attn_pack_size w = 0 then w\<lparr>attn_pack_size := 1\<rparr> else w))))"

text \<open>The optional text that the client receives with a request.\<close>

definition parse_worker_info :: "string option \<Rightarrow> worker_info option result" where
  "parse_worker_info s = (case s of None \<Rightarrow> Inr None | Some s \<Rightarrow> rbind (worker_from_string s) (\<lambda>w. Inr (Some w)))"

section \<open>Values that have a text form\<close>

text \<open>The types of the fields, and what the format needs on top of them.\<close>

definition worker_typed :: "worker_info \<Rightarrow> bool" where
  "worker_typed w \<longleftrightarrow> worker_id w < 2 ^ 32 \<and> engine_tp_size w < 2 ^ 32 \<and> worker_tp_rank w < 2 ^ 32 \<and>
     (\<forall>n\<in>set (block_sizes w). n < 2 ^ 64) \<and> (\<forall>n\<in>set (token_sizes w). n < 2 ^ 64) \<and> layer_num_blocks w < 2 ^ 32 \<and>
     num_layers w < 2 ^ 32 \<and> transfer_protocols w < 256 \<and> attn_kernel_blk_ntpb w < 2 ^ 32 \<and> indexer_blk_ntpb w < 2 ^ 32 \<and>
     attn_pack_size w < 2 ^ 32 \<and> kda_page_stride w < 2 ^ 64"

definition worker_text_ok :: "worker_info \<Rightarrow> bool" where
  "worker_text_ok w \<longleftrightarrow> worker_typed w \<and> 0 < attn_pack_size w \<and> CHR '','' \<notin> set (inst_id w) \<and> CHR '','' \<notin> set (addr w) \<and>
     length (inst_id w) \<le> MAX_INSTANCE_NAME_LEN \<and> length (addr w) \<le> MAX_ADDRESS_LEN"

text \<open>What the other side gets to know: the fields that are not sent have their defaults.\<close>

definition wire_view :: "worker_info \<Rightarrow> worker_info" where
  "wire_view w = worker_info_default\<lparr>inst_id := inst_id w, worker_id := worker_id w, engine_tp_size := engine_tp_size w,
     worker_tp_rank := worker_tp_rank w, block_sizes := block_sizes w, token_sizes := token_sizes w,
     layer_num_blocks := layer_num_blocks w, num_layers := num_layers w, transfer_protocols := transfer_protocols w,
     attn_kernel_blk_ntpb := attn_kernel_blk_ntpb w, indexer_blk_ntpb := indexer_blk_ntpb w, attn_pack_size := attn_pack_size w,
     kda_page_stride := kda_page_stride w, addr := addr w\<rparr>"

section \<open>Lemmas\<close>

lemma show_nat_no_sep: "CHR '','' \<notin> set (show_nat n)" "CHR ''|'' \<notin> set (show_nat n)"
  using show_nat_digits digit_not_special(4,5) by blast+

lemma join_sizes_no_sep: "CHR '','' \<notin> set (join_sizes v)"
proof
  assume "CHR '','' \<in> set (join_sizes v)"
  then have "CHR '','' \<in> insert CHR ''|'' (\<Union>s\<in>set (map show_nat v). set s)"
    using set_join_with [of "CHR ''|''" "map show_nat v"] by (auto simp: join_sizes_def)
  then show False
    by (auto simp: show_nat_no_sep)
qed

lemma parse_size_tokens_show:
  "\<forall>n\<in>set v. n < 2 ^ 64 \<Longrightarrow> parse_size_tokens (map show_nat v) out = Inr (out @ v)"
  by (induction v arbitrary: out) auto

lemma parse_join_sizes: "\<forall>n\<in>set v. n < 2 ^ 64 \<Longrightarrow> parse_sizes (join_sizes v) = Inr v"
proof (cases "v = []")
  case False
  assume v: "\<forall>n\<in>set v. n < 2 ^ 64"
  have "split_on CHR ''|'' (join_sizes v) = map show_nat v"
    unfolding join_sizes_def using False by (intro split_on_join) (auto simp: show_nat_no_sep)
  then show ?thesis
    using parse_size_tokens_show [OF v, of "[]"] by (simp add: parse_sizes_def)
qed (simp add: parse_sizes_def join_sizes_def)

lemma numeric_show_nat: "is_numeric_token (show_nat n)"
  using show_nat_digits [of _ n] by (auto simp: is_numeric_token_def list_all_iff)

lemma worker_fields_no_sep: "CHR '','' \<notin> set (inst_id w) \<Longrightarrow> \<forall>s\<in>set (worker_fields w). CHR '','' \<notin> set s"
  by (simp add: worker_fields_def show_nat_no_sep join_sizes_no_sep)

lemma read_common_worker_fields:
  assumes "worker_typed w"
  shows "read_common_fields (worker_fields w) = Inr ((wire_view w)\<lparr>attn_pack_size := 1, kda_page_stride := 0, addr := []\<rparr>)"
  using assms unfolding read_common_fields_def worker_typed_def
  by (simp add: worker_fields_def parse_join_sizes wire_view_def worker_info_default_def u32_id)

lemma from_string_fields:
  assumes "worker_typed w" and "tmp = take n (worker_fields w) @ xs" and "11 \<le> n" and "length tmp \<in> {11..14}"
    and "\<forall>s\<in>set tmp. CHR '','' \<notin> set s"
  shows "worker_from_string (join_with CHR '','' tmp) =
    rbind (read_tail_fields tmp ((wire_view w)\<lparr>attn_pack_size := 1, kda_page_stride := 0, addr := []\<rparr>)) (\<lambda>w.
    Inr (if attn_pack_size w = 0 then w\<lparr>attn_pack_size := 1\<rparr> else w))"
proof -
  have split: "split_on CHR '','' (join_with CHR '','' tmp) = tmp"
    using assms(4,5) by (intro split_on_join) auto
  have "i < 11 \<Longrightarrow> tmp ! i = worker_fields w ! i" for i
    using assms(3) by (simp add: assms(2) nth_append worker_fields_def)
  then have "read_common_fields tmp = read_common_fields (worker_fields w)"
    by (simp add: read_common_fields_def)
  then show ?thesis
    using assms(4) by (simp add: worker_from_string_def split read_common_worker_fields [OF assms(1)])
qed

lemma worker_from_to_string:
  assumes "worker_text_ok w"
  shows "\<exists>s. worker_to_string w = Inr s \<and> worker_from_string s = Inr (wire_view w)"
proof -
  have w: "worker_typed w" "0 < attn_pack_size w" "CHR '','' \<notin> set (inst_id w)" "CHR '','' \<notin> set (addr w)"
      "length (inst_id w) \<le> MAX_INSTANCE_NAME_LEN" "length (addr w) \<le> MAX_ADDRESS_LEN"
    using assms by (auto simp: worker_text_ok_def)
  have small: "attn_pack_size w < 2 ^ 32" "kda_page_stride w < 2 ^ 64"
    using w(1) by (auto simp: worker_typed_def)
  let ?tmp = "worker_fields w @ (if addr w = [] then [] else [addr w])"
  have sep: "\<forall>s\<in>set ?tmp. CHR '','' \<notin> set s"
    using worker_fields_no_sep [OF w(3)] w(4) by auto
  have len: "length (worker_fields w) = 13"
    by (simp add: worker_fields_def)
  have tail: "?tmp ! 11 = show_nat (attn_pack_size w)" "?tmp ! 12 = show_nat (kda_page_stride w)" "addr w \<noteq> [] \<Longrightarrow> ?tmp ! 13 = addr w"
    by (simp_all add: worker_fields_def)
  have "worker_to_string w = Inr (join_with CHR '','' ?tmp)"
    using w by (simp add: worker_to_string_def)
  moreover have "worker_from_string (join_with CHR '','' ?tmp) = Inr (wire_view w)"
    using small w(2) len tail
    by (subst from_string_fields [OF w(1), of ?tmp 13 "if addr w = [] then [] else [addr w]"])
       (use sep in \<open>auto simp: read_tail_fields_def numeric_show_nat u32_id wire_view_def worker_info_default_def\<close>)
  ultimately show ?thesis
    by blast
qed

text \<open>Whatever the text is, the fields of the result are in range.\<close>

lemma stoul_less: "stoul s = Inr n \<Longrightarrow> n < 2 ^ 64"
  by (auto simp: stoul_def u64_less split: prod.splits if_splits)

lemma parse_size_tokens_less:
  "parse_size_tokens ts out = Inr v \<Longrightarrow> \<forall>n\<in>set out. n < 2 ^ 64 \<Longrightarrow> \<forall>n\<in>set v. n < 2 ^ 64"
  by (induction ts out rule: parse_size_tokens.induct) (auto simp: rbind_eq_Inr_iff split: if_splits dest: stoul_less [simplified])

lemma read_common_typed: "read_common_fields tmp = Inr w \<Longrightarrow> worker_typed w \<and> attn_pack_size w = 1 \<and> addr w = [] \<and> wire_view w = w"
  unfolding read_common_fields_def parse_sizes_def
  by (auto simp: rbind_eq_Inr_iff worker_typed_def wire_view_def worker_info_default_def dest: parse_size_tokens_less [simplified])

lemma wire_view_update:
  "wire_view (w\<lparr>attn_pack_size := p\<rparr>) = (wire_view w)\<lparr>attn_pack_size := p\<rparr>"
  "wire_view (w\<lparr>kda_page_stride := k\<rparr>) = (wire_view w)\<lparr>kda_page_stride := k\<rparr>"
  "wire_view (w\<lparr>addr := a\<rparr>) = (wire_view w)\<lparr>addr := a\<rparr>"
  by (simp_all add: wire_view_def)

lemma worker_typed_update:
  "worker_typed w \<Longrightarrow> p < 2 ^ 32 \<Longrightarrow> worker_typed (w\<lparr>attn_pack_size := p\<rparr>)"
  "worker_typed w \<Longrightarrow> k < 2 ^ 64 \<Longrightarrow> worker_typed (w\<lparr>kda_page_stride := k\<rparr>)"
  "worker_typed w \<Longrightarrow> worker_typed (w\<lparr>addr := a\<rparr>)"
  by (simp_all add: worker_typed_def)

lemma read_tail_typed:
  assumes "read_tail_fields tmp w = Inr w'" and "worker_typed w" and "wire_view w = w"
  shows "worker_typed w' \<and> wire_view w' = w'"
proof -
  have "w' = w \<or> (\<exists>a. w' = w\<lparr>addr := a\<rparr>) \<or> (\<exists>p. w' = w\<lparr>attn_pack_size := u32 p\<rparr>) \<or>
      (\<exists>p a. w' = w\<lparr>attn_pack_size := u32 p, addr := a\<rparr>) \<or> (\<exists>p k. k < 2 ^ 64 \<and> w' = w\<lparr>attn_pack_size := u32 p, kda_page_stride := k\<rparr>) \<or>
      (\<exists>p k a. k < 2 ^ 64 \<and> w' = w\<lparr>attn_pack_size := u32 p, kda_page_stride := k, addr := a\<rparr>)"
    using assms(1) unfolding read_tail_fields_def
    by (clarsimp simp: rbind_eq_Inr_iff split: if_splits) (metis stoul_less [simplified])+
  then show ?thesis
    using assms(2,3) by (elim disjE exE conjE) (simp_all add: wire_view_update worker_typed_update)
qed

lemma rbind_Inl_cases: "rbind m f = Inl e \<Longrightarrow> (m = Inl e \<Longrightarrow> P) \<Longrightarrow> (\<And>x. m = Inr x \<Longrightarrow> f x = Inl e \<Longrightarrow> P) \<Longrightarrow> P"
  by (cases m) simp_all

lemma stoul_error: "stoul s = Inl e \<Longrightarrow> e \<in> {InvalidArgument, OutOfRange}"
  by (auto simp: stoul_def split: prod.splits if_splits)

lemma parse_sizes_error: "parse_sizes s = Inl e \<Longrightarrow> e \<in> {InvalidArgument, OutOfRange}"
proof -
  have "parse_size_tokens ts out = Inl e \<Longrightarrow> e \<in> {InvalidArgument, OutOfRange}" for ts out
    by (induction ts out rule: parse_size_tokens.induct) (auto elim!: rbind_Inl_cases dest: stoul_error split: if_splits)
  then show "parse_sizes s = Inl e \<Longrightarrow> e \<in> {InvalidArgument, OutOfRange}"
    by (auto simp: parse_sizes_def)
qed

lemma read_common_error: "read_common_fields tmp = Inl e \<Longrightarrow> e \<in> {InvalidArgument, OutOfRange}"
  unfolding read_common_fields_def
  by (elim rbind_Inl_cases) (erule stoul_error | erule parse_sizes_error | simp)+

lemma read_tail_error: "read_tail_fields tmp w = Inl e \<Longrightarrow> e \<in> {InvalidArgument, OutOfRange}"
  unfolding read_tail_fields_def by (auto elim!: rbind_Inl_cases dest!: stoul_error split: if_splits)

lemma worker_from_string_error: "worker_from_string s = Inl e \<Longrightarrow> e \<in> {RuntimeError, InvalidArgument, OutOfRange}"
  unfolding worker_from_string_def Let_def
  by (auto elim!: rbind_Inl_cases dest!: read_common_error read_tail_error split: if_splits)

section \<open>Properties\<close>

text \<open>
  C17. What a worker advertises is what the other side reads: if neither the instance name nor the address contains a comma
  and both are short enough, \<open>to_string\<close> succeeds and \<open>from_string\<close> returns the worker with every
  transmitted field, and the defaults in the others.
\<close>

theorem worker_info_roundtrip:
  assumes "worker_text_ok w"
  shows "\<exists>s. worker_to_string w = Inr s \<and> worker_from_string s = Inr (wire_view w) \<and> parse_worker_info (Some s) = Inr (Some (wire_view w))"
  using worker_from_to_string [OF assms] by (auto simp: parse_worker_info_def)

text \<open>
  \<open>from_string\<close> reads the texts of the older versions: without the page stride, and without the pack size as well,
  each with and without an address that is not a number.
\<close>

theorem worker_info_older_forms:
  assumes "worker_text_ok w" and "addr w \<noteq> []" and "\<not> is_numeric_token (addr w)"
  shows "worker_from_string (join_with CHR '','' (take 11 (worker_fields w))) =
      Inr ((wire_view w)\<lparr>attn_pack_size := 1, kda_page_stride := 0, addr := []\<rparr>) \<and>
    worker_from_string (join_with CHR '','' (take 11 (worker_fields w) @ [addr w])) =
      Inr ((wire_view w)\<lparr>attn_pack_size := 1, kda_page_stride := 0\<rparr>) \<and>
    worker_from_string (join_with CHR '','' (take 12 (worker_fields w))) = Inr ((wire_view w)\<lparr>kda_page_stride := 0, addr := []\<rparr>) \<and>
    worker_from_string (join_with CHR '','' (take 12 (worker_fields w) @ [addr w])) = Inr ((wire_view w)\<lparr>kda_page_stride := 0\<rparr>)"
proof -
  have w: "worker_typed w" "0 < attn_pack_size w" "attn_pack_size w < 2 ^ 32"
    using assms(1) by (auto simp: worker_text_ok_def worker_typed_def)
  have len: "length (worker_fields w) = 13" and f11: "worker_fields w ! 11 = show_nat (attn_pack_size w)"
    by (simp_all add: worker_fields_def)
  have sep: "\<forall>s\<in>set (take n (worker_fields w) @ xs). CHR '','' \<notin> set s" if "set xs \<subseteq> {addr w}" for n xs
    using worker_fields_no_sep [of w] assms(1) that by (auto simp: worker_text_ok_def dest!: in_set_takeD)
  note read = from_string_fields [OF w(1) refl _ _ sep]
  show ?thesis
    using read [of 11 "[]"] read [of 11 "[addr w]"] read [of 12 "[]"] read [of 12 "[addr w]"] w(2,3) assms(3)
    by (auto simp: len f11 nth_append read_tail_fields_def numeric_show_nat u32_id wire_view_def worker_info_default_def)
qed


definition demo_codec_worker :: worker_info where
  "demo_codec_worker = (worker_info_of_id ''p'' 3)\<lparr>addr := ''n1'', attn_pack_size := 2, kda_page_stride := 4096\<rparr>"

lemma demo_codec_worker_ok: "worker_text_ok demo_codec_worker" "addr demo_codec_worker = ''n1''"
  by (simp_all add: demo_codec_worker_def worker_text_ok_def worker_typed_def worker_info_of_id_def worker_info_default_def
      MAX_INSTANCE_NAME_LEN_def MAX_ADDRESS_LEN_def)

theorem worker_info_roundtrip_witness:
  "\<exists>s. worker_to_string demo_codec_worker = Inr s \<and> worker_from_string s = Inr (wire_view demo_codec_worker)"
  using worker_info_roundtrip [OF demo_codec_worker_ok(1)] by blast

theorem worker_info_older_forms_witness:
  "worker_from_string (join_with CHR '','' (take 12 (worker_fields demo_codec_worker) @ [''n1''])) =
     Inr ((wire_view demo_codec_worker)\<lparr>kda_page_stride := 0\<rparr>)"
  using worker_info_older_forms [OF demo_codec_worker_ok(1)] by (simp add: demo_codec_worker_ok(2) is_numeric_token_def is_digit_def)

end
