(* ===== verification/KvClient.thy ===== *)
theory KvClient
  imports TargetMgr StepSync WorkerCodec "HOL-Library.Multiset"
begin

text \<open>
  \<open>KvTransferClient\<close> (\<open>client.cpp\<close>): the grouping of requests into one batch per destination, the buffer of
  the main thread, the requests that are sent in several deltas, and the coordination of the main thread with the thread that
  adds requests to a running step. The calls of \<open>mgr_.submit\<close> are recorded in the queue of the manager thread, in
  their order. The hash map of a step is an association list; the theorems on the manager hold for every order of it.
\<close>

section \<open>State\<close>

record req_meta =
  rm_dst_inst :: string
  rm_dst_worker :: nat
  rm_reqid :: string
  rm_seen_tokens :: nat
  rm_new_tokens :: nat
  rm_src_block_ids :: block_ids
  rm_dst_block_ids :: block_ids
  rm_dst_worker_info :: "worker_info option"

record step_metas =
  sm_stepid :: nat
  sm_substepid :: nat
  sm_metas :: "req_meta list"

record tasks_buf =
  tb_tasks :: step_tasks
  tb_stepid :: nat
  tb_substepid :: nat

definition empty_buf :: tasks_buf where
  "empty_buf = \<lparr> tb_tasks = [], tb_stepid = 0, tb_substepid = 0 \<rparr>"

text \<open>A step object, identified by its address.\<close>

record client_step =
  cs_ref :: nat
  cs_step_idx :: nat

record kv_client =
  cl_reqs :: "string \<rightharpoonup> request_info list"
  cl_buf :: tasks_buf
  cl_coord_step_id :: nat
  cl_last_step_guard :: "client_step option"
  cl_pending :: "step_metas list"
  cl_sends :: "nat \<Rightarrow> nat \<times> bool"
  cl_steps :: "nat \<Rightarrow> step_state"
  cl_next_ref :: nat
  cl_queue :: "(client_step \<times> tasks_buf) list"

definition client_init :: kv_client where
  "client_init = \<lparr> cl_reqs = Map.empty, cl_buf = empty_buf, cl_coord_step_id = 0, cl_last_step_guard = None, cl_pending = [],
     cl_sends = (\<lambda>_. (UINT32_MAX, False)), cl_steps = (\<lambda>_. step_init), cl_next_ref = 0, cl_queue = [] \<rparr>"

section \<open>Grouping\<close>

fun put_worker :: "nat \<Rightarrow> req_send_task \<Rightarrow> (nat \<times> req_send_task list) list \<Rightarrow> (nat \<times> req_send_task list) list" where
  "put_worker w t [] = [(w, [t])]"
| "put_worker w t ((w', ts) # ws) = (if w' = w then (w', ts @ [t]) # ws else (w', ts) # put_worker w t ws)"

fun put_task :: "string \<Rightarrow> nat \<Rightarrow> req_send_task \<Rightarrow> step_tasks \<Rightarrow> step_tasks" where
  "put_task inst w t [] = [(inst, put_worker w t [])]"
| "put_task inst w t ((inst', ws) # st) =
     (if inst' = inst then (inst', put_worker w t ws) # st else (inst', ws) # put_task inst w t st)"

definition add_send_task ::
  "kvt_env \<Rightarrow> request_info \<Rightarrow> nat \<Rightarrow> nat \<Rightarrow> bool \<Rightarrow> tasks_buf \<times> (nat \<Rightarrow> nat \<times> bool) \<Rightarrow> (tasks_buf \<times> (nat \<Rightarrow> nat \<times> bool)) result" where
  "add_send_task env req seen new_toks has_last = (\<lambda>(buf, sends).
     rbind (update_send env seen new_toks has_last (sends (ri_ref req))) (\<lambda>st.
     Inr (buf\<lparr>tb_tasks := put_task (ri_dst_inst_id req) (ri_dst_worker_id req)
                \<lparr> task_req = req, seen_tokens = seen, new_tokens = new_toks, reach_last_token = has_last \<rparr> (tb_tasks buf)\<rparr>,
          sends(ri_ref req := st))))"

text \<open>A new request has a fresh address and the initial debug words.\<close>

definition new_request :: "req_meta \<Rightarrow> kv_client \<Rightarrow> request_info \<times> kv_client" where
  "new_request m cl =
     (\<lparr> ri_ref = cl_next_ref cl, ri_dst_inst_id = rm_dst_inst m, ri_dst_worker_id = rm_dst_worker m,
        ri_dst_worker_info = rm_dst_worker_info m, ri_req_id = rm_reqid m, ri_src_blocks = rm_src_block_ids m,
        ri_dst_blocks = rm_dst_block_ids m \<rparr>,
      cl\<lparr>cl_next_ref := Suc (cl_next_ref cl), cl_sends := (cl_sends cl)(cl_next_ref cl := (UINT32_MAX, False))\<rparr>)"

definition create_step_task :: "kvt_env \<Rightarrow> req_meta \<Rightarrow> tasks_buf \<times> kv_client \<Rightarrow> (tasks_buf \<times> kv_client) result" where
  "create_step_task env m = (\<lambda>(buf, cl).
     rt_assert (rm_new_tokens m > 0) (
     let (req, cl) = new_request m cl
     in rbind (add_send_task env req (rm_seen_tokens m) (rm_new_tokens m) True (buf, cl_sends cl)) (\<lambda>(buf, sends).
        Inr (buf, cl\<lparr>cl_sends := sends\<rparr>))))"

definition create_step_tasks :: "kvt_env \<Rightarrow> nat \<Rightarrow> nat \<Rightarrow> req_meta list \<Rightarrow> kv_client \<Rightarrow> (tasks_buf \<times> kv_client) result" where
  "create_step_tasks env stepid substepid metas cl =
     rfold (create_step_task env) metas (\<lparr> tb_tasks = [], tb_stepid = stepid, tb_substepid = substepid \<rparr>, cl)"

definition submit :: "client_step \<Rightarrow> tasks_buf \<Rightarrow> kv_client \<Rightarrow> kv_client" where
  "submit step buf cl = cl\<lparr>cl_queue := cl_queue cl @ [(step, buf)]\<rparr>"

definition new_step :: "nat \<Rightarrow> step_state \<Rightarrow> kv_client \<Rightarrow> client_step \<times> kv_client" where
  "new_step stepid st cl =
     (\<lparr> cs_ref = cl_next_ref cl, cs_step_idx = stepid \<rparr>,
      cl\<lparr>cl_next_ref := Suc (cl_next_ref cl), cl_steps := (cl_steps cl)(cl_next_ref cl := st)\<rparr>)"

section \<open>The calls of the main thread\<close>

definition bind_buf_step :: "nat \<Rightarrow> nat \<Rightarrow> tasks_buf \<Rightarrow> tasks_buf result" where
  "bind_buf_step stepid substepid buf =
     (if tb_tasks buf \<noteq> [] then rt_assert (tb_stepid buf = stepid) (rt_assert (tb_substepid buf = substepid) (Inr buf))
      else Inr (buf\<lparr>tb_stepid := stepid, tb_substepid := substepid\<rparr>))"

definition submit_req_send ::
  "kvt_env \<Rightarrow> req_meta \<Rightarrow> bool \<Rightarrow> string option \<Rightarrow> nat \<Rightarrow> nat \<Rightarrow> kv_client \<Rightarrow> kv_client result" where
  "submit_req_send env m has_last_token dst_worker_info stepid substepid cl =
     c_assert (ndebug env) (substepid = 0) (
     rt_assert (rm_new_tokens m > 0) (
     rbind (parse_worker_info dst_worker_info) (\<lambda>info.
     rbind (bind_buf_step stepid substepid (cl_buf cl)) (\<lambda>buf.
     let (req, cl) = new_request (m\<lparr>rm_dst_worker_info := info\<rparr>) cl
     in rbind (add_send_task env req (rm_seen_tokens m) (rm_new_tokens m) has_last_token (buf, cl_sends cl)) (\<lambda>(buf, sends).
        let cl = cl\<lparr>cl_buf := buf, cl_sends := sends\<rparr>
        in Inr (if has_last_token then cl
                else cl\<lparr>cl_reqs := (cl_reqs cl)(ri_req_id req \<mapsto>
                       (case cl_reqs cl (ri_req_id req) of None \<Rightarrow> [] | Some rs \<Rightarrow> rs) @ [req])\<rparr>))))))"

definition submit_delta_send :: "kvt_env \<Rightarrow> string \<Rightarrow> nat \<Rightarrow> nat \<Rightarrow> bool \<Rightarrow> nat \<Rightarrow> nat \<Rightarrow> kv_client \<Rightarrow> kv_client result" where
  "submit_delta_send env req_id seen new_toks has_last_token stepid substepid cl =
     c_assert (ndebug env) (substepid = 0) (
     rbind (bind_buf_step stepid substepid (cl_buf cl)) (\<lambda>buf.
     case cl_reqs cl req_id of
       None \<Rightarrow> Inr (cl\<lparr>cl_buf := buf\<rparr>)
     | Some rs \<Rightarrow>
         c_assert (ndebug env) (new_toks > 0 \<or> has_last_token) (
         rbind (rfold (\<lambda>req. add_send_task env req seen new_toks has_last_token) rs (buf, cl_sends cl)) (\<lambda>(buf, sends).
         Inr (cl\<lparr>cl_buf := buf, cl_sends := sends,
                  cl_reqs := (if has_last_token then (cl_reqs cl)(req_id := None) else cl_reqs cl)\<rparr>)))))"

definition EMPTY_STEP_ID :: nat where
  "EMPTY_STEP_ID = 9223372036854775807"

definition submit_pending :: "kvt_env \<Rightarrow> nat \<Rightarrow> client_step \<Rightarrow> step_metas \<Rightarrow> nat \<times> kv_client \<Rightarrow> (nat \<times> kv_client) result" where
  "submit_pending env stepid step p = (\<lambda>(substepid, cl).
     c_assert (ndebug env) (sm_stepid p = stepid) (
     c_assert (ndebug env) (substepid < sm_substepid p) (
     rbind (create_step_tasks env (sm_stepid p) (sm_substepid p) (sm_metas p) cl) (\<lambda>(buf, cl).
     c_assert (ndebug env) (tb_tasks buf \<noteq> []) (
     Inr (sm_substepid p, submit step buf cl))))))"

definition start_send :: "kvt_env \<Rightarrow> nat \<Rightarrow> nat \<Rightarrow> kv_client \<Rightarrow> (nat \<times> kv_client) result" where
  "start_send env stepid sched_tokens cl =
     (if sched_tokens = 0 \<and> tb_tasks (cl_buf cl) = [] then Inr (EMPTY_STEP_ID, cl)
      else
        (let (step, cl) = new_step stepid step_init cl;
             buf = cl_buf cl;
             cl = cl\<lparr>cl_buf := empty_buf\<rparr>
         in c_assert (ndebug env) (tb_tasks buf = [] \<or> tb_substepid buf = 0) (
            let cl = (if tb_tasks buf \<noteq> [] then submit step buf cl else cl)
            in c_assert (ndebug env) (cl_last_step_guard cl = None) (
               let pending = cl_pending cl;
                   cl = cl\<lparr>cl_coord_step_id := stepid, cl_last_step_guard := Some step, cl_pending := []\<rparr>
               in rbind (rfold (submit_pending env stepid step) pending (0, cl)) (\<lambda>(_, cl). Inr (stepid, cl))))))"

definition notify_event_record :: "kvt_env \<Rightarrow> nat \<Rightarrow> kv_client \<Rightarrow> kv_client result" where
  "notify_event_record env step_id cl =
     c_assert (ndebug env) (tb_tasks (cl_buf cl) = []) (
     case cl_last_step_guard cl of
       None \<Rightarrow> Inl KvtException
     | Some step \<Rightarrow>
         if cs_step_idx step \<noteq> step_id then Inl KvtException
         else Inr (cl\<lparr>cl_steps := (cl_steps cl)(cs_ref step := after_record_one (cl_steps cl (cs_ref step)))\<rparr>))"

definition flush_send :: "kvt_env \<Rightarrow> nat \<Rightarrow> nat \<Rightarrow> kv_client \<Rightarrow> kv_client result" where
  "flush_send env nlayers step_id cl =
     c_assert (ndebug env) (tb_tasks (cl_buf cl) = []) (
     case cl_last_step_guard cl of
       None \<Rightarrow> Inl KvtException
     | Some step \<Rightarrow>
         if cs_step_idx step \<noteq> step_id then Inl KvtException
         else
           (let cl = cl\<lparr>cl_steps := (cl_steps cl)(cs_ref step := layer_ready_all nlayers (cl_steps cl (cs_ref step)))\<rparr>
            in c_assert (ndebug env) (cl_pending cl = []) (Inr (cl\<lparr>cl_last_step_guard := None\<rparr>))))"

section \<open>The calls of the other thread\<close>

definition start_req_send :: "kvt_env \<Rightarrow> nat \<Rightarrow> req_meta list \<Rightarrow> nat \<Rightarrow> nat \<Rightarrow> kv_client \<Rightarrow> kv_client result" where
  "start_req_send env nlayers metas stepid substepid cl =
     rbind (create_step_tasks env stepid substepid metas cl) (\<lambda>(buf, cl).
     if tb_tasks buf = [] then Inr cl
     else
       (let (step, cl) = new_step stepid (snd (notify_layer_ready nlayers step_init)) cl
        in Inr (submit step buf cl)))"

text \<open>\<open>start_send_substep\<close> decides under the lock and acts after its release.\<close>

datatype substep_action = kPending | kAttachCurrent client_step | kNewFreeze

definition decide_substep :: "nat \<Rightarrow> nat \<Rightarrow> req_meta list \<Rightarrow> kv_client \<Rightarrow> (substep_action \<times> kv_client) result" where
  "decide_substep stepid substepid metas cl =
     (if stepid < cl_coord_step_id cl then Inr (kNewFreeze, cl)
      else if stepid > cl_coord_step_id cl then
        (let push = Inr (kPending, cl\<lparr>cl_pending := cl_pending cl @ [\<lparr> sm_stepid = stepid, sm_substepid = substepid, sm_metas = metas \<rparr>]\<rparr>)
         in if cl_pending cl \<noteq> [] then
              rt_assert (sm_stepid (last (cl_pending cl)) = stepid) (
              rt_assert (sm_substepid (last (cl_pending cl)) < substepid) push)
            else push)
      else case cl_last_step_guard cl of
             Some step \<Rightarrow> Inr (kAttachCurrent step, cl)
           | None \<Rightarrow> Inr (kNewFreeze, cl))"

definition perform_substep ::
  "kvt_env \<Rightarrow> nat \<Rightarrow> substep_action \<Rightarrow> nat \<Rightarrow> nat \<Rightarrow> req_meta list \<Rightarrow> kv_client \<Rightarrow> kv_client result" where
  "perform_substep env nlayers action stepid substepid metas cl =
     (case action of
        kPending \<Rightarrow> Inr cl
      | kNewFreeze \<Rightarrow> start_req_send env nlayers metas stepid substepid cl
      | kAttachCurrent step \<Rightarrow>
          rbind (create_step_tasks env stepid substepid metas cl) (\<lambda>(buf, cl).
          c_assert (ndebug env) (tb_tasks buf \<noteq> []) (Inr (submit step buf cl))))"

definition start_send_substep :: "kvt_env \<Rightarrow> nat \<Rightarrow> nat \<Rightarrow> nat \<Rightarrow> req_meta list \<Rightarrow> kv_client \<Rightarrow> kv_client result" where
  "start_send_substep env nlayers stepid substepid metas cl =
     (if metas = [] then Inr cl
      else
        rbind (decide_substep stepid substepid metas cl) (\<lambda>(action, cl).
        perform_substep env nlayers action stepid substepid metas cl))"

section \<open>One batch per destination\<close>

fun lookup_worker :: "(nat \<times> req_send_task list) list \<Rightarrow> nat \<Rightarrow> req_send_task list" where
  "lookup_worker [] w = []"
| "lookup_worker ((w', ts) # ws) w = (if w' = w then ts else lookup_worker ws w)"

fun lookup_tasks :: "step_tasks \<Rightarrow> target_key \<Rightarrow> req_send_task list" where
  "lookup_tasks [] k = []"
| "lookup_tasks ((inst, ws) # st) k = (if inst = fst k then lookup_worker ws (snd k) else lookup_tasks st k)"

definition entry_ok :: "string \<Rightarrow> nat \<times> req_send_task list \<Rightarrow> bool" where
  "entry_ok inst x \<longleftrightarrow> fst x < 2 ^ 32 - 1 \<and> snd x \<noteq> [] \<and> (\<forall>t\<in>set (snd x). task_key t = (inst, fst x))"

definition workers_ok :: "string \<Rightarrow> (nat \<times> req_send_task list) list \<Rightarrow> bool" where
  "workers_ok inst ws \<longleftrightarrow> ws \<noteq> [] \<and> distinct (map fst ws) \<and> (\<forall>x\<in>set ws. entry_ok inst x)"

definition grouped :: "step_tasks \<Rightarrow> bool" where
  "grouped st \<longleftrightarrow> distinct (map fst st) \<and> (\<forall>(inst, ws)\<in>set st. workers_ok inst ws)"

lemma put_worker_keys: "map fst (put_worker w t ws) = map fst ws @ (if w \<in> set (map fst ws) then [] else [w])"
  by (induction w t ws rule: put_worker.induct) simp_all

lemma put_worker_ok:
  assumes "workers_ok inst ws \<or> ws = []" and "task_key t = (inst, w)" and "w < 2 ^ 32 - 1"
  shows "workers_ok inst (put_worker w t ws)"
proof -
  have "\<forall>x\<in>set (put_worker w t ws). entry_ok inst x" if "\<forall>x\<in>set ws. entry_ok inst x"
    using that assms(2,3)
  proof (induction w t ws rule: put_worker.induct)
    case (2 w t w' ts ws)
    have "entry_ok inst (w', ts @ [t])" if "w' = w"
      using 2(2-4) that by (auto simp: entry_ok_def)
    with 2 show ?case
      by simp
  qed (simp add: entry_ok_def)
  moreover have "distinct (map fst ws) \<Longrightarrow> distinct (map fst (put_worker w t ws))"
    unfolding put_worker_keys by simp
  moreover have "put_worker w t ws \<noteq> []"
    by (cases ws) (auto split: if_splits)
  ultimately show ?thesis
    using assms(1) unfolding workers_ok_def by auto
qed

lemma put_task_keys: "map fst (put_task inst w t st) = map fst st @ (if inst \<in> set (map fst st) then [] else [inst])"
  by (induction inst w t st rule: put_task.induct) simp_all

lemma put_task_ok:
  assumes "grouped st" and "task_key t = (inst, w)" and "w < 2 ^ 32 - 1"
  shows "grouped (put_task inst w t st)"
proof -
  have "\<forall>(i, ws)\<in>set (put_task inst w t st). workers_ok i ws" if "\<forall>(i, ws)\<in>set st. workers_ok i ws"
    using that
  proof (induction st)
    case Nil
    then show ?case
      using put_worker_ok [OF _ assms(2,3), of "[]"] by (simp del: put_worker.simps)
  next
    case (Cons x st)
    then show ?case
      using put_worker_ok [OF _ assms(2,3), of "snd x"] by (cases x) auto
  qed
  moreover have "distinct (map fst st) \<Longrightarrow> distinct (map fst (put_task inst w t st))"
    unfolding put_task_keys by simp
  ultimately show ?thesis
    using assms(1) unfolding grouped_def by blast
qed

lemma lookup_put_worker: "lookup_worker (put_worker w t ws) w' = lookup_worker ws w' @ (if w' = w then [t] else [])"
  by (induction ws) auto

lemma lookup_put_task: "lookup_tasks (put_task inst w t st) k = lookup_tasks st k @ (if k = (inst, w) then [t] else [])"
  by (induction st) (auto simp: lookup_put_worker)

lemma lookup_worker_mem: "distinct (map fst ws) \<Longrightarrow> (w, ts) \<in> set ws \<Longrightarrow> lookup_worker ws w = ts"
  by (induction ws) (auto simp: rev_image_eqI)

lemma grouped_lookup:
  assumes "grouped st" and "(inst, ws) \<in> set st" and "(w, ts) \<in> set ws"
  shows "lookup_tasks st (inst, w) = ts"
proof -
  have "lookup_tasks st (inst, w) = lookup_worker ws w"
    using assms(1,2) by (induction st) (auto simp: grouped_def rev_image_eqI)
  moreover have "distinct (map fst ws)"
    using assms(1,2) by (auto simp: grouped_def workers_ok_def)
  ultimately show ?thesis
    using lookup_worker_mem assms(3) by metis
qed

lemma grouped_batch:
  assumes "grouped st" and "b \<in> set (batches st)"
  shows "batch_ok b \<and> lookup_tasks st (batch_key b) = b"
proof -
  obtain inst ws w where ws: "(inst, ws) \<in> set st" "(w, b) \<in> set ws"
    using assms(2) by (auto simp: batches_def)
  then have "entry_ok inst (w, b)"
    using assms(1) by (auto simp: grouped_def workers_ok_def)
  then have ok: "w < 2 ^ 32 - 1" "b \<noteq> []" "\<forall>t\<in>set b. task_key t = (inst, w)"
    unfolding entry_ok_def by auto
  moreover from ok(2,3) have "batch_key b = (inst, w)"
    by simp
  ultimately show ?thesis
    using grouped_lookup [OF assms(1) ws] by (simp add: batch_ok_def)
qed

lemma grouped_steps_ok:
  assumes "grouped st"
  shows "steps_ok st"
  using grouped_batch [OF assms] assms by (auto simp: steps_ok_def grouped_def workers_ok_def)

lemma mset_put_worker: "mset (concat (map snd (put_worker w t ws))) = add_mset t (mset (concat (map snd ws)))"
  by (induction ws) auto

lemma mset_put_task: "mset (concat (batches (put_task inst w t st))) = add_mset t (mset (concat (batches st)))"
  by (induction st) (auto simp: batches_def mset_put_worker)

section \<open>Creating the tasks of a step\<close>

definition meta_of :: "request_info \<Rightarrow> nat \<Rightarrow> nat \<Rightarrow> req_meta" where
  "meta_of req seen new_toks =
     \<lparr> rm_dst_inst = ri_dst_inst_id req, rm_dst_worker = ri_dst_worker_id req, rm_reqid = ri_req_id req, rm_seen_tokens = seen,
       rm_new_tokens = new_toks, rm_src_block_ids = ri_src_blocks req, rm_dst_block_ids = ri_dst_blocks req,
       rm_dst_worker_info = ri_dst_worker_info req \<rparr>"

text \<open>What a task sends: the request it was made from and whether it is the last one of the request.\<close>

definition task_image :: "req_send_task \<Rightarrow> req_meta \<times> bool" where
  "task_image t = (meta_of (task_req t) (seen_tokens t) (new_tokens t), reach_last_token t)"

abbreviation meta_key :: "req_meta \<Rightarrow> target_key" where
  "meta_key m \<equiv> (rm_dst_inst m, rm_dst_worker m)"

abbreviation last_image :: "req_meta \<Rightarrow> req_meta \<times> bool" where
  "last_image m \<equiv> (m, True)"

definition images :: "step_tasks \<Rightarrow> (req_meta \<times> bool) multiset" where
  "images st = image_mset task_image (mset (concat (batches st)))"

lemma images_Nil [simp]: "images [] = {#}"
  by (simp add: images_def batches_def)

lemma images_put_task [simp]: "images (put_task inst w t st) = add_mset (task_image t) (images st)"
  by (simp add: images_def mset_put_task)

lemma task_key_image: "task_key t = meta_key (fst (task_image t))"
  by (simp add: task_image_def meta_of_def)

text \<open>Only the addresses and the debug words of the client change.\<close>

definition same_client :: "kv_client \<Rightarrow> kv_client \<Rightarrow> bool" where
  "same_client cl cl' \<longleftrightarrow> cl_reqs cl' = cl_reqs cl \<and> cl_buf cl' = cl_buf cl \<and> cl_coord_step_id cl' = cl_coord_step_id cl \<and>
     cl_last_step_guard cl' = cl_last_step_guard cl \<and> cl_pending cl' = cl_pending cl \<and> cl_steps cl' = cl_steps cl \<and>
     cl_queue cl' = cl_queue cl \<and> cl_next_ref cl \<le> cl_next_ref cl'"

lemma same_client_refl: "same_client cl cl"
  by (simp add: same_client_def)

lemma same_client_trans: "same_client a b \<Longrightarrow> same_client b c \<Longrightarrow> same_client a c"
  by (simp add: same_client_def)

lemma update_send_fresh: "\<exists>st. update_send env seen new_toks has_last (UINT32_MAX, False) = Inr st"
  by (auto simp: update_send_def Let_def)

lemma create_step_task_eq:
  assumes "rm_new_tokens m > 0"
  shows "\<exists>t cl'. create_step_task env m (buf, cl) = Inr (buf\<lparr>tb_tasks := put_task (rm_dst_inst m) (rm_dst_worker m) t (tb_tasks buf)\<rparr>, cl') \<and>
    task_image t = last_image m \<and> same_client cl cl'"
proof -
  let ?req = "fst (new_request m cl)" and ?cl = "snd (new_request m cl)"
  let ?t = "\<lparr> task_req = ?req, seen_tokens = rm_seen_tokens m, new_tokens = rm_new_tokens m, reach_last_token = True \<rparr>"
  obtain st where "update_send env (rm_seen_tokens m) (rm_new_tokens m) True (UINT32_MAX, False) = Inr st"
    using update_send_fresh by blast
  then have "create_step_task env m (buf, cl) =
      Inr (buf\<lparr>tb_tasks := put_task (rm_dst_inst m) (rm_dst_worker m) ?t (tb_tasks buf)\<rparr>, ?cl\<lparr>cl_sends := (cl_sends ?cl)(cl_next_ref cl := st)\<rparr>)"
    using assms by (simp add: create_step_task_def new_request_def add_send_task_def)
  moreover have "task_image ?t = last_image m"
    by (simp add: task_image_def meta_of_def new_request_def)
  moreover have "same_client cl (?cl\<lparr>cl_sends := (cl_sends ?cl)(cl_next_ref cl := st)\<rparr>)"
    by (simp add: same_client_def new_request_def)
  ultimately show ?thesis
    by blast
qed

lemma create_step_task_0: "rm_new_tokens m = 0 \<Longrightarrow> create_step_task env m s = Inl Aborted"
  by (cases s) (simp add: create_step_task_def rt_assert_def)

lemma create_step_tasks_fold:
  assumes "rfold (create_step_task env) metas (buf, cl) = Inr (buf', cl')"
  shows "(\<forall>m\<in>set metas. rm_new_tokens m > 0) \<and> same_client cl cl' \<and> buf' = buf\<lparr>tb_tasks := tb_tasks buf'\<rparr> \<and>
    images (tb_tasks buf') = images (tb_tasks buf) + image_mset last_image (mset metas) \<and>
    (\<forall>k. map task_image (lookup_tasks (tb_tasks buf') k) =
         map task_image (lookup_tasks (tb_tasks buf) k) @ map last_image (filter (\<lambda>m. meta_key m = k) metas)) \<and>
    (grouped (tb_tasks buf) \<longrightarrow> (\<forall>m\<in>set metas. rm_dst_worker m < 2 ^ 32 - 1) \<longrightarrow> grouped (tb_tasks buf'))"
  using assms
proof (induction metas arbitrary: buf cl)
  case Nil
  then show ?case
    by (simp add: same_client_refl)
next
  case (Cons m metas)
  have pos: "rm_new_tokens m > 0"
    using Cons.prems create_step_task_0 by (metis gr0I rbind_Inl rfold.simps(2) sum.distinct(1))
  obtain t cl1 where t: "create_step_task env m (buf, cl) = Inr (buf\<lparr>tb_tasks := put_task (rm_dst_inst m) (rm_dst_worker m) t (tb_tasks buf)\<rparr>, cl1)"
      "task_image t = last_image m" "same_client cl cl1"
    using create_step_task_eq [OF pos] by blast
  let ?buf = "buf\<lparr>tb_tasks := put_task (rm_dst_inst m) (rm_dst_worker m) t (tb_tasks buf)\<rparr>"
  have "rfold (create_step_task env) metas (?buf, cl1) = Inr (buf', cl')"
    using Cons.prems t(1) by simp
  from Cons.IH [OF this] t(2,3) pos put_task_ok [of "tb_tasks buf" t "rm_dst_inst m" "rm_dst_worker m"] task_key_image [of t]
  show ?case
    using same_client_trans [OF t(3), of cl'] by (auto simp: lookup_put_task)
qed

lemma create_step_tasks_eq:
  assumes "create_step_tasks env sid sub metas cl = Inr (buf, cl')"
  shows "\<forall>m\<in>set metas. rm_new_tokens m > 0" "same_client cl cl'" "tb_stepid buf = sid" "tb_substepid buf = sub"
    "images (tb_tasks buf) = image_mset last_image (mset metas)"
    "map task_image (lookup_tasks (tb_tasks buf) k) = map last_image (filter (\<lambda>m. meta_key m = k) metas)"
    "\<forall>m\<in>set metas. rm_dst_worker m < 2 ^ 32 - 1 \<Longrightarrow> grouped (tb_tasks buf)"
proof -
  note all = create_step_tasks_fold [OF assms [unfolded create_step_tasks_def], simplified]
  have "buf = \<lparr> tb_tasks = tb_tasks buf, tb_stepid = sid, tb_substepid = sub \<rparr>"
    using all by blast
  then show "tb_stepid buf = sid" "tb_substepid buf = sub"
    by (metis tasks_buf.select_convs(2), metis tasks_buf.select_convs(3))
  show "map task_image (lookup_tasks (tb_tasks buf) k) = map last_image (filter (\<lambda>m. meta_key m = k) metas)"
    using all by (cases k) simp
  show "\<forall>m\<in>set metas. rm_new_tokens m > 0" "same_client cl cl'" "images (tb_tasks buf) = image_mset last_image (mset metas)"
    "\<forall>m\<in>set metas. rm_dst_worker m < 2 ^ 32 - 1 \<Longrightarrow> grouped (tb_tasks buf)"
    using all by (simp_all add: grouped_def)
qed

lemma create_step_tasks_ok:
  assumes "\<forall>m\<in>set metas. rm_new_tokens m > 0"
  shows "\<exists>buf cl'. create_step_tasks env sid sub metas cl = Inr (buf, cl')"
proof -
  have "\<exists>r. rfold (create_step_task env) metas s = Inr r" for s
    using assms
  proof (induction metas arbitrary: s)
    case (Cons m metas)
    then show ?case
      using create_step_task_eq [of m env "fst s" "snd s"] by auto
  qed simp
  then show ?thesis
    by (simp add: create_step_tasks_def)
qed

section \<open>Sequences of calls\<close>

text \<open>
  The two halves of \<open>start_send_substep\<close> are separate events; between them the thread keeps its decision and its
  requests. \<open>PerformSubstep i\<close> is the second half of the \<open>i\<close>-th pending call.
\<close>

type_synonym open_substep = "substep_action \<times> nat \<times> nat \<times> req_meta list"

datatype client_call =
    SubmitReq req_meta bool "string option" nat
  | SubmitDelta string nat nat bool nat
  | StartSend nat nat
  | NotifyEvent nat
  | FlushSend nat
  | ReqSend "req_meta list" nat nat
  | DecideSubstep nat nat "req_meta list"
  | PerformSubstep nat

fun exec_call :: "kvt_env \<Rightarrow> nat \<Rightarrow> client_call \<Rightarrow> kv_client \<times> open_substep list \<Rightarrow> (kv_client \<times> open_substep list) result" where
  "exec_call env n (SubmitReq m fin info sid) (cl, os) = rbind (submit_req_send env m fin info sid 0 cl) (\<lambda>cl. Inr (cl, os))"
| "exec_call env n (SubmitDelta rid seen new_toks fin sid) (cl, os) =
     rbind (submit_delta_send env rid seen new_toks fin sid 0 cl) (\<lambda>cl. Inr (cl, os))"
| "exec_call env n (StartSend sid toks) (cl, os) = rbind (start_send env sid toks cl) (\<lambda>(_, cl). Inr (cl, os))"
| "exec_call env n (NotifyEvent sid) (cl, os) = rbind (notify_event_record env sid cl) (\<lambda>cl. Inr (cl, os))"
| "exec_call env n (FlushSend sid) (cl, os) = rbind (flush_send env n sid cl) (\<lambda>cl. Inr (cl, os))"
| "exec_call env n (ReqSend metas sid sub) (cl, os) = rbind (start_req_send env n metas sid sub cl) (\<lambda>cl. Inr (cl, os))"
| "exec_call env n (DecideSubstep sid sub metas) (cl, os) =
     (if metas = [] then Inr (cl, os)
      else rbind (decide_substep sid sub metas cl) (\<lambda>(a, cl). Inr (cl, if a = kPending then os else os @ [(a, sid, sub, metas)])))"
| "exec_call env n (PerformSubstep i) (cl, os) =
     (if i < length os
      then (case os ! i of (a, sid, sub, metas) \<Rightarrow>
              rbind (perform_substep env n a sid sub metas cl) (\<lambda>cl. Inr (cl, take i os @ drop (Suc i) os)))
      else Inr (cl, os))"

text \<open>The two halves together are the call.\<close>

lemma start_send_substep_halves:
  "start_send_substep env n sid sub metas cl =
   rbind (exec_call env n (DecideSubstep sid sub metas) (cl, [])) (\<lambda>s. rbind (exec_call env n (PerformSubstep 0) s) (\<lambda>(cl, _). Inr cl))"
proof (cases "metas = []")
  case False
  then show ?thesis
    by (cases "decide_substep sid sub metas cl") (auto simp: start_send_substep_def perform_substep_def rbind_assoc)
qed (simp add: start_send_substep_def)

section \<open>Conservation of requests\<close>

definition queued_images :: "kv_client \<Rightarrow> (req_meta \<times> bool) multiset" where
  "queued_images cl = sum_list (map (\<lambda>(_, b). images (tb_tasks b)) (cl_queue cl))"

definition pending_images :: "kv_client \<Rightarrow> (req_meta \<times> bool) multiset" where
  "pending_images cl = sum_list (map (\<lambda>p. image_mset last_image (mset (sm_metas p))) (cl_pending cl))"

definition open_images :: "open_substep list \<Rightarrow> (req_meta \<times> bool) multiset" where
  "open_images os = sum_list (map (\<lambda>(_, _, _, metas). image_mset last_image (mset metas)) os)"

definition outstanding :: "kv_client \<times> open_substep list \<Rightarrow> (req_meta \<times> bool) multiset" where
  "outstanding s = queued_images (fst s) + images (tb_tasks (cl_buf (fst s))) + pending_images (fst s) + open_images (snd s)"

text \<open>What a call asks the client to send.\<close>

fun given :: "client_call \<Rightarrow> kv_client \<Rightarrow> (req_meta \<times> bool) multiset" where
  "given (SubmitReq m fin info sid) cl =
     (case parse_worker_info info of Inl _ \<Rightarrow> {#} | Inr i \<Rightarrow> {#(m\<lparr>rm_dst_worker_info := i\<rparr>, fin)#})"
| "given (SubmitDelta rid seen new_toks fin sid) cl =
     (case cl_reqs cl rid of None \<Rightarrow> {#} | Some rs \<Rightarrow> mset (map (\<lambda>r. (meta_of r seen new_toks, fin)) rs))"
| "given (ReqSend metas sid sub) cl = image_mset last_image (mset metas)"
| "given (DecideSubstep sid sub metas) cl = image_mset last_image (mset metas)"
| "given _ cl = {#}"

lemma queued_submit: "queued_images (submit step buf cl) = queued_images cl + images (tb_tasks buf)"
  by (simp add: queued_images_def submit_def)

lemma submit_simps [simp]:
  "cl_reqs (submit step buf cl) = cl_reqs cl" "cl_buf (submit step buf cl) = cl_buf cl"
  "cl_coord_step_id (submit step buf cl) = cl_coord_step_id cl" "cl_last_step_guard (submit step buf cl) = cl_last_step_guard cl"
  "cl_pending (submit step buf cl) = cl_pending cl" "cl_steps (submit step buf cl) = cl_steps cl"
  "cl_next_ref (submit step buf cl) = cl_next_ref cl" "cl_queue (submit step buf cl) = cl_queue cl @ [(step, buf)]"
  by (simp_all add: submit_def)

text \<open>What a call that only submits does: it appends to the queue.\<close>

definition small_workers :: "req_meta list \<Rightarrow> bool" where
  "small_workers metas \<longleftrightarrow> (\<forall>m\<in>set metas. rm_dst_worker m < 2 ^ 32 - 1)"

definition entry_matches :: "bool \<Rightarrow> client_step \<times> tasks_buf \<Rightarrow> bool" where
  "entry_matches ok = (\<lambda>(step, b). ok \<longrightarrow> cs_step_idx step = tb_stepid b \<and> grouped (tb_tasks b))"

definition extends :: "kv_client \<Rightarrow> kv_client \<Rightarrow> (req_meta \<times> bool) multiset \<Rightarrow> bool \<Rightarrow> bool" where
  "extends cl cl' added ok \<longleftrightarrow> cl_reqs cl' = cl_reqs cl \<and> cl_buf cl' = cl_buf cl \<and> cl_coord_step_id cl' = cl_coord_step_id cl \<and>
     cl_last_step_guard cl' = cl_last_step_guard cl \<and> cl_pending cl' = cl_pending cl \<and> queued_images cl' = queued_images cl + added \<and>
     (\<exists>q. cl_queue cl' = cl_queue cl @ q \<and> (\<forall>e\<in>set q. entry_matches ok e))"

lemma extends_trans: "extends a b M ok \<Longrightarrow> extends b c N ok \<Longrightarrow> extends a c (M + N) ok"
  unfolding extends_def by (auto simp: add.assoc)

lemma extends_same: "same_client cl cl' \<Longrightarrow> extends cl cl' {#} ok"
  by (simp add: extends_def same_client_def queued_images_def)

lemma extends_submit:
  assumes "create_step_tasks env sid sub metas cl = Inr (buf, cl1)" and "cl2 = cl1 \<or> (\<exists>st. cl2 = snd (new_step sid st cl1))"
  shows "extends cl (submit step buf cl2) (image_mset last_image (mset metas)) (small_workers metas \<and> cs_step_idx step = sid)"
  using create_step_tasks_eq [OF assms(1)] assms(2)
  by (auto simp: extends_def same_client_def new_step_def queued_submit small_workers_def entry_matches_def queued_images_def)

lemma start_req_send_extends:
  assumes "start_req_send env n metas sid sub cl = Inr cl'"
  shows "extends cl cl' (image_mset last_image (mset metas)) (small_workers metas)"
proof -
  obtain buf cl1 where c: "create_step_tasks env sid sub metas cl = Inr (buf, cl1)"
      "(if tb_tasks buf = [] then Inr cl1
        else (let (step, cl) = new_step sid (snd (notify_layer_ready n step_init)) cl1 in Inr (submit step buf cl))) = (Inr cl' :: kv_client result)"
    using assms by (auto simp: start_req_send_def rbind_eq_Inr_iff)
  show ?thesis
  proof (cases "tb_tasks buf = []")
    case True
    then have "metas = []" "same_client cl cl1"
      using create_step_tasks_eq(2,5) [OF c(1)] by simp_all
    then show ?thesis
      using c(2) True extends_same by simp
  next
    case False
    let ?st = "snd (notify_layer_ready n step_init)"
    have "cl' = submit (fst (new_step sid ?st cl1)) buf (snd (new_step sid ?st cl1))"
      using c(2) False by (simp add: new_step_def Let_def)
    moreover have "cs_step_idx (fst (new_step sid ?st cl1)) = sid"
      by (simp add: new_step_def)
    ultimately show ?thesis
      using extends_submit [OF c(1), of "snd (new_step sid ?st cl1)" "fst (new_step sid ?st cl1)"] by auto
  qed
qed

fun action_matches :: "nat \<Rightarrow> substep_action \<Rightarrow> bool" where
  "action_matches sid (kAttachCurrent step) = (cs_step_idx step = sid)"
| "action_matches sid _ = True"

lemma perform_substep_extends:
  assumes "perform_substep env n a sid sub metas cl = Inr cl'" and "a \<noteq> kPending"
  shows "extends cl cl' (image_mset last_image (mset metas)) (small_workers metas \<and> action_matches sid a)"
proof (cases a)
  case (kAttachCurrent step)
  then obtain buf cl1 where "create_step_tasks env sid sub metas cl = Inr (buf, cl1)" "cl' = submit step buf cl1"
    using assms(1) by (auto simp: perform_substep_def rbind_eq_Inr_iff c_assert_def split: if_splits)
  then show ?thesis
    using extends_submit [of env sid sub metas cl buf cl1 cl1 step] kAttachCurrent by simp
qed (use assms start_req_send_extends in \<open>auto simp: perform_substep_def\<close>)

definition metas_of :: "step_metas list \<Rightarrow> req_meta list" where
  "metas_of ps = concat (map sm_metas ps)"

definition pendings_match :: "nat \<Rightarrow> step_metas list \<Rightarrow> bool" where
  "pendings_match sid ps \<longleftrightarrow> (\<forall>p\<in>set ps. sm_stepid p = sid \<and> small_workers (sm_metas p))"

lemma submit_pending_extends:
  assumes "submit_pending env sid step p (k, cl) = Inr (k', cl')"
  shows "k' = sm_substepid p \<and>
    extends cl cl' (image_mset last_image (mset (sm_metas p))) (small_workers (sm_metas p) \<and> cs_step_idx step = sm_stepid p)"
proof -
  obtain buf cl1 where b: "create_step_tasks env (sm_stepid p) (sm_substepid p) (sm_metas p) cl = Inr (buf, cl1)"
      "k' = sm_substepid p" "cl' = submit step buf cl1"
    using assms by (auto simp: submit_pending_def rbind_eq_Inr_iff c_assert_def split: if_splits)
  with extends_submit [OF b(1), of cl1 step] show ?thesis
    by simp
qed

lemma extends_weaken: "extends cl cl' M ok \<Longrightarrow> (ok' \<Longrightarrow> ok) \<Longrightarrow> extends cl cl' M ok'"
  by (auto simp: extends_def entry_matches_def)

lemma submit_pendings_extends:
  assumes "rfold (submit_pending env sid step) ps (k, cl) = Inr (k', cl')"
  shows "extends cl cl' (image_mset last_image (mset (metas_of ps))) (pendings_match sid ps \<and> cs_step_idx step = sid)"
  using assms
proof (induction ps arbitrary: k cl)
  case Nil
  then show ?case
    by (simp add: extends_same same_client_refl metas_of_def)
next
  case (Cons p ps)
  let ?ok = "pendings_match sid (p # ps) \<and> cs_step_idx step = sid"
  obtain k1 cl1 where c: "submit_pending env sid step p (k, cl) = Inr (k1, cl1)" "rfold (submit_pending env sid step) ps (k1, cl1) = Inr (k', cl')"
    using Cons.prems by (auto simp: rbind_eq_Inr_iff)
  have "extends cl cl1 (image_mset last_image (mset (sm_metas p))) ?ok"
    using submit_pending_extends [OF c(1)] by (auto elim!: extends_weaken simp: pendings_match_def)
  moreover have "extends cl1 cl' (image_mset last_image (mset (metas_of ps))) ?ok"
    using Cons.IH [OF c(2)] by (auto elim!: extends_weaken simp: pendings_match_def)
  ultimately show ?case
    using extends_trans by (fastforce simp: metas_of_def)
qed

lemma pending_images_eq: "pending_images cl = image_mset last_image (mset (metas_of (cl_pending cl)))"
proof -
  have "sum_list (map (\<lambda>p. image_mset last_image (mset (sm_metas p))) ps) = image_mset last_image (mset (metas_of ps))" for ps
    by (induction ps) (simp_all add: metas_of_def)
  then show ?thesis
    by (simp add: pending_images_def)
qed

text \<open>A step that is started takes the buffer and everything that was waiting for it.\<close>

lemma start_send_effect:
  assumes "start_send env sid toks cl = Inr (r, cl')" and "\<not> (toks = 0 \<and> tb_tasks (cl_buf cl) = [])"
  shows "\<exists>step q. r = sid \<and> cs_step_idx step = sid \<and> cl_last_step_guard cl' = Some step \<and> cl_coord_step_id cl' = sid \<and>
    cl_pending cl' = [] \<and> cl_buf cl' = empty_buf \<and> cl_reqs cl' = cl_reqs cl \<and>
    queued_images cl' = queued_images cl + images (tb_tasks (cl_buf cl)) + pending_images cl \<and> cl_queue cl' = cl_queue cl @ q \<and>
    (pendings_match sid (cl_pending cl) \<and> grouped (tb_tasks (cl_buf cl)) \<and> (tb_tasks (cl_buf cl) \<noteq> [] \<longrightarrow> tb_stepid (cl_buf cl) = sid) \<longrightarrow>
       (\<forall>e\<in>set q. entry_matches True e))"
proof -
  define step where "step = fst (new_step sid step_init cl)"
  let ?buf = "cl_buf cl" and ?cl1 = "(snd (new_step sid step_init cl))\<lparr>cl_buf := empty_buf\<rparr>"
  define cl2 where "cl2 = (if tb_tasks ?buf \<noteq> [] then submit step ?buf ?cl1 else ?cl1)
    \<lparr>cl_coord_step_id := sid, cl_last_step_guard := Some step, cl_pending := []\<rparr>"
  have idx: "cs_step_idx step = sid"
    by (simp add: new_step_def step_def)
  have cl2: "cl_reqs cl2 = cl_reqs cl" "cl_buf cl2 = empty_buf" "cl_coord_step_id cl2 = sid" "cl_last_step_guard cl2 = Some step" "cl_pending cl2 = []"
      "queued_images cl2 = queued_images cl + images (tb_tasks ?buf)" "cl_queue cl2 = cl_queue cl @ (if tb_tasks ?buf \<noteq> [] then [(step, ?buf)] else [])"
    by (simp_all add: cl2_def new_step_def queued_images_def)
  obtain k where r: "r = sid" and fold: "rfold (submit_pending env sid step) (cl_pending cl) (0, cl2) = Inr (k, cl')"
    using assms
    by (auto simp: start_send_def Let_def new_step_def c_assert_def rbind_eq_Inr_iff submit_def step_def cl2_def split: if_splits)
  have "extends cl2 cl' (pending_images cl) (pendings_match sid (cl_pending cl) \<and> cs_step_idx step = sid)"
    using submit_pendings_extends [OF fold] by (simp add: pending_images_eq)
  then obtain q where q: "cl_reqs cl' = cl_reqs cl" "cl_buf cl' = empty_buf" "cl_coord_step_id cl' = sid" "cl_last_step_guard cl' = Some step"
      "cl_pending cl' = []" "queued_images cl' = queued_images cl2 + pending_images cl" "cl_queue cl' = cl_queue cl2 @ q"
      "\<forall>e\<in>set q. entry_matches (pendings_match sid (cl_pending cl)) e"
    using idx unfolding extends_def cl2(1-5) by auto
  let ?q = "(if tb_tasks ?buf \<noteq> [] then [(step, ?buf)] else []) @ q"
  have "cl_queue cl' = cl_queue cl @ ?q" "queued_images cl' = queued_images cl + images (tb_tasks ?buf) + pending_images cl"
    using q(6,7) unfolding cl2 by simp_all
  then show ?thesis
    using r idx q(1-5,8) by (intro exI [of _ step] exI [of _ ?q]) (auto simp: entry_matches_def)
qed

lemma add_send_task_images:
  assumes "add_send_task env req seen new_toks fin (buf, sends) = Inr (buf', sends')"
  shows "images (tb_tasks buf') = add_mset (meta_of req seen new_toks, fin) (images (tb_tasks buf)) \<and>
    tb_stepid buf' = tb_stepid buf \<and> tb_substepid buf' = tb_substepid buf \<and> tb_tasks buf' \<noteq> [] \<and>
    (grouped (tb_tasks buf) \<longrightarrow> ri_dst_worker_id req < 2 ^ 32 - 1 \<longrightarrow> grouped (tb_tasks buf'))"
proof -
  let ?t = "\<lparr> task_req = req, seen_tokens = seen, new_tokens = new_toks, reach_last_token = fin \<rparr>"
  have b: "buf' = buf\<lparr>tb_tasks := put_task (ri_dst_inst_id req) (ri_dst_worker_id req) ?t (tb_tasks buf)\<rparr>"
    using assms by (auto simp: add_send_task_def rbind_eq_Inr_iff)
  have "images (put_task (ri_dst_inst_id req) (ri_dst_worker_id req) ?t (tb_tasks buf)) \<noteq> {#}"
    by simp
  then have "put_task (ri_dst_inst_id req) (ri_dst_worker_id req) ?t (tb_tasks buf) \<noteq> []"
    by (metis images_Nil)
  then show ?thesis
    using put_task_ok [of "tb_tasks buf" ?t "ri_dst_inst_id req" "ri_dst_worker_id req"] by (simp add: b task_image_def)
qed

lemma add_send_tasks_images:
  assumes "rfold (\<lambda>req. add_send_task env req seen new_toks fin) rs (buf, sends) = Inr (buf', sends')"
  shows "images (tb_tasks buf') = images (tb_tasks buf) + mset (map (\<lambda>r. (meta_of r seen new_toks, fin)) rs) \<and>
    tb_stepid buf' = tb_stepid buf \<and> tb_substepid buf' = tb_substepid buf \<and>
    (grouped (tb_tasks buf) \<longrightarrow> (\<forall>r\<in>set rs. ri_dst_worker_id r < 2 ^ 32 - 1) \<longrightarrow> grouped (tb_tasks buf'))"
  using assms
proof (induction rs arbitrary: buf sends)
  case (Cons r rs)
  then obtain buf1 sends1 where b: "add_send_task env r seen new_toks fin (buf, sends) = Inr (buf1, sends1)"
      "rfold (\<lambda>req. add_send_task env req seen new_toks fin) rs (buf1, sends1) = Inr (buf', sends')"
    by (auto simp: rbind_eq_Inr_iff)
  show ?case
    using add_send_task_images [OF b(1)] Cons.IH [OF b(2)] by auto
qed simp

lemma bind_buf_step_eq: "bind_buf_step sid sub buf = Inr buf' \<Longrightarrow> tb_tasks buf' = tb_tasks buf \<and> tb_stepid buf' = sid \<and> tb_substepid buf' = sub"
  by (auto simp: bind_buf_step_def rt_assert_def split: if_splits)

text \<open>The calls of the main thread only change the buffer and the stored requests.\<close>

definition buffers :: "kv_client \<Rightarrow> kv_client \<Rightarrow> bool" where
  "buffers cl cl' \<longleftrightarrow> cl_queue cl' = cl_queue cl \<and> cl_coord_step_id cl' = cl_coord_step_id cl \<and>
     cl_last_step_guard cl' = cl_last_step_guard cl \<and> cl_pending cl' = cl_pending cl"

definition stored :: "kv_client \<Rightarrow> request_info set" where
  "stored cl = (\<Union>rs\<in>ran (cl_reqs cl). set rs)"

lemma submit_req_send_effect:
  assumes "submit_req_send env m fin info sid 0 cl = Inr cl'"
  shows "\<exists>i. parse_worker_info info = Inr i \<and> buffers cl cl' \<and> tb_stepid (cl_buf cl') = sid \<and>
    images (tb_tasks (cl_buf cl')) = add_mset (m\<lparr>rm_dst_worker_info := i\<rparr>, fin) (images (tb_tasks (cl_buf cl))) \<and>
    (grouped (tb_tasks (cl_buf cl)) \<longrightarrow> rm_dst_worker m < 2 ^ 32 - 1 \<longrightarrow> grouped (tb_tasks (cl_buf cl'))) \<and>
    (\<forall>r\<in>stored cl'. r \<in> stored cl \<or> ri_dst_worker_id r = rm_dst_worker m)"
proof -
  obtain i buf where i: "parse_worker_info info = Inr i" and buf: "bind_buf_step sid 0 (cl_buf cl) = Inr buf"
    using assms by (auto simp: submit_req_send_def rbind_eq_Inr_iff rt_assert_def split: if_splits)
  define m' where "m' = m\<lparr>rm_dst_worker_info := i\<rparr>"
  define req where "req = fst (new_request m' cl)"
  define cl1 where "cl1 = snd (new_request m' cl)"
  have nr: "new_request m' cl = (req, cl1)"
    by (simp add: req_def cl1_def)
  obtain buf' sends' where add: "add_send_task env req (rm_seen_tokens m) (rm_new_tokens m) fin (buf, cl_sends cl1) = Inr (buf', sends')"
    and cl': "cl' = (let cl = cl1\<lparr>cl_buf := buf', cl_sends := sends'\<rparr>
        in if fin then cl else cl\<lparr>cl_reqs := (cl_reqs cl)(ri_req_id req \<mapsto> (case cl_reqs cl (ri_req_id req) of None \<Rightarrow> [] | Some rs \<Rightarrow> rs) @ [req])\<rparr>)"
    using assms i buf nr
    by (auto simp: submit_req_send_def rbind_eq_Inr_iff rt_assert_def m'_def Let_def split: if_splits)
  have req: "meta_of req (rm_seen_tokens m) (rm_new_tokens m) = m'" "ri_dst_worker_id req = rm_dst_worker m"
    by (simp_all add: req_def new_request_def meta_of_def m'_def)
  have cl1: "cl_queue cl1 = cl_queue cl" "cl_coord_step_id cl1 = cl_coord_step_id cl" "cl_last_step_guard cl1 = cl_last_step_guard cl"
      "cl_pending cl1 = cl_pending cl" "cl_reqs cl1 = cl_reqs cl"
    by (simp_all add: cl1_def new_request_def)
  have "cl_buf cl' = buf'" "buffers cl cl'"
    by (simp_all add: cl' Let_def buffers_def cl1)
  moreover have "\<forall>r\<in>stored cl'. r \<in> stored cl \<or> ri_dst_worker_id r = rm_dst_worker m"
    unfolding stored_def cl' by (auto simp: Let_def cl1 req(2) ran_def split: option.splits if_splits) blast
  ultimately show ?thesis
    using i add_send_task_images [OF add] bind_buf_step_eq [OF buf] req by (auto simp: m'_def)
qed

lemma submit_delta_send_effect:
  assumes "submit_delta_send env rid seen new_toks fin sid 0 cl = Inr cl'"
  shows "buffers cl cl' \<and> tb_stepid (cl_buf cl') = sid \<and>
    images (tb_tasks (cl_buf cl')) = images (tb_tasks (cl_buf cl)) + given (SubmitDelta rid seen new_toks fin sid) cl \<and>
    (grouped (tb_tasks (cl_buf cl)) \<longrightarrow> (\<forall>r\<in>stored cl. ri_dst_worker_id r < 2 ^ 32 - 1) \<longrightarrow> grouped (tb_tasks (cl_buf cl'))) \<and>
    stored cl' \<subseteq> stored cl"
proof -
  obtain buf where buf: "bind_buf_step sid 0 (cl_buf cl) = Inr buf"
    using assms by (auto simp: submit_delta_send_def rbind_eq_Inr_iff)
  note b = bind_buf_step_eq [OF buf]
  show ?thesis
  proof (cases "cl_reqs cl rid")
    case None
    then show ?thesis
      using assms buf b by (auto simp: submit_delta_send_def buffers_def stored_def)
  next
    case (Some rs)
    then obtain buf' sends' where fold: "rfold (\<lambda>req. add_send_task env req seen new_toks fin) rs (buf, cl_sends cl) = Inr (buf', sends')"
      and cl': "cl' = cl\<lparr>cl_buf := buf', cl_sends := sends', cl_reqs := (if fin then (cl_reqs cl)(rid := None) else cl_reqs cl)\<rparr>"
      using assms buf by (auto simp: submit_delta_send_def rbind_eq_Inr_iff c_assert_def split: if_splits)
    have "set rs \<subseteq> stored cl"
      using Some by (auto simp: stored_def ran_def)
    moreover have "stored cl' \<subseteq> stored cl"
      unfolding stored_def cl' by (auto simp: ran_def split: if_splits)
    ultimately show ?thesis
      using Some b add_send_tasks_images [OF fold] by (auto simp: cl' buffers_def)
  qed
qed

lemma decide_substep_effect:
  assumes "decide_substep sid sub metas cl = Inr (a, cl')"
  shows "cl_queue cl' = cl_queue cl \<and> cl_buf cl' = cl_buf cl \<and> cl_reqs cl' = cl_reqs cl \<and> cl_coord_step_id cl' = cl_coord_step_id cl \<and>
    cl_last_step_guard cl' = cl_last_step_guard cl \<and>
    cl_pending cl' = cl_pending cl @ (if a = kPending then [\<lparr> sm_stepid = sid, sm_substepid = sub, sm_metas = metas \<rparr>] else [])"
  using assms by (auto simp: decide_substep_def rt_assert_def Let_def split: if_splits option.splits)

end
