(* ===== verification/KvClientRuns.thy ===== *)
theory KvClientRuns
  imports KvClient
begin

text \<open>
  Properties of sequences of calls of the client: no request is lost or sent twice, everything that is submitted is well
  formed for the manager thread and belongs to the step it is submitted on, and a request that is added to a step is not
  sent before that step.
\<close>

section \<open>Conservation\<close>

lemma outstanding_extends:
  "extends cl cl' M ok \<Longrightarrow> outstanding (cl', os) = outstanding (cl, os) + M"
  by (simp add: extends_def outstanding_def pending_images_def)

lemma open_images_remove:
  assumes "i < length os" and "os ! i = (a, sid, sub, metas)"
  shows "open_images os = image_mset last_image (mset metas) + open_images (take i os @ drop (Suc i) os)"
proof -
  have "os = take i os @ os ! i # drop (Suc i) os"
    using assms(1) by (simp add: id_take_nth_drop)
  then have "open_images os = open_images (take i os @ os ! i # drop (Suc i) os)"
    by simp
  then show ?thesis
    using assms(2) by (simp add: open_images_def)
qed

definition open_ok :: "open_substep list \<Rightarrow> bool" where
  "open_ok os \<longleftrightarrow> (\<forall>o1\<in>set os. fst o1 \<noteq> kPending)"

lemma exec_call_open_ok: "exec_call env n c (cl, os) = Inr (cl', os') \<Longrightarrow> open_ok os \<Longrightarrow> open_ok os'"
  by (cases c) (auto simp: rbind_eq_Inr_iff open_ok_def split: if_splits prod.splits dest!: in_set_takeD in_set_dropD)

lemma exec_call_conserves:
  assumes "exec_call env n c (cl, os) = Inr (cl', os')" and "open_ok os"
  shows "outstanding (cl', os') = outstanding (cl, os) + given c cl"
proof (cases c)
  case (SubmitReq m fin info sid)
  then have "submit_req_send env m fin info sid 0 cl = Inr cl'" "os' = os"
    using assms(1) by (auto simp: rbind_eq_Inr_iff)
  from submit_req_send_effect [OF this(1)] this(2) SubmitReq show ?thesis
    by (auto simp: outstanding_def buffers_def queued_images_def pending_images_def)
next
  case (SubmitDelta rid seen new_toks fin sid)
  then have "submit_delta_send env rid seen new_toks fin sid 0 cl = Inr cl'" "os' = os"
    using assms(1) by (auto simp: rbind_eq_Inr_iff)
  from submit_delta_send_effect [OF this(1)] this(2) SubmitDelta show ?thesis
    by (auto simp: outstanding_def buffers_def queued_images_def pending_images_def simp del: given.simps)
next
  case (StartSend sid toks)
  then obtain r where r: "start_send env sid toks cl = Inr (r, cl')" "os' = os"
    using assms(1) by (auto simp: rbind_eq_Inr_iff)
  show ?thesis
  proof (cases "toks = 0 \<and> tb_tasks (cl_buf cl) = []")
    case True
    then show ?thesis
      using r StartSend by (simp add: start_send_def)
  next
    case False
    from start_send_effect [OF r(1) False] r(2) StartSend show ?thesis
      by (auto simp: outstanding_def pending_images_def empty_buf_def)
  qed
next
  case (NotifyEvent sid)
  then show ?thesis
    using assms(1)
    by (auto simp: rbind_eq_Inr_iff notify_event_record_def c_assert_def outstanding_def queued_images_def pending_images_def
        split: if_splits option.splits)
next
  case (FlushSend sid)
  then show ?thesis
    using assms(1)
    by (auto simp: rbind_eq_Inr_iff flush_send_def c_assert_def outstanding_def queued_images_def pending_images_def Let_def
        split: if_splits option.splits)
next
  case (ReqSend metas sid sub)
  then have "start_req_send env n metas sid sub cl = Inr cl'" "os' = os"
    using assms(1) by (auto simp: rbind_eq_Inr_iff)
  then show ?thesis
    using outstanding_extends [OF start_req_send_extends] ReqSend by simp
next
  case (DecideSubstep sid sub metas)
  show ?thesis
  proof (cases "metas = []")
    case True
    then show ?thesis
      using assms(1) DecideSubstep by simp
  next
    case False
    then obtain a where a: "decide_substep sid sub metas cl = Inr (a, cl')" "os' = (if a = kPending then os else os @ [(a, sid, sub, metas)])"
      using assms(1) DecideSubstep by (auto simp: rbind_eq_Inr_iff)
    from decide_substep_effect [OF a(1)] a(2) DecideSubstep show ?thesis
      by (auto simp: outstanding_def queued_images_def pending_images_def open_images_def)
  qed
next
  case (PerformSubstep i)
  show ?thesis
  proof (cases "i < length os")
    case True
    obtain a sid sub metas where o: "os ! i = (a, sid, sub, metas)"
      by (cases "os ! i")
    then have p: "perform_substep env n a sid sub metas cl = Inr cl'" "os' = take i os @ drop (Suc i) os"
      using assms(1) PerformSubstep True by (auto simp: rbind_eq_Inr_iff)
    have "a \<noteq> kPending"
      using assms(2) True o nth_mem [OF True] by (auto simp: open_ok_def)
    from outstanding_extends [OF perform_substep_extends [OF p(1) this], of os'] show ?thesis
      using open_images_remove [OF True o] p(2) PerformSubstep by (simp add: outstanding_def)
  qed (use assms(1) PerformSubstep in simp)
qed

fun all_given :: "kvt_env \<Rightarrow> nat \<Rightarrow> client_call list \<Rightarrow> kv_client \<times> open_substep list \<Rightarrow> (req_meta \<times> bool) multiset" where
  "all_given env n [] s = {#}"
| "all_given env n (c # cs) s = given c (fst s) + (case exec_call env n c s of Inl _ \<Rightarrow> {#} | Inr s' \<Rightarrow> all_given env n cs s')"

abbreviation exec_calls :: "kvt_env \<Rightarrow> nat \<Rightarrow> client_call list \<Rightarrow> kv_client \<times> open_substep list \<Rightarrow> (kv_client \<times> open_substep list) result" where
  "exec_calls env n \<equiv> rfold (exec_call env n)"

lemma exec_calls_conserve:
  "exec_calls env n cs s = Inr s' \<Longrightarrow> open_ok (snd s) \<Longrightarrow> outstanding s' = outstanding s + all_given env n cs s \<and> open_ok (snd s')"
proof (induction cs arbitrary: s)
  case (Cons c cs)
  then obtain s1 where s1: "exec_call env n c s = Inr s1" "exec_calls env n cs s1 = Inr s'"
    by (auto simp: rbind_eq_Inr_iff)
  have "outstanding s1 = outstanding s + given c (fst s)" "open_ok (snd s1)"
    using exec_call_conserves [of env n c "fst s" "snd s" "fst s1" "snd s1"] exec_call_open_ok [of env n c "fst s" "snd s" "fst s1" "snd s1"]
      s1(1) Cons.prems(2) by simp_all
  with Cons.IH [OF s1(2)] s1(1) show ?case
    by (simp add: add.assoc)
qed simp

section \<open>Well formed submissions\<close>

text \<open>
  The protocol of the callers: the worker ids leave room for the size of the vector of the manager, and a step is started
  with the id under which its requests were buffered or are waiting.
\<close>

fun call_ok :: "client_call \<Rightarrow> kv_client \<Rightarrow> bool" where
  "call_ok (SubmitReq m fin info sid) cl = (rm_dst_worker m < 2 ^ 32 - 1)"
| "call_ok (StartSend sid toks) cl \<longleftrightarrow> (tb_tasks (cl_buf cl) \<noteq> [] \<longrightarrow> tb_stepid (cl_buf cl) = sid) \<and> (\<forall>p\<in>set (cl_pending cl). sm_stepid p = sid)"
| "call_ok (ReqSend metas sid sub) cl = small_workers metas"
| "call_ok (DecideSubstep sid sub metas) cl = small_workers metas"
| "call_ok _ cl = True"

definition client_inv :: "kv_client \<times> open_substep list \<Rightarrow> bool" where
  "client_inv = (\<lambda>(cl, os). grouped (tb_tasks (cl_buf cl)) \<and> (\<forall>r\<in>stored cl. ri_dst_worker_id r < 2 ^ 32 - 1) \<and>
     (\<forall>e\<in>set (cl_queue cl). entry_matches True e) \<and> (\<forall>step. cl_last_step_guard cl = Some step \<longrightarrow> cs_step_idx step = cl_coord_step_id cl) \<and>
     (\<forall>p\<in>set (cl_pending cl). small_workers (sm_metas p)) \<and>
     (\<forall>(a, sid, sub, metas)\<in>set os. action_matches sid a \<and> small_workers metas \<and> a \<noteq> kPending))"

lemma client_inv_init: "client_inv (client_init, [])"
  by (simp add: client_inv_def client_init_def empty_buf_def grouped_def stored_def)

lemma client_inv_extends:
  assumes "client_inv (cl, os)" and "extends cl cl' M True" and "set os' \<subseteq> set os"
  shows "client_inv (cl', os')"
  using assms by (auto simp: client_inv_def extends_def stored_def)

lemma client_inv_buffers:
  assumes "client_inv (cl, os)" and "buffers cl cl'" and "grouped (tb_tasks (cl_buf cl'))" and "\<forall>r\<in>stored cl'. ri_dst_worker_id r < 2 ^ 32 - 1"
  shows "client_inv (cl', os)"
  using assms by (auto simp: client_inv_def buffers_def)

lemma client_inv_start_send:
  assumes "start_send env sid toks cl = Inr (r, cl')" and "client_inv (cl, os)" and "call_ok (StartSend sid toks) cl"
  shows "client_inv (cl', os)"
proof (cases "toks = 0 \<and> tb_tasks (cl_buf cl) = []")
  case True
  then show ?thesis
    using assms by (simp add: start_send_def)
next
  case False
  have "pendings_match sid (cl_pending cl)" "grouped (tb_tasks (cl_buf cl))" "tb_tasks (cl_buf cl) \<noteq> [] \<longrightarrow> tb_stepid (cl_buf cl) = sid"
    using assms(2,3) by (auto simp: client_inv_def pendings_match_def)
  then show ?thesis
    using start_send_effect [OF assms(1) False] assms(2)
    by (elim exE conjE) (auto simp: client_inv_def stored_def empty_buf_def grouped_def)
qed

lemma client_inv_decide:
  assumes "decide_substep sid sub metas cl = Inr (a, cl')" and "client_inv (cl, os)" and "small_workers metas"
  shows "client_inv (cl', if a = kPending then os else os @ [(a, sid, sub, metas)])"
proof -
  have "action_matches sid a"
    using assms(1,2) by (auto simp: decide_substep_def rt_assert_def Let_def client_inv_def split: if_splits option.splits)
  then show ?thesis
    using decide_substep_effect [OF assms(1)] assms(2,3) by (auto simp: client_inv_def stored_def)
qed

lemma exec_call_inv:
  assumes "exec_call env n c (cl, os) = Inr (cl', os')" and "client_inv (cl, os)" and "call_ok c cl"
  shows "client_inv (cl', os')"
proof (cases c)
  case (SubmitReq m fin info sid)
  then have c: "submit_req_send env m fin info sid 0 cl = Inr cl'" "os' = os"
    using assms(1) by (auto simp: rbind_eq_Inr_iff)
  from submit_req_send_effect [OF c(1)] show ?thesis
    unfolding c(2) using assms(2,3) SubmitReq by (intro client_inv_buffers [OF assms(2)]) (auto simp: client_inv_def)
next
  case (SubmitDelta rid seen new_toks fin sid)
  then have c: "submit_delta_send env rid seen new_toks fin sid 0 cl = Inr cl'" "os' = os"
    using assms(1) by (auto simp: rbind_eq_Inr_iff)
  from submit_delta_send_effect [OF c(1)] show ?thesis
    unfolding c(2) using assms(2) by (intro client_inv_buffers [OF assms(2)]) (auto simp: client_inv_def)
next
  case (StartSend sid toks)
  then show ?thesis
    using assms by (auto simp: rbind_eq_Inr_iff intro: client_inv_start_send)
next
  case (NotifyEvent sid)
  then show ?thesis
    using assms by (auto simp: rbind_eq_Inr_iff notify_event_record_def c_assert_def client_inv_def stored_def split: if_splits option.splits)
next
  case (FlushSend sid)
  then show ?thesis
    using assms by (auto simp: rbind_eq_Inr_iff flush_send_def c_assert_def client_inv_def stored_def Let_def split: if_splits option.splits)
next
  case (ReqSend metas sid sub)
  then have c: "start_req_send env n metas sid sub cl = Inr cl'" "os' = os"
    using assms(1) by (auto simp: rbind_eq_Inr_iff)
  show ?thesis
    using client_inv_extends [OF assms(2) extends_weaken [OF start_req_send_extends [OF c(1)]]] assms(3) ReqSend c(2) by auto
next
  case (DecideSubstep sid sub metas)
  then show ?thesis
    using assms client_inv_decide [of sid sub metas cl _ cl' os] by (auto simp: rbind_eq_Inr_iff split: if_splits)
next
  case (PerformSubstep i)
  show ?thesis
  proof (cases "i < length os")
    case True
    obtain a sid sub metas where o: "os ! i = (a, sid, sub, metas)"
      by (cases "os ! i")
    then have p: "perform_substep env n a sid sub metas cl = Inr cl'" "os' = take i os @ drop (Suc i) os"
      using assms(1) PerformSubstep True by (auto simp: rbind_eq_Inr_iff)
    have "(a, sid, sub, metas) \<in> set os"
      using nth_mem [OF True] o by simp
    then have "action_matches sid a" "small_workers metas" "a \<noteq> kPending"
      using assms(2) by (auto simp: client_inv_def)
    then have "extends cl cl' (image_mset last_image (mset metas)) True"
      using perform_substep_extends [OF p(1)] by simp
    moreover have "set os' \<subseteq> set os"
      unfolding p(2) by (auto dest: in_set_takeD in_set_dropD)
    ultimately show ?thesis
      by (rule client_inv_extends [OF assms(2)])
  qed (use assms PerformSubstep in simp)
qed

fun calls_ok :: "kvt_env \<Rightarrow> nat \<Rightarrow> client_call list \<Rightarrow> kv_client \<times> open_substep list \<Rightarrow> bool" where
  "calls_ok env n [] s = True"
| "calls_ok env n (c # cs) s = (call_ok c (fst s) \<and> (case exec_call env n c s of Inl _ \<Rightarrow> True | Inr s' \<Rightarrow> calls_ok env n cs s'))"

lemma exec_calls_inv: "exec_calls env n cs s = Inr s' \<Longrightarrow> calls_ok env n cs s \<Longrightarrow> client_inv s \<Longrightarrow> client_inv s'"
proof (induction cs arbitrary: s)
  case (Cons c cs)
  then obtain s1 where s1: "exec_call env n c s = Inr s1" "exec_calls env n cs s1 = Inr s'"
    by (auto simp: rbind_eq_Inr_iff)
  moreover have "client_inv s1"
    using exec_call_inv [of env n c "fst s" "snd s" "fst s1" "snd s1"] s1(1) Cons.prems by simp
  ultimately show ?case
    using Cons.IH [OF s1(2)] Cons.prems(2) by simp
qed simp

text \<open>The manager thread takes everything from the queue.\<close>

lemma do_submits_law:
  "\<forall>e\<in>set q. entry_matches True e \<Longrightarrow> mgr_inv mgr \<Longrightarrow>
   \<exists>mgr'. rfold (\<lambda>(step, b). do_submit env (tb_tasks b)) q mgr = Inr mgr' \<and> mgr_inv mgr' \<and>
     map job_tasks (pool_jobs mgr') = map job_tasks (pool_jobs mgr) @ concat (map (\<lambda>(step, b). batches (tb_tasks b)) q)"
proof (induction q arbitrary: mgr)
  case (Cons e q)
  obtain step b where e: "e = (step, b)"
    by (cases e)
  have "steps_ok (tb_tasks b)"
    using Cons.prems(1) e grouped_steps_ok by (simp add: entry_matches_def)
  then obtain mgr1 where "do_submit env (tb_tasks b) mgr = Inr mgr1" "mgr_inv mgr1"
      "map job_tasks (pool_jobs mgr1) = map job_tasks (pool_jobs mgr) @ batches (tb_tasks b)"
    using do_submit_law [OF Cons.prems(2), of "tb_tasks b" env] by blast
  with Cons.IH [of mgr1] Cons.prems(1) e show ?case
    by auto
qed simp

section \<open>The time of a submission\<close>

definition guard_ok :: "kv_client \<Rightarrow> bool" where
  "guard_ok cl \<longleftrightarrow> (\<forall>step. cl_last_step_guard cl = Some step \<longrightarrow> cs_step_idx step = cl_coord_step_id cl)"

fun coord_change :: "client_call \<Rightarrow> kv_client \<Rightarrow> kv_client \<Rightarrow> bool" where
  "coord_change (StartSend sid toks) cl cl' \<longleftrightarrow> cl' = cl \<or> cl_coord_step_id cl' = sid \<and> cl_last_step_guard cl' \<noteq> None"
| "coord_change (FlushSend sid) cl cl' \<longleftrightarrow> cl_coord_step_id cl' = cl_coord_step_id cl \<and> sid = cl_coord_step_id cl \<and> cl_last_step_guard cl' = None"
| "coord_change c cl cl' \<longleftrightarrow> cl_coord_step_id cl' = cl_coord_step_id cl \<and> cl_last_step_guard cl' = cl_last_step_guard cl"

lemma exec_call_coord:
  assumes "exec_call env n c (cl, os) = Inr (cl', os')" and "guard_ok cl" and "open_ok os"
  shows "coord_change c cl cl' \<and> guard_ok cl'"
proof (cases c)
  case (SubmitReq m fin info sid)
  then show ?thesis
    using assms(1,2) submit_req_send_effect [of env m fin info sid cl cl'] by (auto simp: rbind_eq_Inr_iff guard_ok_def buffers_def)
next
  case (SubmitDelta rid seen new_toks fin sid)
  then show ?thesis
    using assms(1,2) submit_delta_send_effect [of env rid seen new_toks fin sid cl cl'] by (auto simp: rbind_eq_Inr_iff guard_ok_def buffers_def)
next
  case (StartSend sid toks)
  then obtain r where r: "start_send env sid toks cl = Inr (r, cl')"
    using assms(1) by (auto simp: rbind_eq_Inr_iff)
  show ?thesis
  proof (cases "toks = 0 \<and> tb_tasks (cl_buf cl) = []")
    case True
    then show ?thesis
      using r StartSend assms(2) by (simp add: start_send_def)
  next
    case False
    from start_send_effect [OF r False] StartSend show ?thesis
      by (auto simp: guard_ok_def)
  qed
next
  case (NotifyEvent sid)
  then show ?thesis
    using assms by (auto simp: rbind_eq_Inr_iff notify_event_record_def c_assert_def guard_ok_def split: if_splits option.splits)
next
  case (FlushSend sid)
  then show ?thesis
    using assms by (auto simp: rbind_eq_Inr_iff flush_send_def c_assert_def guard_ok_def Let_def split: if_splits option.splits)
next
  case (ReqSend metas sid sub)
  then have "start_req_send env n metas sid sub cl = Inr cl'"
    using assms(1) by (auto simp: rbind_eq_Inr_iff)
  from start_req_send_extends [OF this] show ?thesis
    using ReqSend assms(2) by (simp add: extends_def guard_ok_def)
next
  case (DecideSubstep sid sub metas)
  then show ?thesis
    using assms(1,2) decide_substep_effect [of sid sub metas cl _ cl'] by (auto simp: rbind_eq_Inr_iff guard_ok_def split: if_splits)
next
  case (PerformSubstep i)
  show ?thesis
  proof (cases "i < length os")
    case True
    obtain a sid sub metas where o: "os ! i = (a, sid, sub, metas)"
      by (cases "os ! i")
    then have p: "perform_substep env n a sid sub metas cl = Inr cl'"
      using assms(1) PerformSubstep True by (auto simp: rbind_eq_Inr_iff)
    have "a \<noteq> kPending"
      using assms(3) True o nth_mem [OF True] by (auto simp: open_ok_def)
    from perform_substep_extends [OF p this] show ?thesis
      using PerformSubstep assms(2) by (simp add: extends_def guard_ok_def)
  qed (use assms PerformSubstep in simp)
qed

lemma coord_change_other:
  "coord_change c cl cl' \<Longrightarrow> (\<And>sid toks. c \<noteq> StartSend sid toks) \<Longrightarrow> (\<And>sid. c \<noteq> FlushSend sid) \<Longrightarrow>
   cl_coord_step_id cl' = cl_coord_step_id cl \<and> cl_last_step_guard cl' = cl_last_step_guard cl"
  by (cases c) auto

lemma exec_calls_coord:
  assumes "exec_calls env n cs (client_init, []) = Inr (cl, os)"
  shows "guard_ok cl \<and> open_ok os \<and> (cl_coord_step_id cl = 0 \<or> (\<exists>toks. StartSend (cl_coord_step_id cl) toks \<in> set cs)) \<and>
    (cl_last_step_guard cl = None \<longrightarrow> cl_coord_step_id cl = 0 \<or> FlushSend (cl_coord_step_id cl) \<in> set cs)"
  using assms
proof (induction cs arbitrary: cl os rule: rev_induct)
  case Nil
  then show ?case
    by (auto simp: client_init_def guard_ok_def open_ok_def)
next
  case (snoc c cs)
  then obtain cl1 os1 where s1: "exec_calls env n cs (client_init, []) = Inr (cl1, os1)" "exec_call env n c (cl1, os1) = Inr (cl, os)"
    by (auto simp: rfold_append rbind_eq_Inr_iff)
  note IH = snoc.IH [OF s1(1)]
  have chg: "coord_change c cl1 cl" "guard_ok cl"
    using exec_call_coord [OF s1(2)] IH by simp_all
  moreover have "open_ok os"
    using exec_call_open_ok [OF s1(2)] IH by simp
  ultimately show ?case
    using IH
  proof (cases "(\<exists>sid toks. c = StartSend sid toks) \<or> (\<exists>sid. c = FlushSend sid)")
    case False
    then show ?thesis
      using coord_change_other [OF chg(1)] IH chg(2) \<open>open_ok os\<close> by auto
  qed auto
qed

section \<open>Grouping\<close>

lemma workers_keys:
  assumes "workers_ok inst ws"
  shows "map batch_key (map snd ws) = map (\<lambda>w. (inst, w)) (map fst ws)"
  using assms by (auto simp: workers_ok_def entry_ok_def)

lemma grouped_keys_distinct: "grouped st \<Longrightarrow> distinct (map batch_key (batches st)) \<and> fst ` set (map batch_key (batches st)) \<subseteq> fst ` set st"
proof (induction st)
  case Nil
  then show ?case
    by (simp add: batches_def)
next
  case (Cons x st)
  obtain inst ws where x: "x = (inst, ws)"
    by (cases x)
  have ws: "workers_ok inst ws" "inst \<notin> fst ` set st" "grouped st"
    using Cons.prems by (auto simp: grouped_def x)
  have "map batch_key (batches (x # st)) = map (\<lambda>w. (inst, w)) (map fst ws) @ map batch_key (batches st)"
    using workers_keys [OF ws(1)] by (simp add: batches_def x)
  moreover have "distinct (map (\<lambda>w. (inst, w)) (map fst ws))"
    using ws(1) by (simp add: workers_ok_def distinct_map inj_on_def)
  moreover obtain K where K: "map batch_key (batches st) = K"
    by blast
  moreover have "distinct K" "fst ` set K \<subseteq> fst ` set st"
    using Cons.IH [OF ws(3)] unfolding K by auto
  moreover from this(2) have "set (map (\<lambda>w. (inst, w)) (map fst ws)) \<inter> set K = {}"
    using ws(2) by force
  ultimately show ?case
    unfolding x by auto
qed

lemma lookup_worker_batch: "lookup_worker ws w \<noteq> [] \<Longrightarrow> lookup_worker ws w \<in> set (map snd ws)"
  by (induction ws) (auto split: if_splits)

lemma lookup_tasks_batch: "lookup_tasks st k \<noteq> [] \<Longrightarrow> lookup_tasks st k \<in> set (batches st)"
proof (induction st)
  case (Cons x st)
  obtain inst ws where x: "x = (inst, ws)"
    by (cases x)
  have "set (batches (x # st)) = set (map snd ws) \<union> set (batches st)"
    by (simp add: batches_def x)
  then show ?case
    using Cons lookup_worker_batch [of ws "snd k"] by (cases "inst = fst k") (auto simp: x)
qed simp

section \<open>Properties\<close>

text \<open>
  C2. No request is lost and none is sent twice. After any sequence of calls, in which the two halves of
  \<open>start_send_substep\<close> may be separated by other calls, the tasks in the queue of the manager, in the buffer of the main
  thread, in the list of the pending steps and in the hands of the threads are together exactly the requests that the
  calls have given, with their destinations, blocks, token ranges and last marks.
\<close>

theorem requests_conserved:
  assumes "exec_calls env n cs (client_init, []) = Inr (cl, os)"
  shows "queued_images cl + images (tb_tasks (cl_buf cl)) + pending_images cl + open_images os = all_given env n cs (client_init, [])"
proof -
  have "outstanding (client_init, []) = {#}"
    by (simp add: outstanding_def client_init_def empty_buf_def queued_images_def pending_images_def open_images_def)
  with exec_calls_conserve [OF assms] show ?thesis
    by (simp add: outstanding_def open_ok_def)
qed

text \<open>
  C15. Every request reaches the thread pool. If the callers keep the protocol and nothing is buffered, pending or in the
  hands of a thread at the end, the manager thread takes the whole queue without an error, each of its jobs has one
  destination, every job was submitted on a step with the id under which its requests were given, and the tasks of the jobs
  are exactly the requests that the calls have given.
\<close>

theorem requests_reach_pool:
  assumes "exec_calls env n cs (client_init, []) = Inr (cl, [])" and "calls_ok env n cs (client_init, [])"
    and "tb_tasks (cl_buf cl) = []" and "cl_pending cl = []"
  shows "\<exists>mgr. rfold (\<lambda>(step, b). do_submit env (tb_tasks b)) (cl_queue cl) target_mgr_init = Inr mgr \<and>
    image_mset task_image (mset (concat (map job_tasks (pool_jobs mgr)))) = all_given env n cs (client_init, []) \<and>
    (\<forall>j\<in>set (pool_jobs mgr). \<exists>k. \<forall>t\<in>set (job_tasks j). task_key t = k) \<and>
    (\<forall>(step, b)\<in>set (cl_queue cl). cs_step_idx step = tb_stepid b)"
proof -
  have q: "\<forall>e\<in>set (cl_queue cl). entry_matches True e"
    using exec_calls_inv [OF assms(1,2) client_inv_init] by (simp add: client_inv_def)
  obtain mgr where m: "rfold (\<lambda>(step, b). do_submit env (tb_tasks b)) (cl_queue cl) target_mgr_init = Inr mgr" "mgr_inv mgr"
      "map job_tasks (pool_jobs mgr) = concat (map (\<lambda>(step, b). batches (tb_tasks b)) (cl_queue cl))"
    using do_submits_law [OF q mgr_inv_init, of env] by (auto simp: target_mgr_init_def)
  have "image_mset task_image (mset (concat (concat (map (\<lambda>(step, b). batches (tb_tasks b)) es)))) = sum_list (map (\<lambda>(_, b). images (tb_tasks b)) es)" for es :: "(client_step \<times> tasks_buf) list"
    by (induction es) (auto simp: images_def)
  then have "image_mset task_image (mset (concat (map job_tasks (pool_jobs mgr)))) = queued_images cl"
    by (simp add: m(3) queued_images_def)
  also have "\<dots> = outstanding (cl, [])"
    using assms(3,4) by (simp add: outstanding_def pending_images_def open_images_def)
  also have "\<dots> = all_given env n cs (client_init, [])"
    using exec_calls_conserve [OF assms(1)]
    by (simp add: open_ok_def outstanding_def client_init_def empty_buf_def queued_images_def pending_images_def open_images_def)
  finally have "image_mset task_image (mset (concat (map job_tasks (pool_jobs mgr)))) = all_given env n cs (client_init, [])" .
  moreover have "\<forall>j\<in>set (pool_jobs mgr). \<exists>k. \<forall>t\<in>set (job_tasks j). task_key t = k"
    using m(2) unfolding mgr_inv_def by blast
  ultimately show ?thesis
    using m(1) q by (auto simp: entry_matches_def)
qed


text \<open>
  The tasks of a step are grouped: \<open>create_step_tasks\<close> succeeds when every request has new tokens, and then every
  destination has exactly one batch, which holds exactly the requests for it, in the order they were given.
\<close>

theorem create_step_tasks_groups:
  assumes "\<forall>m\<in>set metas. rm_new_tokens m > 0" and "small_workers metas"
  shows "\<exists>buf cl'. create_step_tasks env sid sub metas cl = Inr (buf, cl') \<and> tb_stepid buf = sid \<and> tb_substepid buf = sub \<and>
    (\<forall>b\<in>set (batches (tb_tasks buf)). b \<noteq> [] \<and> map task_image b = map last_image (filter (\<lambda>m. meta_key m = batch_key b) metas)) \<and>
    distinct (map batch_key (batches (tb_tasks buf))) \<and> batch_key ` set (batches (tb_tasks buf)) = meta_key ` set metas"
proof -
  obtain buf cl' where c: "create_step_tasks env sid sub metas cl = Inr (buf, cl')"
    using create_step_tasks_ok [OF assms(1)] by blast
  note eq = create_step_tasks_eq [OF c]
  have g: "grouped (tb_tasks buf)"
    using eq(7) assms(2) by (simp add: small_workers_def)
  have b: "b \<noteq> [] \<and> map task_image b = map last_image (filter (\<lambda>m. meta_key m = batch_key b) metas)" if "b \<in> set (batches (tb_tasks buf))" for b
    using grouped_batch [OF g that] eq(6) [of "batch_key b"] unfolding batch_ok_def by metis
  have "batch_key b \<in> meta_key ` set metas" if "b \<in> set (batches (tb_tasks buf))" for b
  proof -
    have "filter (\<lambda>m. meta_key m = batch_key b) metas \<noteq> []"
      using b [OF that] by fastforce
    then show ?thesis
      unfolding filter_empty_conv by force
  qed
  moreover have "meta_key m \<in> batch_key ` set (batches (tb_tasks buf))" if "m \<in> set metas" for m
  proof -
    let ?b = "lookup_tasks (tb_tasks buf) (meta_key m)"
    have img: "map task_image ?b = map last_image (filter (\<lambda>m'. meta_key m' = meta_key m) metas)"
      by (rule eq(6))
    then have ne: "?b \<noteq> []"
      using that by (metis (mono_tags, lifting) filter_empty_conv list.map_disc_iff)
    then have "task_image (hd ?b) \<in> set (map last_image (filter (\<lambda>m'. meta_key m' = meta_key m) metas))"
      unfolding img [symmetric] by simp
    then have "batch_key ?b = meta_key m"
      unfolding task_key_image by auto
    then show ?thesis
      using lookup_tasks_batch [OF ne] by force
  qed
  ultimately have "batch_key ` set (batches (tb_tasks buf)) = meta_key ` set metas"
    by (intro equalityI subsetI) auto
  then show ?thesis
    using c eq(3,4) b grouped_keys_distinct [OF g] by blast
qed

section \<open>A run\<close>

text \<open>A request arrives for a step that has not been started; the step is started and flushed.\<close>

definition demo_meta :: req_meta where
  "demo_meta = \<lparr> rm_dst_inst = ''d'', rm_dst_worker = 0, rm_reqid = ''r'', rm_seen_tokens = 0, rm_new_tokens = 5,
     rm_src_block_ids = [[3]], rm_dst_block_ids = [[4]], rm_dst_worker_info = None \<rparr>"

abbreviation demo_calls :: "client_call list" where
  "demo_calls \<equiv> [DecideSubstep 7 2 [demo_meta], StartSend 7 3, FlushSend 7]"

lemmas demo_run_defs = decide_substep_def start_send_def flush_send_def submit_pending_def create_step_tasks_def create_step_task_def
  new_request_def add_send_task_def update_send_def new_step_def submit_def demo_meta_def client_init_def empty_buf_def small_workers_def

lemma demo_run:
  "\<exists>cl. exec_calls demo_env 2 demo_calls (client_init, []) = Inr (cl, []) \<and> tb_tasks (cl_buf cl) = [] \<and> cl_pending cl = [] \<and>
     calls_ok demo_env 2 demo_calls (client_init, []) \<and> all_given demo_env 2 demo_calls (client_init, []) = {#(demo_meta, True)#}"
  by (simp add: demo_run_defs Let_def)

theorem requests_conserved_witness:
  "\<exists>cl. exec_calls demo_env 2 demo_calls (client_init, []) = Inr (cl, []) \<and> queued_images cl = {#(demo_meta, True)#}"
proof -
  obtain cl where cl: "exec_calls demo_env 2 demo_calls (client_init, []) = Inr (cl, [])" "tb_tasks (cl_buf cl) = []" "cl_pending cl = []"
      "all_given demo_env 2 demo_calls (client_init, []) = {#(demo_meta, True)#}"
    using demo_run by blast
  with requests_conserved [OF cl(1)] show ?thesis
    by (intro exI [of _ cl]) (simp add: pending_images_def open_images_def)
qed

theorem requests_reach_pool_witness:
  "\<exists>cl mgr. exec_calls demo_env 2 demo_calls (client_init, []) = Inr (cl, []) \<and>
     rfold (\<lambda>(step, b). do_submit demo_env (tb_tasks b)) (cl_queue cl) target_mgr_init = Inr mgr \<and>
     image_mset task_image (mset (concat (map job_tasks (pool_jobs mgr)))) = {#(demo_meta, True)#}"
proof -
  obtain cl where cl: "exec_calls demo_env 2 demo_calls (client_init, []) = Inr (cl, [])" "calls_ok demo_env 2 demo_calls (client_init, [])"
      "tb_tasks (cl_buf cl) = []" "cl_pending cl = []" "all_given demo_env 2 demo_calls (client_init, []) = {#(demo_meta, True)#}"
    using demo_run by blast
  from requests_reach_pool [OF cl(1-4)] show ?thesis
    using cl(1) unfolding cl(5) by blast
qed


theorem create_step_tasks_groups_witness:
  "\<exists>buf cl'. create_step_tasks demo_env 7 2 [demo_meta, demo_meta] client_init = Inr (buf, cl') \<and>
     (\<forall>b\<in>set (batches (tb_tasks buf)). map task_image b = [(demo_meta, True), (demo_meta, True)])"
proof -
  have "\<forall>m\<in>set [demo_meta, demo_meta]. rm_new_tokens m > 0" "small_workers [demo_meta, demo_meta]"
    by (simp_all add: demo_meta_def small_workers_def)
  from create_step_tasks_groups [OF this, of demo_env 7 2 client_init]
  obtain buf cl' where b: "create_step_tasks demo_env 7 2 [demo_meta, demo_meta] client_init = Inr (buf, cl')"
      "\<forall>b\<in>set (batches (tb_tasks buf)). b \<noteq> [] \<and> map task_image b = map last_image (filter (\<lambda>m. meta_key m = batch_key b) [demo_meta, demo_meta])"
    by blast
  have "map task_image b = [(demo_meta, True), (demo_meta, True)]" if "b \<in> set (batches (tb_tasks buf))" for b
    using bspec [OF b(2) that] by (cases "meta_key demo_meta = batch_key b") auto
  with b(1) show ?thesis
    by blast
qed

end
