(* ===== verification/CudaCopy.thy ===== *)
theory CudaCopy
  imports IpcBlocks
begin

text \<open>
  The copy kernels (\<open>src/copy_kernels.cu\<close>). A thread is identified by the index of its CUDA block and
  its index in the block; what it does is the list of its memory accesses, each one an \<open>ipc_block\<close>
  with absolute addresses: an \<open>int4\<close> access copies 16 bytes, an \<open>int64_t\<close> access 8 and a \<open>char\<close>
  access one. The source and the destination of a kernel are different memories, so the accesses of
  all threads can be executed in any order.

  The lemmas show that the threads together copy exactly the bytes of the descriptors, for every
  geometry of the launch, and that a wide access is aligned on both sides.

  Offsets, lengths and indices are \<open>int64_t\<close> or \<open>int\<close> in the source and natural numbers here: they are
  not negative and, being positions in a memory, far from the end of the type.
\<close>

section \<open>Model\<close>

subsection \<open>Loops with a stride\<close>

text \<open>
  The values of \<open>i\<close> in \<open>for (; i < n; i += step)\<close>, and its value after the loop. A step is a number
  of threads of the running launch and so positive.
\<close>

function strided :: "nat \<Rightarrow> nat \<Rightarrow> nat \<Rightarrow> nat list" where
  "strided i n step = (if i < n \<and> 0 < step then i # strided (i + step) n step else [])"
  by pat_completeness auto
termination
  by (relation "measure (\<lambda>(i, n, _). n - i)") auto

function stride_end :: "nat \<Rightarrow> nat \<Rightarrow> nat \<Rightarrow> nat" where
  "stride_end i n step = (if i < n \<and> 0 < step then stride_end (i + step) n step else i)"
  by pat_completeness auto
termination
  by (relation "measure (\<lambda>(i, n, _). n - i)") auto

declare strided.simps [simp del] stride_end.simps [simp del]

subsection \<open>One descriptor\<close>

definition char_access :: "nat \<Rightarrow> nat \<Rightarrow> nat \<Rightarrow> ipc_block" where
  "char_access src dst i = IpcBlock (src + i) (dst + i) 1"

definition int64_access :: "nat \<Rightarrow> nat \<Rightarrow> nat \<Rightarrow> ipc_block" where
  "int64_access src dst i = IpcBlock (src + 8 * i) (dst + 8 * i) 8"

definition int4_access :: "nat \<Rightarrow> nat \<Rightarrow> nat \<Rightarrow> ipc_block" where
  "int4_access src dst i = IpcBlock (src + 16 * i) (dst + 16 * i) 16"

text \<open>The indices of the vectors a thread copies: four at a time, then one at a time.\<close>

definition unrolled_indices :: "nat \<Rightarrow> nat \<Rightarrow> nat \<Rightarrow> nat list" where
  "unrolled_indices num_vec thread_id num_threads =
     (let stride = num_threads * 4;
          aligned_end = num_vec - num_vec mod stride;
          i = thread_id
      in if num_vec \<ge> stride then
           concat (map (\<lambda>i. [i, i + num_threads, i + 2 * num_threads, i + 3 * num_threads])
             (strided i aligned_end stride)) @
           strided (stride_end i aligned_end stride) num_vec num_threads
         else strided i num_vec num_threads)"

definition fast_copy_int4 :: "nat \<Rightarrow> nat \<Rightarrow> nat \<Rightarrow> nat \<Rightarrow> nat \<Rightarrow> ipc_block list" where
  "fast_copy_int4 src dst num_bytes thread_id num_threads =
     (let num_vec = num_bytes div 16; vec_bytes = num_vec * 16
      in map (int4_access src dst) (unrolled_indices num_vec thread_id num_threads) @
         map (char_access src dst) (strided (vec_bytes + thread_id) num_bytes num_threads))"

definition aligned :: "nat \<Rightarrow> nat \<Rightarrow> nat \<Rightarrow> bool" where
  "aligned n sa da \<longleftrightarrow> sa mod n = 0 \<and> da mod n = 0"

text \<open>A whole CUDA block on one descriptor, and one warp on one descriptor.\<close>

definition block_copies :: "nat \<Rightarrow> nat \<Rightarrow> nat \<Rightarrow> nat \<Rightarrow> nat \<Rightarrow> ipc_block list" where
  "block_copies src dst len tid block_size =
     (if len = 0 then []
      else if aligned 16 src dst then fast_copy_int4 src dst len tid block_size
      else map (char_access src dst) (strided tid len block_size))"

definition warp_copies :: "nat \<Rightarrow> nat \<Rightarrow> nat \<Rightarrow> nat \<Rightarrow> ipc_block list" where
  "warp_copies src dst len lane_id =
     (if len = 0 then []
      else if len = 256 \<and> aligned 16 src dst then
        (if lane_id < 16 then [int4_access src dst lane_id] else [])
      else if aligned 16 src dst then fast_copy_int4 src dst len lane_id 32
      else if aligned 8 src dst \<and> len mod 8 = 0 then
        map (int64_access src dst) (strided lane_id (len div 8) 32)
      else map (char_access src dst) (strided lane_id len 32))"

subsection \<open>The kernels\<close>

record launch_dims =
  grid_dim :: nat
  block_dim :: nat

text \<open>
  The values of \<open>base_idx\<close>. Without a full warp in a block the step is 0 and the loop does not end:
  then the value is None.
\<close>

function warp_bases :: "nat \<Rightarrow> nat \<Rightarrow> nat \<Rightarrow> nat list option" where
  "warp_bases base_idx num_blocks step =
     (if base_idx < num_blocks then
        (if step = 0 then None else map_option ((#) base_idx) (warp_bases (base_idx + step) num_blocks step))
      else Some [])"
  by pat_completeness auto
termination
  by (relation "measure (\<lambda>(base_idx, num_blocks, _). num_blocks - base_idx)") auto

declare warp_bases.simps [simp del]

text \<open>
  The descriptors a thread works on. With at most as many descriptors as CUDA blocks, a block takes
  one descriptor; otherwise each warp of a block takes one. \<open>block_part i t k\<close> is the work of thread
  \<open>t\<close> of \<open>k\<close> on descriptor \<open>i\<close>, \<open>warp_part i l\<close> the work of lane \<open>l\<close> of a warp.
\<close>

definition grid_thread ::
  "(nat \<Rightarrow> nat \<Rightarrow> nat \<Rightarrow> 'x list) \<Rightarrow> (nat \<Rightarrow> nat \<Rightarrow> 'x list) \<Rightarrow> nat \<Rightarrow> launch_dims \<Rightarrow> nat \<Rightarrow> nat \<Rightarrow> 'x list option" where
  "grid_thread block_part warp_part num_blocks dims bid tid =
     (if num_blocks \<le> grid_dim dims then
        Some (concat (map (\<lambda>block_idx. block_part block_idx tid (block_dim dims))
          (strided bid num_blocks (grid_dim dims))))
      else
        (let warp_id = tid div 32; lane_id = tid mod 32; warps_per_block = block_dim dims div 32
         in map_option (\<lambda>bases. concat (map (\<lambda>base_idx.
              let block_idx = base_idx + warp_id
              in if block_idx \<ge> num_blocks then [] else warp_part block_idx lane_id) bases))
              (warp_bases (bid * warps_per_block) num_blocks (grid_dim dims * warps_per_block))))"

definition direct_kernel_thread ::
  "nat \<Rightarrow> nat \<Rightarrow> nat list \<Rightarrow> nat list \<Rightarrow> nat list \<Rightarrow> nat \<Rightarrow> launch_dims \<Rightarrow> nat \<Rightarrow> nat \<Rightarrow> ipc_block list option" where
  "direct_kernel_thread src_base dst_base src_offsets dst_offsets lens =
     grid_thread
       (\<lambda>i. block_copies (src_base + src_offsets ! i) (dst_base + dst_offsets ! i) (lens ! i))
       (\<lambda>i. warp_copies (src_base + src_offsets ! i) (dst_base + dst_offsets ! i) (lens ! i))"

definition copy_h2d_direct_kernel ::
  "nat \<Rightarrow> nat \<Rightarrow> nat list \<Rightarrow> nat list \<Rightarrow> nat list \<Rightarrow> nat \<Rightarrow> launch_dims \<Rightarrow> nat \<Rightarrow> nat \<Rightarrow> ipc_block list option" where
  "copy_h2d_direct_kernel host_src gpu_dst_base = direct_kernel_thread host_src gpu_dst_base"

definition copy_d2h_direct_kernel ::
  "nat \<Rightarrow> nat \<Rightarrow> nat list \<Rightarrow> nat list \<Rightarrow> nat list \<Rightarrow> nat \<Rightarrow> launch_dims \<Rightarrow> nat \<Rightarrow> nat \<Rightarrow> ipc_block list option" where
  "copy_d2h_direct_kernel gpu_src_base host_dst = direct_kernel_thread gpu_src_base host_dst"

text \<open>The copy of an array of 64-bit integers, spread over all threads of the launch.\<close>

definition copy_int64_array_h2d_kernel ::
  "nat \<Rightarrow> nat \<Rightarrow> nat \<Rightarrow> launch_dims \<Rightarrow> nat \<Rightarrow> nat \<Rightarrow> ipc_block list" where
  "copy_int64_array_h2d_kernel host_src device_dst num_elements dims bid tid =
     (let global_idx = bid * block_dim dims + tid;
          total_threads = grid_dim dims * block_dim dims
      in if aligned 16 host_src device_dst \<and> num_elements \<ge> 2 then
           (let num_vec = num_elements div 2; remaining_start = num_vec * 2
            in map (int4_access host_src device_dst) (unrolled_indices num_vec global_idx total_threads) @
               (if remaining_start < num_elements \<and> global_idx = 0
                then [int64_access host_src device_dst remaining_start] else []))
         else map (int64_access host_src device_dst) (strided global_idx num_elements total_threads))"

section \<open>Loops with a stride\<close>

lemma strided_mem:
  assumes "0 < step"
  shows "x \<in> set (strided i n step) \<longleftrightarrow> i \<le> x \<and> x < n \<and> (x - i) mod step = 0"
  using assms
proof (induction i n step rule: strided.induct)
  case (1 i n step)
  show ?case
  proof (cases "i < n \<and> 0 < step")
    case True
    have "(x - i) mod step = 0 \<longleftrightarrow> x = i \<or> i + step \<le> x \<and> (x - (i + step)) mod step = 0" if "i \<le> x"
    proof -
      obtain k where k: "x = i + k"
        using \<open>i \<le> x\<close> le_Suc_ex by blast
      then show ?thesis
        using True by (cases "k < step") (auto simp: mod_if [of k step])
    qed
    then show ?thesis
      using "1.IH" True by (subst strided.simps) auto
  next
    case False
    then show ?thesis
      using "1.prems" by (subst strided.simps) auto
  qed
qed

lemma mod_eq_offset:
  fixes x t step :: nat
  assumes "t < step"
  shows "t \<le> x \<and> (x - t) mod step = 0 \<longleftrightarrow> x mod step = t"
proof (cases "t \<le> x")
  case True
  then show ?thesis
    using mod_eq_dvd_iff_nat [OF True, of step] assms by (simp add: dvd_eq_mod_eq_0)
next
  case False
  then show ?thesis
    using assms by simp
qed

lemma strided_mod: "t < step \<Longrightarrow> x \<in> set (strided t n step) \<longleftrightarrow> x < n \<and> x mod step = t"
  using mod_eq_offset [of t step x] by (auto simp: strided_mem)

lemma strided_shift:
  assumes "t < step"
  shows "x \<in> set (strided (v + t) n step) \<longleftrightarrow> v \<le> x \<and> x < n \<and> (x - v) mod step = t"
proof -
  have "v + t \<le> x \<and> (x - (v + t)) mod step = 0 \<longleftrightarrow> v \<le> x \<and> (x - v) mod step = t"
    using mod_eq_offset [OF assms, of "x - v"] by (cases "v \<le> x") (auto simp: le_diff_conv2 add.commute)
  then show ?thesis
    using assms by (auto simp: strided_mem)
qed

lemma strided_from_multiple:
  assumes "t < step" and "step dvd e"
  shows "x \<in> set (strided (e + t) n step) \<longleftrightarrow> e \<le> x \<and> x < n \<and> x mod step = t"
proof -
  have "(x - e) mod step = x mod step" if "e \<le> x"
    using that assms(2) by (metis dvd_imp_mod_0 le_add_diff_inverse mod_add_left_eq add_0)
  then show ?thesis
    using strided_shift [OF assms(1), of x e n] by auto
qed

text \<open>\<open>c\<close> columns of width \<open>n\<close> next to each other fill the rows of width \<open>n * c\<close>.\<close>

lemma unrolled_block:
  fixes n e x c :: nat
  assumes "0 < n" and "0 < c" and "n * c dvd e"
  shows "(\<exists>i u. i < e \<and> i mod (n * c) < n \<and> u < c \<and> x = i + u * n) \<longleftrightarrow> x < e"
proof
  assume "\<exists>i u. i < e \<and> i mod (n * c) < n \<and> u < c \<and> x = i + u * n"
  then obtain i u where iu: "i < e" "i mod (n * c) < n" "u < c" "x = i + u * n"
    by blast
  obtain q where q: "e = n * c * q"
    using assms(3) by blast
  let ?r = "i div (n * c)"
  have "?r < q"
    using iu(1) assms by (simp add: q less_mult_imp_div_less mult.commute)
  then have "n * c * ?r + n * c \<le> e"
    unfolding q using mult_le_mono2 [of "Suc ?r" q "n * c"] by simp
  moreover have "u * n + n \<le> n * c"
    using iu(3) mult_le_mono2 [of "Suc u" c n] by (simp add: mult.commute)
  moreover have "i = n * c * ?r + i mod (n * c)"
    by simp
  ultimately show "x < e"
    using iu(2,4) by linarith
next
  assume x: "x < e"
  let ?r = "x mod (n * c)"
  have "?r < n * c"
    using assms by simp
  define i where "i = x - ?r div n * n"
  have le: "?r div n * n \<le> ?r" "?r \<le> x"
    by simp_all
  have "x = n * c * (x div (n * c)) + ?r" "?r = ?r div n * n + ?r mod n"
    by simp_all
  then have "i = n * c * (x div (n * c)) + ?r mod n"
    unfolding i_def by linarith
  moreover have "?r mod n < n * c"
    using assms \<open>?r < n * c\<close> mod_less_eq_dividend [of ?r n] by linarith
  ultimately have "i mod (n * c) = ?r mod n"
    by simp
  then have "i mod (n * c) < n"
    using assms(1) by simp
  moreover have "?r div n < c"
    using \<open>?r < n * c\<close> by (simp add: less_mult_imp_div_less mult.commute)
  moreover have "x = i + ?r div n * n" "i < e"
    using le x unfolding i_def by linarith+
  ultimately show "\<exists>i u. i < e \<and> i mod (n * c) < n \<and> u < c \<and> x = i + u * n"
    by blast
qed

lemma stride_end_aligned:
  assumes "t < step" and "step dvd e"
  shows "stride_end (t + k * step) e step = (if k * step < e then e + t else t + k * step)"
proof -
  obtain q where q: "e = step * q"
    using assms(2) by blast
  have pos: "0 < step"
    using assms(1) by simp
  have lt: "t + k * step < e \<longleftrightarrow> k < q" for k
  proof
    assume "t + k * step < e"
    then have "k * step < q * step"
      unfolding q by (metis add_lessD1 add.commute mult.commute)
    then show "k < q"
      by simp
  next
    assume "k < q"
    then have "Suc k * step \<le> q * step"
      by (intro mult_le_mono1) simp
    then show "t + k * step < e"
      using assms(1) q by (simp add: mult.commute)
  qed
  have "stride_end (t + k * step) e step = (if k < q then e + t else t + k * step)"
  proof (induction "q - k" arbitrary: k)
    case 0
    then show ?case
      using lt [of k] by (subst stride_end.simps) simp
  next
    case (Suc n)
    then have k: "k < q" "n = q - Suc k"
      by simp_all
    have "stride_end (t + k * step) e step = stride_end (t + Suc k * step) e step"
      using lt [of k] k pos by (subst stride_end.simps) (simp add: algebra_simps)
    also have "\<dots> = (if Suc k < q then e + t else t + Suc k * step)"
      by (rule Suc.hyps(1) [OF k(2)])
    also have "\<dots> = e + t"
      using k q by (cases "Suc k = q") (auto simp: mult.commute)
    finally show ?case
      using k by simp
  qed
  moreover have "k * step < e \<longleftrightarrow> k < q"
    using pos q by (simp add: mult.commute)
  ultimately show ?thesis
    by simp
qed

text \<open>
  The threads share the vectors: each index below \<open>m\<close> is some thread's, and no other is. The loop
  handles \<open>c\<close> vectors per round as long as all threads have full rounds.
\<close>

definition rounds :: "nat \<Rightarrow> nat \<Rightarrow> nat \<Rightarrow> nat \<Rightarrow> nat list" where
  "rounds c m t n =
     (let e = m - m mod (n * c)
      in if m \<ge> n * c then
           concat (map (\<lambda>i. map (\<lambda>u. i + u * n) [0..<c]) (strided t e (n * c))) @
           strided (stride_end t e (n * c)) m n
         else strided t m n)"

lemma rounds_cover:
  assumes "0 < n" and "0 < c"
  shows "(\<Union>t<n. set (rounds c m t n)) = {..<m}"
proof (cases "m \<ge> n * c")
  case True
  let ?st = "n * c"
  let ?e = "m - m mod ?st"
  let ?full = "\<lambda>t. {x. \<exists>i u. i < ?e \<and> i mod ?st = t \<and> u < c \<and> x = i + u * n}"
  have e: "?st dvd ?e" "n dvd ?e" "?e \<le> m"
    by (simp_all add: minus_mod_eq_mult_div)
  have "m mod ?st < ?st"
    using assms by simp
  then have pos: "0 < ?e"
    using True by linarith
  have idx: "set (rounds c m t n) = ?full t \<union> {x. ?e \<le> x \<and> x < m \<and> x mod n = t}" if t: "t < n" for t
  proof -
    have t': "t < ?st"
      using t assms(2) by (metis le_neq_implies_less less_le_trans mult_le_mono2 nat_mult_1_right One_nat_def Suc_leI less_imp_le)
    have endi: "stride_end t ?e ?st = ?e + t"
      using stride_end_aligned [of t ?st ?e 0] t' e(1) pos by simp
    have full: "x \<in> set (concat (map (\<lambda>i. map (\<lambda>u. i + u * n) [0..<c]) (strided t ?e ?st))) \<longleftrightarrow>
        (\<exists>i u. i < ?e \<and> i mod ?st = t \<and> u < c \<and> x = i + u * n)" for x
      using strided_mod [OF t', of _ ?e] by fastforce
    show ?thesis
      by (rule set_eqI) (simp only: rounds_def Let_def if_P [OF True] set_append Un_iff endi full
          strided_from_multiple [OF t e(2)] mem_Collect_eq)
  qed
  have below: "(\<Union>t<n. ?full t) = {..<?e}"
  proof (rule set_eqI)
    fix x
    have "x \<in> (\<Union>t<n. ?full t) \<longleftrightarrow> (\<exists>i u. i < ?e \<and> i mod ?st < n \<and> u < c \<and> x = i + u * n)"
      by blast
    then show "x \<in> (\<Union>t<n. ?full t) \<longleftrightarrow> x \<in> {..<?e}"
      using unrolled_block [OF assms e(1), of x] by simp
  qed
  have "(\<Union>t<n. set (rounds c m t n)) = {..<?e} \<union> (\<Union>t<n. {x. ?e \<le> x \<and> x < m \<and> x mod n = t})"
    unfolding below [symmetric] UN_Un_distrib [symmetric] using idx by (intro SUP_cong) auto
  also have "\<dots> = {..<m}"
    using e(3) assms by auto
  finally show ?thesis .
next
  case False
  then show ?thesis
    using assms by (auto simp: rounds_def Let_def strided_mod intro!: UN_I [of "_ mod n"])
qed

lemma unrolled_indices_rounds: "unrolled_indices m t n = rounds 4 m t n"
  by (simp add: unrolled_indices_def rounds_def Let_def numeral_eq_Suc)

lemma unrolled_indices_cover: "0 < n \<Longrightarrow> (\<Union>t<n. set (unrolled_indices m t n)) = {..<m}"
  by (simp add: unrolled_indices_rounds rounds_cover)

section \<open>One descriptor\<close>

lemma copied_map: "copied (map f xs) = (\<Union>x\<in>set xs. block_bytes (f x))"
  by (simp add: copied_def)

lemma copied_accesses:
  "block_bytes (char_access s d i) = run (s + i) (d + i) 1"
  "block_bytes (int64_access s d i) = run (s + 8 * i) (d + 8 * i) 8"
  "block_bytes (int4_access s d i) = run (s + 16 * i) (d + 16 * i) 16"
  by (simp_all add: char_access_def int64_access_def int4_access_def)

lemma UN_UN_set:
  assumes "(\<Union>t\<in>T. set (f t)) = X"
  shows "(\<Union>t\<in>T. \<Union>x\<in>set (f t). g x) = (\<Union>x\<in>X. g x)"
  using assms by auto

lemma strided_cover: "0 < n \<Longrightarrow> (\<Union>t<n. set (strided t m n)) = {..<m}"
  by (auto simp: strided_mod intro!: UN_I [of "_ mod n"])

lemma strided_tail_cover: "0 < n \<Longrightarrow> (\<Union>t<n. set (strided (v + t) m n)) = {v..<m}"
  by (auto simp: strided_shift intro!: UN_I [of "(_ - v) mod n"])

lemma run_units: "(\<Union>k\<in>{..<n}. run (s + w * k) (d + w * k) w) = run s d (n * w)"
  by (simp add: run_tokens mult.commute)

lemma run_tail: "v \<le> n \<Longrightarrow> (\<Union>k\<in>{v..<n}. run (s + k) (d + k) 1) = run (s + v) (d + v) (n - v)"
  using UN_shift [where w = v and c = "n - v" and f = "\<lambda>k. run (s + k) (d + k) 1"]
    run_tokens [of "s + v" "d + v" "n - v" 1] by (simp add: add.assoc)

lemma fast_copy_int4_covers:
  assumes "0 < n"
  shows "(\<Union>t<n. copied (fast_copy_int4 s d len t n)) = run s d len"
proof -
  have "(\<Union>t<n. copied (fast_copy_int4 s d len t n)) =
      (\<Union>t<n. \<Union>i\<in>set (unrolled_indices (len div 16) t n). run (s + 16 * i) (d + 16 * i) 16) \<union>
      (\<Union>t<n. \<Union>i\<in>set (strided (len div 16 * 16 + t) len n). run (s + i) (d + i) 1)"
    by (simp add: fast_copy_int4_def Let_def copied_map copied_accesses UN_Un_distrib)
  also have "\<dots> = run s d (len div 16 * 16) \<union> run (s + len div 16 * 16) (d + len div 16 * 16) (len - len div 16 * 16)"
    unfolding UN_UN_set [OF unrolled_indices_cover [OF assms]] UN_UN_set [OF strided_tail_cover [OF assms]]
    by (simp add: run_units run_tail [unfolded One_nat_def])
  also have "\<dots> = run s d len"
    using run_append [of s d "len div 16 * 16" "len - len div 16 * 16"] by (simp add: add.assoc)
  finally show ?thesis .
qed

lemma strided_chars_cover:
  assumes "0 < n"
  shows "(\<Union>t<n. copied (map (char_access s d) (strided t len n))) = run s d len"
  using UN_UN_set [OF strided_cover [OF assms], where g = "\<lambda>i. run (s + i) (d + i) 1"] run_tail [of 0 len s d]
  by (simp add: copied_map copied_accesses atLeast0LessThan)

lemma strided_int64_cover:
  assumes "0 < n"
  shows "(\<Union>t<n. copied (map (int64_access s d) (strided t m n))) = run s d (m * 8)"
  using UN_UN_set [OF strided_cover [OF assms], where g = "\<lambda>i. run (s + 8 * i) (d + 8 * i) 8"]
  by (simp add: copied_map copied_accesses run_units)

lemma block_copies_cover: "0 < n \<Longrightarrow> (\<Union>t<n. copied (block_copies s d len t n)) = run s d len"
  by (cases "len = 0"; cases "aligned 16 s d")
    (simp_all add: block_copies_def fast_copy_int4_covers strided_chars_cover)

lemma warp_copies_cover: "(\<Union>l<32. copied (warp_copies s d len l)) = run s d len"
proof (cases "len = 256 \<and> aligned 16 s d")
  case True
  then have "(\<Union>l<32. copied (warp_copies s d len l)) = (\<Union>l\<in>{..<16}. run (s + 16 * l) (d + 16 * l) 16)"
    by (fastforce simp: warp_copies_def copied_accesses split: if_splits)
  then show ?thesis
    using True by (simp add: run_units)
next
  case False
  have "len mod 8 = 0 \<Longrightarrow> len div 8 * 8 = len"
    by auto
  then show ?thesis
    using False
    by (cases "len = 0"; cases "aligned 16 s d"; cases "aligned 8 s d"; cases "len mod 8 = 0")
      (simp_all add: warp_copies_def fast_copy_int4_covers strided_chars_cover strided_int64_cover)
qed

text \<open>What one thread copies is part of the descriptor.\<close>

lemma block_copies_part: "t < n \<Longrightarrow> copied (block_copies s d len t n) \<subseteq> run s d len"
  using block_copies_cover [of n s d len] by force

lemma warp_copies_part: "l < 32 \<Longrightarrow> copied (warp_copies s d len l) \<subseteq> run s d len"
  using warp_copies_cover [of s d len] by force

section \<open>The whole launch\<close>

lemma warp_bases_Some:
  assumes "0 < step"
  shows "\<exists>bases. warp_bases b n step = Some bases \<and> set bases = set (strided b n step)"
  using assms
proof (induction b n step rule: warp_bases.induct)
  case (1 b n step)
  then show ?case
    by (subst warp_bases.simps, subst strided.simps) auto
qed

definition launchable :: "launch_dims \<Rightarrow> nat \<Rightarrow> bool" where
  "launchable dims num_blocks \<longleftrightarrow>
     0 < grid_dim dims \<and> 0 < block_dim dims \<and> (num_blocks \<le> grid_dim dims \<or> 32 \<le> block_dim dims)"

lemma grid_thread_total:
  assumes "launchable dims n"
  shows "\<exists>ops. grid_thread bp wp n dims b t = Some ops"
proof (cases "n \<le> grid_dim dims")
  case False
  then have "0 < grid_dim dims * (block_dim dims div 32)"
    using assms by (simp add: launchable_def div_greater_zero_iff)
  from warp_bases_Some [OF this] obtain bases where
    "warp_bases (b * (block_dim dims div 32)) n (grid_dim dims * (block_dim dims div 32)) = Some bases"
    by blast
  then show ?thesis
    using False by (simp add: grid_thread_def Let_def)
qed (simp add: grid_thread_def)

lemma grid_thread_from:
  assumes "grid_thread bp wp n dims b t = Some ops" and "x \<in> set ops"
  shows "\<exists>i. x \<in> set (bp i t (block_dim dims)) \<or> x \<in> set (wp i (t mod 32))"
  using assms by (auto simp: grid_thread_def Let_def split: if_splits)

text \<open>The warp that serves descriptor \<open>i\<close>.\<close>

lemma warp_of_descriptor:
  fixes i w g :: nat
  assumes "i < n" and "0 < w" and "0 < g"
  shows "i - i mod w \<in> set (strided (i div w mod g * w) n (g * w))"
proof -
  let ?q = "i div w"
  have base: "i - i mod w = ?q * w"
    by (simp add: minus_mod_eq_div_mult)
  have "?q * w - ?q mod g * w = (?q - ?q mod g) * w"
    by (simp add: diff_mult_distrib)
  also have "\<dots> = g * w * (?q div g)"
    by (simp add: minus_mod_eq_mult_div algebra_simps)
  finally have "(?q * w - ?q mod g * w) mod (g * w) = 0"
    by simp
  moreover have "?q mod g * w \<le> ?q * w"
    by (intro mult_le_mono1) simp
  ultimately show ?thesis
    using assms base by (simp add: strided_mem)
qed

text \<open>
  The contract of the work on one descriptor: the threads of a block, and the lanes of a warp, achieve
  the same effect \<open>goal i\<close> together. Then so does the whole launch, for every geometry.
\<close>

locale grid_work =
  fixes block_part :: "nat \<Rightarrow> nat \<Rightarrow> nat \<Rightarrow> 'x list"
    and warp_part :: "nat \<Rightarrow> nat \<Rightarrow> 'x list"
    and eff :: "'x \<Rightarrow> 'y set"
    and goal :: "nat \<Rightarrow> 'y set"
  assumes block_cover: "0 < k \<Longrightarrow> (\<Union>t<k. \<Union>x\<in>set (block_part i t k). eff x) = goal i"
    and warp_cover: "(\<Union>l<32. \<Union>x\<in>set (warp_part i l). eff x) = goal i"
begin

lemma blocks_cover:
  assumes "launchable dims n" and "n \<le> grid_dim dims"
  shows "(\<Union>b<grid_dim dims. \<Union>t<block_dim dims. \<Union>x\<in>set (the (grid_thread block_part warp_part n dims b t)). eff x) =
    (\<Union>i<n. goal i)"
proof -
  have "(\<Union>b<grid_dim dims. \<Union>t<block_dim dims. \<Union>x\<in>set (the (grid_thread block_part warp_part n dims b t)). eff x) =
      (\<Union>b<grid_dim dims. \<Union>i\<in>set (strided b n (grid_dim dims)).
        \<Union>t<block_dim dims. \<Union>x\<in>set (block_part i t (block_dim dims)). eff x)"
    using assms(2) by (auto simp: grid_thread_def)
  then show ?thesis
    using assms by (simp add: launchable_def block_cover UN_UN_set [OF strided_cover])
qed

lemma warps_cover:
  assumes "launchable dims n" and "\<not> n \<le> grid_dim dims"
  shows "(\<Union>b<grid_dim dims. \<Union>t<block_dim dims. \<Union>x\<in>set (the (grid_thread block_part warp_part n dims b t)). eff x) =
    (\<Union>i<n. goal i)"
proof -
  let ?w = "block_dim dims div 32" and ?g = "grid_dim dims"
  let ?thread = "\<lambda>b t. \<Union>x\<in>set (the (grid_thread block_part warp_part n dims b t)). eff x"
  let ?wc = "\<lambda>i l. \<Union>x\<in>set (warp_part i l). eff x"
  have pos: "0 < ?w" "0 < ?g" "?w * 32 \<le> block_dim dims"
    using assms by (auto simp: launchable_def div_greater_zero_iff)
  have thread: "?thread b t =
      (\<Union>base\<in>set (strided (b * ?w) n (?g * ?w)). if base + t div 32 < n then ?wc (base + t div 32) (t mod 32) else {})"
    for b t
  proof -
    obtain bases where "warp_bases (b * ?w) n (?g * ?w) = Some bases" "set bases = set (strided (b * ?w) n (?g * ?w))"
      using warp_bases_Some [of "?g * ?w" "b * ?w" n] pos by auto
    then show ?thesis
      using assms(2) by (auto simp: grid_thread_def Let_def not_le split: if_splits)
  qed
  show ?thesis
  proof (intro equalityI subsetI)
    fix p
    assume "p \<in> (\<Union>b<?g. \<Union>t<block_dim dims. ?thread b t)"
    then obtain i t where "i < n" "p \<in> ?wc i (t mod 32)"
      by (auto simp: thread split: if_splits)
    then show "p \<in> (\<Union>i<n. goal i)"
      unfolding warp_cover [symmetric] by (intro UN_I [of i] UN_I [of "t mod 32"]) auto
  next
    fix p
    assume "p \<in> (\<Union>i<n. goal i)"
    then obtain i l where i: "i < n" and l: "l < 32" "p \<in> ?wc i l"
      unfolding warp_cover [symmetric] by blast
    let ?t = "i mod ?w * 32 + l" and ?b = "i div ?w mod ?g"
    have "i mod ?w * 32 + 32 \<le> ?w * 32"
      using pos(1) mod_less_divisor [of ?w i] by linarith
    then have t: "?t < block_dim dims" "?t div 32 = i mod ?w" "?t mod 32 = l"
      using l(1) pos(3) by auto
    have "p \<in> ?thread ?b ?t"
      unfolding thread t(2,3) using warp_of_descriptor [OF i pos(1,2)] i l(2)
      by (intro UN_I [of "i - i mod ?w"]) simp_all
    moreover have "?b < ?g"
      using pos(2) by simp
    ultimately show "p \<in> (\<Union>b<?g. \<Union>t<block_dim dims. ?thread b t)"
      using t(1) by blast
  qed
qed

lemma launch_cover:
  assumes "launchable dims n"
  shows "(\<Union>b<grid_dim dims. \<Union>t<block_dim dims. \<Union>x\<in>set (the (grid_thread block_part warp_part n dims b t)). eff x) =
    (\<Union>i<n. goal i)"
  using blocks_cover [OF assms] warps_cover [OF assms] by blast

end

interpretation dk: grid_work
  "\<lambda>i. block_copies (src_base + src_offsets ! i) (dst_base + dst_offsets ! i) (lens ! i)"
  "\<lambda>i. warp_copies (src_base + src_offsets ! i) (dst_base + dst_offsets ! i) (lens ! i)"
  block_bytes "\<lambda>i. run (src_base + src_offsets ! i) (dst_base + dst_offsets ! i) (lens ! i)"
  for src_base dst_base src_offsets dst_offsets lens
  by unfold_locales (simp_all add: block_copies_cover [unfolded copied_def] warp_copies_cover [unfolded copied_def])

text \<open>The array kernel copies the whole array.\<close>

lemma UN_threads:
  fixes f :: "nat \<Rightarrow> 'a set"
  assumes "0 < n"
  shows "(\<Union>b<g. \<Union>t<n. f (b * n + t)) = (\<Union>x<g * n. f x)"
proof (intro equalityI subsetI)
  fix p
  assume "p \<in> (\<Union>b<g. \<Union>t<n. f (b * n + t))"
  then obtain b t where bt: "b < g" "t < n" "p \<in> f (b * n + t)"
    by blast
  have "b * n + n \<le> g * n"
    using bt(1) mult_le_mono1 [of "Suc b" g n] by simp
  with bt show "p \<in> (\<Union>x<g * n. f x)"
    by (intro UN_I [of "b * n + t"]) auto
next
  fix p
  assume "p \<in> (\<Union>x<g * n. f x)"
  then obtain x where x: "x < g * n" "p \<in> f (x div n * n + x mod n)"
    by auto
  then show "p \<in> (\<Union>b<g. \<Union>t<n. f (b * n + t))"
    using assms by (intro UN_I [of "x div n"] UN_I [of "x mod n"]) (auto simp: less_mult_imp_div_less)
qed

lemma copy_int64_array_copies:
  assumes "0 < grid_dim dims" and "0 < block_dim dims"
  shows "(\<Union>b<grid_dim dims. \<Union>t<block_dim dims. copied (copy_int64_array_h2d_kernel s d m dims b t)) = run s d (m * 8)"
proof -
  let ?n = "grid_dim dims * block_dim dims"
  let ?f = "\<lambda>x. if aligned 16 s d \<and> m \<ge> 2
    then copied (map (int4_access s d) (unrolled_indices (m div 2) x ?n)) \<union>
      (if m div 2 * 2 < m \<and> x = 0 then block_bytes (int64_access s d (m div 2 * 2)) else {})
    else copied (map (int64_access s d) (strided x m ?n))"
  have pos: "0 < ?n"
    using assms by simp
  have "(\<Union>b<grid_dim dims. \<Union>t<block_dim dims. copied (copy_int64_array_h2d_kernel s d m dims b t)) =
      (\<Union>b<grid_dim dims. \<Union>t<block_dim dims. ?f (b * block_dim dims + t))"
    by (intro SUP_cong refl) (simp add: copy_int64_array_h2d_kernel_def Let_def)
  also have "\<dots> = (\<Union>x<?n. ?f x)"
    by (rule UN_threads [OF assms(2)])
  also have "\<dots> = run s d (m * 8)"
  proof (cases "aligned 16 s d \<and> m \<ge> 2")
    case True
    have vec: "(\<Union>x<?n. copied (map (int4_access s d) (unrolled_indices (m div 2) x ?n))) = run s d (m div 2 * 16)"
      using UN_UN_set [OF unrolled_indices_cover [OF pos, of "m div 2"], where g = "\<lambda>i. run (s + 16 * i) (d + 16 * i) 16"]
      by (simp add: copied_map copied_accesses run_units)
    have odd: "(\<Union>x<?n. if m div 2 * 2 < m \<and> x = 0 then block_bytes (int64_access s d (m div 2 * 2)) else {}) =
        run (s + m div 2 * 16) (d + m div 2 * 16) (m mod 2 * 8)"
    proof -
      have "(\<Union>x<?n. if P \<and> x = 0 then A else {}) = (if P then A else {})" for P and A :: "(nat \<times> nat) set"
        using pos by (auto split: if_splits)
      moreover have "m div 2 * 2 < m \<longleftrightarrow> m mod 2 = 1" "8 * (m div 2 * 2) = m div 2 * 16"
        using div_mult_mod_eq [of m 2] mod_less_divisor [of 2 m] by linarith+
      ultimately show ?thesis
        by (simp add: copied_accesses mult.commute)
    qed
    have "m * 8 = m div 2 * 16 + m mod 2 * 8"
      using div_mult_mod_eq [of m 2] by linarith
    then show ?thesis
      using True vec odd run_append [of s d "m div 2 * 16" "m mod 2 * 8"] by (simp add: UN_Un_distrib)
  next
    case False
    then have "(\<Union>x<?n. ?f x) = (\<Union>x<?n. copied (map (int64_access s d) (strided x m ?n)))"
      by auto
    then show ?thesis
      using strided_int64_cover [OF pos] by simp
  qed
  finally show ?thesis .
qed

section \<open>Alignment\<close>

definition access_aligned :: "ipc_block \<Rightarrow> bool" where
  "access_aligned b \<longleftrightarrow> blk_len b dvd src_offset b \<and> blk_len b dvd dst_offset b"

lemma access_aligned_simps [simp]:
  "access_aligned (char_access s d i)"
  "access_aligned (int64_access s d i) \<longleftrightarrow> aligned 8 s d"
  "access_aligned (int4_access s d i) \<longleftrightarrow> aligned 16 s d"
  by (simp_all add: access_aligned_def char_access_def int64_access_def int4_access_def aligned_def
      dvd_add_left_iff mod_eq_0_iff_dvd)

lemma block_copies_aligned: "b \<in> set (block_copies s d len t n) \<Longrightarrow> access_aligned b"
  by (auto simp: block_copies_def fast_copy_int4_def Let_def split: if_splits)

lemma warp_copies_aligned: "b \<in> set (warp_copies s d len l) \<Longrightarrow> access_aligned b"
  by (auto simp: warp_copies_def fast_copy_int4_def Let_def split: if_splits)

lemma direct_kernel_aligned:
  assumes "direct_kernel_thread sb db sof dof ln n dims b t = Some ops" and "x \<in> set ops"
  shows "access_aligned x"
  using grid_thread_from [OF assms(1) [unfolded direct_kernel_thread_def] assms(2)]
  by (blast dest: block_copies_aligned warp_copies_aligned)

section \<open>Runs of a launch\<close>

text \<open>
  A run executes the accesses of all threads, in any order. When a thread does not end there is no
  run.
\<close>

definition kernel_runs :: "(nat \<Rightarrow> nat \<Rightarrow> 'x list option) \<Rightarrow> launch_dims \<Rightarrow> 'x list \<Rightarrow> bool" where
  "kernel_runs thread dims ops \<longleftrightarrow>
     (\<forall>b<grid_dim dims. \<forall>t<block_dim dims. thread b t \<noteq> None) \<and>
     mset ops = (\<Sum>b<grid_dim dims. \<Sum>t<block_dim dims. mset (the (thread b t)))"

text \<open>The descriptors a launch is asked to copy.\<close>

definition launch_blocks :: "nat \<Rightarrow> nat \<Rightarrow> nat list \<Rightarrow> nat list \<Rightarrow> nat list \<Rightarrow> nat \<Rightarrow> ipc_block list" where
  "launch_blocks sb db sof dof ln n = map (\<lambda>i. IpcBlock (sb + sof ! i) (db + dof ! i) (ln ! i)) [0..<n]"

lemma copied_launch_blocks:
  "copied (launch_blocks sb db sof dof ln n) = (\<Union>i<n. run (sb + sof ! i) (db + dof ! i) (ln ! i))"
  by (simp add: launch_blocks_def copied_map atLeast0LessThan)

lemma kernel_runs_set:
  assumes "kernel_runs thread dims ops"
  shows "set ops = (\<Union>b<grid_dim dims. \<Union>t<block_dim dims. set (the (thread b t)))"
proof -
  have "set ops = set_mset (\<Sum>b<grid_dim dims. \<Sum>t<block_dim dims. mset (the (thread b t)))"
    using assms by (metis kernel_runs_def set_mset_mset)
  then show ?thesis
    by (simp add: set_mset_sum)
qed

lemma kernel_runs_ex:
  assumes "\<And>b t. \<exists>ops. thread b t = Some ops"
  shows "\<exists>ops. kernel_runs thread dims ops"
proof -
  obtain ops where "mset ops = (\<Sum>b<grid_dim dims. \<Sum>t<block_dim dims. mset (the (thread b t)))"
    using ex_mset by blast
  then show ?thesis
    using assms by (auto simp: kernel_runs_def)
qed

lemma direct_kernel_run_copies:
  assumes "launchable dims n" and "kernel_runs (direct_kernel_thread sb db sof dof ln n dims) dims ops"
  shows "copied ops = copied (launch_blocks sb db sof dof ln n)"
proof -
  have "copied ops = (\<Union>b<grid_dim dims. \<Union>t<block_dim dims.
      \<Union>x\<in>set (the (direct_kernel_thread sb db sof dof ln n dims b t)). block_bytes x)"
    by (auto simp: copied_def kernel_runs_set [OF assms(2)])
  then show ?thesis
    unfolding direct_kernel_thread_def dk.launch_cover [OF assms(1)] by (simp add: copied_launch_blocks)
qed

lemma direct_kernel_total: "launchable dims n \<Longrightarrow> \<exists>ops. direct_kernel_thread sb db sof dof ln n dims b t = Some ops"
  by (simp add: direct_kernel_thread_def grid_thread_total)

lemma direct_kernel_run_aligned:
  assumes "launchable dims n" and "kernel_runs (direct_kernel_thread sb db sof dof ln n dims) dims ops"
    and "x \<in> set ops"
  shows "access_aligned x"
proof -
  obtain b t where "x \<in> set (the (direct_kernel_thread sb db sof dof ln n dims b t))"
    using assms(3) kernel_runs_set [OF assms(2)] by blast
  then show ?thesis
    using direct_kernel_total [OF assms(1), of sb db sof dof ln b t] direct_kernel_aligned by fastforce
qed

text \<open>Descriptors with disjoint destinations.\<close>

fun dst_disjoint :: "ipc_block list \<Rightarrow> bool" where
  "dst_disjoint [] = True"
| "dst_disjoint (b # bs) =
     (list_all (\<lambda>c. dst_offset b + blk_len b \<le> dst_offset c \<or> dst_offset c + blk_len c \<le> dst_offset b) bs \<and>
      dst_disjoint bs)"

lemma dst_disjoint_one_source: "dst_disjoint bs \<Longrightarrow> one_source (copied bs)"
proof (induction bs)
  case (Cons b bs)
  have "(s', d) \<notin> block_bytes c" if "(s, d) \<in> block_bytes b" "c \<in> set bs" for s s' d c
    using that Cons.prems by (fastforce simp: list_all_iff block_bytes_def mem_run)
  then have "(s', d) \<notin> copied bs" if "(s, d) \<in> block_bytes b" for s s' d
    using that by (auto simp: copied_def)
  moreover have "s = s'" if "(s, d) \<in> block_bytes b" "(s', d) \<in> block_bytes b" for s s' d
    using that by (auto simp: block_bytes_def mem_run)
  ultimately show ?case
    using Cons unfolding one_source_def by (simp add: one_source_def) blast
qed (simp add: one_source_def)

section \<open>Property\<close>

text \<open>
  C9. For every geometry of the launch with at least one thread, and a full warp per block when there
  are more descriptors than blocks, the copy kernels end, and the accesses of their threads, in
  whatever order they take effect, leave the memory that copying the descriptors one after the other
  leaves, as long as the destinations of the descriptors do not overlap. Every wide access is aligned
  in the source and in the destination.
\<close>

theorem copy_kernels_memory:
  assumes "launchable dims n" and "dst_disjoint (launch_blocks src dst sof dof ln n)"
    and "knl \<in> {copy_h2d_direct_kernel, copy_d2h_direct_kernel}"
  shows "(\<exists>ops. kernel_runs (knl src dst sof dof ln n dims) dims ops) \<and>
    (\<forall>ops. kernel_runs (knl src dst sof dof ln n dims) dims ops \<longrightarrow>
      (\<forall>mem dmem. transfer mem ops dmem = transfer mem (launch_blocks src dst sof dof ln n) dmem) \<and>
      (\<forall>x\<in>set ops. access_aligned x))"
proof -
  have k: "knl src dst sof dof ln n dims = direct_kernel_thread src dst sof dof ln n dims"
    using assms(3) by (auto simp: copy_h2d_direct_kernel_def copy_d2h_direct_kernel_def)
  show ?thesis
    unfolding k
  proof (intro conjI allI impI ballI)
    show "\<exists>ops. kernel_runs (direct_kernel_thread src dst sof dof ln n dims) dims ops"
      using direct_kernel_total [OF assms(1)] by (rule kernel_runs_ex)
  next
    fix ops mem and dmem :: "nat \<Rightarrow> 'a"
    assume "kernel_runs (direct_kernel_thread src dst sof dof ln n dims) dims ops"
    note c = direct_kernel_run_copies [OF assms(1) this]
    show "transfer mem ops dmem = transfer mem (launch_blocks src dst sof dof ln n) dmem"
      using c dst_disjoint_one_source [OF assms(2)] by (intro transfer_cong) simp_all
  qed (rule direct_kernel_run_aligned [OF assms(1)])
qed

theorem copy_kernels_memory_witness:
  "\<exists>ops. kernel_runs (copy_h2d_direct_kernel 64 4096 [0, 256, 300] [512, 0, 260] [256, 44, 7] 3
      \<lparr> grid_dim = 2, block_dim = 64 \<rparr>) \<lparr> grid_dim = 2, block_dim = 64 \<rparr> ops \<and>
    (\<forall>x\<in>set ops. access_aligned x) \<and>
    (\<forall>mem dmem :: nat \<Rightarrow> nat. transfer mem ops dmem 4358 = mem 366 \<and> transfer mem ops dmem 4200 = dmem 4200)"
proof -
  let ?dims = "\<lparr> grid_dim = 2, block_dim = 64 \<rparr> :: launch_dims"
  let ?bs = "launch_blocks 64 4096 [0, 256, 300] [512, 0, 260] [256, 44, 7] 3"
  have bs: "?bs = [IpcBlock 64 4608 256, IpcBlock 320 4096 44, IpcBlock 364 4356 7]"
    by (simp add: launch_blocks_def numeral_3_eq_3)
  have "launchable ?dims 3" "dst_disjoint ?bs"
    by (simp_all add: launchable_def bs)
  from copy_kernels_memory [OF this, of copy_h2d_direct_kernel]
  obtain ops where ops: "kernel_runs (copy_h2d_direct_kernel 64 4096 [0, 256, 300] [512, 0, 260] [256, 44, 7] 3 ?dims) ?dims ops"
    "\<And>mem dmem :: nat \<Rightarrow> nat. transfer mem ops dmem = transfer mem ?bs dmem" "\<forall>x\<in>set ops. access_aligned x"
    by blast
  then show ?thesis
    by (intro exI [of _ ops]) (simp add: bs copy_block_def)
qed

end
