(* ===== verification/Fp8.thy ===== *)
theory Fp8
  imports CudaCopy PyBase
begin

text \<open>
  The conversion of \<open>bfloat16\<close> to the 8-bit format E4M3 while the data is copied to the host
  (\<open>src/copy_kernels.cu\<close>).

  \<open>bf16_to_fp8_e4m3\<close> is the conversion in software, for builds without \<open>cuda_fp8.h\<close>; with that header
  the kernel calls the conversion of the CUDA library. So the kernel takes the conversion as a
  parameter. The value of a 16-bit or 8-bit code is an integer multiple of \<open>2 ^ (-134)\<close>, which is the
  unit of \<open>bf16_units\<close> and \<open>fp8_units\<close>.
\<close>

section \<open>Model\<close>

subsection \<open>One element\<close>

text \<open>
  A code is its sign bit, its exponent field and its mantissa field; the masks, shifts and unions of
  disjoint bits of the source are divisions, remainders and sums.
\<close>

definition round_subnormal :: "nat \<Rightarrow> nat \<Rightarrow> nat" where
  "round_subnormal full_mant shift =
     (let shifted = full_mant div 2 ^ (shift - 1);
          new_mant = shifted div 2;
          round_bit = shifted mod 2;
          sticky = (if full_mant mod 2 ^ (shift - 1) \<noteq> 0 then 1 else 0 :: nat)
      in if round_bit \<noteq> 0 \<and> (sticky \<noteq> 0 \<or> new_mant mod 2 \<noteq> 0) then new_mant + 1 else new_mant)"

definition round_mantissa :: "nat \<Rightarrow> nat" where
  "round_mantissa mant =
     (let dropped_bits = mant mod 16; new_mant = mant div 16
      in if dropped_bits > 8 then new_mant + 1
         else if dropped_bits = 8 then (if new_mant mod 2 \<noteq> 0 then new_mant + 1 else new_mant)
         else new_mant)"

definition bf16_to_fp8_e4m3 :: "nat \<Rightarrow> nat" where
  "bf16_to_fp8_e4m3 bits =
     (let sign = bits div 32768 mod 2; exp = int (bits div 128 mod 256) - 127; mant = bits mod 128
      in if exp = 128 then sign * 128 + 126
         else if exp = - 127 \<and> mant = 0 then sign * 128
         else
           (let new_exp = exp + 7
            in if new_exp \<le> 0 then
                 (let full_mant = 128 + mant; shift = nat (1 - new_exp + 4)
                  in if shift \<ge> 12 then sign * 128
                     else
                       (let new_mant = round_subnormal full_mant shift
                        in if new_mant = 0 then sign * 128
                           else if new_mant \<ge> 8 then sign * 128 + 8
                           else sign * 128 + new_mant))
               else if new_exp \<ge> 15 then sign * 128 + 126
               else
                 (let new_mant = round_mantissa mant
                  in if new_mant > 7 then
                       (if new_exp + 1 \<ge> 15 then sign * 128 + 126 else sign * 128 + nat (new_exp + 1) * 8)
                     else sign * 128 + nat new_exp * 8 + new_mant)))"

text \<open>The result of the conversion, whichever it is, is a \<open>uint8_t\<close>.\<close>

definition cvt8 :: "(nat \<Rightarrow> nat) \<Rightarrow> nat \<Rightarrow> nat" where
  "cvt8 cvt x = cvt x mod 256"

text \<open>Sixteen elements: four 32-bit words of four bytes each, stored in memory order.\<close>

definition pack4 :: "nat \<Rightarrow> nat \<Rightarrow> nat \<Rightarrow> nat \<Rightarrow> nat" where
  "pack4 a b c d = a + b * 2 ^ 8 + c * 2 ^ 16 + d * 2 ^ 24"

definition convert_16_bf16_to_fp8 :: "(nat \<Rightarrow> nat) \<Rightarrow> (nat \<Rightarrow> nat) \<Rightarrow> bytes" where
  "convert_16_bf16_to_fp8 cvt elem =
     concat (map (\<lambda>p. le32 (pack4 (cvt8 cvt (elem (4 * p))) (cvt8 cvt (elem (4 * p + 1)))
       (cvt8 cvt (elem (4 * p + 2))) (cvt8 cvt (elem (4 * p + 3))))) [0, 1, 2, 3])"

subsection \<open>The kernel\<close>

text \<open>
  A thread is the list of its writes, pairs of an address and a byte. \<open>mem\<close> is the source memory;
  an element is two bytes, the lower one first.
\<close>

definition bf16_at :: "(nat \<Rightarrow> nat) \<Rightarrow> nat \<Rightarrow> nat \<Rightarrow> nat" where
  "bf16_at mem src i = mem (src + 2 * i) + 256 * mem (src + 2 * i + 1)"

definition cvt_one :: "(nat \<Rightarrow> nat) \<Rightarrow> (nat \<Rightarrow> nat) \<Rightarrow> nat \<Rightarrow> nat \<Rightarrow> nat \<Rightarrow> (nat \<times> nat) list" where
  "cvt_one cvt mem src dst i = [(dst + i, cvt8 cvt (bf16_at mem src i))]"

definition cvt_vec16 :: "(nat \<Rightarrow> nat) \<Rightarrow> (nat \<Rightarrow> nat) \<Rightarrow> nat \<Rightarrow> nat \<Rightarrow> nat \<Rightarrow> (nat \<times> nat) list" where
  "cvt_vec16 cvt mem src dst v =
     zip [dst + 16 * v..<dst + 16 * v + 16] (convert_16_bf16_to_fp8 cvt (\<lambda>k. bf16_at mem src (16 * v + k)))"

text \<open>The vectors of a thread of a block, two at a time and then one at a time.\<close>

definition fp8_vec_indices :: "nat \<Rightarrow> nat \<Rightarrow> nat \<Rightarrow> nat list" where
  "fp8_vec_indices num_vec16 tid block_size =
     (let stride2 = block_size * 2;
          aligned_end = num_vec16 - num_vec16 mod stride2
      in if num_vec16 \<ge> stride2 then
           concat (map (\<lambda>vec_idx. [vec_idx, vec_idx + block_size]) (strided tid aligned_end stride2)) @
           strided (stride_end tid aligned_end stride2) num_vec16 block_size
         else strided tid num_vec16 block_size)"

definition fp8_block_writes ::
  "(nat \<Rightarrow> nat) \<Rightarrow> (nat \<Rightarrow> nat) \<Rightarrow> nat \<Rightarrow> nat \<Rightarrow> nat \<Rightarrow> nat \<Rightarrow> nat \<Rightarrow> (nat \<times> nat) list" where
  "fp8_block_writes cvt mem src dst num_elements tid block_size =
     (if num_elements = 0 then []
      else if aligned 16 src dst then
        (let num_vec16 = num_elements div 16; remaining_start = num_vec16 * 16
         in concat (map (cvt_vec16 cvt mem src dst) (fp8_vec_indices num_vec16 tid block_size)) @
            concat (map (cvt_one cvt mem src dst) (strided (remaining_start + tid) num_elements block_size)))
      else concat (map (cvt_one cvt mem src dst) (strided tid num_elements block_size)))"

definition fp8_warp_writes ::
  "(nat \<Rightarrow> nat) \<Rightarrow> (nat \<Rightarrow> nat) \<Rightarrow> nat \<Rightarrow> nat \<Rightarrow> nat \<Rightarrow> nat \<Rightarrow> (nat \<times> nat) list" where
  "fp8_warp_writes cvt mem src dst num_elements lane_id =
     (if num_elements = 0 then []
      else if aligned 16 src dst then
        (let num_vec16 = num_elements div 16; remaining_start = num_vec16 * 16
         in concat (map (cvt_vec16 cvt mem src dst) (strided lane_id num_vec16 32)) @
            concat (map (cvt_one cvt mem src dst) (strided (remaining_start + lane_id) num_elements 32)))
      else concat (map (cvt_one cvt mem src dst) (strided lane_id num_elements 32)))"

definition copy_d2h_bf16_to_fp8_kernel ::
  "(nat \<Rightarrow> nat) \<Rightarrow> (nat \<Rightarrow> nat) \<Rightarrow> nat \<Rightarrow> nat \<Rightarrow> nat list \<Rightarrow> nat list \<Rightarrow> nat list \<Rightarrow> nat \<Rightarrow> launch_dims \<Rightarrow>
   nat \<Rightarrow> nat \<Rightarrow> (nat \<times> nat) list option" where
  "copy_d2h_bf16_to_fp8_kernel cvt mem gpu_src_base host_dst src_offsets dst_offsets lens =
     grid_thread
       (\<lambda>i. fp8_block_writes cvt mem (gpu_src_base + src_offsets ! i) (host_dst + dst_offsets ! i) (lens ! i))
       (\<lambda>i. fp8_warp_writes cvt mem (gpu_src_base + src_offsets ! i) (host_dst + dst_offsets ! i) (lens ! i))"

section \<open>The kernel converts every element\<close>

definition cvt_byte :: "(nat \<Rightarrow> nat) \<Rightarrow> (nat \<Rightarrow> nat) \<Rightarrow> nat \<Rightarrow> nat \<Rightarrow> nat \<Rightarrow> nat \<times> nat" where
  "cvt_byte cvt mem src dst k = (dst + k, cvt8 cvt (bf16_at mem src k))"

lemma le32_pack4:
  assumes "a < 256" and "b < 256" and "c < 256" and "d < 256"
  shows "le32 (pack4 a b c d) = [a, b, c, d]"
proof -
  define y where "y = c + 256 * d"
  define z where "z = b + 256 * y"
  have x: "pack4 a b c d = a + 256 * z"
    by (simp add: pack4_def y_def z_def algebra_simps)
  have digit: "(u + 256 * v) div 256 = v" "(u + 256 * v) mod 256 = u" if "u < 256" for u v :: nat
    using that by simp_all
  note digits = digit [OF assms(1), of z] digit [OF assms(2), of y, folded z_def] digit [OF assms(3), of d, folded y_def]
  have "w div 65536 = w div 256 div 256" "w div 16777216 = w div 256 div 256 div 256" for w :: nat
    by (simp_all add: div_mult2_eq [symmetric])
  then show ?thesis
    using assms(4) digits by (simp add: le32_def x)
qed

lemma cvt8_less [simp]: "cvt8 cvt x < 256"
  by (simp add: cvt8_def)

lemma convert_16_bytes: "convert_16_bf16_to_fp8 cvt elem = map (\<lambda>k. cvt8 cvt (elem k)) [0..<16]"
  by (simp add: convert_16_bf16_to_fp8_def le32_pack4 upt_rec) (simp add: numeral_eq_Suc)

lemma set_cvt_vec16:
  "set (cvt_vec16 cvt mem src dst v) = cvt_byte cvt mem src dst ` {16 * v..<16 * v + 16}"
proof -
  have "cvt_vec16 cvt mem src dst v = map (\<lambda>k. cvt_byte cvt mem src dst (16 * v + k)) [0..<16]"
    unfolding cvt_vec16_def convert_16_bytes
    by (rule nth_equalityI) (auto simp: cvt_byte_def algebra_simps)
  moreover have "{16 * v..<16 * v + 16} = (\<lambda>k. 16 * v + k) ` {..<16}"
    by (rule image_add_lessThan [symmetric])
  ultimately show ?thesis
    by (simp add: image_image atLeast0LessThan)
qed

lemma set_cvt_ones: "set (concat (map (cvt_one cvt mem src dst) is')) = cvt_byte cvt mem src dst ` set is'"
  by (auto simp: cvt_one_def cvt_byte_def)

lemma fp8_vec_indices_rounds: "fp8_vec_indices m t n = rounds 2 m t n"
  by (simp add: fp8_vec_indices_def rounds_def Let_def numeral_eq_Suc)

lemma vec_image:
  fixes f :: "nat \<Rightarrow> 'a"
  shows "(\<Union>v\<in>{..<m}. f ` {16 * v..<16 * v + 16}) = f ` {..<m * 16}"
proof -
  have "(\<Union>v\<in>{..<m}. {16 * v..<16 * v + 16}) = {..<m * 16}"
  proof (intro equalityI subsetI)
    fix x
    assume "x \<in> {..<m * 16}"
    then show "x \<in> (\<Union>v\<in>{..<m}. {16 * v..<16 * v + 16})"
      by (intro UN_I [of "x div 16"]) (auto simp: less_mult_imp_div_less)
  qed auto
  then show ?thesis
    by (metis image_UN)
qed

lemma vec_writes_cover:
  assumes "(\<Union>t<n. set (idx t)) = {..<len div 16}" and "0 < n"
  shows "(\<Union>t<n. set (concat (map (cvt_vec16 cvt mem src dst) (idx t)) @
      concat (map (cvt_one cvt mem src dst) (strided (len div 16 * 16 + t) len n)))) =
    cvt_byte cvt mem src dst ` {..<len}"
proof -
  have "(\<Union>t<n. set (concat (map (cvt_vec16 cvt mem src dst) (idx t)))) = cvt_byte cvt mem src dst ` {..<len div 16 * 16}"
    using UN_UN_set [OF assms(1), where g = "\<lambda>v. cvt_byte cvt mem src dst ` {16 * v..<16 * v + 16}"]
    by (simp add: set_cvt_vec16 vec_image)
  moreover have "(\<Union>t<n. set (concat (map (cvt_one cvt mem src dst) (strided (len div 16 * 16 + t) len n)))) =
      cvt_byte cvt mem src dst ` {len div 16 * 16..<len}"
    unfolding set_cvt_ones strided_tail_cover [OF assms(2), symmetric] by (simp only: image_UN)
  moreover have "{..<len} = {..<len div 16 * 16} \<union> {len div 16 * 16..<len}"
    by (rule ivl_disj_un(8) [symmetric]) simp
  ultimately show ?thesis
    by (simp only: set_append UN_Un_distrib image_Un)
qed

lemma one_writes_cover:
  assumes "0 < n"
  shows "(\<Union>t<n. set (concat (map (cvt_one cvt mem src dst) (strided t len n)))) = cvt_byte cvt mem src dst ` {..<len}"
proof -
  have "(\<Union>t<n. cvt_byte cvt mem src dst ` set (strided t len n)) = cvt_byte cvt mem src dst ` (\<Union>t<n. set (strided t len n))"
    by (simp only: image_UN)
  then show ?thesis
    unfolding set_cvt_ones strided_cover [OF assms] .
qed

lemma fp8_block_cover:
  "0 < n \<Longrightarrow> (\<Union>t<n. set (fp8_block_writes cvt mem src dst len t n)) = cvt_byte cvt mem src dst ` {..<len}"
  using vec_writes_cover [where n = n and idx = "\<lambda>t. fp8_vec_indices (len div 16) t n"] one_writes_cover [of n]
  by (cases "len = 0"; cases "aligned 16 src dst")
    (simp_all add: fp8_block_writes_def Let_def fp8_vec_indices_rounds rounds_cover)

lemma fp8_warp_cover:
  "(\<Union>l<32. set (fp8_warp_writes cvt mem src dst len l)) = cvt_byte cvt mem src dst ` {..<len}"
  using vec_writes_cover [where n = 32 and idx = "\<lambda>t. strided t (len div 16) 32"] one_writes_cover [of 32]
  by (cases "len = 0"; cases "aligned 16 src dst") (simp_all add: fp8_warp_writes_def Let_def strided_cover)

interpretation fk: grid_work
  "\<lambda>i. fp8_block_writes cvt mem (src_base + src_offsets ! i) (dst_base + dst_offsets ! i) (lens ! i)"
  "\<lambda>i. fp8_warp_writes cvt mem (src_base + src_offsets ! i) (dst_base + dst_offsets ! i) (lens ! i)"
  "\<lambda>w. {w}" "\<lambda>i. cvt_byte cvt mem (src_base + src_offsets ! i) (dst_base + dst_offsets ! i) ` {..<lens ! i}"
  for cvt mem src_base dst_base src_offsets dst_offsets lens
  by unfold_locales (simp_all add: fp8_block_cover fp8_warp_cover)

section \<open>Values\<close>

text \<open>The magnitude of a code in units of \<open>2 ^ (-134)\<close>; an infinity or a NaN has none.\<close>

definition bf16_units :: "nat \<Rightarrow> nat" where
  "bf16_units bits =
     (let e = bits div 128 mod 256; m = bits mod 128 in if e = 0 then m * 2 else (128 + m) * 2 ^ e)"

definition fp8_ulp :: nat where
  "fp8_ulp = 2 ^ 125"

definition fp8_units :: "nat \<Rightarrow> nat" where
  "fp8_units c = (let e = c div 8; m = c mod 8 in (if e = 0 then m else (8 + m) * 2 ^ (e - 1)) * fp8_ulp)"

text \<open>The code \<open>r\<close> is nearest to \<open>x\<close>, and even when another one is as near.\<close>

definition nearest_even :: "(nat \<Rightarrow> nat) \<Rightarrow> nat \<Rightarrow> nat \<Rightarrow> bool" where
  "nearest_even F x r \<longleftrightarrow>
     (\<forall>c. \<bar>int (F r) - int x\<bar> \<le> \<bar>int (F c) - int x\<bar> \<and>
          (\<bar>int (F r) - int x\<bar> = \<bar>int (F c) - int x\<bar> \<longrightarrow> c = r \<or> even r))"

lemma nearest_between:
  assumes mono: "\<And>a b. a < b \<Longrightarrow> F a < F b" and x: "F c \<le> x" "x < F (Suc c)"
    and r: "r = c \<and> 2 * (x - F c) \<le> F (Suc c) - F c \<or> r = Suc c \<and> F (Suc c) - F c \<le> 2 * (x - F c)"
    and tie: "2 * (x - F c) = F (Suc c) - F c \<Longrightarrow> even r"
  shows "nearest_even F x r"
  unfolding nearest_even_def
proof (intro allI)
  fix c'
  have "F c' < F c \<or> c' = c \<or> c' = Suc c \<or> F (Suc c) < F c'"
    using mono [of c' c] mono [of "Suc c" c'] by linarith
  then show "\<bar>int (F r) - int x\<bar> \<le> \<bar>int (F c') - int x\<bar> \<and>
      (\<bar>int (F r) - int x\<bar> = \<bar>int (F c') - int x\<bar> \<longrightarrow> c' = r \<or> even r)"
    using x r tie by (elim disjE conjE) (auto simp: abs_if split: if_splits)
qed

lemma fp8_units_Suc: "fp8_units (Suc c) = fp8_units c + 2 ^ (c div 8 - 1) * fp8_ulp"
proof (cases "c mod 8 = 7")
  case True
  then have q: "Suc c div 8 = Suc (c div 8)" "Suc c mod 8 = 0"
    by (simp_all add: mod_Suc div_Suc)
  then show ?thesis
    using True by (cases "c div 8") (simp_all add: fp8_units_def Let_def algebra_simps)
next
  case False
  then have q: "Suc c div 8 = c div 8" "Suc c mod 8 = Suc (c mod 8)"
    by (simp_all add: mod_Suc div_Suc)
  then show ?thesis
    by (simp add: fp8_units_def Let_def algebra_simps)
qed

lemma fp8_units_mono: "a < b \<Longrightarrow> fp8_units a < fp8_units b"
  by (rule lift_Suc_mono_less) (simp_all add: fp8_units_Suc fp8_ulp_def)

section \<open>Rounding\<close>

lemma round_mantissa_cases:
  fixes mant :: nat
  shows "round_mantissa mant = mant div 16 \<and> 2 * (mant mod 16) \<le> 16 \<or>
    round_mantissa mant = Suc (mant div 16) \<and> 16 \<le> 2 * (mant mod 16)"
    and "2 * (mant mod 16) = 16 \<Longrightarrow> even (round_mantissa mant)"
  by (auto simp: round_mantissa_def Let_def mod2_eq_if split: if_splits)

lemma round_subnormal_cases:
  fixes full s :: nat
  assumes "0 < s"
  shows "round_subnormal full s = full div 2 ^ s \<and> 2 * (full mod 2 ^ s) \<le> 2 ^ s \<or>
    round_subnormal full s = Suc (full div 2 ^ s) \<and> 2 ^ s \<le> 2 * (full mod 2 ^ s)"
    and "2 * (full mod 2 ^ s) = 2 ^ s \<Longrightarrow> even (round_subnormal full s)"
proof -
  obtain k where s: "s = Suc k"
    using assms gr0_conv_Suc by blast
  let ?h = "2 ^ k :: nat"
  have d: "full div ?h div 2 = full div 2 ^ s"
    by (simp add: s div_mult2_eq [symmetric] mult.commute)
  obtain r where r: "full mod ?h = r" "r < ?h"
    by simp
  have m: "full mod 2 ^ s = full div ?h mod 2 * ?h + r"
    using mod_mult2_eq [of full ?h 2] r(1) by (simp add: s mult.commute)
  show "round_subnormal full s = full div 2 ^ s \<and> 2 * (full mod 2 ^ s) \<le> 2 ^ s \<or>
    round_subnormal full s = Suc (full div 2 ^ s) \<and> 2 ^ s \<le> 2 * (full mod 2 ^ s)"
    and "2 * (full mod 2 ^ s) = 2 ^ s \<Longrightarrow> even (round_subnormal full s)"
    using r m d
    by (auto simp: round_subnormal_def Let_def s mod2_eq_if split: if_splits)
qed

text \<open>The seven lower bits of the result, from the exponent field and the mantissa field.\<close>

definition fp8_mag :: "nat \<Rightarrow> nat \<Rightarrow> nat" where
  "fp8_mag e m =
     (if e \<le> 113 then 0
      else if e \<le> 120 then min 8 (round_subnormal (128 + m) (125 - e))
      else if e \<ge> 135 then 126
      else if round_mantissa m \<le> 7 then (e - 120) * 8 + round_mantissa m
      else if e = 134 then 126
      else (e - 119) * 8)"

lemma bf16_to_fp8_parts:
  "bf16_to_fp8_e4m3 bits = bits div 32768 mod 2 * 128 + fp8_mag (bits div 128 mod 256) (bits mod 128)"
proof -
  define e where "e = bits div 128 mod 256"
  have "e < 256"
    by (simp add: e_def)
  have shift: "nat (1 - (int e - 127 + 7) + 4) = 125 - e" if "e \<le> 120"
    using that by simp
  consider "e \<le> 113" | "113 < e" "e \<le> 120" | "120 < e" "e < 135" | "135 \<le> e"
    by linarith
  then show ?thesis
  proof cases
    case 3
    then have "nat (int e - 120) = e - 120" "nat (int e - 119) = e - 119"
      by simp_all
    with 3 show ?thesis
      by (auto simp: bf16_to_fp8_e4m3_def Let_def e_def [symmetric] fp8_mag_def)
  qed (use shift \<open>e < 256\<close> in \<open>auto simp: bf16_to_fp8_e4m3_def Let_def e_def [symmetric] fp8_mag_def\<close>)
qed

lemma fp8_mag_nearest_normal:
  assumes "120 < e" and "e < 135" and "m < 128" and "e = 134 \<Longrightarrow> m < 120"
  shows "nearest_even fp8_units ((128 + m) * 2 ^ e) (fp8_mag e m)"
proof -
  define c where "c = (e - 120) * 8 + m div 16"
  have q: "m div 16 < 8"
    using assms(3) by simp
  then have c: "c div 8 = e - 120" "c mod 8 = m div 16"
    by (simp_all add: c_def)
  have p: "2 ^ (e - 121) * fp8_ulp = 16 * 2 ^ e"
  proof -
    have "2 ^ (e - 121) * fp8_ulp = 2 ^ (e - 121 + 125)"
      by (simp only: fp8_ulp_def power_add)
    also have "e - 121 + 125 = 4 + e"
      using assms(1) by simp
    finally show ?thesis
      by (simp add: power_add)
  qed
  have F: "fp8_units c = (8 + m div 16) * (16 * 2 ^ e)"
    using assms(1) c p by (simp add: fp8_units_def Let_def)
  have G: "fp8_units (Suc c) = fp8_units c + 16 * 2 ^ e"
    using p c(1) by (simp add: fp8_units_Suc)
  have "128 + m = (8 + m div 16) * 16 + m mod 16"
    by simp
  then have "(128 + m) * 2 ^ e = fp8_units c + m mod 16 * 2 ^ e"
    unfolding F by (metis add_mult_distrib mult.assoc)
  then have X: "(128 + m) * 2 ^ e - fp8_units c = m mod 16 * 2 ^ e" "fp8_units c \<le> (128 + m) * 2 ^ e"
    "(128 + m) * 2 ^ e < fp8_units (Suc c)"
    using G by simp_all
  have even: "even ((e - 120) * 8 + n) \<longleftrightarrow> even n" for n
    by simp
  have r: "fp8_mag e m = (e - 120) * 8 + round_mantissa m"
  proof -
    have "Suc (e - 120) = e - 119"
      using assms(1) by simp
    moreover have "round_mantissa m \<le> 8"
      using round_mantissa_cases(1) [of m] q by auto
    moreover have "round_mantissa m \<le> 7" if "e = 134"
      using round_mantissa_cases(1) [of m] assms(4) [OF that] div_mult_mod_eq [of m 16] q by linarith
    ultimately show ?thesis
      using assms(1,2) by (auto simp: fp8_mag_def)
  qed
  have rc: "fp8_mag e m = c \<and> 2 * (m mod 16) \<le> 16 \<or> fp8_mag e m = Suc c \<and> 16 \<le> 2 * (m mod 16)"
    using round_mantissa_cases(1) [of m] by (auto simp: r c_def)
  show ?thesis
  proof (rule nearest_between [of fp8_units c])
    show "fp8_mag e m = c \<and> 2 * ((128 + m) * 2 ^ e - fp8_units c) \<le> fp8_units (Suc c) - fp8_units c \<or>
        fp8_mag e m = Suc c \<and> fp8_units (Suc c) - fp8_units c \<le> 2 * ((128 + m) * 2 ^ e - fp8_units c)"
      unfolding X(1) G using rc by auto
    show "even (fp8_mag e m)" if "2 * ((128 + m) * 2 ^ e - fp8_units c) = fp8_units (Suc c) - fp8_units c"
      using that round_mantissa_cases(2) [of m] unfolding X(1) G r even by simp
  qed (use X fp8_units_mono in auto)
qed

lemma fp8_mag_nearest_subnormal:
  assumes "113 < e" and "e \<le> 120" and "m < 128"
  shows "nearest_even fp8_units ((128 + m) * 2 ^ e) (fp8_mag e m)"
proof -
  define sh where "sh = 125 - e"
  define c where "c = (128 + m) div 2 ^ sh"
  have p: "2 ^ sh * 2 ^ e = fp8_ulp"
    using assms(2) by (simp add: fp8_ulp_def sh_def power_add [symmetric])
  have "(2::nat) ^ 5 \<le> 2 ^ sh"
    using assms(2) by (intro power_increasing) (simp_all add: sh_def)
  then have "c < 8"
    using assms(3) by (simp add: c_def div_less_iff_less_mult)
  then have F: "fp8_units c = c * fp8_ulp" "fp8_units (Suc c) = fp8_units c + fp8_ulp"
    by (simp_all add: fp8_units_Suc) (simp add: fp8_units_def Let_def)
  have "128 + m = c * 2 ^ sh + (128 + m) mod 2 ^ sh"
    by (simp only: c_def div_mult_mod_eq)
  then have "(128 + m) * 2 ^ e = fp8_units c + (128 + m) mod 2 ^ sh * 2 ^ e"
    unfolding F p [symmetric] by (metis add_mult_distrib mult.assoc)
  then have X: "(128 + m) * 2 ^ e - fp8_units c = (128 + m) mod 2 ^ sh * 2 ^ e" "fp8_units c \<le> (128 + m) * 2 ^ e"
    "(128 + m) * 2 ^ e < fp8_units (Suc c)"
    using F(2) by (simp_all add: p [symmetric])
  have cases: "round_subnormal (128 + m) sh = c \<and> 2 * ((128 + m) mod 2 ^ sh) \<le> 2 ^ sh \<or>
    round_subnormal (128 + m) sh = Suc c \<and> 2 ^ sh \<le> 2 * ((128 + m) mod 2 ^ sh)"
    and tie: "2 * ((128 + m) mod 2 ^ sh) = 2 ^ sh \<Longrightarrow> even (round_subnormal (128 + m) sh)"
    using round_subnormal_cases [of sh "128 + m"] assms(2) by (simp_all add: c_def sh_def)
  then have r: "fp8_mag e m = round_subnormal (128 + m) sh"
    using assms(1,2) \<open>c < 8\<close> by (auto simp: fp8_mag_def sh_def)
  have scale: "2 * (a * 2 ^ e) \<le> fp8_ulp \<longleftrightarrow> 2 * a \<le> 2 ^ sh" "fp8_ulp \<le> 2 * (a * 2 ^ e) \<longleftrightarrow> 2 ^ sh \<le> 2 * a"
    "2 * (a * 2 ^ e) = fp8_ulp \<longleftrightarrow> 2 * a = 2 ^ sh" for a
    unfolding p [symmetric] mult.assoc [symmetric] by simp_all
  show ?thesis
  proof (rule nearest_between [of fp8_units c])
    show "fp8_mag e m = c \<and> 2 * ((128 + m) * 2 ^ e - fp8_units c) \<le> fp8_units (Suc c) - fp8_units c \<or>
        fp8_mag e m = Suc c \<and> fp8_units (Suc c) - fp8_units c \<le> 2 * ((128 + m) * 2 ^ e - fp8_units c)"
      unfolding X(1) F(2) r using cases by (simp add: scale)
    show "even (fp8_mag e m)" if "2 * ((128 + m) * 2 ^ e - fp8_units c) = fp8_units (Suc c) - fp8_units c"
      using that tie unfolding X(1) F(2) r by (simp add: scale)
  qed (use X fp8_units_mono in auto)
qed

lemma fp8_mag_nearest_tiny:
  assumes "e \<le> 113" and "x < 2 ^ 121"
  shows "nearest_even fp8_units x (fp8_mag e m)"
proof -
  have "2 * x < fp8_ulp"
    using assms(2) by (simp add: fp8_ulp_def)
  moreover have "fp8_units 0 = 0" "fp8_units (Suc 0) = fp8_ulp"
    by (simp_all add: fp8_units_def)
  ultimately show ?thesis
    using assms(1) fp8_units_mono by (intro nearest_between [of fp8_units 0]) (simp_all add: fp8_mag_def)
qed

lemma fp8_mag_less: "fp8_mag e m < 128"
  by (auto simp: fp8_mag_def split: if_splits)

lemma bf16_to_fp8_sign:
  assumes "bits < 65536"
  shows "bf16_to_fp8_e4m3 bits div 128 = bits div 32768"
    and "bf16_to_fp8_e4m3 bits mod 128 = fp8_mag (bits div 128 mod 256) (bits mod 128)"
proof -
  have "bits div 32768 mod 2 = bits div 32768"
    using assms by (intro mod_less) (simp add: div_less_iff_less_mult)
  then show "bf16_to_fp8_e4m3 bits div 128 = bits div 32768"
    and "bf16_to_fp8_e4m3 bits mod 128 = fp8_mag (bits div 128 mod 256) (bits mod 128)"
    using fp8_mag_less [of "bits div 128 mod 256" "bits mod 128"] by (simp_all add: bf16_to_fp8_parts)
qed

section \<open>Writes\<close>

definition write_bytes :: "(nat \<times> nat) list \<Rightarrow> (nat \<Rightarrow> nat) \<Rightarrow> nat \<Rightarrow> nat" where
  "write_bytes ws mem = fold (\<lambda>(a, v) m. m(a := v)) ws mem"

lemma write_bytes_miss: "a \<notin> fst ` set ws \<Longrightarrow> write_bytes ws mem a = mem a"
  by (induction ws arbitrary: mem) (auto simp: write_bytes_def)

lemma write_bytes_hit:
  assumes "(a, v) \<in> set ws" and "\<And>v'. (a, v') \<in> set ws \<Longrightarrow> v' = v"
  shows "write_bytes ws mem a = v"
  using assms
proof (induction ws arbitrary: mem)
  case (Cons w ws)
  obtain b x where w: "w = (b, x)"
    by (cases w)
  then have step: "write_bytes (w # ws) mem = write_bytes ws (mem(b := x))"
    by (simp add: write_bytes_def)
  show ?case
  proof (cases "a \<in> fst ` set ws")
    case True
    then obtain v' where "(a, v') \<in> set ws"
      by auto
    moreover from this have "v' = v"
      by (intro Cons.prems(2)) simp
    ultimately show ?thesis
      unfolding step by (intro Cons.IH) (simp_all add: Cons.prems(2))
  next
    case False
    then have "w = (a, v)"
      using Cons.prems(1) by force
    then show ?thesis
      unfolding step using write_bytes_miss [OF False] w by simp
  qed
qed simp

text \<open>The host ranges of the descriptors are disjoint.\<close>

definition ranges_disjoint :: "nat list \<Rightarrow> nat list \<Rightarrow> nat \<Rightarrow> bool" where
  "ranges_disjoint offs lens n \<longleftrightarrow>
     (\<forall>i<n. \<forall>j<n. i \<noteq> j \<longrightarrow> offs ! i + lens ! i \<le> offs ! j \<or> offs ! j + lens ! j \<le> offs ! i)"

lemma ranges_unique:
  assumes "ranges_disjoint offs lens n" and "i < n" and "j < n" and "k < lens ! i" and "l < lens ! j"
    and "offs ! i + k = offs ! j + l"
  shows "i = j \<and> k = l"
proof (rule ccontr)
  assume "\<not> (i = j \<and> k = l)"
  with assms(6) have "i \<noteq> j"
    by auto
  with assms show False
    by (fastforce simp: ranges_disjoint_def)
qed

lemma fp8_run_set:
  assumes "launchable dims n"
    and "kernel_runs (copy_d2h_bf16_to_fp8_kernel cvt mem src dst sof dof ln n dims) dims ws"
  shows "set ws = (\<Union>i<n. cvt_byte cvt mem (src + sof ! i) (dst + dof ! i) ` {..<ln ! i})"
  using fk.launch_cover [OF assms(1)] kernel_runs_set [OF assms(2)]
  by (simp add: copy_d2h_bf16_to_fp8_kernel_def)

section \<open>Properties\<close>

text \<open>
  C24. For every geometry of the launch, the kernel that converts while it copies ends, and its writes,
  in whatever order they take effect, leave at position \<open>k\<close> of the host range of a descriptor the
  converted element \<open>k\<close> of its source range, and change no other byte.
\<close>

theorem fp8_kernel_memory:
  assumes "launchable dims n" and "ranges_disjoint dof ln n"
  shows "(\<exists>ws. kernel_runs (copy_d2h_bf16_to_fp8_kernel cvt mem src dst sof dof ln n dims) dims ws) \<and>
    (\<forall>ws. kernel_runs (copy_d2h_bf16_to_fp8_kernel cvt mem src dst sof dof ln n dims) dims ws \<longrightarrow>
      (\<forall>hmem. (\<forall>i<n. \<forall>k<ln ! i. write_bytes ws hmem (dst + dof ! i + k) = cvt8 cvt (bf16_at mem (src + sof ! i) k)) \<and>
        (\<forall>a. (\<forall>i<n. a \<notin> {dst + dof ! i..<dst + dof ! i + ln ! i}) \<longrightarrow> write_bytes ws hmem a = hmem a)))"
proof (intro conjI allI impI)
  show "\<exists>ws. kernel_runs (copy_d2h_bf16_to_fp8_kernel cvt mem src dst sof dof ln n dims) dims ws"
    by (rule kernel_runs_ex) (simp add: copy_d2h_bf16_to_fp8_kernel_def grid_thread_total [OF assms(1)])
next
  fix ws and hmem :: "nat \<Rightarrow> nat" and i k
  assume "kernel_runs (copy_d2h_bf16_to_fp8_kernel cvt mem src dst sof dof ln n dims) dims ws"
  note ws = fp8_run_set [OF assms(1) this]
  assume i: "i < n" and k: "k < ln ! i"
  show "write_bytes ws hmem (dst + dof ! i + k) = cvt8 cvt (bf16_at mem (src + sof ! i) k)"
  proof (rule write_bytes_hit)
    show "(dst + dof ! i + k, cvt8 cvt (bf16_at mem (src + sof ! i) k)) \<in> set ws"
      unfolding ws using i k by (auto simp: cvt_byte_def)
    fix v
    assume "(dst + dof ! i + k, v) \<in> set ws"
    then obtain j l where j: "j < n" "l < ln ! j" "dof ! i + k = dof ! j + l" "v = cvt8 cvt (bf16_at mem (src + sof ! j) l)"
      unfolding ws by (auto simp: cvt_byte_def)
    then have "i = j \<and> k = l"
      using i k by (intro ranges_unique [OF assms(2)])
    with j show "v = cvt8 cvt (bf16_at mem (src + sof ! i) k)"
      by simp
  qed
next
  fix ws and hmem :: "nat \<Rightarrow> nat" and a
  assume "kernel_runs (copy_d2h_bf16_to_fp8_kernel cvt mem src dst sof dof ln n dims) dims ws"
  note ws = fp8_run_set [OF assms(1) this]
  assume "\<forall>i<n. a \<notin> {dst + dof ! i..<dst + dof ! i + ln ! i}"
  then show "write_bytes ws hmem a = hmem a"
    by (intro write_bytes_miss) (fastforce simp: ws cvt_byte_def)
qed

text \<open>
  C25. Below 248 the conversion in software keeps the sign and rounds to the nearest 8-bit value, to the
  even code when two are equally near, subnormal results included.
\<close>

theorem fp8_rounds_to_nearest:
  assumes "bits < 65536" and "bf16_units bits < 248 * 2 ^ 134"
  shows "bf16_to_fp8_e4m3 bits div 128 = bits div 32768 \<and>
    nearest_even fp8_units (bf16_units bits) (bf16_to_fp8_e4m3 bits mod 128)"
proof -
  define e m where "e = bits div 128 mod 256" and "m = bits mod 128"
  have m: "m < 128"
    by (simp add: m_def)
  have x: "bf16_units bits = (if e = 0 then m * 2 else (128 + m) * 2 ^ e)"
    by (simp add: bf16_units_def Let_def e_def m_def)
  have "nearest_even fp8_units (bf16_units bits) (fp8_mag e m)"
  proof (cases "e \<le> 113")
    case True
    have "(2::nat) ^ e \<le> 2 ^ 113"
      using True by (intro power_increasing) simp_all
    then have "(128 + m) * 2 ^ e < 256 * 2 ^ 113"
      using m by (intro mult_less_le_imp_less) simp_all
    then have "bf16_units bits < 2 ^ 121"
      using m by (simp add: x)
    then show ?thesis
      by (rule fp8_mag_nearest_tiny [OF True])
  next
    case False
    have le: "e \<le> 134"
    proof (rule ccontr)
      assume "\<not> e \<le> 134"
      then have "(2::nat) ^ 135 \<le> 2 ^ e"
        by (intro power_increasing) simp_all
      then have "128 * 2 ^ 135 \<le> (128 + m) * 2 ^ e"
        by (intro mult_le_mono) simp_all
      then show False
        using assms(2) False by (simp add: x)
    qed
    have "m < 120" if "e = 134"
      using assms(2) that by (simp add: x)
    then show ?thesis
      using False le m fp8_mag_nearest_subnormal [of e m] fp8_mag_nearest_normal [of e m] by (cases "e \<le> 120") (auto simp: x)
  qed
  then show ?thesis
    using bf16_to_fp8_sign [OF assms(1)] by (simp add: e_def m_def)
qed


section \<open>Concrete instances\<close>

theorem fp8_kernel_memory_witness:
  "\<exists>ws. kernel_runs (copy_d2h_bf16_to_fp8_kernel bf16_to_fp8_e4m3 (\<lambda>a. if odd a then 0x3F else 0x80) 0 64 [32] [0] [20] 1
      \<lparr> grid_dim = 2, block_dim = 64 \<rparr>) \<lparr> grid_dim = 2, block_dim = 64 \<rparr> ws \<and>
    (\<forall>hmem. write_bytes ws hmem 83 = 0x38 \<and> write_bytes ws hmem 84 = hmem 84)"
proof -
  let ?dims = "\<lparr> grid_dim = 2, block_dim = 64 \<rparr> :: launch_dims"
  let ?mem = "\<lambda>a::nat. if odd a then 0x3F else 0x80 :: nat"
  have ok: "launchable ?dims 1" "ranges_disjoint [0] [20] 1"
    by (simp_all add: launchable_def ranges_disjoint_def)
  obtain ws where ws: "kernel_runs (copy_d2h_bf16_to_fp8_kernel bf16_to_fp8_e4m3 ?mem 0 64 [32] [0] [20] 1 ?dims) ?dims ws"
    "\<And>hmem k. k < 20 \<Longrightarrow> write_bytes ws hmem (64 + 0 + k) = cvt8 bf16_to_fp8_e4m3 (bf16_at ?mem (0 + 32) k)"
    "\<And>hmem a. a \<notin> {64 + 0..<64 + 0 + 20} \<Longrightarrow> write_bytes ws hmem a = hmem a"
    using fp8_kernel_memory [OF ok, of bf16_to_fp8_e4m3 ?mem 0 64 "[32]"] by auto
  have "cvt8 bf16_to_fp8_e4m3 (bf16_at ?mem (0 + 32) 19) = 0x38"
    by (simp add: cvt8_def bf16_at_def bf16_to_fp8_parts fp8_mag_def round_mantissa_def)
  then show ?thesis
    using ws(1) ws(2) [of 19] ws(3) [of 84] by (intro exI [of _ ws]) simp
qed

theorem fp8_rounds_to_nearest_witness:
  "nearest_even fp8_units (bf16_units 0x3F88) (bf16_to_fp8_e4m3 0x3F88 mod 128) \<and> bf16_to_fp8_e4m3 0x3F88 = 0x38"
  using fp8_rounds_to_nearest [of "0x3F88"]
  by (simp add: bf16_units_def bf16_to_fp8_parts fp8_mag_def round_mantissa_def)

end
