(* ===== verification/CopyStream.thy ===== *)
theory CopyStream
  imports Fp8
begin

text \<open>
  The part of CUDA that the copy functions rely on: a stream executes its commands in order, at any
  time after they were put into it, while the host goes on; \<open>cudaStreamSynchronize\<close> waits until the
  stream is empty.

  A copy function is the list of what the host does: it fills the pinned metadata buffer
  (\<open>WriteMeta\<close>), puts commands into the stream (\<open>Enq\<close>) and waits (\<open>Sync\<close>). The metadata buffer is
  read by the stream when \<open>CopyMeta\<close> is executed, so the host must not fill it again before that. The
  main lemma says that when every refill is separated from the last \<open>CopyMeta\<close> by a wait, each
  interleaving of the host with the stream, and each order of the threads of a kernel, has the effect
  of executing everything in program order.
\<close>

section \<open>Commands and actions\<close>

datatype copy_direction = H2D | D2H

text \<open>
  \<open>CopyMeta n\<close> copies the offsets and lengths of \<open>n\<close> descriptors to the device; \<open>Launch dir host gpu n\<close>
  starts a copy kernel on them, \<open>LaunchFp8 gpu host n\<close> the one that converts.
\<close>

datatype stream_cmd =
    Memcpy ipc_block
  | CopyMeta nat
  | Launch copy_direction nat nat nat
  | LaunchFp8 nat nat nat

datatype host_act = WriteMeta "nat list" | Enq stream_cmd | Sync

text \<open>The three arrays of \<open>n\<close> entries in the metadata buffer of the device.\<close>

definition meta_part :: "nat \<Rightarrow> nat \<Rightarrow> nat list \<Rightarrow> nat list" where
  "meta_part k n dm = take n (drop (k * n) dm)"

definition overwrite :: "nat list \<Rightarrow> nat list \<Rightarrow> nat list" where
  "overwrite xs buf = xs @ drop (length xs) buf"

definition launch_args :: "copy_direction \<Rightarrow> nat \<Rightarrow> nat \<Rightarrow> nat \<Rightarrow> nat list \<Rightarrow> ipc_block list" where
  "launch_args dir host gpu n dm =
     (case dir of
        H2D \<Rightarrow> launch_blocks host gpu (meta_part 0 n dm) (meta_part 1 n dm) (meta_part 2 n dm) n
      | D2H \<Rightarrow> launch_blocks gpu host (meta_part 1 n dm) (meta_part 0 n dm) (meta_part 2 n dm) n)"

definition fp8_writes :: "(nat \<Rightarrow> nat) \<Rightarrow> (nat \<Rightarrow> nat) \<Rightarrow> nat \<Rightarrow> nat \<Rightarrow> nat \<Rightarrow> nat list \<Rightarrow> (nat \<times> nat) list" where
  "fp8_writes cvt src gpu host n dm =
     concat (map (\<lambda>i. map (cvt_byte cvt src (gpu + meta_part 0 n dm ! i) (host + meta_part 1 n dm ! i))
       [0..<meta_part 2 n dm ! i]) [0..<n])"

section \<open>Execution\<close>

text \<open>
  \<open>src\<close> is the memory the copies read, which nothing writes meanwhile; the state holds the metadata
  on the host and on the device and the memory the copies write.
\<close>

type_synonym stream_state = "nat list \<times> nat list \<times> (nat \<Rightarrow> nat)"

text \<open>What a command does on the device, with the threads of a kernel in any order.\<close>

inductive cmd_run ::
  "(nat \<Rightarrow> nat) \<Rightarrow> launch_dims \<Rightarrow> (nat \<Rightarrow> nat) \<Rightarrow> stream_cmd \<Rightarrow> stream_state \<Rightarrow> stream_state \<Rightarrow> bool"
  for cvt dims src where
  run_memcpy: "cmd_run cvt dims src (Memcpy b) (hm, dm, mem) (hm, dm, copy_block src b mem)"
| run_meta: "cmd_run cvt dims src (CopyMeta n) (hm, dm, mem) (hm, overwrite (take (3 * n) hm) dm, mem)"
| run_h2d: "kernel_runs (copy_h2d_direct_kernel host gpu (meta_part 0 n dm) (meta_part 1 n dm) (meta_part 2 n dm) n dims)
      dims ops \<Longrightarrow>
    cmd_run cvt dims src (Launch H2D host gpu n) (hm, dm, mem) (hm, dm, transfer src ops mem)"
| run_d2h: "kernel_runs (copy_d2h_direct_kernel gpu host (meta_part 1 n dm) (meta_part 0 n dm) (meta_part 2 n dm) n dims)
      dims ops \<Longrightarrow>
    cmd_run cvt dims src (Launch D2H host gpu n) (hm, dm, mem) (hm, dm, transfer src ops mem)"
| run_fp8: "kernel_runs (copy_d2h_bf16_to_fp8_kernel cvt src gpu host (meta_part 0 n dm) (meta_part 1 n dm)
      (meta_part 2 n dm) n dims) dims ws \<Longrightarrow>
    cmd_run cvt dims src (LaunchFp8 gpu host n) (hm, dm, mem) (hm, dm, write_bytes ws mem)"

text \<open>The same in program order, with a kernel taking its descriptors one after the other.\<close>

fun cmd_spec :: "(nat \<Rightarrow> nat) \<Rightarrow> (nat \<Rightarrow> nat) \<Rightarrow> stream_cmd \<Rightarrow> stream_state \<Rightarrow> stream_state" where
  "cmd_spec cvt src (Memcpy b) (hm, dm, mem) = (hm, dm, copy_block src b mem)"
| "cmd_spec cvt src (CopyMeta n) (hm, dm, mem) = (hm, overwrite (take (3 * n) hm) dm, mem)"
| "cmd_spec cvt src (Launch dir host gpu n) (hm, dm, mem) = (hm, dm, transfer src (launch_args dir host gpu n dm) mem)"
| "cmd_spec cvt src (LaunchFp8 gpu host n) (hm, dm, mem) = (hm, dm, write_bytes (fp8_writes cvt src gpu host n dm) mem)"

fun act_spec :: "(nat \<Rightarrow> nat) \<Rightarrow> (nat \<Rightarrow> nat) \<Rightarrow> host_act \<Rightarrow> stream_state \<Rightarrow> stream_state" where
  "act_spec cvt src (WriteMeta xs) (hm, dm, mem) = (overwrite xs hm, dm, mem)"
| "act_spec cvt src (Enq c) s = cmd_spec cvt src c s"
| "act_spec cvt src Sync s = s"

text \<open>
  The host and the stream side by side. A configuration is what the host still has to do, the
  commands in the stream and the state.
\<close>

inductive async_step ::
  "(nat \<Rightarrow> nat) \<Rightarrow> launch_dims \<Rightarrow> (nat \<Rightarrow> nat) \<Rightarrow> host_act list \<times> stream_cmd list \<times> stream_state \<Rightarrow>
   host_act list \<times> stream_cmd list \<times> stream_state \<Rightarrow> bool"
  for cvt dims src where
  host_write: "async_step cvt dims src (WriteMeta xs # acts, q, (hm, dm, mem)) (acts, q, (overwrite xs hm, dm, mem))"
| host_enq: "async_step cvt dims src (Enq c # acts, q, s) (acts, q @ [c], s)"
| host_sync: "async_step cvt dims src (Sync # acts, [], s) (acts, [], s)"
| device: "cmd_run cvt dims src c s s' \<Longrightarrow> async_step cvt dims src (acts, c # q, s) (acts, q, s')"

abbreviation async_runs ::
  "(nat \<Rightarrow> nat) \<Rightarrow> launch_dims \<Rightarrow> (nat \<Rightarrow> nat) \<Rightarrow> host_act list \<times> stream_cmd list \<times> stream_state \<Rightarrow>
   host_act list \<times> stream_cmd list \<times> stream_state \<Rightarrow> bool" where
  "async_runs cvt dims src \<equiv> (async_step cvt dims src)\<^sup>*\<^sup>*"

section \<open>Kernels have the specified effect\<close>

text \<open>The descriptors of a launch do not overlap in the destination.\<close>

fun cmd_ok :: "launch_dims \<Rightarrow> nat list \<Rightarrow> stream_cmd \<Rightarrow> bool" where
  "cmd_ok dims dm (Memcpy b) = True"
| "cmd_ok dims dm (CopyMeta n) = True"
| "cmd_ok dims dm (Launch dir host gpu n) = (launchable dims n \<and> dst_disjoint (launch_args dir host gpu n dm))"
| "cmd_ok dims dm (LaunchFp8 gpu host n) =
     (launchable dims n \<and> ranges_disjoint (meta_part 1 n dm) (meta_part 2 n dm) n)"

lemma fp8_run_spec:
  assumes "launchable dims n" and "ranges_disjoint dof ln n"
    and "kernel_runs (copy_d2h_bf16_to_fp8_kernel cvt src gpu host sof dof ln n dims) dims ws"
  shows "write_bytes ws mem = write_bytes (concat (map (\<lambda>i. map (cvt_byte cvt src (gpu + sof ! i) (host + dof ! i))
      [0..<ln ! i]) [0..<n])) mem" (is "_ = write_bytes ?ws mem")
proof
  fix a
  have set: "set ws = set ?ws"
    unfolding fp8_run_set [OF assms(1,3)] by auto
  show "write_bytes ws mem a = write_bytes ?ws mem a"
  proof (cases "a \<in> fst ` set ws")
    case True
    then obtain v where v: "(a, v) \<in> set ws"
      by auto
    have one: "v' = v" if "(a, v') \<in> set ws" for v'
      using that v unfolding fp8_run_set [OF assms(1,3)]
      using ranges_unique [OF assms(2)] by (fastforce simp: cvt_byte_def)
    have "write_bytes ?ws mem a = v"
      by (rule write_bytes_hit [OF v [unfolded set]]) (rule one [unfolded set])
    then show ?thesis
      using write_bytes_hit [OF v one] by simp
  next
    case False
    show ?thesis
      using write_bytes_miss [OF False] write_bytes_miss [OF False [unfolded set]] by simp
  qed
qed

lemma cmd_run_spec:
  assumes "cmd_run cvt dims src c s s'" and "cmd_ok dims (fst (snd s)) c"
  shows "s' = cmd_spec cvt src c s"
  using assms
proof (induction rule: cmd_run.induct)
  case (run_h2d host gpu n dm ops hm mem)
  then have "copied ops = copied (launch_args H2D host gpu n dm)"
    unfolding copy_h2d_direct_kernel_def launch_args_def by (auto intro!: direct_kernel_run_copies)
  then have "transfer src ops mem = transfer src (launch_args H2D host gpu n dm) mem"
    using run_h2d.prems dst_disjoint_one_source [of "launch_args H2D host gpu n dm"] by (intro transfer_cong) simp_all
  then show ?case
    by simp
next
  case (run_d2h gpu host n dm ops hm mem)
  then have "copied ops = copied (launch_args D2H host gpu n dm)"
    unfolding copy_d2h_direct_kernel_def launch_args_def by (auto intro!: direct_kernel_run_copies)
  then have "transfer src ops mem = transfer src (launch_args D2H host gpu n dm) mem"
    using run_d2h.prems dst_disjoint_one_source [of "launch_args D2H host gpu n dm"] by (intro transfer_cong) simp_all
  then show ?case
    by simp
next
  case (run_fp8 gpu host n dm ws hm mem)
  then have "write_bytes ws mem = write_bytes (fp8_writes cvt src gpu host n dm) mem"
    unfolding fp8_writes_def by (intro fp8_run_spec) auto
  then show ?case
    by simp
qed simp_all

lemma cmd_run_ex:
  assumes "cmd_ok dims (fst (snd s)) c"
  shows "\<exists>s'. cmd_run cvt dims src c s s'"
proof -
  obtain hm dm mem where s: "s = (hm, dm, mem)"
    by (cases s)
  show ?thesis
  proof (cases c)
    case (Launch dir host gpu n)
    then have ok: "launchable dims n"
      using assms by simp
    have "\<exists>ops. kernel_runs (direct_kernel_thread sb db sof dof ln n dims) dims ops" for sb db sof dof ln
      using direct_kernel_total [OF ok] by (rule kernel_runs_ex)
    then show ?thesis
      unfolding Launch s by (cases dir) (metis copy_h2d_direct_kernel_def run_h2d, metis copy_d2h_direct_kernel_def run_d2h)
  next
    case (LaunchFp8 gpu host n)
    then have ok: "launchable dims n"
      using assms by simp
    have "\<exists>ws. kernel_runs (copy_d2h_bf16_to_fp8_kernel cvt src gpu host sof dof ln n dims) dims ws" for sof dof ln
      by (rule kernel_runs_ex) (simp add: copy_d2h_bf16_to_fp8_kernel_def grid_thread_total [OF ok])
    then show ?thesis
      unfolding LaunchFp8 s by (metis run_fp8)
  qed (use s in \<open>auto intro: cmd_run.intros\<close>)
qed

section \<open>Every interleaving has the specified effect\<close>

text \<open>The metadata after a command or an action, and the condition that each launch is well formed.\<close>

abbreviation cmds_spec :: "(nat \<Rightarrow> nat) \<Rightarrow> (nat \<Rightarrow> nat) \<Rightarrow> stream_cmd list \<Rightarrow> stream_state \<Rightarrow> stream_state" where
  "cmds_spec cvt src q s \<equiv> fold (cmd_spec cvt src) q s"

abbreviation acts_spec :: "(nat \<Rightarrow> nat) \<Rightarrow> (nat \<Rightarrow> nat) \<Rightarrow> host_act list \<Rightarrow> stream_state \<Rightarrow> stream_state" where
  "acts_spec cvt src acts s \<equiv> fold (act_spec cvt src) acts s"

fun cmd_meta :: "stream_cmd \<Rightarrow> nat list \<times> nat list \<Rightarrow> nat list \<times> nat list" where
  "cmd_meta (CopyMeta n) (hm, dm) = (hm, overwrite (take (3 * n) hm) dm)"
| "cmd_meta _ md = md"

fun act_meta :: "host_act \<Rightarrow> nat list \<times> nat list \<Rightarrow> nat list \<times> nat list" where
  "act_meta (WriteMeta xs) (hm, dm) = (overwrite xs hm, dm)"
| "act_meta (Enq c) md = cmd_meta c md"
| "act_meta Sync md = md"

fun cmds_ok :: "launch_dims \<Rightarrow> stream_cmd list \<Rightarrow> nat list \<times> nat list \<Rightarrow> bool" where
  "cmds_ok dims [] md = True"
| "cmds_ok dims (c # q) md = (cmd_ok dims (snd md) c \<and> cmds_ok dims q (cmd_meta c md))"

fun acts_ok :: "launch_dims \<Rightarrow> host_act list \<Rightarrow> nat list \<times> nat list \<Rightarrow> bool" where
  "acts_ok dims [] md = True"
| "acts_ok dims (act # acts) md =
     ((case act of Enq c \<Rightarrow> cmd_ok dims (snd md) c | _ \<Rightarrow> True) \<and> acts_ok dims acts (act_meta act md))"

text \<open>
  The buffer is not filled again while the stream may still have to read it: \<open>pending\<close> says that a
  \<open>CopyMeta\<close> was put into the stream since the last wait.
\<close>

fun meta_safe :: "bool \<Rightarrow> host_act list \<Rightarrow> bool" where
  "meta_safe pending [] = True"
| "meta_safe pending (WriteMeta xs # acts) = (\<not> pending \<and> meta_safe pending acts)"
| "meta_safe pending (Enq c # acts) = meta_safe (pending \<or> (\<exists>n. c = CopyMeta n)) acts"
| "meta_safe pending (Sync # acts) = meta_safe False acts"

definition reads_meta :: "stream_cmd list \<Rightarrow> bool" where
  "reads_meta q \<longleftrightarrow> (\<exists>n. CopyMeta n \<in> set q)"

lemma meta_of_cmd: "(fst (cmd_spec cvt src c s), fst (snd (cmd_spec cvt src c s))) = cmd_meta c (fst s, fst (snd s))"
  by (cases c; cases s) simp_all

lemma meta_safe_mono: "meta_safe True acts \<Longrightarrow> meta_safe p acts"
proof (induction acts arbitrary: p)
  case (Cons act acts)
  then show ?case
    by (cases act; cases p) auto
qed simp

text \<open>A queue without \<open>CopyMeta\<close> does not look at the buffer of the host.\<close>

lemma cmds_ignore_host:
  assumes "\<not> reads_meta q"
  shows "cmds_spec cvt src q (hm', dm, mem) =
    (hm', snd (cmds_spec cvt src q (hm, dm, mem)))"
    and "cmds_ok dims q (hm', dm) = cmds_ok dims q (hm, dm)"
  using assms
proof (induction q arbitrary: dm mem)
  case (Cons c q)
  {
    case 1
    then show ?case
      using Cons by (cases c) (auto simp: reads_meta_def)
  next
    case 2
    then show ?case
      using Cons by (cases c) (auto simp: reads_meta_def)
  }
qed simp_all

text \<open>
  What every reachable configuration keeps: doing in program order what is still in the stream and
  then what the host still has to do gives the specified result \<open>r\<close>.
\<close>

definition async_inv ::
  "(nat \<Rightarrow> nat) \<Rightarrow> launch_dims \<Rightarrow> (nat \<Rightarrow> nat) \<Rightarrow> stream_state \<Rightarrow>
   host_act list \<times> stream_cmd list \<times> stream_state \<Rightarrow> bool" where
  "async_inv cvt dims src r cfg \<longleftrightarrow>
     (case cfg of (acts, q, s) \<Rightarrow>
        acts_spec cvt src acts (cmds_spec cvt src q s) = r \<and>
        cmds_ok dims q (fst s, fst (snd s)) \<and>
        acts_ok dims acts (fold cmd_meta q (fst s, fst (snd s))) \<and>
        (\<exists>p. (reads_meta q \<longrightarrow> p) \<and> meta_safe p acts))"

lemma cmds_ok_append: "cmds_ok dims (q @ [c]) md \<longleftrightarrow> cmds_ok dims q md \<and> cmd_ok dims (snd (fold cmd_meta q md)) c"
  by (induction q arbitrary: md) auto

lemma cmd_meta_ignore_host:
  assumes "\<not> reads_meta q"
  shows "fold cmd_meta q (hm, dm) = (hm, dm)"
  using assms
proof (induction q)
  case (Cons c q)
  then show ?case
    by (cases c) (auto simp: reads_meta_def)
qed simp

lemma async_inv_step:
  assumes "async_step cvt dims src cfg cfg'" and "async_inv cvt dims src r cfg"
  shows "async_inv cvt dims src r cfg'"
  using assms
proof (induction rule: async_step.induct)
  case (host_write xs acts q hm dm mem)
  then have q: "\<not> reads_meta q" and safe: "meta_safe False acts"
    by (auto simp: async_inv_def intro: meta_safe_mono)
  have "act_spec cvt src (WriteMeta xs) (cmds_spec cvt src q (hm, dm, mem)) =
      cmds_spec cvt src q (overwrite xs hm, dm, mem)"
    using cmds_ignore_host(1) [OF q, of cvt src "overwrite xs hm" dm mem hm]
      cmds_ignore_host(1) [OF q, of cvt src hm dm mem hm] by (metis act_spec.simps(1) prod.collapse snd_conv fst_conv)
  moreover have "cmds_ok dims q (overwrite xs hm, dm)"
    using host_write cmds_ignore_host(2) [OF q] by (auto simp: async_inv_def)
  ultimately show ?case
    using host_write q safe by (auto simp: async_inv_def cmd_meta_ignore_host)
next
  case (host_enq c acts q s)
  then obtain p where p: "reads_meta q \<longrightarrow> p" "meta_safe p (Enq c # acts)"
    by (auto simp: async_inv_def)
  have "(reads_meta (q @ [c]) \<longrightarrow> p \<or> (\<exists>n. c = CopyMeta n)) \<and> meta_safe (p \<or> (\<exists>n. c = CopyMeta n)) acts"
    using p by (auto simp: reads_meta_def)
  then have "\<exists>p. (reads_meta (q @ [c]) \<longrightarrow> p) \<and> meta_safe p acts"
    by (rule exI)
  then show ?case
    using host_enq by (simp add: async_inv_def cmds_ok_append)
next
  case (host_sync acts s)
  then show ?case
    by (auto simp: async_inv_def reads_meta_def)
next
  case (device c s s' acts q)
  have s': "s' = cmd_spec cvt src c s"
    using device by (intro cmd_run_spec) (auto simp: async_inv_def)
  have md: "(fst s', fst (snd s')) = cmd_meta c (fst s, fst (snd s))"
    unfolding s' by (rule meta_of_cmd)
  obtain p where p: "reads_meta (c # q) \<longrightarrow> p" "meta_safe p acts"
    using device by (auto simp: async_inv_def)
  then have "(reads_meta q \<longrightarrow> p) \<and> meta_safe p acts"
    by (auto simp: reads_meta_def)
  then have "\<exists>p. (reads_meta q \<longrightarrow> p) \<and> meta_safe p acts"
    by (rule exI)
  moreover have "cmds_ok dims q (fst s', fst (snd s'))" "acts_ok dims acts (fold cmd_meta q (fst s', fst (snd s')))"
    using device.prems unfolding md by (simp_all add: async_inv_def)
  moreover have "acts_spec cvt src acts (cmds_spec cvt src q s') = r"
    using device.prems unfolding s' by (simp add: async_inv_def)
  ultimately show ?case
    by (simp add: async_inv_def)
qed

lemma async_inv_runs:
  "async_runs cvt dims src cfg cfg' \<Longrightarrow> async_inv cvt dims src r cfg \<Longrightarrow> async_inv cvt dims src r cfg'"
  by (induction rule: rtranclp_induct) (auto intro: async_inv_step)

text \<open>From every reachable configuration that is not the end another step is possible.\<close>

lemma async_inv_progress:
  assumes "async_inv cvt dims src r (acts, q, s)" and "acts \<noteq> [] \<or> q \<noteq> []"
  shows "\<exists>cfg'. async_step cvt dims src (acts, q, s) cfg'"
proof (cases q)
  case (Cons c q')
  then have "cmd_ok dims (fst (snd s)) c"
    using assms(1) by (simp add: async_inv_def)
  then show ?thesis
    unfolding Cons using cmd_run_ex device by metis
next
  case Nil
  then obtain act acts' where acts: "acts = act # acts'"
    using assms(2) by (cases acts) auto
  show ?thesis
    unfolding acts Nil by (cases act; cases s) (metis host_write, metis host_enq, metis host_sync)
qed

text \<open>Every step makes the rest of the work smaller.\<close>

definition work :: "host_act list \<times> stream_cmd list \<times> stream_state \<Rightarrow> nat" where
  "work cfg = (case cfg of (acts, q, s) \<Rightarrow> 2 * length acts + length q)"

lemma async_step_work: "async_step cvt dims src cfg cfg' \<Longrightarrow> work cfg' < work cfg"
  by (induction rule: async_step.induct) (simp_all add: work_def)

lemma async_ends:
  assumes "async_inv cvt dims src r cfg"
  shows "\<exists>s. async_runs cvt dims src cfg ([], [], s)"
  using assms
proof (induction "work cfg" arbitrary: cfg rule: less_induct)
  case less
  obtain acts q s where cfg: "cfg = (acts, q, s)"
    by (cases cfg)
  show ?case
  proof (cases "acts = [] \<and> q = []")
    case False
    then obtain cfg' where step: "async_step cvt dims src cfg cfg'"
      using async_inv_progress [of cvt dims src r acts q s] less.prems cfg by blast
    then obtain s' where "async_runs cvt dims src cfg' ([], [], s')"
      using less.hyps [OF async_step_work] async_inv_step less.prems by blast
    with step show ?thesis
      by (meson converse_rtranclp_into_rtranclp)
  next
    case True
    then have "async_runs cvt dims src cfg ([], [], s)"
      using cfg by simp
    then show ?thesis
      by blast
  qed
qed

text \<open>
  A list of actions that refills the buffer only after a wait, and whose launches are well formed:
  every run can be completed, and every completed run has the specified effect.
\<close>

lemma async_effect:
  assumes "meta_safe False acts" and "acts_ok dims acts (hm, dm)"
  shows "(\<exists>s. async_runs cvt dims src (acts, [], (hm, dm, mem)) ([], [], s)) \<and>
    (\<forall>s. async_runs cvt dims src (acts, [], (hm, dm, mem)) ([], [], s) \<longrightarrow> s = acts_spec cvt src acts (hm, dm, mem))"
proof -
  have inv: "async_inv cvt dims src (acts_spec cvt src acts (hm, dm, mem)) (acts, [], (hm, dm, mem))"
    using assms by (auto simp: async_inv_def reads_meta_def)
  have "s = acts_spec cvt src acts (hm, dm, mem)" if "async_runs cvt dims src (acts, [], (hm, dm, mem)) ([], [], s)" for s
    using async_inv_runs [OF that inv] by (simp add: async_inv_def)
  with async_ends [OF inv] show ?thesis
    by blast
qed

end
