(* ===== verification/CopyHost.thy ===== *)
theory CopyHost
  imports CopyStream KvtCommon
begin

text \<open>
  The copy between scattered blocks of the GPU and contiguous memory of the host
  (\<open>src/copy_kernels.cpp\<close>): the table of measured copy methods, the choice of a method for a list of
  blocks, and the functions that enqueue the copies, with their batches, as lists of host actions.

  The result of a measurement, the success of a CUDA call and the geometry of a launch come from the
  device and are parameters. A CUDA call that fails under \<open>CUDA_CHECK\<close> ends the process.
\<close>

section \<open>Model\<close>

subsection \<open>Configuration\<close>

datatype copy_method = Kernel | MemcpyLoop

definition atoll :: "string \<Rightarrow> int" where
  "atoll s =
     (case scan_number s of (neg, ds) \<Rightarrow>
        let v = (if neg then - int (digits_val ds) else int (digits_val ds))
        in max (- (2 ^ 63)) (min (2 ^ 63 - 1) v))"

definition env_bool :: "kvt_env \<Rightarrow> string \<Rightarrow> bool \<Rightarrow> bool" where
  "env_bool env name default_value =
     (case getenv env name of None \<Rightarrow> default_value | Some v \<Rightarrow> atoi v \<noteq> 0)"

definition env_size :: "kvt_env \<Rightarrow> string \<Rightarrow> nat \<Rightarrow> nat" where
  "env_size env name default_value =
     (case getenv env name of
        None \<Rightarrow> default_value
      | Some v \<Rightarrow> (let parsed = atoll v in if parsed > 0 then nat parsed else default_value))"

definition parse_size_list :: "kvt_env \<Rightarrow> string \<Rightarrow> nat list" where
  "parse_size_list env env_name =
     (case getenv env env_name of
        None \<Rightarrow> []
      | Some raw \<Rightarrow>
          (let tokens = filter (\<lambda>token. token \<noteq> []) (split_on CHR '','' raw);
               parsed = filter (\<lambda>p. p > 0) (map atoll tokens)
           in remdups_adj (sort (map nat parsed))))"

definition direction_name :: "copy_direction \<Rightarrow> string" where
  "direction_name direction = (if direction = H2D then ''H2D'' else ''D2H'')"

fun occurs_in :: "string \<Rightarrow> string \<Rightarrow> bool" where
  "occurs_in pat s = (take (length pat) s = pat \<or> (case s of [] \<Rightarrow> False | _ # t \<Rightarrow> occurs_in pat t))"

definition profile_direction_enabled :: "kvt_env \<Rightarrow> copy_direction \<Rightarrow> bool" where
  "profile_direction_enabled env direction =
     (case getenv env ''BLLM_KVTRANS_COPY_PROFILE_DIRECTIONS'' of
        None \<Rightarrow> True
      | Some raw \<Rightarrow> if raw = [] then True else occurs_in (direction_name direction) raw)"

text \<open>\<open>std::lower_bound\<close> on a sorted list: the first bucket that is not smaller.\<close>

definition upper_bucket :: "nat list \<Rightarrow> nat \<Rightarrow> nat" where
  "upper_bucket buckets v =
     (if buckets = [] then 0
      else (case find (\<lambda>b. v \<le> b) buckets of Some b \<Rightarrow> b | None \<Rightarrow> last buckets))"

subsection \<open>Shape of a list of blocks\<close>

record copy_layout_summary =
  sum_num_blocks :: nat
  sum_total_bytes :: nat
  sum_avg_block_size :: nat
  sum_max_block_size :: nat
  sum_all_same_size :: bool

definition summarize_layout :: "ipc_block list \<Rightarrow> copy_layout_summary" where
  "summarize_layout blocks =
     (if blocks = [] then
        \<lparr> sum_num_blocks = 0, sum_total_bytes = 0, sum_avg_block_size = 0, sum_max_block_size = 0, sum_all_same_size = True \<rparr>
      else
        (let first_length = blk_len (blocks ! 0);
             total = fold (\<lambda>b t. u64 (t + blk_len b)) blocks 0;
             biggest = fold (\<lambda>b m. max m (blk_len b)) blocks 0;
             same = fold (\<lambda>b s. s \<and> blk_len b = first_length) blocks True
         in \<lparr> sum_num_blocks = length blocks, sum_total_bytes = total, sum_avg_block_size = total div length blocks,
              sum_max_block_size = biggest, sum_all_same_size = same \<rparr>))"

definition generate_profile_blocks :: "nat \<Rightarrow> nat \<Rightarrow> nat \<Rightarrow> ipc_block list option result" where
  "generate_profile_blocks num_blocks block_size total_gpu_size =
     (if num_blocks = 0 \<or> block_size = 0 \<or> total_gpu_size < block_size then Inr None
      else
        (let stride = u64 (u64 (block_size + 15) div 16 * 16)
         in ck_div (total_gpu_size - block_size) stride (\<lambda>q.
            if num_blocks > u64 (q + 1) then Inr None
            else Inr (Some (map (\<lambda>i. IpcBlock 0 (u64 (i * stride)) block_size) [0..<num_blocks])))))"

subsection \<open>The profile\<close>

record copy_profile =
  profile_enabled :: bool
  profile_table :: "copy_direction \<times> nat \<times> nat \<Rightarrow> copy_method option"
  profile_block_counts :: "nat list"
  profile_block_sizes :: "nat list"
  memcpy_fallback_block_threshold :: nat
  memcpy_fallback_max_blocks :: nat

text \<open>
  One entry of the table: \<open>memcpy_wins\<close> is the result of the measurement. Combinations that are too
  large, or for which no blocks can be generated, have no entry.
\<close>

definition profile_entry ::
  "(copy_direction \<Rightarrow> nat \<Rightarrow> nat \<Rightarrow> bool) \<Rightarrow> nat \<Rightarrow> copy_direction \<Rightarrow> nat \<Rightarrow> nat \<Rightarrow>
   (copy_direction \<times> nat \<times> nat \<Rightarrow> copy_method option) \<Rightarrow>
   (copy_direction \<times> nat \<times> nat \<Rightarrow> copy_method option) result" where
  "profile_entry memcpy_wins max_profile_bytes direction num_blocks block_size table =
     (let tensor_data_size = u64 (num_blocks * block_size)
      in if tensor_data_size = 0 \<or> tensor_data_size > max_profile_bytes then Inr table
         else
           (let stride = u64 (u64 (block_size + 15) div 16 * 16);
                total_gpu_size = u64 ((num_blocks - 1) * stride + block_size)
            in rbind (generate_profile_blocks num_blocks block_size total_gpu_size) (\<lambda>blocks.
               case blocks of
                 None \<Rightarrow> Inr table
               | Some _ \<Rightarrow>
                   Inr (table((direction, num_blocks, block_size) \<mapsto>
                     (if memcpy_wins direction num_blocks block_size then MemcpyLoop else Kernel))))))"

definition initialize_copy_method_profile ::
  "kvt_env \<Rightarrow> (copy_direction \<Rightarrow> nat \<Rightarrow> nat \<Rightarrow> bool) \<Rightarrow> copy_profile result" where
  "initialize_copy_method_profile env memcpy_wins =
     (let threshold = env_size env ''BLLM_KVTRANS_COPY_MEMCPY_BLOCK_THRESHOLD_BYTES'' (256 * 1024);
          max_blocks = env_size env ''BLLM_KVTRANS_COPY_MEMCPY_MAX_BLOCKS'' 16;
          enabled = env_bool env ''BLLM_KVTRANS_COPY_PROFILE_ENABLE'' True
      in if \<not> enabled then
           Inr \<lparr> profile_enabled = False, profile_table = Map.empty, profile_block_counts = [], profile_block_sizes = [],
                 memcpy_fallback_block_threshold = threshold, memcpy_fallback_max_blocks = max_blocks \<rparr>
         else
           (let counts = parse_size_list env ''BLLM_KVTRANS_COPY_PROFILE_BLOCK_COUNTS'';
                sizes = parse_size_list env ''BLLM_KVTRANS_COPY_PROFILE_BLOCK_SIZES'';
                counts = (if counts = [] then [1, 2, 4, 16, 256, 8192] else counts);
                sizes = (if sizes = [] then [256, 4096, 65536, 262144, 1048576, 4194304, 8388608] else sizes);
                max_profile_bytes = env_size env ''BLLM_KVTRANS_COPY_PROFILE_MAX_BYTES'' 67108864
            in rbind (rfold (\<lambda>direction table.
                   if \<not> profile_direction_enabled env direction then Inr table
                   else rfold (\<lambda>num_blocks. rfold (\<lambda>block_size.
                     profile_entry memcpy_wins max_profile_bytes direction num_blocks block_size) sizes) counts table)
                 [H2D, D2H] Map.empty) (\<lambda>table.
               Inr \<lparr> profile_enabled = True, profile_table = table, profile_block_counts = counts, profile_block_sizes = sizes,
                     memcpy_fallback_block_threshold = threshold, memcpy_fallback_max_blocks = max_blocks \<rparr>)))"

definition profile_lookup :: "copy_profile \<Rightarrow> copy_direction \<times> nat \<times> nat \<Rightarrow> copy_method option" where
  "profile_lookup prof key = (if profile_enabled prof then profile_table prof key else None)"

definition select_copy_method :: "copy_profile \<Rightarrow> ipc_block list \<Rightarrow> copy_direction \<Rightarrow> copy_method" where
  "select_copy_method prof blocks direction =
     (let summary = summarize_layout blocks
      in if sum_num_blocks summary = 0 then Kernel
         else
           (let count_bucket = upper_bucket (profile_block_counts prof) (sum_num_blocks summary);
                size_bucket = upper_bucket (profile_block_sizes prof)
                  (if sum_all_same_size summary then sum_max_block_size summary else sum_avg_block_size summary)
            in case profile_lookup prof (direction, count_bucket, size_bucket) of
                 Some m \<Rightarrow> m
               | None \<Rightarrow>
                   (if sum_num_blocks summary \<le> memcpy_fallback_max_blocks prof \<and> sum_avg_block_size summary \<ge> 64 * 1024
                    then MemcpyLoop
                    else if sum_max_block_size summary \<ge> memcpy_fallback_block_threshold prof \<and>
                            sum_num_blocks summary \<le> memcpy_fallback_max_blocks prof
                    then MemcpyLoop
                    else Kernel)))"

definition select_single_block_method :: "copy_profile \<Rightarrow> nat \<Rightarrow> copy_direction \<Rightarrow> copy_method" where
  "select_single_block_method prof block_size direction =
     (case profile_lookup prof (direction, 1, upper_bucket (profile_block_sizes prof) block_size) of
        Some m \<Rightarrow> m
      | None \<Rightarrow> if block_size \<ge> memcpy_fallback_block_threshold prof then MemcpyLoop else Kernel)"

subsection \<open>Copies\<close>

text \<open>
  What a function has enqueued, and whether CUDA reported success. \<open>cuda_ok\<close> tells which commands
  CUDA accepts.
\<close>

type_synonym enqueued = "host_act list \<times> bool"

definition oriented :: "copy_direction \<Rightarrow> nat \<Rightarrow> nat \<Rightarrow> nat \<Rightarrow> ipc_block" where
  "oriented direction host_ptr gpu_ptr len =
     (case direction of H2D \<Rightarrow> IpcBlock host_ptr gpu_ptr len | D2H \<Rightarrow> IpcBlock gpu_ptr host_ptr len)"

fun enqueue_memcpy_loop ::
  "bool \<Rightarrow> (stream_cmd \<Rightarrow> bool) \<Rightarrow> nat \<Rightarrow> nat \<Rightarrow> nat \<Rightarrow> copy_direction \<Rightarrow> ipc_block list \<Rightarrow> nat \<Rightarrow> enqueued result" where
  "enqueue_memcpy_loop nd cuda_ok tensor_buf_ptr layer_gpu_ptr tensor_data_size direction [] tensor_offset =
     c_assert nd (tensor_offset = tensor_data_size) (Inr ([], True))"
| "enqueue_memcpy_loop nd cuda_ok tensor_buf_ptr layer_gpu_ptr tensor_data_size direction (block # blocks) tensor_offset =
     c_assert nd (blk_len block > 0) (
     c_assert nd (u64 (tensor_offset + blk_len block) \<le> tensor_data_size) (
     let cmd = Memcpy (oriented direction (tensor_buf_ptr + tensor_offset) (layer_gpu_ptr + dst_offset block) (blk_len block))
     in if \<not> cuda_ok cmd then Inr ([], False)
        else rbind (enqueue_memcpy_loop nd cuda_ok tensor_buf_ptr layer_gpu_ptr tensor_data_size direction blocks
               (u64 (tensor_offset + blk_len block)))
             (\<lambda>(acts, ok). Inr (Enq cmd # acts, ok))))"

text \<open>The loop that fills the metadata: host offsets, GPU offsets, lengths and the final offset.\<close>

fun fill_metadata ::
  "bool \<Rightarrow> bool \<Rightarrow> nat \<Rightarrow> ipc_block list \<Rightarrow> nat \<Rightarrow> (nat list \<times> nat list \<times> nat list \<times> nat) result" where
  "fill_metadata nd use_explicit_host_offsets tensor_data_size [] tensor_offset = Inr ([], [], [], tensor_offset)"
| "fill_metadata nd use_explicit_host_offsets tensor_data_size (block # blocks) tensor_offset =
     c_assert nd (blk_len block > 0) (
     c_assert nd (u64 (tensor_offset + blk_len block) \<le> tensor_data_size) (
     let host_offset = (if use_explicit_host_offsets then src_offset block else tensor_offset) in
     c_assert nd (u64 (host_offset + blk_len block) \<le> tensor_data_size) (
     rbind (fill_metadata nd use_explicit_host_offsets tensor_data_size blocks (u64 (tensor_offset + blk_len block)))
       (\<lambda>(hs, ds, ls, final). Inr (host_offset # hs, dst_offset block # ds, blk_len block # ls, final)))))"

definition copy_handle_data_kernel_direct ::
  "bool \<Rightarrow> (stream_cmd \<Rightarrow> bool) \<Rightarrow> nat \<Rightarrow> nat \<Rightarrow> ipc_block list \<Rightarrow> nat \<Rightarrow> copy_direction \<Rightarrow> bool \<Rightarrow> host_act list result" where
  "copy_handle_data_kernel_direct nd cuda_ok tensor_buf_ptr layer_gpu_ptr blocks tensor_data_size direction
     use_explicit_host_offsets =
     (let num_blocks = length blocks
      in if num_blocks = 0 then Inr []
         else rbind (fill_metadata nd use_explicit_host_offsets tensor_data_size blocks 0) (\<lambda>(hs, ds, ls, final).
           rbind (if \<not> use_explicit_host_offsets then c_assert nd (final = tensor_data_size) (Inr ()) else Inr ()) (\<lambda>_.
           let copy_meta = CopyMeta num_blocks; launch = Launch direction tensor_buf_ptr layer_gpu_ptr num_blocks
           in if cuda_ok copy_meta \<and> cuda_ok launch then Inr [WriteMeta (hs @ ds @ ls), Enq copy_meta, Enq launch]
              else Inl Aborted)))"

text \<open>
  The batches. The limit of a batch is positive, as \<open>env_kernel_copy_max_block_num\<close> is; with 0 the
  loops would not end.
\<close>

function explicit_batches ::
  "bool \<Rightarrow> (stream_cmd \<Rightarrow> bool) \<Rightarrow> nat \<Rightarrow> nat \<Rightarrow> nat \<Rightarrow> nat \<Rightarrow> copy_direction \<Rightarrow> ipc_block list \<Rightarrow> host_act list result" where
  "explicit_batches nd cuda_ok max_blocks_per_batch tensor_buf_ptr layer_gpu_ptr tensor_data_size direction blocks =
     (if blocks = [] then Inr []
      else if max_blocks_per_batch = 0 then Inl Undefined
      else rbind (copy_handle_data_kernel_direct nd cuda_ok tensor_buf_ptr layer_gpu_ptr
             (take max_blocks_per_batch blocks) tensor_data_size direction True) (\<lambda>acts.
           rbind (explicit_batches nd cuda_ok max_blocks_per_batch tensor_buf_ptr layer_gpu_ptr tensor_data_size direction
             (drop max_blocks_per_batch blocks)) (\<lambda>rest.
           Inr (acts @ Sync # rest))))"
  by pat_completeness auto
termination
  by (relation "measure (\<lambda>(_, _, _, _, _, _, _, blocks). length blocks)") auto

definition enqueue_kernel_explicit_offsets ::
  "kvt_env \<Rightarrow> (stream_cmd \<Rightarrow> bool) \<Rightarrow> nat \<Rightarrow> nat \<Rightarrow> ipc_block list \<Rightarrow> nat \<Rightarrow> copy_direction \<Rightarrow> enqueued result" where
  "enqueue_kernel_explicit_offsets env cuda_ok tensor_buf_ptr layer_gpu_ptr blocks tensor_data_size direction =
     rbind (explicit_batches (ndebug env) cuda_ok (env_kernel_copy_max_block_num env) tensor_buf_ptr layer_gpu_ptr
       tensor_data_size direction blocks) (\<lambda>acts. Inr (acts, True))"

text \<open>
  The loop of the hybrid copy: the big blocks are copied at once, the others are collected. The
  result is what was enqueued, the collected blocks, the number of copies and the success.
\<close>

fun hybrid_loop ::
  "copy_profile \<Rightarrow> (stream_cmd \<Rightarrow> bool) \<Rightarrow> nat \<Rightarrow> nat \<Rightarrow> copy_direction \<Rightarrow> ipc_block list \<Rightarrow> nat \<Rightarrow>
   host_act list \<times> ipc_block list \<times> nat \<times> bool" where
  "hybrid_loop prof cuda_ok tensor_buf_ptr layer_gpu_ptr direction [] tensor_offset = ([], [], 0, True)"
| "hybrid_loop prof cuda_ok tensor_buf_ptr layer_gpu_ptr direction (block # blocks) tensor_offset =
     (if select_single_block_method prof (blk_len block) direction = MemcpyLoop then
        (let cmd = Memcpy (oriented direction (tensor_buf_ptr + tensor_offset) (layer_gpu_ptr + dst_offset block) (blk_len block))
         in if \<not> cuda_ok cmd then ([], [], 0, False)
            else
              (case hybrid_loop prof cuda_ok tensor_buf_ptr layer_gpu_ptr direction blocks
                      (u64 (tensor_offset + blk_len block)) of
                 (acts, kernel_blocks, memcpy_blocks, ok) \<Rightarrow> (Enq cmd # acts, kernel_blocks, memcpy_blocks + 1, ok)))
      else
        (case hybrid_loop prof cuda_ok tensor_buf_ptr layer_gpu_ptr direction blocks
                (u64 (tensor_offset + blk_len block)) of
           (acts, kernel_blocks, memcpy_blocks, ok) \<Rightarrow>
             (acts, IpcBlock tensor_offset (dst_offset block) (blk_len block) # kernel_blocks, memcpy_blocks, ok)))"

definition enqueue_hybrid_copy ::
  "kvt_env \<Rightarrow> copy_profile \<Rightarrow> (stream_cmd \<Rightarrow> bool) \<Rightarrow> nat \<Rightarrow> nat \<Rightarrow> ipc_block list \<Rightarrow> nat \<Rightarrow> copy_direction \<Rightarrow>
   (bool \<times> enqueued) result" where
  "enqueue_hybrid_copy env prof cuda_ok tensor_buf_ptr layer_gpu_ptr blocks tensor_data_size direction =
     (case hybrid_loop prof cuda_ok tensor_buf_ptr layer_gpu_ptr direction blocks 0 of
        (acts, kernel_blocks, memcpy_blocks, ok) \<Rightarrow>
          if \<not> ok then Inr (False, acts, False)
          else if memcpy_blocks = 0 then Inr (False, [], True)
          else if kernel_blocks \<noteq> [] then
            rbind (enqueue_kernel_explicit_offsets env cuda_ok tensor_buf_ptr layer_gpu_ptr kernel_blocks
              tensor_data_size direction) (\<lambda>(rest, ok). Inr (True, acts @ rest, ok))
          else Inr (True, acts, True))"

function kernel_batches ::
  "bool \<Rightarrow> (stream_cmd \<Rightarrow> bool) \<Rightarrow> nat \<Rightarrow> nat \<Rightarrow> nat \<Rightarrow> copy_direction \<Rightarrow> ipc_block list \<Rightarrow> nat \<Rightarrow> host_act list result" where
  "kernel_batches nd cuda_ok max_blocks_per_batch tensor_buf_ptr layer_gpu_ptr direction blocks tensor_offset =
     (if blocks = [] then Inr []
      else if max_blocks_per_batch = 0 then Inl Undefined
      else
        (let batch_blocks = take max_blocks_per_batch blocks;
             batch_tensor_size = fold (\<lambda>b t. u64 (t + blk_len b)) batch_blocks 0
         in rbind (copy_handle_data_kernel_direct nd cuda_ok (tensor_buf_ptr + tensor_offset) layer_gpu_ptr
              batch_blocks batch_tensor_size direction False) (\<lambda>acts.
            rbind (kernel_batches nd cuda_ok max_blocks_per_batch tensor_buf_ptr layer_gpu_ptr direction
              (drop max_blocks_per_batch blocks) (u64 (tensor_offset + batch_tensor_size))) (\<lambda>rest.
            Inr (acts @ Sync # rest)))))"
  by pat_completeness auto
termination
  by (relation "measure (\<lambda>(_, _, _, _, _, _, blocks, _). length blocks)") auto

declare explicit_batches.simps [simp del] kernel_batches.simps [simp del]

definition copy_handle_data_with_kernel ::
  "kvt_env \<Rightarrow> copy_profile \<Rightarrow> (stream_cmd \<Rightarrow> bool) \<Rightarrow> nat \<Rightarrow> nat \<Rightarrow> ipc_block list \<Rightarrow> nat \<Rightarrow> copy_direction \<Rightarrow> enqueued result" where
  "copy_handle_data_with_kernel env prof cuda_ok tensor_buf_ptr layer_gpu_ptr blocks tensor_data_size direction =
     (let num_blocks = length blocks
      in if num_blocks = 0 then Inr ([], True)
         else if select_copy_method prof blocks direction = MemcpyLoop then
           enqueue_memcpy_loop (ndebug env) cuda_ok tensor_buf_ptr layer_gpu_ptr tensor_data_size direction blocks 0
         else
           rbind (if \<not> sum_all_same_size (summarize_layout blocks)
                  then enqueue_hybrid_copy env prof cuda_ok tensor_buf_ptr layer_gpu_ptr blocks tensor_data_size direction
                  else Inr (False, [], True)) (\<lambda>(handled, acts, ok).
           if handled \<or> \<not> ok then Inr (acts, ok)
           else if num_blocks \<le> env_kernel_copy_max_block_num env then
             rbind (copy_handle_data_kernel_direct (ndebug env) cuda_ok tensor_buf_ptr layer_gpu_ptr blocks
               tensor_data_size direction False) (\<lambda>acts. Inr (acts, True))
           else
             rbind (kernel_batches (ndebug env) cuda_ok (env_kernel_copy_max_block_num env) tensor_buf_ptr layer_gpu_ptr
               direction blocks 0) (\<lambda>acts. Inr (acts, True))))"

text \<open>The copy that converts: GPU offsets, host offsets and numbers of elements.\<close>

fun fill_fp8_metadata :: "ipc_block list \<Rightarrow> nat \<Rightarrow> nat list \<times> nat list \<times> nat list \<times> nat" where
  "fill_fp8_metadata [] dst_byte_offset = ([], [], [], dst_byte_offset)"
| "fill_fp8_metadata (block # blocks) dst_byte_offset =
     (let num_elements = blk_len block div 2
      in case fill_fp8_metadata blocks (u64 (dst_byte_offset + num_elements)) of
           (ss, ds, ls, final) \<Rightarrow> (dst_offset block # ss, dst_byte_offset # ds, num_elements # ls, final))"

definition fp8_batch :: "(stream_cmd \<Rightarrow> bool) \<Rightarrow> nat \<Rightarrow> nat \<Rightarrow> ipc_block list \<Rightarrow> (host_act list \<times> nat) result" where
  "fp8_batch cuda_ok tensor_buf_ptr layer_gpu_ptr blocks =
     (case fill_fp8_metadata blocks 0 of (ss, ds, ls, final) \<Rightarrow>
        (let n = length blocks; copy_meta = CopyMeta n; launch = LaunchFp8 layer_gpu_ptr tensor_buf_ptr n
         in if cuda_ok copy_meta then Inr ([WriteMeta (ss @ ds @ ls), Enq copy_meta, Enq launch], final) else Inl Aborted))"

function fp8_batches ::
  "(stream_cmd \<Rightarrow> bool) \<Rightarrow> nat \<Rightarrow> nat \<Rightarrow> nat \<Rightarrow> ipc_block list \<Rightarrow> nat \<Rightarrow> host_act list result" where
  "fp8_batches cuda_ok max_blocks_per_batch tensor_buf_ptr layer_gpu_ptr blocks dst_byte_offset_total =
     (if blocks = [] then Inr []
      else if max_blocks_per_batch = 0 then Inl Undefined
      else rbind (fp8_batch cuda_ok (tensor_buf_ptr + dst_byte_offset_total) layer_gpu_ptr
             (take max_blocks_per_batch blocks)) (\<lambda>(acts, batch_dst_offset).
           rbind (fp8_batches cuda_ok max_blocks_per_batch tensor_buf_ptr layer_gpu_ptr (drop max_blocks_per_batch blocks)
             (u64 (dst_byte_offset_total + batch_dst_offset))) (\<lambda>rest.
           Inr (acts @ Sync # rest))))"
  by pat_completeness auto
termination
  by (relation "measure (\<lambda>(_, _, _, _, blocks, _). length blocks)") auto

declare fp8_batches.simps [simp del]

text \<open>\<open>cudaGetLastError\<close> at the end reports a launch that failed.\<close>

definition launches_ok :: "(stream_cmd \<Rightarrow> bool) \<Rightarrow> host_act list \<Rightarrow> bool" where
  "launches_ok cuda_ok acts \<longleftrightarrow> list_all (\<lambda>act. case act of Enq c \<Rightarrow> cuda_ok c | _ \<Rightarrow> True) acts"

definition copy_d2h_bf16_to_fp8 ::
  "kvt_env \<Rightarrow> (stream_cmd \<Rightarrow> bool) \<Rightarrow> nat \<Rightarrow> nat \<Rightarrow> ipc_block list \<Rightarrow> enqueued result" where
  "copy_d2h_bf16_to_fp8 env cuda_ok tensor_buf_ptr layer_gpu_ptr blocks =
     (let num_blocks = length blocks; max_blocks_per_batch = env_kernel_copy_max_block_num env
      in if num_blocks = 0 then Inr ([], True)
         else if num_blocks \<le> max_blocks_per_batch then
           rbind (fp8_batch cuda_ok tensor_buf_ptr layer_gpu_ptr blocks) (\<lambda>(acts, _). Inr (acts, launches_ok cuda_ok acts))
         else rbind (fp8_batches cuda_ok max_blocks_per_batch tensor_buf_ptr layer_gpu_ptr blocks 0) (\<lambda>acts.
           Inr (acts, launches_ok cuda_ok acts)))"

section \<open>What a list of actions copies\<close>

text \<open>The copies of a list of actions in program order, given the metadata buffers.\<close>

fun act_copies :: "host_act list \<Rightarrow> nat list \<times> nat list \<Rightarrow> ipc_block list" where
  "act_copies [] md = []"
| "act_copies (act # acts) md =
     (case act of
        Enq (Memcpy b) \<Rightarrow> [b]
      | Enq (Launch direction host gpu n) \<Rightarrow> launch_args direction host gpu n (snd md)
      | _ \<Rightarrow> []) @ act_copies acts (act_meta act md)"

definition converts :: "host_act list \<Rightarrow> bool" where
  "converts acts \<longleftrightarrow> (\<exists>gpu host n. Enq (LaunchFp8 gpu host n) \<in> set acts)"

definition meta_fits :: "nat \<Rightarrow> host_act list \<Rightarrow> bool" where
  "meta_fits limit acts \<longleftrightarrow>
     (\<forall>act\<in>set acts. case act of
        WriteMeta xs \<Rightarrow> length xs \<le> 3 * limit
      | Enq (CopyMeta n) \<Rightarrow> n \<le> limit
      | Enq (Launch direction host gpu n) \<Rightarrow> n \<le> limit
      | Enq (LaunchFp8 gpu host n) \<Rightarrow> n \<le> limit
      | _ \<Rightarrow> True)"

lemma acts_spec_transfer:
  assumes "\<not> converts acts"
  shows "snd (snd (acts_spec cvt src acts (hm, dm, mem))) = transfer src (act_copies acts (hm, dm)) mem"
  using assms
proof (induction acts arbitrary: hm dm mem)
  case (Cons act acts)
  then have "\<not> converts acts"
    by (auto simp: converts_def)
  note IH = Cons.IH [OF this]
  show ?case
  proof (cases act)
    case (Enq c)
    moreover have "c \<noteq> LaunchFp8 gpu host n" for gpu host n
      using Cons.prems Enq unfolding converts_def by (metis list.set_intros(1))
    ultimately show ?thesis
      using IH by (cases c) (auto simp: transfer_def)
  qed (use IH in simp_all)
qed simp

lemma act_copies_append: "act_copies (as @ bs) md = act_copies as md @ act_copies bs (fold act_meta as md)"
  by (induction as arbitrary: md) simp_all

lemma acts_ok_append: "acts_ok dims (as @ bs) md \<longleftrightarrow> acts_ok dims as md \<and> acts_ok dims bs (fold act_meta as md)"
  by (induction as arbitrary: md) auto

lemma meta_safe_sync: "meta_safe p (as @ Sync # bs) \<longleftrightarrow> meta_safe p as \<and> meta_safe False bs"
  by (induction p as rule: meta_safe.induct) auto

lemma meta_safe_memcpys: "meta_safe p (map (\<lambda>b. Enq (Memcpy b)) bs @ as) = meta_safe p as"
  by (induction bs) auto

text \<open>A list of actions that makes the copies \<open>L\<close>, whatever the metadata buffers hold before.\<close>

definition enqueues :: "launch_dims \<Rightarrow> nat \<Rightarrow> host_act list \<Rightarrow> ipc_block list \<Rightarrow> bool" where
  "enqueues dims limit acts L \<longleftrightarrow>
     \<not> converts acts \<and> meta_fits limit acts \<and> (\<forall>md. act_copies acts md = L \<and> acts_ok dims acts md)"

lemma enqueues_Nil: "enqueues dims limit [] []"
  by (simp add: enqueues_def converts_def meta_fits_def)

lemma converts_append: "converts (as @ bs) \<longleftrightarrow> converts as \<or> converts bs"
  by (auto simp: converts_def)

lemma meta_fits_append: "meta_fits limit (as @ bs) \<longleftrightarrow> meta_fits limit as \<and> meta_fits limit bs"
  by (simp add: meta_fits_def ball_Un)

lemma enqueues_append:
  "enqueues dims limit as L \<Longrightarrow> enqueues dims limit bs M \<Longrightarrow> enqueues dims limit (as @ bs) (L @ M)"
  by (simp add: enqueues_def converts_append meta_fits_append act_copies_append acts_ok_append del: split_paired_All)

lemma enqueues_Sync: "enqueues dims limit bs M \<Longrightarrow> enqueues dims limit (Sync # bs) M"
  by (auto simp: enqueues_def converts_def meta_fits_def)

lemma enqueues_memcpys: "enqueues dims limit (map (\<lambda>b. Enq (Memcpy b)) bs) bs"
proof -
  have "act_copies (map (\<lambda>b. Enq (Memcpy b)) bs) md = bs \<and> acts_ok dims (map (\<lambda>b. Enq (Memcpy b)) bs) md" for md
    by (induction bs arbitrary: md) simp_all
  then show ?thesis
    by (auto simp: enqueues_def converts_def meta_fits_def)
qed

section \<open>Packed copies\<close>

text \<open>
  The copies that the blocks stand for when the host side is contiguous from \<open>off\<close> on.
\<close>

fun packed :: "copy_direction \<Rightarrow> nat \<Rightarrow> nat \<Rightarrow> ipc_block list \<Rightarrow> nat \<Rightarrow> ipc_block list" where
  "packed direction buf gpu [] off = []"
| "packed direction buf gpu (b # bs) off =
     oriented direction (buf + off) (gpu + dst_offset b) (blk_len b) # packed direction buf gpu bs (off + blk_len b)"

text \<open>The same with the host offsets given by the blocks.\<close>

definition placed :: "copy_direction \<Rightarrow> nat \<Rightarrow> nat \<Rightarrow> ipc_block list \<Rightarrow> ipc_block list" where
  "placed direction buf gpu bs = map (\<lambda>b. oriented direction (buf + src_offset b) (gpu + dst_offset b) (blk_len b)) bs"

fun host_offsets :: "ipc_block list \<Rightarrow> nat \<Rightarrow> nat list" where
  "host_offsets [] off = []"
| "host_offsets (b # bs) off = off # host_offsets bs (off + blk_len b)"

lemma length_host_offsets [simp]: "length (host_offsets bs off) = length bs"
  by (induction bs arbitrary: off) simp_all

lemma length_packed [simp]: "length (packed direction buf gpu bs off) = length bs"
  by (induction bs arbitrary: off) simp_all

lemma packed_append:
  "packed direction buf gpu (as @ bs) off = packed direction buf gpu as off @ packed direction buf gpu bs (off + total_len as)"
  by (induction as arbitrary: off) (simp_all add: total_len_def add.assoc)

lemma packed_shift: "packed direction (buf + d) gpu bs off = packed direction buf gpu bs (d + off)"
  by (induction bs arbitrary: off) (simp_all add: add.assoc)

lemma packed_nth:
  "i < length bs \<Longrightarrow> packed direction buf gpu bs off ! i =
     oriented direction (buf + host_offsets bs off ! i) (gpu + dst_offset (bs ! i)) (blk_len (bs ! i))"
  by (induction bs arbitrary: off i) (auto simp: nth_Cons split: nat.splits)

lemma dst_disjoint_sorted:
  "dst_disjoint bs = sorted_wrt (\<lambda>b c. dst_offset b + blk_len b \<le> dst_offset c \<or> dst_offset c + blk_len c \<le> dst_offset b) bs"
  by (induction bs) (auto simp: list_all_iff)

lemma packed_d2h_from: "b \<in> set (packed D2H buf gpu bs off) \<Longrightarrow> buf + off \<le> dst_offset b"
  by (induction bs arbitrary: off) (fastforce simp: oriented_def)+

lemma packed_d2h_disjoint: "dst_disjoint (packed D2H buf gpu bs off)"
  by (induction bs arbitrary: off) (fastforce simp: oriented_def list_all_iff dest: packed_d2h_from)+

section \<open>The functions enqueue the packed copies\<close>

definition lens_pos :: "ipc_block list \<Rightarrow> bool" where
  "lens_pos bs \<longleftrightarrow> (\<forall>b\<in>set bs. 0 < blk_len b)"

lemma lens_pos_simps [simp]:
  "lens_pos []" "lens_pos (b # bs) \<longleftrightarrow> 0 < blk_len b \<and> lens_pos bs"
  by (auto simp: lens_pos_def)

lemma total_len_simps [simp]: "total_len [] = 0" "total_len (b # bs) = blk_len b + total_len bs"
  by (simp_all add: total_len_def)

lemma memcpy_loop_enqueues:
  assumes "lens_pos bs" and "off + total_len bs = sz" and "sz < 2 ^ 64" and "\<forall>c. cuda_ok c"
  shows "enqueue_memcpy_loop nd cuda_ok buf gpu sz direction bs off =
    Inr (map (\<lambda>b. Enq (Memcpy b)) (packed direction buf gpu bs off), True)"
  using assms(1,2)
proof (induction bs arbitrary: off)
  case (Cons b bs)
  then have "u64 (off + blk_len b) = off + blk_len b"
    using assms(3) by (intro u64_id) simp
  then show ?case
    using Cons assms(4) by simp
qed simp

lemma fill_metadata_packed:
  assumes "lens_pos bs" and "off + total_len bs \<le> sz" and "sz < 2 ^ 64"
  shows "fill_metadata nd False sz bs off =
    Inr (host_offsets bs off, map dst_offset bs, map blk_len bs, off + total_len bs)"
  using assms(1,2)
proof (induction bs arbitrary: off)
  case (Cons b bs)
  then have "u64 (off + blk_len b) = off + blk_len b"
    using assms(3) by (intro u64_id) simp
  then show ?case
    using Cons by (simp add: add.assoc)
qed simp

lemma fill_metadata_placed:
  assumes "lens_pos bs" and "off + total_len bs \<le> sz" and "sz < 2 ^ 64"
    and "\<forall>b\<in>set bs. src_offset b + blk_len b \<le> sz"
  shows "fill_metadata nd True sz bs off =
    Inr (map src_offset bs, map dst_offset bs, map blk_len bs, off + total_len bs)"
  using assms(1,2,4)
proof (induction bs arbitrary: off)
  case (Cons b bs)
  then have "u64 (off + blk_len b) = off + blk_len b" "u64 (src_offset b + blk_len b) = src_offset b + blk_len b"
    using assms(3) by (auto intro!: u64_id)
  then show ?case
    using Cons by (simp add: add.assoc)
qed simp

text \<open>One launch with its metadata.\<close>

definition launch_acts :: "copy_direction \<Rightarrow> nat \<Rightarrow> nat \<Rightarrow> nat list \<Rightarrow> nat list \<Rightarrow> nat list \<Rightarrow> host_act list" where
  "launch_acts direction buf gpu hs ds ls =
     [WriteMeta (hs @ ds @ ls), Enq (CopyMeta (length ls)), Enq (Launch direction buf gpu (length ls))]"

lemma meta_parts:
  assumes "length hs = n" and "length ds = n" and "length ls = n"
  shows "meta_part 0 n (hs @ ds @ ls @ rest) = hs" "meta_part 1 n (hs @ ds @ ls @ rest) = ds"
    "meta_part 2 n (hs @ ds @ ls @ rest) = ls"
  using assms by (simp_all add: meta_part_def)

lemma meta_after_copy:
  assumes "length xs = 3 * n"
  shows "overwrite (take (3 * n) (overwrite xs hm)) dm = xs @ drop (3 * n) dm"
  using assms by (simp add: overwrite_def)

lemma launch_args_eq:
  assumes "length hs = n" and "length ds = n" and "length ls = n"
  shows "launch_args direction buf gpu n (overwrite (take (3 * n) (overwrite (hs @ ds @ ls) hm)) dm) =
    map (\<lambda>i. oriented direction (buf + hs ! i) (gpu + ds ! i) (ls ! i)) [0..<n]"
  using assms meta_after_copy [of "hs @ ds @ ls" n hm dm] meta_parts [OF assms]
  by (cases direction) (simp_all add: launch_args_def launch_blocks_def oriented_def)

lemma launch_acts_enqueues:
  fixes hs ds ls direction buf gpu
  defines "L \<equiv> map (\<lambda>i. oriented direction (buf + hs ! i) (gpu + ds ! i) (ls ! i)) [0..<length ls]"
  assumes "length hs = length ls" and "length ds = length ls" and "length ls \<le> limit"
    and "launchable dims (length ls)" and "dst_disjoint L"
  shows "enqueues dims limit (launch_acts direction buf gpu hs ds ls) L"
proof -
  have "act_copies (launch_acts direction buf gpu hs ds ls) (hm, dm) = L \<and>
      acts_ok dims (launch_acts direction buf gpu hs ds ls) (hm, dm)" for hm dm
    using assms launch_args_eq [of hs "length ls" ds ls direction buf gpu hm dm] by (simp add: launch_acts_def)
  moreover have "\<not> converts (launch_acts direction buf gpu hs ds ls)" "meta_fits limit (launch_acts direction buf gpu hs ds ls)"
    using assms(2-4) by (auto simp: converts_def meta_fits_def launch_acts_def)
  ultimately show ?thesis
    unfolding enqueues_def by (simp only: split_paired_All) blast
qed

lemma meta_safe_launch_acts: "meta_safe False (launch_acts direction buf gpu hs ds ls)"
  by (simp add: launch_acts_def)

lemma map_packed:
  "map (\<lambda>i. oriented direction (buf + host_offsets bs off ! i) (gpu + map dst_offset bs ! i) (map blk_len bs ! i))
     [0..<length bs] = packed direction buf gpu bs off"
  by (rule nth_equalityI) (simp_all add: packed_nth)

lemma map_placed:
  "map (\<lambda>i. oriented direction (buf + map src_offset bs ! i) (gpu + map dst_offset bs ! i) (map blk_len bs ! i))
     [0..<length bs] = placed direction buf gpu bs"
  by (rule nth_equalityI) (simp_all add: placed_def)

lemma direct_packed:
  assumes "lens_pos bs" and "total_len bs < 2 ^ 64" and "\<forall>c. cuda_ok c" and "length bs \<le> limit"
    and "launchable dims (length bs)" and "dst_disjoint (packed direction buf gpu bs 0)"
  shows "\<exists>acts. copy_handle_data_kernel_direct nd cuda_ok buf gpu bs (total_len bs) direction False = Inr acts \<and>
    enqueues dims limit acts (packed direction buf gpu bs 0) \<and> meta_safe False acts"
proof (cases "bs = []")
  case False
  then have "copy_handle_data_kernel_direct nd cuda_ok buf gpu bs (total_len bs) direction False =
      Inr (launch_acts direction buf gpu (host_offsets bs 0) (map dst_offset bs) (map blk_len bs))"
    using fill_metadata_packed [of bs 0 "total_len bs" nd] assms(1-3)
    by (simp add: copy_handle_data_kernel_direct_def launch_acts_def Let_def)
  moreover have "enqueues dims limit (launch_acts direction buf gpu (host_offsets bs 0) (map dst_offset bs) (map blk_len bs))
      (packed direction buf gpu bs 0)"
    using launch_acts_enqueues [of "host_offsets bs 0" "map blk_len bs" "map dst_offset bs" limit dims direction buf gpu]
      map_packed [of direction buf bs 0 gpu] assms(4-6) by simp
  ultimately show ?thesis
    by (simp add: meta_safe_launch_acts)
qed (simp add: copy_handle_data_kernel_direct_def enqueues_Nil)

lemma direct_placed:
  assumes "lens_pos bs" and "total_len bs \<le> sz" and "sz < 2 ^ 64"
    and "\<forall>b\<in>set bs. src_offset b + blk_len b \<le> sz" and "\<forall>c. cuda_ok c" and "length bs \<le> limit"
    and "launchable dims (length bs)" and "dst_disjoint (placed direction buf gpu bs)"
  shows "\<exists>acts. copy_handle_data_kernel_direct nd cuda_ok buf gpu bs sz direction True = Inr acts \<and>
    enqueues dims limit acts (placed direction buf gpu bs) \<and> meta_safe False acts"
proof (cases "bs = []")
  case False
  then have "copy_handle_data_kernel_direct nd cuda_ok buf gpu bs sz direction True =
      Inr (launch_acts direction buf gpu (map src_offset bs) (map dst_offset bs) (map blk_len bs))"
    using fill_metadata_placed [of bs 0 sz nd] assms(1-5)
    by (simp add: copy_handle_data_kernel_direct_def launch_acts_def Let_def)
  moreover have "enqueues dims limit (launch_acts direction buf gpu (map src_offset bs) (map dst_offset bs) (map blk_len bs))
      (placed direction buf gpu bs)"
    using launch_acts_enqueues [of "map src_offset bs" "map blk_len bs" "map dst_offset bs" limit dims direction buf gpu]
      map_placed [of direction buf bs gpu] assms(6-8) by simp
  ultimately show ?thesis
    by (simp add: meta_safe_launch_acts)
qed (simp add: copy_handle_data_kernel_direct_def enqueues_Nil placed_def)

text \<open>A geometry with full warps can be used for any number of blocks.\<close>

definition full_warps :: "launch_dims \<Rightarrow> bool" where
  "full_warps dims \<longleftrightarrow> 0 < grid_dim dims \<and> 32 \<le> block_dim dims"

lemma full_warps_launchable: "full_warps dims \<Longrightarrow> launchable dims n"
  by (auto simp: full_warps_def launchable_def)

lemma fold_total_len: "t + total_len bs < 2 ^ 64 \<Longrightarrow> fold (\<lambda>b t. u64 (t + blk_len b)) bs t = t + total_len bs"
proof (induction bs arbitrary: t)
  case (Cons b bs)
  then have "u64 (t + blk_len b) = t + blk_len b"
    by (intro u64_id) simp
  then show ?case
    using Cons by (simp add: add.assoc)
qed simp

lemma take_drop_len: "total_len (take m bs) + total_len (drop m bs) = total_len bs"
  by (induction bs arbitrary: m) (auto simp: take_Cons drop_Cons split: nat.splits)

lemma lens_pos_parts: "lens_pos bs \<Longrightarrow> lens_pos (take m bs) \<and> lens_pos (drop m bs)"
  by (auto simp: lens_pos_def dest: in_set_takeD in_set_dropD)

lemma dst_disjoint_append: "dst_disjoint (as @ bs) \<Longrightarrow> dst_disjoint as \<and> dst_disjoint bs"
  by (simp add: dst_disjoint_sorted sorted_wrt_append)

lemma dst_disjoint_filter: "dst_disjoint bs \<Longrightarrow> dst_disjoint (filter P bs)"
  by (simp add: dst_disjoint_sorted sorted_wrt_filter)

lemma batch_join:
  assumes "enqueues dims limit as L" and "meta_safe False as" and "enqueues dims limit bs M" and "meta_safe False bs"
  shows "enqueues dims limit (as @ Sync # bs) (L @ M) \<and> meta_safe False (as @ Sync # bs)"
  using assms by (simp add: enqueues_append enqueues_Sync meta_safe_sync)

lemma kernel_batches_packed:
  assumes "\<forall>c. cuda_ok c" and "0 < m" and "full_warps dims"
    and "lens_pos bs" and "off + total_len bs < 2 ^ 64" and "dst_disjoint (packed direction buf gpu bs off)"
  shows "\<exists>acts. kernel_batches nd cuda_ok m buf gpu direction bs off = Inr acts \<and>
    enqueues dims m acts (packed direction buf gpu bs off) \<and> meta_safe False acts"
  using assms(4-6)
proof (induction "length bs" arbitrary: bs off rule: less_induct)
  case less
  show ?case
  proof (cases "bs = []")
    case True
    then show ?thesis
      by (simp add: kernel_batches.simps enqueues_Nil)
  next
    case False
    let ?a = "take m bs" and ?b = "drop m bs"
    have len: "total_len ?a + total_len ?b = total_len bs"
      by (rule take_drop_len)
    have split: "packed direction buf gpu bs off =
        packed direction buf gpu ?a off @ packed direction buf gpu ?b (off + total_len ?a)"
      using packed_append [of direction buf gpu ?a ?b off] by simp
    have dd: "dst_disjoint (packed direction (buf + off) gpu ?a 0)" "dst_disjoint (packed direction buf gpu ?b (off + total_len ?a))"
      using dst_disjoint_append [OF less.prems(3) [unfolded split]] by (simp_all add: packed_shift)
    have pos: "lens_pos ?a" "lens_pos ?b"
      using lens_pos_parts [OF less.prems(1)] by blast+
    obtain as where as: "copy_handle_data_kernel_direct nd cuda_ok (buf + off) gpu ?a (total_len ?a) direction False = Inr as"
      "enqueues dims m as (packed direction (buf + off) gpu ?a 0)" "meta_safe False as"
      using direct_packed [OF pos(1) _ assms(1) _ full_warps_launchable [OF assms(3)] dd(1), of m nd]
        less.prems(2) len by auto
    obtain bs' where bs': "kernel_batches nd cuda_ok m buf gpu direction ?b (off + total_len ?a) = Inr bs'"
      "enqueues dims m bs' (packed direction buf gpu ?b (off + total_len ?a))" "meta_safe False bs'"
      using less.hyps [of ?b "off + total_len ?a"] pos(2) dd(2) less.prems(2) len False assms(2) by auto
    have "fold (\<lambda>b t. u64 (t + blk_len b)) ?a 0 = total_len ?a" "u64 (off + total_len ?a) = off + total_len ?a"
      using fold_total_len [of 0 ?a] less.prems(2) len by (auto intro!: u64_id)
    then have "kernel_batches nd cuda_ok m buf gpu direction bs off = Inr (as @ Sync # bs')"
      using False assms(2) as(1) bs'(1) by (subst kernel_batches.simps) (simp add: Let_def)
    then show ?thesis
      using batch_join [OF as(2,3) bs'(2,3)] by (simp add: split packed_shift)
  qed
qed

lemma explicit_batches_placed:
  assumes "\<forall>c. cuda_ok c" and "0 < m" and "full_warps dims" and "sz < 2 ^ 64"
    and "lens_pos bs" and "total_len bs \<le> sz" and "\<forall>b\<in>set bs. src_offset b + blk_len b \<le> sz"
    and "dst_disjoint (placed direction buf gpu bs)"
  shows "\<exists>acts. explicit_batches nd cuda_ok m buf gpu sz direction bs = Inr acts \<and>
    enqueues dims m acts (placed direction buf gpu bs) \<and> meta_safe False acts"
  using assms(5-8)
proof (induction "length bs" arbitrary: bs rule: less_induct)
  case less
  show ?case
  proof (cases "bs = []")
    case True
    then show ?thesis
      by (simp add: explicit_batches.simps enqueues_Nil placed_def)
  next
    case False
    let ?a = "take m bs" and ?b = "drop m bs"
    have len: "total_len ?a + total_len ?b = total_len bs"
      by (rule take_drop_len)
    have split: "placed direction buf gpu bs = placed direction buf gpu ?a @ placed direction buf gpu ?b"
      unfolding placed_def map_append [symmetric] append_take_drop_id ..
    have dd: "dst_disjoint (placed direction buf gpu ?a)" "dst_disjoint (placed direction buf gpu ?b)"
      using dst_disjoint_append [OF less.prems(4) [unfolded split]] by simp_all
    have pos: "lens_pos ?a" "lens_pos ?b"
      using lens_pos_parts [OF less.prems(1)] by blast+
    have src: "\<forall>b\<in>set ?a. src_offset b + blk_len b \<le> sz" "\<forall>b\<in>set ?b. src_offset b + blk_len b \<le> sz"
      using less.prems(3) by (auto dest: in_set_takeD in_set_dropD)
    obtain as where as: "copy_handle_data_kernel_direct nd cuda_ok buf gpu ?a sz direction True = Inr as"
      "enqueues dims m as (placed direction buf gpu ?a)" "meta_safe False as"
      using direct_placed [OF pos(1) _ assms(4) src(1) assms(1) _ full_warps_launchable [OF assms(3)] dd(1), of m nd]
        less.prems(2) len by auto
    obtain bs' where bs': "explicit_batches nd cuda_ok m buf gpu sz direction ?b = Inr bs'"
      "enqueues dims m bs' (placed direction buf gpu ?b)" "meta_safe False bs'"
      using less.hyps [of ?b] pos(2) dd(2) src(2) less.prems(2) len False assms(2) by auto
    have "explicit_batches nd cuda_ok m buf gpu sz direction bs = Inr (as @ Sync # bs')"
      using False assms(2) as(1) bs'(1) by (subst explicit_batches.simps) simp
    then show ?thesis
      using batch_join [OF as(2,3) bs'(2,3)] by (simp add: split)
  qed
qed

text \<open>The hybrid copy splits the packed copies by the method of their length.\<close>

lemma blk_len_oriented [simp]: "blk_len (oriented direction h g l) = l"
  by (simp add: oriented_def split: copy_direction.split)

lemma hybrid_loop_split:
  fixes prof direction
  defines "big \<equiv> \<lambda>b. select_single_block_method prof (blk_len b) direction = MemcpyLoop"
  assumes "off + total_len bs < 2 ^ 64" and "\<forall>c. cuda_ok c"
  shows "\<exists>K. hybrid_loop prof cuda_ok buf gpu direction bs off =
      (map (\<lambda>b. Enq (Memcpy b)) (filter big (packed direction buf gpu bs off)), K,
        length (filter big (packed direction buf gpu bs off)), True) \<and>
    placed direction buf gpu K = filter (\<lambda>b. \<not> big b) (packed direction buf gpu bs off) \<and>
    total_len K \<le> total_len bs \<and> (lens_pos bs \<longrightarrow> lens_pos K) \<and>
    (\<forall>b\<in>set K. src_offset b + blk_len b \<le> off + total_len bs)"
  using assms(2)
proof (induction bs arbitrary: off)
  case (Cons b bs)
  then have "u64 (off + blk_len b) = off + blk_len b"
    by (intro u64_id) simp
  moreover from Cons.prems Cons.IH [of "off + blk_len b"] obtain K where "hybrid_loop prof cuda_ok buf gpu direction bs (off + blk_len b) =
      (map (\<lambda>b. Enq (Memcpy b)) (filter big (packed direction buf gpu bs (off + blk_len b))), K,
        length (filter big (packed direction buf gpu bs (off + blk_len b))), True)"
    "placed direction buf gpu K = filter (\<lambda>b. \<not> big b) (packed direction buf gpu bs (off + blk_len b))"
    "total_len K \<le> total_len bs" "lens_pos bs \<longrightarrow> lens_pos K"
    "\<forall>c\<in>set K. src_offset c + blk_len c \<le> off + (blk_len b + total_len bs)"
    by (auto simp: add.assoc)
  moreover have "cuda_ok (Memcpy (oriented direction (buf + off) (gpu + dst_offset b) (blk_len b)))"
    using assms(3) by blast
  ultimately show ?case
    by (intro exI [of _ "if select_single_block_method prof (blk_len b) direction = MemcpyLoop then K
      else IpcBlock off (dst_offset b) (blk_len b) # K"]) (simp add: big_def placed_def)
qed (simp add: placed_def)

lemma env_kernel_copy_max_block_num_pos: "0 < env_kernel_copy_max_block_num env"
  by (auto simp: env_kernel_copy_max_block_num_def env2posint_def Let_def split: option.split)

lemma hybrid_enqueues:
  assumes "lens_pos bs" and "total_len bs < 2 ^ 64" and "\<forall>c. cuda_ok c" and "full_warps dims"
    and "dst_disjoint (packed direction buf gpu bs 0)"
  shows "enqueue_hybrid_copy env prof cuda_ok buf gpu bs (total_len bs) direction = Inr (False, [], True) \<or>
    (\<exists>acts L. enqueue_hybrid_copy env prof cuda_ok buf gpu bs (total_len bs) direction = Inr (True, acts, True) \<and>
      enqueues dims (env_kernel_copy_max_block_num env) acts L \<and> meta_safe False acts \<and>
      set L = set (packed direction buf gpu bs 0))"
proof -
  define big where "big = (\<lambda>b :: ipc_block. select_single_block_method prof (blk_len b) direction = MemcpyLoop)"
  let ?P = "packed direction buf gpu bs 0" and ?m = "env_kernel_copy_max_block_num env"
  let ?as = "map (\<lambda>b. Enq (Memcpy b)) (filter big ?P)"
  obtain K where loop: "hybrid_loop prof cuda_ok buf gpu direction bs 0 = (?as, K, length (filter big ?P), True)"
    and K: "placed direction buf gpu K = filter (\<lambda>b. \<not> big b) ?P" "total_len K \<le> total_len bs" "lens_pos K"
      "\<forall>b\<in>set K. src_offset b + blk_len b \<le> total_len bs"
    using hybrid_loop_split [of 0 bs cuda_ok prof buf gpu direction] assms(1-3) by (auto simp: big_def)
  have "dst_disjoint (placed direction buf gpu K)"
    unfolding K(1) by (rule dst_disjoint_filter [OF assms(5)])
  then obtain ks where ks: "explicit_batches (ndebug env) cuda_ok ?m buf gpu (total_len bs) direction K = Inr ks"
    "enqueues dims ?m ks (placed direction buf gpu K)" "meta_safe False ks"
    using explicit_batches_placed [OF assms(3) env_kernel_copy_max_block_num_pos assms(4) assms(2) K(3,2,4)] by blast
  have all: "enqueues dims ?m (?as @ ks) (filter big ?P @ placed direction buf gpu K)" "meta_safe False (?as @ ks)"
    using enqueues_append [OF enqueues_memcpys ks(2)] ks(3) by (simp_all add: meta_safe_memcpys)
  have set: "set (filter big ?P @ placed direction buf gpu K) = set ?P"
    by (auto simp: K(1))
  show ?thesis
  proof (cases "filter big ?P = []")
    case True
    then show ?thesis
      by (simp add: enqueue_hybrid_copy_def loop)
  next
    case False
    have "K = [] \<Longrightarrow> ks = []"
      using ks(1) by (simp add: explicit_batches.simps)
    with False have "enqueue_hybrid_copy env prof cuda_ok buf gpu bs (total_len bs) direction = Inr (True, ?as @ ks, True)"
      by (auto simp: enqueue_hybrid_copy_def loop enqueue_kernel_explicit_offsets_def ks(1))
    with all set show ?thesis
      by blast
  qed
qed

lemma with_kernel_enqueues:
  assumes "lens_pos bs" and "total_len bs < 2 ^ 64" and "\<forall>c. cuda_ok c" and "full_warps dims"
    and "dst_disjoint (packed direction buf gpu bs 0)"
  shows "\<exists>acts L. copy_handle_data_with_kernel env prof cuda_ok buf gpu bs (total_len bs) direction = Inr (acts, True) \<and>
      enqueues dims (env_kernel_copy_max_block_num env) acts L \<and> meta_safe False acts \<and>
      set L = set (packed direction buf gpu bs 0)"
proof -
  let ?P = "packed direction buf gpu bs 0" and ?m = "env_kernel_copy_max_block_num env"
  have memcpys: "enqueue_memcpy_loop (ndebug env) cuda_ok buf gpu (total_len bs) direction bs 0 =
      Inr (map (\<lambda>b. Enq (Memcpy b)) ?P, True)"
    using memcpy_loop_enqueues [OF assms(1) _ assms(2,3)] by simp
  obtain ds where ds: "length bs \<le> ?m \<Longrightarrow>
      copy_handle_data_kernel_direct (ndebug env) cuda_ok buf gpu bs (total_len bs) direction False = Inr ds"
      "length bs \<le> ?m \<Longrightarrow> enqueues dims ?m ds ?P \<and> meta_safe False ds"
    using direct_packed [OF assms(1-3) _ full_warps_launchable [OF assms(4)] assms(5)] by blast
  obtain ks where ks: "kernel_batches (ndebug env) cuda_ok ?m buf gpu direction bs 0 = Inr ks"
      "enqueues dims ?m ks ?P \<and> meta_safe False ks"
    using kernel_batches_packed [OF assms(3) env_kernel_copy_max_block_num_pos assms(4,1) _ assms(5)] assms(2) by auto
  note hybrid = hybrid_enqueues [OF assms, of env prof]
  show ?thesis
  proof (cases "bs = []")
    case True
    then show ?thesis
      by (simp add: copy_handle_data_with_kernel_def enqueues_Nil)
  next
    case False
    show ?thesis
    proof (cases "select_copy_method prof bs direction = MemcpyLoop")
      case True
      then show ?thesis
        using False memcpys enqueues_memcpys meta_safe_memcpys [of False _ "[]"]
        by (simp add: copy_handle_data_with_kernel_def Let_def) blast
    next
      case not_loop: False
      show ?thesis
        using False not_loop ds ks hybrid
        by (cases "length bs \<le> ?m"; cases "sum_all_same_size (summarize_layout bs)")
          (auto simp: copy_handle_data_with_kernel_def Let_def)
    qed
  qed
qed

section \<open>Effects\<close>

text \<open>
  A list of actions that changes the memory by \<open>f\<close>, whatever the metadata buffers hold before and
  however the host and the stream interleave.
\<close>

definition effects ::
  "(nat \<Rightarrow> nat) \<Rightarrow> (nat \<Rightarrow> nat) \<Rightarrow> launch_dims \<Rightarrow> host_act list \<Rightarrow> ((nat \<Rightarrow> nat) \<Rightarrow> nat \<Rightarrow> nat) \<Rightarrow> bool" where
  "effects cvt src dims acts f \<longleftrightarrow> meta_safe False acts \<and>
     (\<forall>hm dm mem. snd (snd (acts_spec cvt src acts (hm, dm, mem))) = f mem \<and> acts_ok dims acts (hm, dm))"

lemma effects_Nil: "effects cvt src dims [] (\<lambda>m. m)"
  by (simp add: effects_def)

lemma effects_Sync:
  assumes "effects cvt src dims as f" and "effects cvt src dims bs g"
  shows "effects cvt src dims (as @ Sync # bs) (\<lambda>m. g (f m))"
proof -
  have "snd (snd (acts_spec cvt src bs s)) = g (snd (snd s))" "acts_ok dims bs md" for s md
    using assms(2) by (cases s; cases md; simp add: effects_def)+
  then show ?thesis
    using assms by (simp add: effects_def acts_ok_append meta_safe_sync)
qed

lemma effects_runs:
  assumes "effects cvt src dims acts f"
  shows "(\<exists>s. async_runs cvt dims src (acts, [], (hm, dm, mem)) ([], [], s)) \<and>
    (\<forall>hm' dm' mem'. async_runs cvt dims src (acts, [], (hm, dm, mem)) ([], [], (hm', dm', mem')) \<longrightarrow> mem' = f mem)"
proof -
  have "meta_safe False acts" "acts_ok dims acts (hm, dm)" "snd (snd (acts_spec cvt src acts (hm, dm, mem))) = f mem"
    using assms by (simp_all add: effects_def)
  then show ?thesis
    using async_effect [of acts dims hm dm cvt src mem] by (metis snd_conv)
qed

lemma enqueues_effects:
  assumes "enqueues dims limit acts L" and "meta_safe False acts" and "set L = set M" and "dst_disjoint M"
  shows "effects cvt src dims acts (transfer src M)"
proof -
  have "transfer src L mem = transfer src M mem" for mem
    using copied_cong_set [OF assms(3)] dst_disjoint_one_source [OF assms(4)] by (intro transfer_cong) simp_all
  then show ?thesis
    using assms(1,2) acts_spec_transfer [of acts cvt src] by (simp add: effects_def enqueues_def)
qed

lemma with_kernel_effects:
  assumes "lens_pos bs" and "total_len bs < 2 ^ 64" and "\<forall>c. cuda_ok c" and "full_warps dims"
    and "dst_disjoint (packed direction buf gpu bs 0)"
  shows "\<exists>acts. copy_handle_data_with_kernel env prof cuda_ok buf gpu bs (total_len bs) direction = Inr (acts, True) \<and>
    effects cvt src dims acts (transfer src (packed direction buf gpu bs 0))"
  using with_kernel_enqueues [OF assms, of env prof] enqueues_effects [OF _ _ _ assms(5)] by blast

section \<open>The metadata buffers\<close>

text \<open>
  Whatever the blocks and whatever CUDA answers: what is enqueued keeps to the buffers and does not
  fill them again before the stream has read them.
\<close>

definition meta_kept :: "nat \<Rightarrow> host_act list \<Rightarrow> bool" where
  "meta_kept limit acts \<longleftrightarrow> meta_fits limit acts \<and> meta_safe False acts"

lemma meta_kept_Nil: "meta_kept limit []"
  by (simp add: meta_kept_def meta_fits_def)

lemma meta_kept_Sync: "meta_kept limit as \<Longrightarrow> meta_kept limit bs \<Longrightarrow> meta_kept limit (as @ Sync # bs)"
  by (simp add: meta_kept_def meta_fits_append meta_safe_sync) (simp add: meta_fits_def)

lemma meta_kept_memcpy: "meta_kept limit as \<Longrightarrow> meta_kept limit (Enq (Memcpy b) # as)"
  by (simp add: meta_kept_def meta_fits_def)

lemma fill_metadata_lengths:
  "fill_metadata nd e sz bs off = Inr (hs, ds, ls, final) \<Longrightarrow>
     length hs = length bs \<and> length ds = length bs \<and> length ls = length bs"
  by (induction bs arbitrary: off hs ds ls)
    (auto simp: Let_def c_assert_def rbind_eq_Inr_iff split: if_splits prod.splits)

lemma direct_kept:
  assumes "copy_handle_data_kernel_direct nd cuda_ok buf gpu bs sz direction e = Inr acts" and "length bs \<le> limit"
  shows "meta_kept limit acts"
proof (cases "bs = []")
  case True
  with assms(1) show ?thesis
    by (simp add: copy_handle_data_kernel_direct_def meta_kept_Nil)
next
  case False
  with assms(1) obtain hs ds ls final where meta: "fill_metadata nd e sz bs 0 = Inr (hs, ds, ls, final)"
    and acts: "acts = [WriteMeta (hs @ ds @ ls), Enq (CopyMeta (length bs)), Enq (Launch direction buf gpu (length bs))]"
    by (auto simp: copy_handle_data_kernel_direct_def Let_def rbind_eq_Inr_iff split: if_splits)
  show ?thesis
    using fill_metadata_lengths [OF meta] assms(2) by (simp add: acts meta_kept_def meta_fits_def)
qed

lemma memcpy_loop_kept: "enqueue_memcpy_loop nd cuda_ok buf gpu sz direction bs off = Inr (acts, ok) \<Longrightarrow> meta_kept limit acts"
  by (induction bs arbitrary: off acts)
    (auto simp: c_assert_def Let_def rbind_eq_Inr_iff meta_kept_Nil intro: meta_kept_memcpy split: if_splits)

lemma hybrid_loop_kept:
  "hybrid_loop prof cuda_ok buf gpu direction bs off = (as, K, n, ok) \<Longrightarrow>
     meta_kept limit cs \<Longrightarrow> meta_kept limit as \<and> meta_kept limit (as @ cs)"
  by (induction bs arbitrary: off as K n)
    (auto simp: Let_def meta_kept_Nil intro!: meta_kept_memcpy split: if_splits prod.splits)

lemma explicit_batches_kept:
  "explicit_batches nd cuda_ok m buf gpu sz direction bs = Inr acts \<Longrightarrow> meta_kept m acts"
proof (induction "length bs" arbitrary: bs acts rule: less_induct)
  case less
  show ?case
  proof (cases "bs = []")
    case False
    with less.prems obtain as cs where "0 < m" and acts: "acts = as @ Sync # cs"
      and as: "copy_handle_data_kernel_direct nd cuda_ok buf gpu (take m bs) sz direction True = Inr as"
      and cs: "explicit_batches nd cuda_ok m buf gpu sz direction (drop m bs) = Inr cs"
      by (subst (asm) explicit_batches.simps) (auto simp: rbind_eq_Inr_iff split: if_splits)
    with False show ?thesis
      using direct_kept [OF as] less.hyps [OF _ cs] by (auto intro: meta_kept_Sync)
  qed (use less.prems in \<open>simp add: explicit_batches.simps meta_kept_Nil\<close>)
qed

lemma kernel_batches_kept:
  "kernel_batches nd cuda_ok m buf gpu direction bs off = Inr acts \<Longrightarrow> meta_kept m acts"
proof (induction "length bs" arbitrary: bs off acts rule: less_induct)
  case less
  show ?case
  proof (cases "bs = []")
    case False
    with less.prems obtain as cs off' sz' where "0 < m" and acts: "acts = as @ Sync # cs"
      and as: "copy_handle_data_kernel_direct nd cuda_ok (buf + off) gpu (take m bs) sz' direction False = Inr as"
      and cs: "kernel_batches nd cuda_ok m buf gpu direction (drop m bs) off' = Inr cs"
      by (subst (asm) kernel_batches.simps) (auto simp: rbind_eq_Inr_iff Let_def split: if_splits)
    with False show ?thesis
      using direct_kept [OF as] less.hyps [OF _ cs] by (auto intro: meta_kept_Sync)
  qed (use less.prems in \<open>simp add: kernel_batches.simps meta_kept_Nil\<close>)
qed

lemma hybrid_kept:
  assumes "enqueue_hybrid_copy env prof cuda_ok buf gpu bs sz direction = Inr (handled, acts, ok)"
  shows "meta_kept (env_kernel_copy_max_block_num env) acts"
proof -
  obtain as K n fin where loop: "hybrid_loop prof cuda_ok buf gpu direction bs 0 = (as, K, n, fin)"
    by (metis prod_cases4)
  note kept = hybrid_loop_kept [OF loop]
  show ?thesis
    using assms kept meta_kept_Nil explicit_batches_kept
    by (auto simp: enqueue_hybrid_copy_def loop enqueue_kernel_explicit_offsets_def rbind_eq_Inr_iff split: if_splits)
qed

lemma with_kernel_kept:
  assumes "copy_handle_data_with_kernel env prof cuda_ok buf gpu bs sz direction = Inr (acts, ok)"
  shows "meta_kept (env_kernel_copy_max_block_num env) acts"
  using assms meta_kept_Nil memcpy_loop_kept hybrid_kept direct_kept kernel_batches_kept
  by (auto simp: copy_handle_data_with_kernel_def Let_def rbind_eq_Inr_iff split: if_splits prod.splits)

lemma fill_fp8_lengths:
  "fill_fp8_metadata bs off = (ss, ds, ls, final) \<Longrightarrow> length ss = length bs \<and> length ds = length bs \<and> length ls = length bs"
  by (induction bs arbitrary: off ss ds ls) (auto simp: Let_def split: prod.splits)

lemma fp8_batch_kept:
  assumes "fp8_batch cuda_ok buf gpu bs = Inr (acts, n)" and "length bs \<le> limit"
  shows "meta_kept limit acts"
proof -
  obtain ss ds ls final where meta: "fill_fp8_metadata bs 0 = (ss, ds, ls, final)"
    by (metis prod_cases4)
  show ?thesis
    using assms fill_fp8_lengths [OF meta]
    by (auto simp: fp8_batch_def meta Let_def meta_kept_def meta_fits_def split: if_splits)
qed

lemma fp8_batches_kept: "fp8_batches cuda_ok m buf gpu bs off = Inr acts \<Longrightarrow> meta_kept m acts"
proof (induction "length bs" arbitrary: bs off acts rule: less_induct)
  case less
  show ?case
  proof (cases "bs = []")
    case False
    with less.prems obtain as cs off' n where "0 < m" and acts: "acts = as @ Sync # cs"
      and as: "fp8_batch cuda_ok (buf + off) gpu (take m bs) = Inr (as, n)"
      and cs: "fp8_batches cuda_ok m buf gpu (drop m bs) off' = Inr cs"
      by (subst (asm) fp8_batches.simps) (auto simp: rbind_eq_Inr_iff split: if_splits)
    with False show ?thesis
      using fp8_batch_kept [OF as] less.hyps [OF _ cs] by (auto intro: meta_kept_Sync)
  qed (use less.prems in \<open>simp add: fp8_batches.simps meta_kept_Nil\<close>)
qed

lemma fp8_kept:
  assumes "copy_d2h_bf16_to_fp8 env cuda_ok buf gpu bs = Inr (acts, ok)"
  shows "meta_kept (env_kernel_copy_max_block_num env) acts"
  using assms meta_kept_Nil fp8_batch_kept fp8_batches_kept
  by (auto simp: copy_d2h_bf16_to_fp8_def Let_def rbind_eq_Inr_iff split: if_splits)

section \<open>The converting copy\<close>

text \<open>The converted elements of the blocks, packed in the order of the blocks.\<close>

fun fp8_packed :: "(nat \<Rightarrow> nat) \<Rightarrow> (nat \<Rightarrow> nat) \<Rightarrow> nat \<Rightarrow> nat \<Rightarrow> ipc_block list \<Rightarrow> nat \<Rightarrow> (nat \<times> nat) list" where
  "fp8_packed cvt src buf gpu [] off = []"
| "fp8_packed cvt src buf gpu (b # bs) off =
     map (cvt_byte cvt src (gpu + dst_offset b) (buf + off)) [0..<blk_len b div 2] @
     fp8_packed cvt src buf gpu bs (off + blk_len b div 2)"

definition halves :: "ipc_block list \<Rightarrow> ipc_block list" where
  "halves bs = map (\<lambda>b. IpcBlock (src_offset b) (dst_offset b) (blk_len b div 2)) bs"

lemma halves_simps [simp]:
  "halves [] = []" "halves (b # bs) = IpcBlock (src_offset b) (dst_offset b) (blk_len b div 2) # halves bs"
  "length (halves bs) = length bs"
  by (simp_all add: halves_def)

lemma fp8_packed_append:
  "fp8_packed cvt src buf gpu (as @ bs) off =
     fp8_packed cvt src buf gpu as off @ fp8_packed cvt src buf gpu bs (off + total_len (halves as))"
  by (induction as arbitrary: off) (simp_all add: add.assoc)

lemma fp8_packed_shift: "fp8_packed cvt src (buf + d) gpu bs off = fp8_packed cvt src buf gpu bs (d + off)"
  by (induction bs arbitrary: off) (simp_all add: add.assoc)

lemma fill_fp8_packed:
  "off + total_len (halves bs) < 2 ^ 64 \<Longrightarrow> fill_fp8_metadata bs off =
     (map dst_offset bs, host_offsets (halves bs) off, map (\<lambda>b. blk_len b div 2) bs, off + total_len (halves bs))"
proof (induction bs arbitrary: off)
  case (Cons b bs)
  then have "u64 (off + blk_len b div 2) = off + blk_len b div 2"
    by (intro u64_id) simp
  then show ?case
    using Cons by (simp add: Let_def add.assoc)
qed simp

lemma fp8_packed_concat:
  "fp8_packed cvt src buf gpu bs off =
     concat (map (\<lambda>i. map (cvt_byte cvt src (gpu + map dst_offset bs ! i) (buf + host_offsets (halves bs) off ! i))
       [0..<map (\<lambda>b. blk_len b div 2) bs ! i]) [0..<length bs])"
proof (induction bs arbitrary: off)
  case (Cons b bs)
  show ?case
    by (simp add: Cons.IH upt_conv_Cons map_Suc_upt [symmetric] comp_def del: upt_Suc map_Suc_upt)
qed simp

lemma host_offsets_from: "i < length bs \<Longrightarrow> off \<le> host_offsets bs off ! i"
proof (induction bs arbitrary: off i)
  case (Cons b bs)
  then show ?case
    by (cases i) (auto intro: add_leD1)
qed simp

lemma host_offsets_apart:
  "i < j \<Longrightarrow> j < length bs \<Longrightarrow> host_offsets bs off ! i + blk_len (bs ! i) \<le> host_offsets bs off ! j"
proof (induction bs arbitrary: off i j)
  case (Cons b bs)
  then obtain j' where "j = Suc j'"
    by (cases j) simp_all
  then show ?case
    using Cons host_offsets_from [of j' bs "off + blk_len b"] by (cases i) simp_all
qed simp

lemma fp8_ranges_disjoint:
  "ranges_disjoint (host_offsets (halves bs) off) (map (\<lambda>b. blk_len b div 2) bs) (length bs)"
proof -
  have "host_offsets (halves bs) off ! i + blk_len (bs ! i) div 2 \<le> host_offsets (halves bs) off ! j"
    if "i < j" "j < length bs" for i j
    using host_offsets_apart [of i j "halves bs" off] that by (simp add: halves_def)
  then show ?thesis
    by (auto simp: ranges_disjoint_def) (metis linorder_neqE_nat)
qed

lemma fp8_batch_effects:
  assumes "total_len (halves bs) < 2 ^ 64" and "\<forall>c. cuda_ok c" and "full_warps dims"
  shows "\<exists>acts. fp8_batch cuda_ok buf gpu bs = Inr (acts, total_len (halves bs)) \<and>
    effects cvt src dims acts (write_bytes (fp8_packed cvt src buf gpu bs 0)) \<and> launches_ok cuda_ok acts"
proof -
  let ?ss = "map dst_offset bs" and ?ds = "host_offsets (halves bs) 0" and ?ls = "map (\<lambda>b. blk_len b div 2) bs"
  let ?acts = "[WriteMeta (?ss @ ?ds @ ?ls), Enq (CopyMeta (length bs)), Enq (LaunchFp8 gpu buf (length bs))]"
  have "fp8_batch cuda_ok buf gpu bs = Inr (?acts, total_len (halves bs))" "launches_ok cuda_ok ?acts"
    using fill_fp8_packed [of 0 bs] assms(1,2) by (simp_all add: fp8_batch_def launches_ok_def Let_def)
  moreover have "effects cvt src dims ?acts (write_bytes (fp8_packed cvt src buf gpu bs 0))"
    using meta_parts [of ?ss "length bs" ?ds ?ls] meta_after_copy [of "?ss @ ?ds @ ?ls" "length bs"]
      fp8_ranges_disjoint [of bs 0] full_warps_launchable [OF assms(3)] fp8_packed_concat [of cvt src buf gpu bs 0]
    by (simp add: effects_def fp8_writes_def)
  ultimately show ?thesis
    by blast
qed

lemma launches_ok_all: "\<forall>c. cuda_ok c \<Longrightarrow> launches_ok cuda_ok acts"
  by (auto simp: launches_ok_def list_all_iff split: host_act.split)

lemma halves_take_drop: "total_len (halves (take m bs)) + total_len (halves (drop m bs)) = total_len (halves bs)"
  using take_drop_len [of m "halves bs"] by (simp add: halves_def take_map drop_map)

lemma write_bytes_append: "write_bytes (V @ W) = (\<lambda>m. write_bytes W (write_bytes V m))"
  by (rule ext) (simp add: write_bytes_def)

lemma fp8_batches_effects:
  assumes "\<forall>c. cuda_ok c" and "0 < m" and "full_warps dims" and "off + total_len (halves bs) < 2 ^ 64"
  shows "\<exists>acts. fp8_batches cuda_ok m buf gpu bs off = Inr acts \<and> 
    effects cvt src dims acts (write_bytes (fp8_packed cvt src buf gpu bs off))"
  using assms(4)
proof (induction "length bs" arbitrary: bs off rule: less_induct)
  case less
  show ?case
  proof (cases "bs = []")
    case True
    then show ?thesis
      by (simp add: fp8_batches.simps effects_def write_bytes_def)
  next
    case False
    let ?a = "take m bs" and ?b = "drop m bs"
    have split: "fp8_packed cvt src buf gpu bs off =
        fp8_packed cvt src (buf + off) gpu ?a 0 @ fp8_packed cvt src buf gpu ?b (off + total_len (halves ?a))"
      using fp8_packed_append [of cvt src buf gpu ?a ?b off] by (simp add: fp8_packed_shift)
    have len: "off + total_len (halves ?a) + total_len (halves ?b) < 2 ^ 64"
      using less.prems halves_take_drop [of m bs] by simp
    then obtain as where as: "fp8_batch cuda_ok (buf + off) gpu ?a = Inr (as, total_len (halves ?a))"
      "effects cvt src dims as (write_bytes (fp8_packed cvt src (buf + off) gpu ?a 0))"
      using fp8_batch_effects [OF _ assms(1,3), of ?a] by fastforce
    obtain cs where cs: "fp8_batches cuda_ok m buf gpu ?b (off + total_len (halves ?a)) = Inr cs"
      "effects cvt src dims cs (write_bytes (fp8_packed cvt src buf gpu ?b (off + total_len (halves ?a))))"
      using less.hyps [OF _ len] False assms(2) by auto
    have "u64 (off + total_len (halves ?a)) = off + total_len (halves ?a)"
      using len by (intro u64_id) simp
    then have "fp8_batches cuda_ok m buf gpu bs off = Inr (as @ Sync # cs)"
      using False assms(2) as(1) cs(1) by (subst fp8_batches.simps) simp
    then show ?thesis
      using effects_Sync [OF as(2) cs(2)] by (simp add: split write_bytes_append)
  qed
qed

lemma fp8_effects:
  assumes "total_len (halves bs) < 2 ^ 64" and "\<forall>c. cuda_ok c" and "full_warps dims"
  shows "\<exists>acts. copy_d2h_bf16_to_fp8 env cuda_ok buf gpu bs = Inr (acts, True) \<and>
    effects cvt src dims acts (write_bytes (fp8_packed cvt src buf gpu bs 0))"
  using fp8_batch_effects [OF assms, of buf gpu cvt src] assms(1)
    fp8_batches_effects [OF assms(2) env_kernel_copy_max_block_num_pos assms(3), of 0 bs env buf gpu cvt src]
  by (cases "bs = []"; cases "length bs \<le> env_kernel_copy_max_block_num env")
    (auto simp: copy_d2h_bf16_to_fp8_def Let_def launches_ok_all [OF assms(2)] effects_def write_bytes_def)

section \<open>Properties\<close>

text \<open>
  C5. Whatever the profile, the environment and the geometry of the launches, and however the host and
  the stream interleave, \<open>copy_handle_data_with_kernel\<close> succeeds and leaves the memory that copying the
  blocks one after another gives, with the contiguous side packed in the order of the blocks: the
  choice between single copies, one launch, batches and a mixture is invisible.
\<close>

theorem copy_handle_data_with_kernel_memory:
  assumes "lens_pos blocks" and "total_len blocks < 2 ^ 64" and "\<forall>c. cuda_ok c" and "full_warps dims"
    and "dst_disjoint (packed direction buf gpu blocks 0)"
  shows "\<exists>acts. copy_handle_data_with_kernel env prof cuda_ok buf gpu blocks (total_len blocks) direction = Inr (acts, True) \<and>
    (\<exists>s. async_runs cvt dims src (acts, [], (hm, dm, mem)) ([], [], s)) \<and>
    (\<forall>hm' dm' mem'. async_runs cvt dims src (acts, [], (hm, dm, mem)) ([], [], (hm', dm', mem')) \<longrightarrow>
       mem' = transfer src (packed direction buf gpu blocks 0) mem)"
  by (rule exE [OF with_kernel_effects [OF assms, of env prof cvt src]]) (blast dest: effects_runs)

text \<open>
  C8. The metadata stays inside its buffers: whatever the blocks are and whatever CUDA answers, neither
  copy function writes, copies or reads more than the \<open>3 * env_kernel_copy_max_block_num()\<close> numbers that
  the buffers hold, and neither fills the buffer of the host while the stream may still read it.
\<close>

theorem copy_metadata_in_bounds:
  assumes "copy_handle_data_with_kernel env prof cuda_ok buf gpu blocks sz direction = Inr (acts, ok) \<or>
    copy_d2h_bf16_to_fp8 env cuda_ok buf gpu blocks = Inr (acts, ok)"
  shows "meta_fits (env_kernel_copy_max_block_num env) acts \<and> meta_safe False acts"
  using assms with_kernel_kept fp8_kept unfolding meta_kept_def by blast

text \<open>
  C23. The converting copy: whatever the environment and the geometry of the launches, and however the
  host and the stream interleave, \<open>copy_d2h_bf16_to_fp8\<close> succeeds and leaves in the buffer of the host
  exactly the converted elements of the blocks, one byte each, packed in the order of the blocks.
\<close>

theorem copy_d2h_bf16_to_fp8_memory:
  assumes "total_len (halves blocks) < 2 ^ 64" and "\<forall>c. cuda_ok c" and "full_warps dims"
  shows "\<exists>acts. copy_d2h_bf16_to_fp8 env cuda_ok buf gpu blocks = Inr (acts, True) \<and>
    (\<exists>s. async_runs cvt dims src (acts, [], (hm, dm, mem)) ([], [], s)) \<and>
    (\<forall>hm' dm' mem'. async_runs cvt dims src (acts, [], (hm, dm, mem)) ([], [], (hm', dm', mem')) \<longrightarrow>
       mem' = write_bytes (fp8_packed cvt src buf gpu blocks 0) mem)"
  by (rule exE [OF fp8_effects [OF assms, of env buf gpu cvt src]]) (blast dest: effects_runs)

section \<open>Witnesses\<close>

definition demo_profile :: copy_profile where
  "demo_profile = \<lparr> profile_enabled = False, profile_table = Map.empty, profile_block_counts = [], profile_block_sizes = [],
     memcpy_fallback_block_threshold = 128, memcpy_fallback_max_blocks = 16 \<rparr>"

theorem copy_handle_data_with_kernel_memory_witness:
  "\<exists>acts s. copy_handle_data_with_kernel demo_env demo_profile (\<lambda>_. True) 64 4096
      [IpcBlock 0 512 256, IpcBlock 0 0 44, IpcBlock 0 260 7] 307 H2D = Inr (acts, True) \<and>
    async_runs bf16_to_fp8_e4m3 \<lparr> grid_dim = 2, block_dim = 64 \<rparr> id (acts, [], ([], [], \<lambda>_. 0)) ([], [], s) \<and>
    snd (snd s) 4358 = 366 \<and> snd (snd s) 4200 = 0"
proof -
  let ?bs = "[IpcBlock 0 512 256, IpcBlock 0 0 44, IpcBlock 0 260 7]" and ?dims = "\<lparr> grid_dim = 2, block_dim = 64 \<rparr> :: launch_dims"
  have "lens_pos ?bs" "total_len ?bs < 2 ^ 64" "full_warps ?dims" "dst_disjoint (packed H2D 64 4096 ?bs 0)"
    by (simp_all add: full_warps_def oriented_def)
  from copy_handle_data_with_kernel_memory [OF this(1,2) _ this(3,4), of "\<lambda>_. True" demo_env demo_profile bf16_to_fp8_e4m3
      id "[]" "[]" "\<lambda>_. 0"]
  obtain acts s where acts: "copy_handle_data_with_kernel demo_env demo_profile (\<lambda>_. True) 64 4096 ?bs 307 H2D = Inr (acts, True)"
    and run: "async_runs bf16_to_fp8_e4m3 ?dims id (acts, [], ([], [], \<lambda>_. 0)) ([], [], s)"
    and mem: "snd (snd s) = transfer id (packed H2D 64 4096 ?bs 0) (\<lambda>_. 0)"
    by (auto 0 4)
  have "snd (snd s) 4358 = 366 \<and> snd (snd s) 4200 = 0"
    unfolding mem by (simp add: transfer_def copy_block_def oriented_def)
  with acts run show ?thesis
    by blast
qed

theorem copy_metadata_in_bounds_witness:
  "copy_d2h_bf16_to_fp8 demo_env (\<lambda>_. True) 64 4096 [IpcBlock 0 512 32, IpcBlock 0 0 8] =
     Inr ([WriteMeta [512, 0, 0, 16, 16, 4], Enq (CopyMeta 2), Enq (LaunchFp8 4096 64 2)], True) \<and>
   meta_fits (env_kernel_copy_max_block_num demo_env)
     [WriteMeta [512, 0, 0, 16, 16, 4], Enq (CopyMeta 2), Enq (LaunchFp8 4096 64 2)] \<and>
   meta_safe False [WriteMeta [512, 0, 0, 16, 16, 4], Enq (CopyMeta 2), Enq (LaunchFp8 4096 64 2)]"
proof -
  have "copy_d2h_bf16_to_fp8 demo_env (\<lambda>_. True) 64 4096 [IpcBlock 0 512 32, IpcBlock 0 0 8] =
     Inr ([WriteMeta [512, 0, 0, 16, 16, 4], Enq (CopyMeta 2), Enq (LaunchFp8 4096 64 2)], True)"
    by (simp add: copy_d2h_bf16_to_fp8_def fp8_batch_def launches_ok_def env_kernel_copy_max_block_num_def Let_def u64_def)
  with copy_metadata_in_bounds [OF disjI2 [OF this]] show ?thesis
    by blast
qed

theorem copy_d2h_bf16_to_fp8_memory_witness:
  "\<exists>acts s. copy_d2h_bf16_to_fp8 demo_env (\<lambda>_. True) 64 4096 [IpcBlock 0 512 32, IpcBlock 0 0 8] = Inr (acts, True) \<and>
    async_runs bf16_to_fp8_e4m3 \<lparr> grid_dim = 2, block_dim = 64 \<rparr> (\<lambda>a. if even a then 128 else 63)
      (acts, [], ([], [], \<lambda>_. 0)) ([], [], s) \<and>
    snd (snd s) 83 = 56 \<and> snd (snd s) 84 = 0"
proof -
  let ?bs = "[IpcBlock 0 512 32, IpcBlock 0 0 8]" and ?dims = "\<lparr> grid_dim = 2, block_dim = 64 \<rparr> :: launch_dims"
  let ?src = "\<lambda>a :: nat. if even a then 128 else 63 :: nat"
  have "total_len (halves ?bs) < 2 ^ 64" "full_warps ?dims"
    by (simp_all add: full_warps_def)
  from copy_d2h_bf16_to_fp8_memory [OF this(1) _ this(2), of "\<lambda>_. True" demo_env 64 4096 bf16_to_fp8_e4m3 ?src "[]" "[]" "\<lambda>_. 0"]
  obtain acts s where acts: "copy_d2h_bf16_to_fp8 demo_env (\<lambda>_. True) 64 4096 ?bs = Inr (acts, True)"
    and run: "async_runs bf16_to_fp8_e4m3 ?dims ?src (acts, [], ([], [], \<lambda>_. 0)) ([], [], s)"
    and mem: "snd (snd s) = write_bytes (fp8_packed bf16_to_fp8_e4m3 ?src 64 4096 ?bs 0) (\<lambda>_. 0)"
    by (auto 0 4)
  have one: "cvt8 bf16_to_fp8_e4m3 16256 = 56"
    by (simp add: cvt8_def bf16_to_fp8_e4m3_def round_mantissa_def Let_def)
  have "cvt_byte bf16_to_fp8_e4m3 ?src g h k = (h + k, 56)" if "even g" for g h k
    using that one by (simp add: cvt_byte_def bf16_at_def)
  then have "snd (snd s) 83 = 56 \<and> snd (snd s) 84 = 0"
    unfolding mem by (simp add: upt_rec write_bytes_def)
  with acts run show ?thesis
    by blast
qed

end
