(* ===== verification/CopyRegion.thy ===== *)
theory CopyRegion
  imports CopyHost
begin

text \<open>
  What the copies of \<open>src/copy_kernels.cpp\<close> can write at all. Unlike the theorems on their effect, the
  lemmas here need nothing of the blocks: they may overlap, be empty or be longer than the data, and
  CUDA may refuse any command. Whatever has been done at any moment, only bytes of the destination
  ranges of the blocks have changed.
\<close>

section \<open>Commands that write inside a region\<close>

definition block_in :: "nat set \<Rightarrow> ipc_block \<Rightarrow> bool" where
  "block_in R b \<longleftrightarrow> {dst_offset b..<dst_offset b + blk_len b} \<subseteq> R"

fun cmd_in :: "nat set \<Rightarrow> nat list \<Rightarrow> stream_cmd \<Rightarrow> bool" where
  "cmd_in R dm (Memcpy b) = block_in R b"
| "cmd_in R dm (CopyMeta n) = True"
| "cmd_in R dm (Launch dir host gpu n) = (\<forall>b\<in>set (launch_args dir host gpu n dm). block_in R b)"
| "cmd_in R dm (LaunchFp8 gpu host n) =
     (\<forall>i<n. {host + meta_part 1 n dm ! i..<host + meta_part 1 n dm ! i + meta_part 2 n dm ! i} \<subseteq> R)"

fun cmds_in :: "nat set \<Rightarrow> stream_cmd list \<Rightarrow> nat list \<times> nat list \<Rightarrow> bool" where
  "cmds_in R [] md = True"
| "cmds_in R (c # q) md = (cmd_in R (snd md) c \<and> cmds_in R q (cmd_meta c md))"

fun acts_in :: "nat set \<Rightarrow> host_act list \<Rightarrow> nat list \<times> nat list \<Rightarrow> bool" where
  "acts_in R [] md = True"
| "acts_in R (act # acts) md =
     ((case act of Enq c \<Rightarrow> cmd_in R (snd md) c | _ \<Rightarrow> True) \<and> acts_in R acts (act_meta act md))"

lemma cmds_in_append: "cmds_in R (q @ [c]) md \<longleftrightarrow> cmds_in R q md \<and> cmd_in R (snd (fold cmd_meta q md)) c"
  by (induction q arbitrary: md) auto

lemma acts_in_append: "acts_in R (as @ bs) md \<longleftrightarrow> acts_in R as md \<and> acts_in R bs (fold act_meta as md)"
  by (induction as arbitrary: md) auto

lemma cmds_in_ignore_host:
  assumes "\<not> reads_meta q"
  shows "cmds_in R q (hm', dm) = cmds_in R q (hm, dm)"
  using assms
proof (induction q arbitrary: dm)
  case (Cons c q)
  then show ?case
    by (cases c) (auto simp: reads_meta_def)
qed simp

lemma transfer_in:
  assumes "copied ops = copied bs" and "\<forall>b\<in>set bs. block_in R b" and "a \<notin> R"
  shows "transfer src ops mem a = mem a"
proof (rule transfer_miss)
  fix s
  have "a \<notin> {dst_offset b..<dst_offset b + blk_len b}" if "b \<in> set bs" for b
    using assms(2,3) that unfolding block_in_def by blast
  then show "(s, a) \<notin> copied ops"
    unfolding assms(1) by (fastforce simp: copied_def block_bytes_def run_def)
qed

lemma cmd_run_in:
  assumes "cmd_run cvt dims src c s s'" and "full_warps dims" and "cmd_in R (fst (snd s)) c" and "a \<notin> R"
  shows "snd (snd s') a = snd (snd s) a \<and> (fst s', fst (snd s')) = cmd_meta c (fst s, fst (snd s))"
  using assms
proof (induction rule: cmd_run.induct)
  case (run_memcpy b hm dm mem)
  then have "\<not> (dst_offset b \<le> a \<and> a < dst_offset b + blk_len b)"
    by (auto simp: block_in_def)
  then show ?case
    by (auto simp: copy_block_def)
next
  case (run_h2d host gpu n dm ops hm mem)
  then have "copied ops = copied (launch_args H2D host gpu n dm)"
    unfolding copy_h2d_direct_kernel_def launch_args_def
    by (auto intro!: direct_kernel_run_copies full_warps_launchable)
  then show ?case
    using run_h2d.prems transfer_in by simp
next
  case (run_d2h gpu host n dm ops hm mem)
  then have "copied ops = copied (launch_args D2H host gpu n dm)"
    unfolding copy_d2h_direct_kernel_def launch_args_def
    by (auto intro!: direct_kernel_run_copies full_warps_launchable)
  then show ?case
    using run_d2h.prems transfer_in by simp
next
  case (run_fp8 gpu host n dm ws hm mem)
  have "a \<notin> {host + meta_part 1 n dm ! i..<host + meta_part 1 n dm ! i + meta_part 2 n dm ! i}" if "i < n" for i
    using run_fp8.prems(2,3) that unfolding cmd_in.simps fst_conv snd_conv by blast
  then have "a \<notin> fst ` set ws"
    unfolding fp8_run_set [OF full_warps_launchable [OF run_fp8.prems(1)] run_fp8.hyps]
    by (fastforce simp: cvt_byte_def)
  then show ?case
    using write_bytes_miss by simp
qed simp

text \<open>What every reachable configuration keeps.\<close>

definition region_inv ::
  "nat set \<Rightarrow> (nat \<Rightarrow> nat) \<Rightarrow> host_act list \<times> stream_cmd list \<times> stream_state \<Rightarrow> bool" where
  "region_inv R mem0 cfg \<longleftrightarrow>
     (case cfg of (acts, q, s) \<Rightarrow>
        (\<forall>a. a \<notin> R \<longrightarrow> snd (snd s) a = mem0 a) \<and>
        cmds_in R q (fst s, fst (snd s)) \<and>
        acts_in R acts (fold cmd_meta q (fst s, fst (snd s))) \<and>
        (\<exists>p. (reads_meta q \<longrightarrow> p) \<and> meta_safe p acts))"

lemma region_inv_step:
  assumes "async_step cvt dims src cfg cfg'" and "full_warps dims" and "region_inv R mem0 cfg"
  shows "region_inv R mem0 cfg'"
  using assms
proof (induction rule: async_step.induct)
  case (host_write xs acts q hm dm mem)
  then have q: "\<not> reads_meta q" and safe: "meta_safe False acts"
    by (auto simp: region_inv_def intro: meta_safe_mono)
  have "cmds_in R q (overwrite xs hm, dm)"
    using host_write cmds_in_ignore_host [OF q] by (auto simp: region_inv_def)
  then show ?case
    using host_write q safe by (auto simp: region_inv_def cmd_meta_ignore_host)
next
  case (host_enq c acts q s)
  then obtain p where p: "reads_meta q \<longrightarrow> p" "meta_safe p (Enq c # acts)"
    by (auto simp: region_inv_def)
  have "(reads_meta (q @ [c]) \<longrightarrow> p \<or> (\<exists>n. c = CopyMeta n)) \<and> meta_safe (p \<or> (\<exists>n. c = CopyMeta n)) acts"
    using p by (auto simp: reads_meta_def)
  then have "\<exists>p. (reads_meta (q @ [c]) \<longrightarrow> p) \<and> meta_safe p acts"
    by (rule exI)
  then show ?case
    using host_enq by (simp add: region_inv_def cmds_in_append)
next
  case (host_sync acts s)
  then show ?case
    by (auto simp: region_inv_def reads_meta_def)
next
  case (device c s s' acts q)
  have c: "cmd_in R (fst (snd s)) c"
    using device.prems by (simp add: region_inv_def)
  have run: "snd (snd s') a = snd (snd s) a" "(fst s', fst (snd s')) = cmd_meta c (fst s, fst (snd s))" if "a \<notin> R" for a
    using cmd_run_in [OF device.hyps device.prems(1) c that] by simp_all
  have md: "(fst s', fst (snd s')) = cmd_meta c (fst s, fst (snd s))"
    using device.hyps by (induction rule: cmd_run.induct) simp_all
  obtain p where p: "reads_meta (c # q) \<longrightarrow> p" "meta_safe p acts"
    using device by (auto simp: region_inv_def)
  then have "(reads_meta q \<longrightarrow> p) \<and> meta_safe p acts"
    by (auto simp: reads_meta_def)
  then have "\<exists>p. (reads_meta q \<longrightarrow> p) \<and> meta_safe p acts"
    by (rule exI)
  moreover have "cmds_in R q (fst s', fst (snd s'))" "acts_in R acts (fold cmd_meta q (fst s', fst (snd s')))"
    using device.prems unfolding md by (simp_all add: region_inv_def)
  moreover have "\<forall>a. a \<notin> R \<longrightarrow> snd (snd s') a = mem0 a"
    using device.prems run(1) by (simp add: region_inv_def)
  ultimately show ?case
    by (simp add: region_inv_def)
qed

lemma region_unchanged:
  assumes "async_runs cvt dims src (acts, [], (hm, dm, mem)) (acts', q', (hm', dm', mem'))"
    and "full_warps dims" and "meta_safe False acts" and "\<And>md. acts_in R acts md" and "a \<notin> R"
  shows "mem' a = mem a"
proof -
  have "region_inv R mem (acts, [], (hm, dm, mem))"
    using assms(3,4) by (auto simp: region_inv_def reads_meta_def)
  with assms(1) have "region_inv R mem (acts', q', (hm', dm', mem'))"
    by (induction rule: rtranclp_induct) (auto intro: region_inv_step [OF _ assms(2)])
  with assms(5) show ?thesis
    by (simp add: region_inv_def)
qed

section \<open>The copies write inside the ranges of the blocks\<close>

text \<open>The destination of a block in a copy to the GPU.\<close>

definition gpu_range :: "nat \<Rightarrow> ipc_block \<Rightarrow> nat set" where
  "gpu_range gpu b = {gpu + dst_offset b..<gpu + dst_offset b + blk_len b}"

lemma gpu_range_simps [simp]:
  "block_in R (oriented H2D h (gpu + dst_offset b) (blk_len b)) \<longleftrightarrow> gpu_range gpu b \<subseteq> R"
  "gpu_range gpu (IpcBlock h (dst_offset b) (blk_len b)) = gpu_range gpu b"
  by (simp_all add: block_in_def oriented_def gpu_range_def)

lemma acts_in_Sync: "(\<And>md. acts_in R as md) \<Longrightarrow> (\<And>md. acts_in R bs md) \<Longrightarrow> acts_in R (as @ Sync # bs) md"
  by (simp add: acts_in_append)

lemma fill_metadata_dst:
  "fill_metadata nd e sz bs off = Inr (hs, ds, ls, final) \<Longrightarrow> ds = map dst_offset bs \<and> ls = map blk_len bs"
  by (induction bs arbitrary: off hs ds ls)
    (auto simp: Let_def c_assert_def rbind_eq_Inr_iff split: if_splits prod.splits)

lemma direct_in:
  assumes "copy_handle_data_kernel_direct nd cuda_ok buf gpu bs sz H2D e = Inr acts"
    and "\<forall>b\<in>set bs. gpu_range gpu b \<subseteq> R"
  shows "acts_in R acts md"
proof (cases "bs = []")
  case True
  with assms(1) show ?thesis
    by (simp add: copy_handle_data_kernel_direct_def)
next
  case False
  with assms(1) obtain hs ds ls final where meta: "fill_metadata nd e sz bs 0 = Inr (hs, ds, ls, final)"
    and acts: "acts = [WriteMeta (hs @ ds @ ls), Enq (CopyMeta (length bs)), Enq (Launch H2D buf gpu (length bs))]"
    by (auto simp: copy_handle_data_kernel_direct_def Let_def rbind_eq_Inr_iff split: if_splits)
  obtain hm dm where md: "md = (hm, dm)"
    by (cases md)
  note len = fill_metadata_lengths [OF meta] and dst = fill_metadata_dst [OF meta]
  have "block_in R (oriented H2D (buf + hs ! i) (gpu + ds ! i) (ls ! i))" if "i < length bs" for i
    using assms(2) that dst by (simp add: block_in_def oriented_def gpu_range_def)
  then show ?thesis
    using len launch_args_eq [of hs "length bs" ds ls H2D buf gpu hm dm] by (simp add: acts md)
qed

lemma memcpy_loop_in:
  "enqueue_memcpy_loop nd cuda_ok buf gpu sz H2D bs off = Inr (acts, ok) \<Longrightarrow>
     \<forall>b\<in>set bs. gpu_range gpu b \<subseteq> R \<Longrightarrow> acts_in R acts md"
  by (induction bs arbitrary: off acts md)
    (auto simp: c_assert_def Let_def rbind_eq_Inr_iff split: if_splits)

lemma hybrid_loop_in:
  "hybrid_loop prof cuda_ok buf gpu H2D bs off = (as, K, n, ok) \<Longrightarrow> \<forall>b\<in>set bs. gpu_range gpu b \<subseteq> R \<Longrightarrow>
     (\<forall>md. acts_in R as md) \<and> (\<forall>b\<in>set K. gpu_range gpu b \<subseteq> R)"
  by (induction bs arbitrary: off as K n)
    (auto simp: Let_def simp del: split_paired_All split: if_splits prod.splits del: subsetI)

lemma range_parts:
  assumes "\<forall>b\<in>set bs. gpu_range gpu b \<subseteq> R"
  shows "\<forall>b\<in>set (take m bs). gpu_range gpu b \<subseteq> R" "\<forall>b\<in>set (drop m bs). gpu_range gpu b \<subseteq> R"
  using assms by (auto dest: in_set_takeD in_set_dropD)

lemma explicit_batches_in:
  "explicit_batches nd cuda_ok m buf gpu sz H2D bs = Inr acts \<Longrightarrow> \<forall>b\<in>set bs. gpu_range gpu b \<subseteq> R \<Longrightarrow> acts_in R acts md"
proof (induction "length bs" arbitrary: bs acts md rule: less_induct)
  case less
  show ?case
  proof (cases "bs = []")
    case False
    with less.prems obtain as cs where "0 < m" and acts: "acts = as @ Sync # cs"
      and as: "copy_handle_data_kernel_direct nd cuda_ok buf gpu (take m bs) sz H2D True = Inr as"
      and cs: "explicit_batches nd cuda_ok m buf gpu sz H2D (drop m bs) = Inr cs"
      by (subst (asm) explicit_batches.simps) (auto simp: rbind_eq_Inr_iff split: if_splits)
    note parts = range_parts [OF less.prems(2)]
    show ?thesis
      unfolding acts using direct_in [OF as parts(1)] less.hyps [OF _ cs parts(2)] False \<open>0 < m\<close>
      by (intro acts_in_Sync) simp_all
  qed (use less.prems in \<open>simp add: explicit_batches.simps\<close>)
qed

lemma kernel_batches_in:
  "kernel_batches nd cuda_ok m buf gpu H2D bs off = Inr acts \<Longrightarrow> \<forall>b\<in>set bs. gpu_range gpu b \<subseteq> R \<Longrightarrow> acts_in R acts md"
proof (induction "length bs" arbitrary: bs off acts md rule: less_induct)
  case less
  show ?case
  proof (cases "bs = []")
    case False
    with less.prems obtain as cs off' sz' where "0 < m" and acts: "acts = as @ Sync # cs"
      and as: "copy_handle_data_kernel_direct nd cuda_ok (buf + off) gpu (take m bs) sz' H2D False = Inr as"
      and cs: "kernel_batches nd cuda_ok m buf gpu H2D (drop m bs) off' = Inr cs"
      by (subst (asm) kernel_batches.simps) (auto simp: rbind_eq_Inr_iff Let_def split: if_splits)
    note parts = range_parts [OF less.prems(2)]
    show ?thesis
      unfolding acts using direct_in [OF as parts(1)] less.hyps [OF _ cs parts(2)] False \<open>0 < m\<close>
      by (intro acts_in_Sync) simp_all
  qed (use less.prems in \<open>simp add: kernel_batches.simps\<close>)
qed

lemma hybrid_in:
  assumes "enqueue_hybrid_copy env prof cuda_ok buf gpu bs sz H2D = Inr (handled, acts, ok)"
    and "\<forall>b\<in>set bs. gpu_range gpu b \<subseteq> R"
  shows "acts_in R acts md"
proof -
  obtain as K n fin where loop: "hybrid_loop prof cuda_ok buf gpu H2D bs 0 = (as, K, n, fin)"
    by (metis prod_cases4)
  note inside = hybrid_loop_in [OF loop assms(2)]
  show ?thesis
    using assms(1) inside
    by (auto simp: enqueue_hybrid_copy_def loop enqueue_kernel_explicit_offsets_def rbind_eq_Inr_iff acts_in_append
      simp del: split_paired_All intro: explicit_batches_in split: if_splits)
qed

lemma with_kernel_in:
  assumes "copy_handle_data_with_kernel env prof cuda_ok buf gpu bs sz H2D = Inr (acts, ok)"
    and "\<forall>b\<in>set bs. gpu_range gpu b \<subseteq> R"
  shows "acts_in R acts md"
  using assms
  by (auto simp: copy_handle_data_with_kernel_def Let_def rbind_eq_Inr_iff
    intro: memcpy_loop_in hybrid_in direct_in kernel_batches_in split: if_splits prod.splits)

end
