(* ===== verification/Spec2Isabelle.thy ===== *)
theory Spec2Isabelle
  imports DoneReport DistPlan KvClientRuns CopyRegion
begin

end
